(* ===== verification/WB_Prelude.thy ===== *)
theory WB_Prelude
  imports Complex_Main "HOL-Library.Word" "HOL-Library.Char_ord" "HOL-Library.List_Lexorder"
begin

text \<open>
  Shared vocabulary of the waitbus development: the result type used for every Python
  function that may raise, bytes and byte strings, the integer readings of byte strings,
  and the generic facts on lists, options and words the component theories rest on.
\<close>

named_theorems wb_step_defs \<open>definitions unfolded when one step of a component is executed\<close>
named_theorems wb_intros \<open>introduction rules for the component invariants\<close>

type_synonym byte = "8 word"
type_synonym bytes = "byte list"

text \<open>A Python call that may raise: \<open>Inl e\<close> is the raised exception, \<open>Inr x\<close> the returned value.\<close>

fun res_bind :: "'e + 'a \<Rightarrow> ('a \<Rightarrow> 'e + 'b) \<Rightarrow> 'e + 'b" where
  "res_bind (Inl e) f = Inl e"
| "res_bind (Inr x) f = f x"

fun res_ok :: "'e + 'a \<Rightarrow> bool" where
  "res_ok (Inl _) = False"
| "res_ok (Inr _) = True"

lemma res_bind_Inr_iff [simp]: "res_bind r f = Inr y \<longleftrightarrow> (\<exists>x. r = Inr x \<and> f x = Inr y)"
  by (cases r) auto

lemma res_ok_iff: "res_ok r \<longleftrightarrow> (\<exists>x. r = Inr x)"
  by (cases r) auto

fun res_map_list :: "('a \<Rightarrow> 'e + 'b) \<Rightarrow> 'a list \<Rightarrow> 'e + 'b list" where
  "res_map_list f [] = Inr []"
| "res_map_list f (x # xs) =
     res_bind (f x) (\<lambda>y. res_bind (res_map_list f xs) (\<lambda>ys. Inr (y # ys)))"

lemma res_map_list_Inr:
  "res_map_list f xs = Inr ys \<longleftrightarrow> list_all2 (\<lambda>x y. f x = Inr y) xs ys"
  by (induction xs arbitrary: ys) (auto simp: list_all2_Cons1)

text \<open>Big-endian reading of a byte string, as \<open>int.from_bytes(b, "big")\<close>.\<close>

definition int_of_bytes_be :: "bytes \<Rightarrow> int" where
  "int_of_bytes_be bs = foldl (\<lambda>acc b. acc * 256 + uint b) 0 bs"

lemma foldl_be_bounds:
  fixes acc :: int
  assumes "0 \<le> acc" "acc < k"
  shows "0 \<le> foldl (\<lambda>a (b :: byte). a * 256 + uint b) acc bs
       \<and> foldl (\<lambda>a (b :: byte). a * 256 + uint b) acc bs < k * 256 ^ length bs"
  using assms
proof (induction bs arbitrary: acc k)
  case (Cons b bs)
  have "uint b < 256" "0 \<le> uint b"
    using uint_lt2p[of b] by (simp_all del: uint_lt2p)
  then have "0 \<le> acc * 256 + uint b" "acc * 256 + uint b < k * 256"
    using Cons.prems by simp_all
  from Cons.IH[OF this] show ?case by (simp add: algebra_simps)
qed simp

lemma int_of_bytes_be_bounds:
  "0 \<le> int_of_bytes_be bs" "int_of_bytes_be bs < 256 ^ length bs"
  using foldl_be_bounds[of 0 1 bs] by (simp_all add: int_of_bytes_be_def)

text \<open>List facts the components share.\<close>

lemma sorted_wrt_snoc [simp]:
  "sorted_wrt P (xs @ [x]) \<longleftrightarrow> sorted_wrt P xs \<and> (\<forall>y\<in>set xs. P y x)"
  by (simp add: sorted_wrt_append)

lemma list_less_append_cong:
  fixes u v w :: "'a::linorder list"
  assumes "v < w"
  shows "u @ v < u @ w"
  using assms by (induction u) auto

lemma list_less_same_length:
  fixes u v u' v' :: "'a::linorder list"
  assumes "u < v" "length u = length v"
  shows "u @ u' < v @ v'"
  using assms
proof (induction u arbitrary: v)
  case (Cons a u)
  then show ?case by (cases v) auto
qed simp

lemma filter_all_id: "(\<And>x. x \<in> set xs \<Longrightarrow> P x) \<Longrightarrow> filter P xs = xs"
  by (simp add: filter_id_conv)

lemma filter_none_Nil: "(\<And>x. x \<in> set xs \<Longrightarrow> \<not> P x) \<Longrightarrow> filter P xs = []"
  by (simp add: filter_empty_conv)

lemma dropWhile_hd_id: "xs \<noteq> [] \<Longrightarrow> \<not> P (hd xs) \<Longrightarrow> dropWhile P xs = xs"
  by (cases xs) auto

lemma filter_above_last:
  fixes f :: "'a \<Rightarrow> 'b::linorder"
  assumes "sorted_wrt (\<lambda>a b. f a < f b) (as @ bs)" "as \<noteq> []"
  shows "filter (\<lambda>e. f (last as) < f e) (as @ bs) = bs"
proof (cases as rule: rev_cases)
  case (snoc as' x)
  then show ?thesis
    using assms by (fastforce simp: sorted_wrt_append intro!: filter_none_Nil filter_all_id)
qed (use assms in simp)

end
