(* ===== verification/WB_Py.thy ===== *)
theory WB_Py
  imports WB_Prelude
begin

text \<open>
  The Python values and standard-library operations the modelled code uses. A JSON value is the
  datatype \<open>json\<close>: what \<open>json.loads\<close> and \<open>msgspec\<close> hand the code. A \<open>dict\<close> is
  its list of items in insertion order with distinct keys, a float a rational or one of the three
  non-finite values, a \<open>str\<close> a list of Latin-1 characters (so the character classes
  \<open>isalpha\<close>, \<open>isalnum\<close>, \<open>isspace\<close> and \<open>lower\<close> below are Python's on that
  range). \<open>py_eq\<close> is Python's \<open>==\<close>: \<open>True == 1 == 1.0\<close>, NaN differs from itself,
  and dicts compare without regard to order.
\<close>

datatype pyfloat = Fin rat | PInf | NInf | NaN

datatype json =
    JNull
  | JBool bool
  | JInt int
  | JFloat pyfloat
  | JStr string
  | JArr "json list"
  | JObj "(string \<times> json) list"

type_synonym dict = "(string \<times> json) list"

abbreviation JNone :: json where "JNone \<equiv> JNull"

text \<open>\<open>d.get(k)\<close>; a missing key and a \<open>null\<close> are told apart by \<open>map_of\<close> itself.\<close>

definition dict_get :: "dict \<Rightarrow> string \<Rightarrow> json" where
  "dict_get d k = (case map_of d k of None \<Rightarrow> JNull | Some v \<Rightarrow> v)"

fun is_str :: "json \<Rightarrow> bool" where
  "is_str (JStr _) = True"
| "is_str _ = False"

fun as_dict :: "json \<Rightarrow> dict option" where
  "as_dict (JObj d) = Some d"
| "as_dict _ = None"

text \<open>Truth value of a JSON value, as in \<open>if value:\<close>.\<close>

fun truthy :: "json \<Rightarrow> bool" where
  "truthy JNull = False"
| "truthy (JBool b) = b"
| "truthy (JInt i) = (i \<noteq> 0)"
| "truthy (JFloat f) = (f \<noteq> Fin 0)"
| "truthy (JStr s) = (s \<noteq> [])"
| "truthy (JArr xs) = (xs \<noteq> [])"
| "truthy (JObj d) = (d \<noteq> [])"

fun float_eq :: "pyfloat \<Rightarrow> pyfloat \<Rightarrow> bool" where
  "float_eq NaN _ = False"
| "float_eq _ NaN = False"
| "float_eq x y = (x = y)"

fun num_of :: "json \<Rightarrow> pyfloat option" where
  "num_of (JBool b) = Some (Fin (if b then 1 else 0))"
| "num_of (JInt i) = Some (Fin (of_int i))"
| "num_of (JFloat f) = Some f"
| "num_of _ = None"

fun py_eq :: "json \<Rightarrow> json \<Rightarrow> bool"
  and py_eq_list :: "json list \<Rightarrow> json list \<Rightarrow> bool"
  and py_eq_items :: "dict \<Rightarrow> dict \<Rightarrow> bool" where
  "py_eq JNull y = (y = JNull)"
| "py_eq (JStr s) y = (y = JStr s)"
| "py_eq (JArr xs) y = (case y of JArr ys \<Rightarrow> py_eq_list xs ys | _ \<Rightarrow> False)"
| "py_eq (JObj d) y = (case y of JObj e \<Rightarrow> length d = length e \<and> py_eq_items d e | _ \<Rightarrow> False)"
| "py_eq (JBool b) y = (case num_of y of Some f \<Rightarrow> float_eq (Fin (if b then 1 else 0)) f | None \<Rightarrow> False)"
| "py_eq (JInt i) y = (case num_of y of Some f \<Rightarrow> float_eq (Fin (of_int i)) f | None \<Rightarrow> False)"
| "py_eq (JFloat g) y = (case num_of y of Some f \<Rightarrow> float_eq g f | None \<Rightarrow> False)"
| "py_eq_list [] ys = (ys = [])"
| "py_eq_list (x # xs) ys = (case ys of [] \<Rightarrow> False | y # ys' \<Rightarrow> py_eq x y \<and> py_eq_list xs ys')"
| "py_eq_items [] e = True"
| "py_eq_items ((k, v) # d) e = ((case map_of e k of None \<Rightarrow> False | Some w \<Rightarrow> py_eq v w) \<and> py_eq_items d e)"

text \<open>Characters of the Latin-1 range.\<close>

definition chr_in :: "nat \<Rightarrow> nat \<Rightarrow> char \<Rightarrow> bool" where
  "chr_in lo hi c \<longleftrightarrow> lo \<le> of_char c \<and> of_char c \<le> hi"

definition is_space :: "char \<Rightarrow> bool" where
  "is_space c \<longleftrightarrow> chr_in 9 13 c \<or> chr_in 28 32 c \<or> of_char c = (133::nat) \<or> of_char c = (160::nat)"

definition is_ascii_digit :: "char \<Rightarrow> bool" where
  "is_ascii_digit c \<longleftrightarrow> chr_in 48 57 c"

definition is_ascii_upper :: "char \<Rightarrow> bool" where
  "is_ascii_upper c \<longleftrightarrow> chr_in 65 90 c"

definition is_ascii_lower :: "char \<Rightarrow> bool" where
  "is_ascii_lower c \<longleftrightarrow> chr_in 97 122 c"

definition is_alpha :: "char \<Rightarrow> bool" where
  "is_alpha c \<longleftrightarrow> is_ascii_upper c \<or> is_ascii_lower c
     \<or> of_char c \<in> {170, 181, 186 :: nat}
     \<or> chr_in 192 214 c \<or> chr_in 216 246 c \<or> chr_in 248 255 c"

definition is_alnum :: "char \<Rightarrow> bool" where
  "is_alnum c \<longleftrightarrow> is_alpha c \<or> is_ascii_digit c \<or> of_char c \<in> {178, 179, 185, 188, 189, 190 :: nat}"

definition to_lower :: "char \<Rightarrow> char" where
  "to_lower c = (if is_ascii_upper c \<or> chr_in 192 214 c \<or> chr_in 216 222 c
                 then char_of (of_char c + 32 :: nat) else c)"

definition to_upper_ascii :: "char \<Rightarrow> char" where
  "to_upper_ascii c = (if is_ascii_lower c then char_of (of_char c - 32 :: nat) else c)"

definition lower :: "string \<Rightarrow> string" where
  "lower s = map to_lower s"

definition lstrip :: "string \<Rightarrow> string" where
  "lstrip s = dropWhile is_space s"

definition rstrip :: "string \<Rightarrow> string" where
  "rstrip s = rev (dropWhile is_space (rev s))"

definition strip :: "string \<Rightarrow> string" where
  "strip s = rstrip (lstrip s)"

definition rstrip_chars :: "char \<Rightarrow> string \<Rightarrow> string" where
  "rstrip_chars c s = rev (dropWhile (\<lambda>x. x = c) (rev s))"

definition starts_with :: "string \<Rightarrow> string \<Rightarrow> bool" where
  "starts_with p s \<longleftrightarrow> take (length p) s = p"

definition ends_with :: "string \<Rightarrow> string \<Rightarrow> bool" where
  "ends_with suf s \<longleftrightarrow> length suf \<le> length s \<and> drop (length s - length suf) s = suf"

text \<open>\<open>str.split(sep)\<close> on one character: always at least one part.\<close>

fun split_on :: "char \<Rightarrow> string \<Rightarrow> string list" where
  "split_on sep [] = [[]]"
| "split_on sep (c # cs) =
     (if c = sep then [] # split_on sep cs
      else (case split_on sep cs of [] \<Rightarrow> [[c]] | p # ps \<Rightarrow> (c # p) # ps))"

text \<open>\<open>str.partition(sep)\<close>: the part before the first separator, whether it was found, the rest.\<close>

fun partition_on :: "char \<Rightarrow> string \<Rightarrow> string \<times> bool \<times> string" where
  "partition_on sep [] = ([], False, [])"
| "partition_on sep (c # cs) =
     (if c = sep then ([], True, cs)
      else (case partition_on sep cs of (a, f, b) \<Rightarrow> (c # a, f, b)))"

fun join_with :: "string \<Rightarrow> string list \<Rightarrow> string" where
  "join_with sep [] = []"
| "join_with sep [p] = p"
| "join_with sep (p # ps) = p @ sep @ join_with sep ps"

text \<open>\<open>str(n)\<close> of a non-negative integer, and of any.\<close>

fun nat_str :: "nat \<Rightarrow> string" where
  "nat_str n = (if n < 10 then [char_of (48 + n)] else nat_str (n div 10) @ [char_of (48 + n mod 10)])"

declare nat_str.simps [simp del]

definition int_str :: "int \<Rightarrow> string" where
  "int_str i = (if i < 0 then CHR ''-'' # nat_str (nat (- i)) else nat_str (nat i))"

text \<open>\<open>re.match\<close> of a pattern ending in \<open>$\<close>: the body matches the whole string, or the
  string without one final newline.\<close>

definition dollar_match :: "(string \<Rightarrow> bool) \<Rightarrow> string \<Rightarrow> bool" where
  "dollar_match body s \<longleftrightarrow> body s \<or> (s \<noteq> [] \<and> last s = CHR 10 \<and> body (butlast s))"

lemma split_on_nonempty [simp]: "split_on sep s \<noteq> []"
  by (induction s) (auto split: list.splits)

lemma join_split [simp]: "join_with [sep] (split_on sep s) = s"
proof (induction s)
  case (Cons c s)
  then show ?case by (cases "split_on sep s"; cases "tl (split_on sep s)") auto
qed simp

lemma split_on_no_sep: "p \<in> set (split_on sep s) \<Longrightarrow> sep \<notin> set p"
  by (induction s arbitrary: p) (auto split: if_splits list.splits)

lemma partition_on_spec:
  "partition_on sep s = (a, f, b) \<Longrightarrow>
     sep \<notin> set a \<and> (if f then s = a @ sep # b else s = a \<and> b = [])"
  by (induction s arbitrary: a f b) (auto split: if_splits prod.splits)

lemma partition_on_hit: "sep \<notin> set a \<Longrightarrow> partition_on sep (a @ sep # b) = (a, True, b)"
  by (induction a) auto

lemma strip_Nil [simp]: "strip [] = []"
  by (simp add: strip_def lstrip_def rstrip_def)

lemma rstrip_id: "s \<noteq> [] \<Longrightarrow> \<not> is_space (last s) \<Longrightarrow> rstrip s = s"
  by (simp add: rstrip_def dropWhile_hd_id hd_rev)

lemma strip_id:
  assumes "s \<noteq> []" "\<not> is_space (hd s)" "\<not> is_space (last s)"
  shows "strip s = s"
  using assms by (simp add: strip_def lstrip_def dropWhile_hd_id rstrip_id)

lemma lstrip_hd: "lstrip s \<noteq> [] \<Longrightarrow> \<not> is_space (hd (lstrip s))"
  unfolding lstrip_def by (rule hd_dropWhile)

lemma rstrip_last: "rstrip s \<noteq> [] \<Longrightarrow> \<not> is_space (last (rstrip s))"
  by (simp add: rstrip_def last_rev hd_dropWhile)

lemma rstrip_hd: "rstrip s \<noteq> [] \<Longrightarrow> hd (rstrip s) = hd s"
proof -
  assume "rstrip s \<noteq> []"
  obtain t where "s = rstrip s @ t"
    unfolding rstrip_def by (metis rev_append rev_rev_ident takeWhile_dropWhile_id)
  with \<open>rstrip s \<noteq> []\<close> show ?thesis by (metis hd_append2)
qed

lemma strip_idem [simp]: "strip (strip s) = strip s"
proof (cases "strip s = []")
  case False
  then have "rstrip (lstrip s) \<noteq> []" by (simp add: strip_def)
  moreover from this have "lstrip s \<noteq> []" by (auto simp: rstrip_def)
  ultimately have "\<not> is_space (hd (strip s))" "\<not> is_space (last (strip s))"
    using lstrip_hd rstrip_last rstrip_hd by (auto simp: strip_def)
  then show ?thesis using False by (rule strip_id[rotated])
qed simp

end
