(* ===== verification/WB_Ulid.thy ===== *)
theory WB_Ulid
  imports WB_Prelude
begin

text \<open>
  The ULID generator of \<open>waitbus/_ulid.py\<close>. The module globals \<open>_LAST_MS\<close> and
  \<open>_LAST_RAND\<close> are the record \<open>ulid_state\<close>; the two clocks and the
  entropy source a call of \<open>new()\<close> reads are arguments: \<open>boot\<close> is
  \<open>_BOOT_WALL_MS\<close>, \<open>mono_ns\<close> the value of \<open>time.monotonic_ns()\<close> and
  \<open>entropy\<close> the ten bytes of \<open>secrets.token_bytes(10)\<close>. The lock makes a call
  atomic, so concurrent callers are a sequence of calls.

  The lemmas show the shape of a ULID, that its timestamp decodes back, and that a run of
  calls under a clock that does not step back yields lexicographically increasing ULIDs.
\<close>

unbundle bit_operations_syntax

definition ALPHABET :: string where
  "ALPHABET = ''0123456789ABCDEFGHJKMNPQRSTVWXYZ''"

definition ULID_LEN :: nat where
  "ULID_LEN = 26"

definition MAX_RAND :: int where
  "MAX_RAND = push_bit 80 1 - 1"

record ulid_state =
  last_ms :: int
  last_rand :: int

definition ulid_state0 :: ulid_state where
  "ulid_state0 = \<lparr>last_ms = 0, last_rand = 0\<rparr>"

datatype ulid_error = RuntimeError | ValueErrorLength nat | ValueErrorChar char

definition boot_wall_ms :: "int \<Rightarrow> int \<Rightarrow> int" where
  "boot_wall_ms wall_ms mono_ns = wall_ms - mono_ns div 1000000"

text \<open>The critical section of \<open>new()\<close>: the pair \<open>(ms, rand)\<close> and the globals after it.\<close>

definition ulid_draw :: "int \<Rightarrow> int \<Rightarrow> bytes \<Rightarrow> ulid_state \<Rightarrow> (ulid_error + int \<times> int) \<times> ulid_state" where
  "ulid_draw boot mono_ns entropy st =
     (let ms = mono_ns div 1000000 + boot in
      if ms = last_ms st then
        (let rand = last_rand st + 1 in
         if rand > MAX_RAND then (Inl RuntimeError, st)
         else (Inr (ms, rand), st\<lparr>last_ms := ms, last_rand := rand\<rparr>))
      else
        (let rand = int_of_bytes_be entropy in
         (Inr (ms, rand), st\<lparr>last_ms := ms, last_rand := rand\<rparr>)))"

text \<open>\<open>range(start, -5, -5)\<close> for a start that is a multiple of five.\<close>

definition shifts_down :: "nat \<Rightarrow> nat list" where
  "shifts_down n = map (\<lambda>i. 5 * i) (rev [0 ..< n])"

definition ulid_digit :: "int \<Rightarrow> nat \<Rightarrow> char" where
  "ulid_digit v shift = ALPHABET ! nat ((drop_bit shift v) AND 31)"

definition ulid_encode :: "int \<Rightarrow> int \<Rightarrow> string" where
  "ulid_encode ms rand =
     map (ulid_digit ms) (shifts_down 10) @ map (ulid_digit rand) (shifts_down 16)"

definition ulid_new :: "int \<Rightarrow> int \<Rightarrow> bytes \<Rightarrow> ulid_state \<Rightarrow> (ulid_error + string) \<times> ulid_state" where
  "ulid_new boot mono_ns entropy st =
     (case ulid_draw boot mono_ns entropy st of
        (Inl e, st') \<Rightarrow> (Inl e, st')
      | (Inr (ms, rand), st') \<Rightarrow> (Inr (ulid_encode ms rand), st'))"

text \<open>\<open>str.find\<close> of one character: the least index, or \<open>None\<close> where Python returns \<open>-1\<close>.\<close>

fun index_of :: "'a \<Rightarrow> 'a list \<Rightarrow> nat option" where
  "index_of c [] = None"
| "index_of c (x # xs) = (if x = c then Some 0 else map_option Suc (index_of c xs))"

fun decode_digits :: "int \<Rightarrow> string \<Rightarrow> ulid_error + int" where
  "decode_digits ms [] = Inr ms"
| "decode_digits ms (ch # cs) =
     (case index_of ch ALPHABET of
        None \<Rightarrow> Inl (ValueErrorChar ch)
      | Some idx \<Rightarrow> decode_digits (push_bit 5 ms OR int idx) cs)"

definition decode_timestamp_ms :: "string \<Rightarrow> ulid_error + int" where
  "decode_timestamp_ms u =
     (if length u \<noteq> ULID_LEN then Inl (ValueErrorLength (length u))
      else decode_digits 0 (take 10 u))"

definition reset_state_for_test :: "ulid_state \<Rightarrow> ulid_state" where
  "reset_state_for_test st = st\<lparr>last_ms := 0, last_rand := 0\<rparr>"

text \<open>A run of calls, each with its own clock reading and entropy; an overflow ends the run.\<close>

fun ulid_run :: "int \<Rightarrow> (int \<times> bytes) list \<Rightarrow> ulid_state \<Rightarrow> (ulid_error + string list) \<times> ulid_state" where
  "ulid_run boot [] st = (Inr [], st)"
| "ulid_run boot ((mono_ns, entropy) # calls) st =
     (case ulid_new boot mono_ns entropy st of
        (Inl e, st') \<Rightarrow> (Inl e, st')
      | (Inr u, st') \<Rightarrow>
          (case ulid_run boot calls st' of
             (Inl e, st'') \<Rightarrow> (Inl e, st'')
           | (Inr us, st'') \<Rightarrow> (Inr (u # us), st'')))"

subsection \<open>The encoding is a base-32 positional numeral\<close>

lemma MAX_RAND_eq: "MAX_RAND = 2 ^ 80 - 1"
  by (simp add: MAX_RAND_def push_bit_eq_mult)

lemma ulid_digit_eq: "ulid_digit v s = ALPHABET ! nat (v div 2 ^ s mod 32)"
proof -
  have "(drop_bit s v) AND 31 = take_bit 5 (drop_bit s v)"
    by (simp add: take_bit_eq_mask mask_eq_exp_minus_1)
  then show ?thesis by (simp add: ulid_digit_def drop_bit_eq_div take_bit_eq_mod)
qed

lemma length_ALPHABET [simp]: "length ALPHABET = 32"
  by (simp add: ALPHABET_def)

lemma sorted_ALPHABET: "sorted_wrt (<) ALPHABET"
  by (simp add: ALPHABET_def less_char_def)

lemma ALPHABET_less: "i < j \<Longrightarrow> j < 32 \<Longrightarrow> ALPHABET ! i < ALPHABET ! j"
  using sorted_wrt_nth_less[OF sorted_ALPHABET] by simp

lemma shifts_down_Suc: "shifts_down (Suc n) = 5 * n # shifts_down n"
  by (simp add: shifts_down_def)

lemma shifts_down_0 [simp]: "shifts_down 0 = []"
  by (simp add: shifts_down_def)

lemma length_shifts_down [simp]: "length (shifts_down n) = n"
  by (simp add: shifts_down_def)

lemma shifts_down_concrete:
  "shifts_down 10 = [45, 40, 35, 30, 25, 20, 15, 10, 5, 0]"
  "shifts_down 16 = [75, 70, 65, 60, 55, 50, 45, 40, 35, 30, 25, 20, 15, 10, 5, 0]"
  by (simp_all add: shifts_down_def upt_rec)

text \<open>The digits below position \<open>n\<close> only read the value modulo \<open>32 ^ n\<close>.\<close>

lemma digits_mod:
  "map (ulid_digit (v mod 32 ^ n)) (shifts_down n) = map (ulid_digit v) (shifts_down n)"
proof -
  have "ulid_digit (v mod 32 ^ n) s = ulid_digit v s" if "s \<in> set (shifts_down n)" for s
  proof -
    from that obtain i where i: "i < n" "s = 5 * i" by (auto simp: shifts_down_def)
    have s: "(2::int) ^ s = 32 ^ i" by (simp add: i(2) power_mult)
    have n: "(32::int) ^ n = 32 ^ i * (32 * 32 ^ (n - Suc i))"
    proof -
      have "n = i + Suc (n - Suc i)" using i(1) by simp
      then show ?thesis by (metis power_Suc power_add)
    qed
    have "v mod 32 ^ n div 32 ^ i = v div 32 ^ i mod (32 * 32 ^ (n - Suc i))"
      unfolding n by (simp add: zmod_zmult2_eq)
    then show ?thesis by (simp add: ulid_digit_eq s mod_mod_cancel)
  qed
  then show ?thesis by simp
qed

lemma zdiv_less_bound: "0 < p \<Longrightarrow> x < k * p \<Longrightarrow> x div p < k" for x p k :: int
  by (metis linorder_not_le mult.commute mult_div_mod_eq not_less pos_mod_sign
      add.commute le_add_same_cancel1 order_less_le_trans mult_le_cancel_right_pos)

text \<open>Digit strings of equal length compare as the numbers they write.\<close>

lemma digits_strict_mono:
  assumes "0 \<le> v" "v < w" "w < 32 ^ n"
  shows "map (ulid_digit v) (shifts_down n) < map (ulid_digit w) (shifts_down n)"
  using assms
proof (induction n arbitrary: v w)
  case (Suc n)
  let ?p = "(32::int) ^ n"
  have p: "(2::int) ^ (5 * n) = ?p" by (simp add: power_mult)
  have hd: "ulid_digit x (5 * n) = ALPHABET ! nat (x div ?p)" if "0 \<le> x" "x < 32 ^ Suc n" for x
  proof -
    have "x div ?p < 32" using that zdiv_less_bound[of ?p x 32] by simp
    moreover have "0 \<le> x div ?p" using that by (simp add: pos_imp_zdiv_nonneg_iff)
    ultimately show ?thesis by (simp add: ulid_digit_eq p)
  qed
  have bounds: "0 \<le> v div ?p" "w div ?p < 32"
    using Suc.prems zdiv_less_bound[of ?p w 32] by (simp_all add: pos_imp_zdiv_nonneg_iff)
  have le: "v div ?p \<le> w div ?p" using Suc.prems by (simp add: zdiv_mono1)
  show ?case
  proof (cases "v div ?p = w div ?p")
    case False
    then have "ALPHABET ! nat (v div ?p) < ALPHABET ! nat (w div ?p)"
      using le bounds by (intro ALPHABET_less) auto
    then show ?thesis using Suc.prems by (simp add: shifts_down_Suc hd)
  next
    case True
    have "v mod ?p < w mod ?p"
      using True Suc.prems(2) minus_div_mult_eq_mod[of v ?p] minus_div_mult_eq_mod[of w ?p] by simp
    from Suc.IH[OF _ this] have
      "map (ulid_digit v) (shifts_down n) < map (ulid_digit w) (shifts_down n)"
      by (simp add: digits_mod)
    then show ?thesis using True Suc.prems by (simp add: shifts_down_Suc hd)
  qed
qed simp

lemma ulid_digit_in: "ulid_digit v s \<in> set ALPHABET"
  unfolding ulid_digit_eq by (rule nth_mem) (simp add: nat_less_iff)

lemma index_of_nth: "distinct xs \<Longrightarrow> i < length xs \<Longrightarrow> index_of (xs ! i) xs = Some i"
  by (induction xs arbitrary: i) (auto simp: nth_Cons split: nat.splits)

lemma index_of_None: "index_of c xs = None \<longleftrightarrow> c \<notin> set xs"
  by (induction xs) auto

lemma index_of_less: "index_of c xs = Some i \<Longrightarrow> i < length xs"
  by (induction xs arbitrary: i) (auto split: if_splits)

lemma distinct_ALPHABET: "distinct ALPHABET"
  by (simp add: ALPHABET_def)

lemma index_of_digit: "index_of (ulid_digit v s) ALPHABET = Some (nat (v div 2 ^ s mod 32))"
  unfolding ulid_digit_eq
  by (rule index_of_nth[OF distinct_ALPHABET]) (simp add: nat_less_iff)

lemma push5_or:
  assumes "0 \<le> d" "d < 32"
  shows "push_bit 5 m OR d = m * 32 + (d :: int)"
proof -
  have d: "take_bit 5 d = d" using assms by (simp add: take_bit_int_eq_self)
  have "\<not> bit d i" if "5 \<le> i" for i
    using that by (subst d[symmetric]) (simp add: bit_take_bit_iff)
  then have "push_bit 5 m OR d = push_bit 5 m + d"
    by (intro disjunctive_add_eq_or[symmetric]) (auto simp: bit_eq_iff bit_and_iff bit_push_bit_iff)
  then show ?thesis by (simp add: push_bit_eq_mult)
qed

subsection \<open>Shape, decoding and order\<close>

lemma decode_digits_digits:
  assumes "0 \<le> v"
  shows "decode_digits acc (map (ulid_digit v) (shifts_down n)) = Inr (acc * 32 ^ n + v mod 32 ^ n)"
proof (induction n arbitrary: acc)
  case (Suc n)
  let ?d = "v div 32 ^ n mod 32"
  have p: "(2::int) ^ (5 * n) = 32 ^ n" by (simp add: power_mult)
  have "v mod 32 ^ Suc n = ?d * 32 ^ n + v mod 32 ^ n"
    using zmod_zmult2_eq[of 32 v "32 ^ n"] by (simp add: mult.commute)
  then show ?case
    by (simp add: shifts_down_Suc index_of_digit p push5_or Suc.IH distrib_right mult.assoc)
qed simp

lemma ulid_encode_length [simp]: "length (ulid_encode ms rand) = 26"
  by (simp add: ulid_encode_def)

lemma ulid_encode_alphabet: "set (ulid_encode ms rand) \<subseteq> set ALPHABET"
  using ulid_digit_in by (auto simp: ulid_encode_def)

lemma decode_ulid_encode:
  assumes "0 \<le> ms" "ms < 2 ^ 50"
  shows "decode_timestamp_ms (ulid_encode ms rand) = Inr ms"
proof -
  have "take 10 (ulid_encode ms rand) = map (ulid_digit ms) (shifts_down 10)"
    by (simp add: ulid_encode_def)
  then show ?thesis
    using decode_digits_digits[OF assms(1), of 0 10] assms
    by (simp add: decode_timestamp_ms_def ULID_LEN_def)
qed

lemma ulid_encode_less_ms:
  assumes "0 \<le> ms" "ms < ms'" "ms' < 2 ^ 50"
  shows "ulid_encode ms r < ulid_encode ms' r'"
  unfolding ulid_encode_def
  by (rule list_less_same_length) (use digits_strict_mono[of ms ms' 10] assms in auto)

lemma ulid_encode_less_rand:
  assumes "0 \<le> r" "r < r'" "r' \<le> MAX_RAND"
  shows "ulid_encode ms r < ulid_encode ms r'"
  unfolding ulid_encode_def
  by (rule list_less_append_cong) (use digits_strict_mono[of r r' 16] assms in \<open>auto simp: MAX_RAND_eq\<close>)

text \<open>The generator's invariant: both globals are in range.\<close>

definition ulid_inv :: "ulid_state \<Rightarrow> bool" where
  "ulid_inv st \<longleftrightarrow> 0 \<le> last_ms st \<and> 0 \<le> last_rand st \<and> last_rand st \<le> MAX_RAND"

lemma ulid_inv0 [simp]: "ulid_inv ulid_state0"
  by (simp add: ulid_inv_def ulid_state0_def MAX_RAND_eq)

lemma ulid_new_cases:
  assumes "ulid_new boot mono_ns entropy st = (r, st')"
  obtains (overflow) "mono_ns div 1000000 + boot = last_ms st" "last_rand st = MAX_RAND \<or> MAX_RAND < last_rand st"
      "r = Inl RuntimeError" "st' = st"
  | (same) "mono_ns div 1000000 + boot = last_ms st" "last_rand st < MAX_RAND"
      "last_ms st' = last_ms st" "last_rand st' = last_rand st + 1"
      "r = Inr (ulid_encode (last_ms st') (last_rand st'))"
  | (fresh) "mono_ns div 1000000 + boot \<noteq> last_ms st"
      "last_ms st' = mono_ns div 1000000 + boot" "last_rand st' = int_of_bytes_be entropy"
      "r = Inr (ulid_encode (last_ms st') (last_rand st'))"
proof (cases "mono_ns div 1000000 + boot = last_ms st")
  case ms: True
  show thesis
  proof (cases "MAX_RAND < last_rand st + 1")
    case True
    then show thesis using assms ms by (intro overflow) (auto simp: ulid_new_def ulid_draw_def Let_def)
  next
    case False
    then show thesis using assms ms by (intro same) (auto simp: ulid_new_def ulid_draw_def Let_def)
  qed
next
  case False
  then show thesis using assms by (intro fresh) (auto simp: ulid_new_def ulid_draw_def Let_def)
qed

lemma ulid_new_inv:
  assumes "ulid_new boot mono_ns entropy st = (r, st')" "ulid_inv st" "length entropy = 10"
    and "0 \<le> mono_ns div 1000000 + boot"
  shows "ulid_inv st'"
  using assms(1)
proof (cases rule: ulid_new_cases)
  case fresh
  then show ?thesis
    using int_of_bytes_be_bounds[of entropy] assms(3,4) by (simp add: ulid_inv_def MAX_RAND_eq)
qed (use assms in \<open>auto simp: ulid_inv_def\<close>)

lemma ulid_new_ok:
  assumes "ulid_new boot mono_ns entropy st = (Inr u, st')"
  shows "u = ulid_encode (last_ms st') (last_rand st')"
    and "last_ms st' = mono_ns div 1000000 + boot"
  using assms by (auto elim: ulid_new_cases)

text \<open>A successful call returns a ULID above the one the globals stand for, unless the clock stepped back.\<close>

lemma ulid_new_above:
  assumes "ulid_new boot mono_ns entropy st = (Inr u, st')" "ulid_inv st"
    and "last_ms st \<le> mono_ns div 1000000 + boot" "mono_ns div 1000000 + boot < 2 ^ 50"
  shows "ulid_encode (last_ms st) (last_rand st) < u"
  using assms(1)
proof (cases rule: ulid_new_cases)
  case same
  then show ?thesis using assms(2) by (auto simp: ulid_inv_def intro: ulid_encode_less_rand)
next
  case fresh
  then show ?thesis using assms(2-4) by (auto simp: ulid_inv_def intro: ulid_encode_less_ms)
qed auto

lemma ulid_run_sorted_aux:
  assumes "ulid_run boot calls st = (Inr us, st')" "ulid_inv st"
    and "\<forall>c\<in>set calls. length (snd c) = 10 \<and> fst c div 1000000 + boot < 2 ^ 50"
    and "sorted (last_ms st # map (\<lambda>c. fst c div 1000000 + boot) calls)"
  shows "sorted_wrt (<) (ulid_encode (last_ms st) (last_rand st) # us)"
  using assms
proof (induction calls arbitrary: st us)
  case (Cons c calls)
  obtain mono_ns entropy where c: "c = (mono_ns, entropy)" by (cases c)
  obtain u st1 us' where step: "ulid_new boot mono_ns entropy st = (Inr u, st1)"
    and rest: "ulid_run boot calls st1 = (Inr us', st')" "us = u # us'"
    using Cons.prems(1) by (auto simp: c split: prod.splits sum.splits)
  have pos: "0 \<le> mono_ns div 1000000 + boot"
    using Cons.prems(2,4) by (auto simp: c ulid_inv_def)
  have inv1: "ulid_inv st1"
    using ulid_new_inv[OF step Cons.prems(2)] Cons.prems(3) pos by (auto simp: c)
  have above: "ulid_encode (last_ms st) (last_rand st) < u"
    using ulid_new_above[OF step Cons.prems(2)] Cons.prems(3,4) by (auto simp: c)
  have "sorted_wrt (<) (u # us')"
    using Cons.IH[OF rest(1) inv1] Cons.prems(3,4) ulid_new_ok[OF step] by (auto simp: c)
  then show ?case using above by (auto simp: rest(2) intro: less_trans)
qed simp

definition call_ms :: "int \<Rightarrow> int \<times> bytes \<Rightarrow> int" where
  "call_ms boot c = fst c div 1000000 + boot"

lemma ulid_run_decodes:
  assumes "ulid_run boot calls st = (Inr us, st')"
    and "\<forall>c\<in>set calls. 0 \<le> call_ms boot c \<and> call_ms boot c < 2 ^ 50"
  shows "map decode_timestamp_ms us = map (\<lambda>c. Inr (call_ms boot c)) calls
       \<and> (\<forall>u\<in>set us. length u = ULID_LEN \<and> set u \<subseteq> set ALPHABET)"
  using assms
proof (induction calls arbitrary: st us)
  case (Cons c calls)
  obtain mono_ns entropy where c: "c = (mono_ns, entropy)" by (cases c)
  obtain u st1 us' where step: "ulid_new boot mono_ns entropy st = (Inr u, st1)"
    and rest: "ulid_run boot calls st1 = (Inr us', st')" "us = u # us'"
    using Cons.prems(1) by (auto simp: c split: prod.splits sum.splits)
  show ?case
    using Cons.IH[OF rest(1)] Cons.prems(2) ulid_new_ok[OF step] ulid_encode_alphabet
    by (auto simp: c rest(2) call_ms_def ULID_LEN_def decode_ulid_encode)
qed simp

text \<open>C3: A run of \<open>new()\<close> calls under a clock that does not step back returns ULIDs that
  strictly increase in string order, each 26 Crockford characters long, and
  \<open>decode_timestamp_ms\<close> reads the millisecond of its call back from each of them.\<close>

theorem ulid_run_increasing:
  assumes "ulid_run boot calls st = (Inr us, st')" "ulid_inv st"
    and "\<forall>c\<in>set calls. length (snd c) = 10 \<and> call_ms boot c < 2 ^ 50"
    and "sorted (last_ms st # map (call_ms boot) calls)"
  shows "sorted_wrt (<) us
       \<and> map decode_timestamp_ms us = map (\<lambda>c. Inr (call_ms boot c)) calls
       \<and> (\<forall>u\<in>set us. length u = ULID_LEN \<and> set u \<subseteq> set ALPHABET)"
proof -
  have "sorted_wrt (<) us"
    using ulid_run_sorted_aux[OF assms(1,2)] assms(3,4) by (simp add: call_ms_def[abs_def])
  moreover have "\<forall>c\<in>set calls. 0 \<le> call_ms boot c \<and> call_ms boot c < 2 ^ 50"
    using assms(2-4) by (force simp: ulid_inv_def)
  ultimately show ?thesis using ulid_run_decodes[OF assms(1)] by blast
qed

definition sample_calls :: "(int \<times> bytes) list" where
  "sample_calls = [(7000000, replicate 10 255), (8000000, replicate 10 3), (8500000, replicate 10 9)]"

lemma sample_run:
  "fst (ulid_run 1700000000000 sample_calls ulid_state0)
     = Inr [''01HF7YAT07ZZZZZZZZZZZZZZZZ'', ''01HF7YAT080C1G60R30C1G60R3'', ''01HF7YAT080C1G60R30C1G60R4'']"
  by code_simp

theorem ulid_run_increasing_witness:
  "sorted_wrt (<) [''01HF7YAT07ZZZZZZZZZZZZZZZZ'', ''01HF7YAT080C1G60R30C1G60R3'', ''01HF7YAT080C1G60R30C1G60R4'']"
proof -
  obtain st' where "ulid_run 1700000000000 sample_calls ulid_state0
    = (Inr [''01HF7YAT07ZZZZZZZZZZZZZZZZ'', ''01HF7YAT080C1G60R30C1G60R3'', ''01HF7YAT080C1G60R30C1G60R4''], st')"
    using sample_run by (metis prod.collapse)
  from ulid_run_increasing[OF this ulid_inv0] show ?thesis
    by (simp add: sample_calls_def call_ms_def ulid_state0_def)
qed

text \<open>\<open>new()\<close> fails exactly when the clock still shows the last millisecond and the 80-bit
  suffix is used up; it then raises RuntimeError and leaves the globals alone, and so does every
  further call within that millisecond: the suffix never wraps.\<close>

theorem ulid_overflow_exact:
  assumes "ulid_inv st"
  shows "((\<exists>e. fst (ulid_new boot mono_ns entropy st) = Inl e)
            \<longleftrightarrow> mono_ns div 1000000 + boot = last_ms st \<and> last_rand st = MAX_RAND)
       \<and> (\<forall>e. fst (ulid_new boot mono_ns entropy st) = Inl e
            \<longrightarrow> e = RuntimeError \<and> snd (ulid_new boot mono_ns entropy st) = st
              \<and> (mono_ns' div 1000000 = mono_ns div 1000000
                   \<longrightarrow> ulid_new boot mono_ns' entropy' st = (Inl RuntimeError, st)))"
  using assms
  by (auto simp: ulid_new_def ulid_draw_def Let_def ulid_inv_def split: if_splits)

theorem ulid_overflow_exact_witness:
  "ulid_new 0 5999999 [] \<lparr>last_ms = 5, last_rand = MAX_RAND\<rparr>
     = (Inl RuntimeError, \<lparr>last_ms = 5, last_rand = MAX_RAND\<rparr>)"
proof -
  let ?st = "\<lparr>last_ms = 5, last_rand = MAX_RAND\<rparr>"
  have inv: "ulid_inv ?st" by (simp add: ulid_inv_def MAX_RAND_eq)
  from ulid_overflow_exact[OF inv, of 0 5000000 "[]" 5999999 "[]"] show ?thesis by auto
qed

end
