(* ===== verification/WB_Types.thy ===== *)
theory WB_Types
  imports WB_Py WB_Ulid
begin

text \<open>
  The typed event rows of \<open>waitbus/_types.py\<close> and the column list of
  \<open>waitbus/_db.py\<close>. \<open>event_insert\<close> is the Struct \<open>EventInsert\<close> (the write
  shape), \<open>event_row\<close> the stored row: the write shape with the \<open>seq\<close> SQLite assigns and
  the ULID \<open>event_id\<close> (\<open>None\<close> on a legacy row). \<open>row_get\<close> is
  \<open>row[column]\<close> of \<open>sqlite3.Row\<close>. The source registry is the argument \<open>known\<close>.
\<close>

definition NS_PER_SECOND :: int where
  "NS_PER_SECOND = 1000000000"

record event_insert =
  ev_delivery_id :: string
  ev_source :: string
  ev_event_type :: string
  ev_owner :: string
  ev_repo :: string
  ev_received_at :: int
  ev_payload_json :: string
  ev_ingest_method :: string
  ev_run_id :: "int option"
  ev_workflow_name :: "string option"
  ev_head_branch :: "string option"
  ev_head_sha :: "string option"
  ev_status :: "string option"
  ev_conclusion :: "string option"
  ev_job_id :: "int option"
  ev_job_name :: "string option"
  ev_parent_run_id :: "int option"
  ev_alert_name :: "string option"
  ev_alert_severity :: "string option"
  ev_alert_fingerprint :: "string option"
  ev_msg_to :: "string option"
  ev_msg_from :: "string option"
  ev_msg_correlation_id :: "string option"
  ev_msg_reply_to :: "string option"
  ev_msg_thread :: "string option"
  ev_msg_body :: "string option"

record event_row = event_insert +
  ev_seq :: int
  ev_event_id :: "string option"

datatype source_error = UnknownSource string "string list"

definition is_known_source :: "string list \<Rightarrow> string \<Rightarrow> bool" where
  "is_known_source known name \<longleftrightarrow> name \<in> set known"

definition validate_source :: "string list \<Rightarrow> string \<Rightarrow> source_error + unit" where
  "validate_source known src =
     (if \<not> is_known_source known src then Inl (UnknownSource src (sort known)) else Inr ())"

text \<open>Direct construction of the Struct: \<open>__post_init__\<close> validates the source.\<close>

definition make_event_insert :: "string list \<Rightarrow> event_insert \<Rightarrow> source_error + event_insert" where
  "make_event_insert known ev = res_bind (validate_source known (ev_source ev)) (\<lambda>_. Inr ev)"

text \<open>The optional columns default to \<open>None\<close>.\<close>

definition event_insert_defaults ::
    "string \<Rightarrow> string \<Rightarrow> string \<Rightarrow> string \<Rightarrow> string \<Rightarrow> int \<Rightarrow> string \<Rightarrow> string \<Rightarrow> event_insert" where
  "event_insert_defaults delivery_id source event_type owner repo received_at payload_json ingest_method =
    \<lparr>ev_delivery_id = delivery_id, ev_source = source, ev_event_type = event_type,
     ev_owner = owner, ev_repo = repo, ev_received_at = received_at,
     ev_payload_json = payload_json, ev_ingest_method = ingest_method,
     ev_run_id = None,
     ev_workflow_name = None,
     ev_head_branch = None,
     ev_head_sha = None,
     ev_status = None,
     ev_conclusion = None,
     ev_job_id = None,
     ev_job_name = None,
     ev_parent_run_id = None,
     ev_alert_name = None,
     ev_alert_severity = None,
     ev_alert_fingerprint = None,
     ev_msg_to = None,
     ev_msg_from = None,
     ev_msg_correlation_id = None,
     ev_msg_reply_to = None,
     ev_msg_thread = None,
     ev_msg_body = None\<rparr>"

definition EVENT_COLUMNS :: "string list" where
  "EVENT_COLUMNS =
     [''delivery_id'', ''source'', ''event_type'', ''owner'', ''repo'',
      ''run_id'', ''workflow_name'', ''head_branch'', ''head_sha'', ''status'',
      ''conclusion'', ''received_at'', ''payload_json'', ''ingest_method'', ''job_id'',
      ''job_name'', ''parent_run_id'', ''alert_name'', ''alert_severity'', ''alert_fingerprint'',
      ''msg_to'', ''msg_from'', ''msg_correlation_id'', ''msg_reply_to'', ''msg_thread'',
      ''msg_body'', ''event_id'']"

fun opt_json :: "('a \<Rightarrow> json) \<Rightarrow> 'a option \<Rightarrow> json" where
  "opt_json f None = JNull"
| "opt_json f (Some x) = f x"

text \<open>The dict \<open>col_to_value\<close> of \<open>insert_event\<close>, and the values tuple it is read into.\<close>

definition col_to_value :: "('z event_insert_scheme) \<Rightarrow> string option \<Rightarrow> dict" where
  "col_to_value ev event_id =
     [(''delivery_id'', JStr (ev_delivery_id ev)),
      (''source'', JStr (ev_source ev)),
      (''event_type'', JStr (ev_event_type ev)),
      (''owner'', JStr (ev_owner ev)),
      (''repo'', JStr (ev_repo ev)),
      (''run_id'', opt_json JInt (ev_run_id ev)),
      (''workflow_name'', opt_json JStr (ev_workflow_name ev)),
      (''head_branch'', opt_json JStr (ev_head_branch ev)),
      (''head_sha'', opt_json JStr (ev_head_sha ev)),
      (''status'', opt_json JStr (ev_status ev)),
      (''conclusion'', opt_json JStr (ev_conclusion ev)),
      (''received_at'', JInt (ev_received_at ev)),
      (''payload_json'', JStr (ev_payload_json ev)),
      (''ingest_method'', JStr (ev_ingest_method ev)),
      (''job_id'', opt_json JInt (ev_job_id ev)),
      (''job_name'', opt_json JStr (ev_job_name ev)),
      (''parent_run_id'', opt_json JInt (ev_parent_run_id ev)),
      (''alert_name'', opt_json JStr (ev_alert_name ev)),
      (''alert_severity'', opt_json JStr (ev_alert_severity ev)),
      (''alert_fingerprint'', opt_json JStr (ev_alert_fingerprint ev)),
      (''msg_to'', opt_json JStr (ev_msg_to ev)),
      (''msg_from'', opt_json JStr (ev_msg_from ev)),
      (''msg_correlation_id'', opt_json JStr (ev_msg_correlation_id ev)),
      (''msg_reply_to'', opt_json JStr (ev_msg_reply_to ev)),
      (''msg_thread'', opt_json JStr (ev_msg_thread ev)),
      (''msg_body'', opt_json JStr (ev_msg_body ev)),
      (''event_id'', opt_json JStr event_id)]"

definition insert_values :: "('z event_insert_scheme) \<Rightarrow> string option \<Rightarrow> json list" where
  "insert_values ev event_id = map (dict_get (col_to_value ev event_id)) EVENT_COLUMNS"

definition row_items :: "event_row \<Rightarrow> dict" where
  "row_items r = (''seq'', JInt (ev_seq r)) # zip EVENT_COLUMNS (insert_values r (ev_event_id r))"

definition row_get :: "event_row \<Rightarrow> string \<Rightarrow> json" where
  "row_get r c = dict_get (row_items r) c"

lemma col_to_value_columns [simp]: "map fst (col_to_value ev eid) = EVENT_COLUMNS"
  by (simp add: col_to_value_def EVENT_COLUMNS_def)

lemma distinct_EVENT_COLUMNS [simp]: "distinct EVENT_COLUMNS"
  by (simp add: EVENT_COLUMNS_def)

lemma length_insert_values [simp]: "length (insert_values ev eid) = length EVENT_COLUMNS"
  by (simp add: insert_values_def)

lemma row_get_column:
  "c \<in> set EVENT_COLUMNS \<Longrightarrow> row_get r c = dict_get (col_to_value r (ev_event_id r)) c"
proof -
  assume c: "c \<in> set EVENT_COLUMNS"
  then have "c \<noteq> ''seq''" by (auto simp: EVENT_COLUMNS_def)
  then show ?thesis
    using c by (simp add: row_get_def row_items_def insert_values_def dict_get_def[of "_ # _"] map_of_zip_map)
qed

end
