(* ===== verification/WB_Store.thy ===== *)
theory WB_Store
  imports WB_Types
begin

text \<open>
  The event store of \<open>waitbus/_db.py\<close> and \<open>schema.sql\<close>. \<open>event_table\<close> is the
  \<open>events\<close> table, rows in \<open>seq\<close> order, with the \<open>AUTOINCREMENT\<close> counter SQLite keeps
  for it; \<open>sql_insert_or_ignore\<close> and \<open>sql_delete\<close> are the two statements that change it
  (SQLite may skip rowids: the argument \<open>gap\<close>). A call of \<open>insert_event\<close> returns the
  value or exception, the generator state, the table and the list of its outward effects in the
  order they happen. \<open>seq_log\<close> is the interface the broadcast daemon and every other reader
  uses: batches above a cursor.
\<close>

record event_table =
  tb_rows :: "event_row list"
  tb_last_seq :: int

definition empty_table :: event_table where
  "empty_table = \<lparr>tb_rows = [], tb_last_seq = 0\<rparr>"

definition NS_RECEIVED_AT_MIN :: int where
  "NS_RECEIVED_AT_MIN = 1000000000000000"

datatype db_error =
    ReceivedAtNotPositive int
  | ReceivedAtNotNs int
  | UlidError ulid_error

datatype db_effect =
    MetricInserted string string string
  | MetricDedupIgnored string string string
  | Committed
  | DoorbellRing

definition row_conflicts :: "string \<Rightarrow> string \<Rightarrow> event_row \<Rightarrow> bool" where
  "row_conflicts delivery_id event_id r \<longleftrightarrow> ev_delivery_id r = delivery_id \<or> ev_event_id r = Some event_id"

definition new_row :: "event_insert \<Rightarrow> string \<Rightarrow> int \<Rightarrow> event_row" where
  "new_row ev event_id s = event_insert.extend ev \<lparr>ev_seq = s, ev_event_id = Some event_id\<rparr>"

text \<open>\<open>INSERT OR IGNORE ... RETURNING delivery_id\<close>: the unique columns are
  \<open>delivery_id\<close> and \<open>event_id\<close>; an ignored insert may still use up rowids.\<close>

definition sql_insert_or_ignore ::
    "nat \<Rightarrow> event_insert \<Rightarrow> string \<Rightarrow> event_table \<Rightarrow> string option \<times> event_table" where
  "sql_insert_or_ignore gap ev event_id t =
     (if list_ex (row_conflicts (ev_delivery_id ev) event_id) (tb_rows t)
      then (None, t\<lparr>tb_last_seq := tb_last_seq t + int gap\<rparr>)
      else (let s = tb_last_seq t + 1 + int gap in
            (Some (ev_delivery_id ev),
             t\<lparr>tb_rows := tb_rows t @ [new_row ev event_id s], tb_last_seq := s\<rparr>)))"

definition sql_delete :: "(event_row \<Rightarrow> bool) \<Rightarrow> event_table \<Rightarrow> event_table" where
  "sql_delete P t = t\<lparr>tb_rows := filter (\<lambda>r. \<not> P r) (tb_rows t)\<rparr>"

text \<open>What \<open>insert_event\<close> reads from outside: clock, entropy, rowids skipped.\<close>

record insert_env =
  ie_boot :: int
  ie_mono_ns :: int
  ie_entropy :: bytes
  ie_gap :: nat

definition insert_event ::
    "insert_env \<Rightarrow> bool \<Rightarrow> event_insert \<Rightarrow> ulid_state \<Rightarrow> event_table
       \<Rightarrow> (db_error + bool) \<times> ulid_state \<times> event_table \<times> db_effect list" where
  "insert_event env commit ev us t =
     (if ev_received_at ev \<le> 0 then (Inl (ReceivedAtNotPositive (ev_received_at ev)), us, t, [])
      else if ev_received_at ev < NS_RECEIVED_AT_MIN
        then (Inl (ReceivedAtNotNs (ev_received_at ev)), us, t, [])
      else (case ulid_new (ie_boot env) (ie_mono_ns env) (ie_entropy env) us of
              (Inl e, us') \<Rightarrow> (Inl (UlidError e), us', t, [])
            | (Inr event_id, us') \<Rightarrow>
                (case sql_insert_or_ignore (ie_gap env) ev event_id t of
                   (returned, t') \<Rightarrow>
                     (let inserted = (returned \<noteq> None);
                          metric = (if inserted then MetricInserted else MetricDedupIgnored)
                                     (ev_event_type ev) (ev_source ev) (ev_ingest_method ev)
                      in (Inr inserted, us', t',
                          [metric] @ (if commit then [Committed] @ (if inserted then [DoorbellRing] else [])
                                      else []))))))"

definition iter_events_above :: "event_table \<Rightarrow> int \<Rightarrow> int option \<Rightarrow> nat \<Rightarrow> event_row list" where
  "iter_events_above t since_seq until_seq limit =
     take limit (sort_key ev_seq
       (filter (\<lambda>r. ev_event_id r \<noteq> None \<and> since_seq < ev_seq r
                  \<and> (case until_seq of None \<Rightarrow> True | Some u \<Rightarrow> ev_seq r \<le> u)) (tb_rows t)))"

definition fetch_event_by_id :: "event_table \<Rightarrow> string \<Rightarrow> event_row option" where
  "fetch_event_by_id t event_id = find (\<lambda>r. ev_event_id r = Some event_id) (tb_rows t)"

definition seq_for_event_id :: "event_table \<Rightarrow> string \<Rightarrow> int" where
  "seq_for_event_id t event_id =
     (if event_id = [] then 0
      else (case fetch_event_by_id t event_id of Some r \<Rightarrow> ev_seq r | None \<Rightarrow> 0))"

section \<open>The table invariant\<close>

text \<open>The rows a reader can see: those with an \<open>event_id\<close>.\<close>

definition visible_rows :: "event_table \<Rightarrow> event_row list" where
  "visible_rows t = filter (\<lambda>r. ev_event_id r \<noteq> None) (tb_rows t)"

lemma visible_rows_delete: "visible_rows (sql_delete P t) = filter (\<lambda>r. \<not> P r) (visible_rows t)"
  by (simp add: visible_rows_def sql_delete_def conj_commute)

text \<open>Rows stand in strictly increasing \<open>seq\<close> order, no \<open>seq\<close> is above the counter, and
  \<open>delivery_id\<close> and \<open>event_id\<close> are unique.\<close>

definition table_inv :: "event_table \<Rightarrow> bool" where
  "table_inv t \<longleftrightarrow>
     sorted_wrt (\<lambda>a b. ev_seq a < ev_seq b) (tb_rows t)
     \<and> (\<forall>r\<in>set (tb_rows t). 0 < ev_seq r \<and> ev_seq r \<le> tb_last_seq t)
     \<and> 0 \<le> tb_last_seq t
     \<and> distinct (map ev_delivery_id (tb_rows t))
     \<and> distinct (map ev_event_id (visible_rows t))"

lemma table_inv_empty [simp]: "table_inv empty_table"
  by (simp add: table_inv_def empty_table_def visible_rows_def)

lemma new_row_simps [simp]:
  "ev_seq (new_row ev eid s) = s" "ev_event_id (new_row ev eid s) = Some eid"
  "ev_delivery_id (new_row ev eid s) = ev_delivery_id ev"
  "event_insert.truncate (new_row ev eid s) = ev"
  by (simp_all add: new_row_def event_insert.defs)

lemma table_inv_insert [wb_intros]:
  assumes "table_inv t"
  shows "table_inv (snd (sql_insert_or_ignore gap ev eid t))"
proof (cases "list_ex (row_conflicts (ev_delivery_id ev) eid) (tb_rows t)")
  case True
  then show ?thesis using assms
    by (force simp: sql_insert_or_ignore_def table_inv_def visible_rows_def)
next
  case False
  then have "ev_delivery_id ev \<notin> ev_delivery_id ` set (tb_rows t)"
    "Some eid \<notin> ev_event_id ` set (tb_rows t)"
    by (auto simp: list_ex_iff row_conflicts_def)
  then show ?thesis using assms False
    by (fastforce simp: sql_insert_or_ignore_def table_inv_def Let_def visible_rows_def)
qed

lemma table_inv_delete [wb_intros]: "table_inv t \<Longrightarrow> table_inv (sql_delete P t)"
  by (auto simp: table_inv_def visible_rows_delete) (auto simp: sql_delete_def sorted_wrt_filter distinct_map_filter)

lemma visible_sorted: "table_inv t \<Longrightarrow> sorted_wrt (\<lambda>a b. ev_seq a < ev_seq b) (visible_rows t)"
  by (simp add: table_inv_def visible_rows_def sorted_wrt_filter)

lemma sort_key_sorted_wrt: "sorted_wrt (\<lambda>a b. f a < f b) xs \<Longrightarrow> sort_key f xs = xs"
  for f :: "'a \<Rightarrow> 'b::linorder"
  by (rule sort_key_id_if_sorted)
     (auto simp: sorted_map intro: sorted_wrt_mono_rel[rotated] less_imp_le)

lemma iter_events_above_visible:
  assumes "table_inv t"
  shows "iter_events_above t s u n =
    take n (filter (\<lambda>r. s < ev_seq r \<and> (case u of None \<Rightarrow> True | Some k \<Rightarrow> ev_seq r \<le> k)) (visible_rows t))"
proof -
  let ?P = "\<lambda>r. s < ev_seq r \<and> (case u of None \<Rightarrow> True | Some k \<Rightarrow> ev_seq r \<le> k)"
  have "filter (\<lambda>r. ev_event_id r \<noteq> None \<and> ?P r) (tb_rows t) = filter ?P (visible_rows t)"
    by (simp add: visible_rows_def conj_commute)
  moreover have "sort_key ev_seq (filter ?P (visible_rows t)) = filter ?P (visible_rows t)"
    by (rule sort_key_sorted_wrt) (rule sorted_wrt_filter[OF visible_sorted[OF assms]])
  ultimately show ?thesis by (simp add: iter_events_above_def)
qed

section \<open>The interface of a sequenced log\<close>

text \<open>A log of entries in strictly increasing sequence order, read in batches above a cursor.\<close>

locale seq_log =
  fixes inv :: "'s \<Rightarrow> bool"
    and entries :: "'s \<Rightarrow> 'e list"
    and seqno :: "'e \<Rightarrow> int"
    and above :: "'s \<Rightarrow> int \<Rightarrow> nat \<Rightarrow> 'e list"
  assumes entries_sorted: "inv s \<Longrightarrow> sorted_wrt (\<lambda>a b. seqno a < seqno b) (entries s)"
    and above_batch: "inv s \<Longrightarrow> above s c n = take n (filter (\<lambda>e. c < seqno e) (entries s))"
begin

lemma above_split:
  assumes "inv s" "above s c n \<noteq> []"
  shows "filter (\<lambda>e. c < seqno e) (entries s)
       = above s c n @ filter (\<lambda>e. seqno (last (above s c n)) < seqno e) (entries s)"
proof -
  let ?xs = "filter (\<lambda>e. c < seqno e) (entries s)"
  let ?l = "seqno (last (above s c n))"
  have b: "above s c n = take n ?xs" by (rule above_batch[OF assms(1)])
  have "sorted_wrt (\<lambda>a b. seqno a < seqno b) (take n ?xs @ drop n ?xs)"
    using sorted_wrt_filter[OF entries_sorted[OF assms(1)]] by simp
  from filter_above_last[OF this] assms(2) have "filter (\<lambda>e. ?l < seqno e) ?xs = drop n ?xs"
    by (simp add: b)
  moreover have "c < ?l"
    using last_in_set[OF assms(2)] set_take_subset[of n ?xs] by (auto simp: b)
  then have "filter (\<lambda>e. ?l < seqno e) ?xs = filter (\<lambda>e. ?l < seqno e) (entries s)"
    by (auto intro!: filter_cong)
  ultimately have "filter (\<lambda>e. ?l < seqno e) (entries s) = drop n ?xs" by simp
  then show ?thesis by (metis append_take_drop_id b)
qed

lemma above_empty:
  assumes "inv s" "0 < n" "above s c n = []"
  shows "filter (\<lambda>e. c < seqno e) (entries s) = []"
  using assms above_batch[OF assms(1), of c n] by simp

lemma above_bounds:
  assumes "inv s" "e \<in> set (above s c n)"
  shows "c < seqno e" "seqno e \<le> seqno (last (above s c n))" "e \<in> set (entries s)"
proof -
  have b: "above s c n = take n (filter (\<lambda>e. c < seqno e) (entries s))"
    by (rule above_batch[OF assms(1)])
  show "c < seqno e" "e \<in> set (entries s)"
    using assms(2) set_take_subset[of n "filter (\<lambda>e. c < seqno e) (entries s)"] by (auto simp: b)
  have "sorted_wrt (\<lambda>a b. seqno a < seqno b) (above s c n)"
    unfolding b using sorted_wrt_filter[OF entries_sorted[OF assms(1)]] by (rule sorted_wrt_take)
  then show "seqno e \<le> seqno (last (above s c n))"
    using assms(2) by (cases "above s c n" rule: rev_cases) (auto simp: sorted_wrt_append intro: less_imp_le)
qed

lemma above_sorted: "inv s \<Longrightarrow> sorted_wrt (\<lambda>a b. seqno a < seqno b) (above s c n)"
  by (simp add: above_batch sorted_wrt_take sorted_wrt_filter entries_sorted)

lemma above_length: "inv s \<Longrightarrow> length (above s c n) \<le> n"
  by (simp add: above_batch)

end

interpretation events: seq_log table_inv visible_rows ev_seq "\<lambda>t c n. iter_events_above t c None n"
  by unfold_locales (simp_all add: visible_sorted iter_events_above_visible)

section \<open>Properties of the store\<close>

lemma insert_event_Inr:
  assumes "insert_event env commit ev us t = (Inr ins, us', t', eff)"
  obtains eid where "ulid_new (ie_boot env) (ie_mono_ns env) (ie_entropy env) us = (Inr eid, us')"
    "t' = snd (sql_insert_or_ignore (ie_gap env) ev eid t)"
    "ins \<longleftrightarrow> \<not> list_ex (row_conflicts (ev_delivery_id ev) eid) (tb_rows t)"
    "NS_RECEIVED_AT_MIN \<le> ev_received_at ev"
    "eff = [(if ins then MetricInserted else MetricDedupIgnored)
              (ev_event_type ev) (ev_source ev) (ev_ingest_method ev)]
           @ (if commit then [Committed] @ (if ins then [DoorbellRing] else []) else [])"
  using assms
  by (auto simp: insert_event_def sql_insert_or_ignore_def Let_def split: if_splits sum.splits prod.splits)

lemma insert_event_table_inv [wb_intros]:
  "table_inv t \<Longrightarrow> insert_event env commit ev us t = (r, us', t', eff) \<Longrightarrow> table_inv t'"
  by (auto simp: insert_event_def Let_def split: if_splits sum.splits prod.splits)
     (metis snd_conv table_inv_insert)+

lemma insert_event_facts:
  assumes "table_inv t" "insert_event env commit ev us t = (r, us', t', eff)"
  shows "table_inv t'"
    and "ev_received_at ev < NS_RECEIVED_AT_MIN \<Longrightarrow> (\<exists>e. r = Inl e) \<and> us' = us \<and> t' = t \<and> eff = []"
    and "r = Inr True \<Longrightarrow> \<exists>row. tb_rows t' = tb_rows t @ [row] \<and> event_insert.truncate row = ev
           \<and> tb_last_seq t < ev_seq row \<and> tb_last_seq t' = ev_seq row
           \<and> ev_delivery_id ev \<notin> ev_delivery_id ` set (tb_rows t)
           \<and> (\<exists>eid. ev_event_id row = Some eid \<and> Some eid \<notin> ev_event_id ` set (tb_rows t))"
    and "r = Inr False \<Longrightarrow> tb_rows t' = tb_rows t \<and> tb_last_seq t \<le> tb_last_seq t' \<and> DoorbellRing \<notin> set eff"
    and "DoorbellRing \<in> set eff \<longleftrightarrow> commit \<and> r = Inr True"
    and "DoorbellRing \<in> set eff \<Longrightarrow> \<exists>pre. eff = pre @ [Committed, DoorbellRing]"
proof -
  show "table_inv t'" by (rule insert_event_table_inv[OF assms])
  show "ev_received_at ev < NS_RECEIVED_AT_MIN \<Longrightarrow> (\<exists>e. r = Inl e) \<and> us' = us \<and> t' = t \<and> eff = []"
    using assms(2) by (auto simp: insert_event_def split: if_splits)
  show "r = Inr True \<Longrightarrow> \<exists>row. tb_rows t' = tb_rows t @ [row] \<and> event_insert.truncate row = ev
           \<and> tb_last_seq t < ev_seq row \<and> tb_last_seq t' = ev_seq row
           \<and> ev_delivery_id ev \<notin> ev_delivery_id ` set (tb_rows t)
           \<and> (\<exists>eid. ev_event_id row = Some eid \<and> Some eid \<notin> ev_event_id ` set (tb_rows t))"
    using assms(2)
    by (auto elim!: insert_event_Inr simp: sql_insert_or_ignore_def Let_def list_ex_iff row_conflicts_def)
       blast+
  show "r = Inr False \<Longrightarrow> tb_rows t' = tb_rows t \<and> tb_last_seq t \<le> tb_last_seq t' \<and> DoorbellRing \<notin> set eff"
    using assms(2) by (auto elim!: insert_event_Inr simp: sql_insert_or_ignore_def)
  show "DoorbellRing \<in> set eff \<longleftrightarrow> commit \<and> r = Inr True"
    using assms(2) by (auto simp: insert_event_def Let_def split: if_splits sum.splits prod.splits)
  show "DoorbellRing \<in> set eff \<Longrightarrow> \<exists>pre. eff = pre @ [Committed, DoorbellRing]"
    using assms(2) by (auto simp: insert_event_def Let_def split: if_splits sum.splits prod.splits)
qed

text \<open>\<open>insert_event\<close> on every branch. A \<open>received_at\<close> that is not in epoch nanoseconds is
  refused with nothing changed. Otherwise the call returns True exactly when no stored row has the
  delivery id (or the fresh ULID); it then appends one row carrying the event unchanged, a fresh
  ULID and a \<open>seq\<close> above every one ever used, and rings the doorbell only after the commit
  and only for an inserted row; a duplicate leaves every row as it was.\<close>

theorem insert_event_spec:
  assumes "table_inv t" "insert_event env commit ev us t = (r, us', t', eff)"
  shows "table_inv t'
    \<and> (ev_received_at ev < NS_RECEIVED_AT_MIN \<longrightarrow> (\<exists>e. r = Inl e) \<and> us' = us \<and> t' = t \<and> eff = [])
    \<and> (r = Inr True \<longrightarrow> (\<exists>row. tb_rows t' = tb_rows t @ [row] \<and> event_insert.truncate row = ev
           \<and> tb_last_seq t < ev_seq row \<and> tb_last_seq t' = ev_seq row
           \<and> ev_delivery_id ev \<notin> ev_delivery_id ` set (tb_rows t)
           \<and> (\<exists>eid. ev_event_id row = Some eid \<and> Some eid \<notin> ev_event_id ` set (tb_rows t))))
    \<and> (r = Inr False \<longrightarrow> tb_rows t' = tb_rows t \<and> tb_last_seq t \<le> tb_last_seq t' \<and> DoorbellRing \<notin> set eff)
    \<and> (DoorbellRing \<in> set eff \<longleftrightarrow> commit \<and> r = Inr True)
    \<and> (DoorbellRing \<in> set eff \<longrightarrow> (\<exists>pre. eff = pre @ [Committed, DoorbellRing]))"
  using insert_event_facts[OF assms] by blast

definition sample_event :: "string \<Rightarrow> event_insert" where
  "sample_event d = event_insert_defaults d ''github'' ''workflow_run'' ''o'' ''r''
     1700000000000000000 ''{}'' ''webhook''"

definition sample_env :: "int \<Rightarrow> insert_env" where
  "sample_env mono_ns = \<lparr>ie_boot = 1700000000000, ie_mono_ns = mono_ns, ie_entropy = replicate 10 1, ie_gap = 0\<rparr>"

lemma sample_insert:
  "case insert_event (sample_env 5000000) True (sample_event ''d1'') ulid_state0 empty_table of
     (r, us', t', eff) \<Rightarrow> r = Inr True \<and> DoorbellRing \<in> set eff"
  by code_simp

theorem insert_event_spec_witness:
  "\<exists>row. tb_rows (fst (snd (snd (insert_event (sample_env 5000000) True (sample_event ''d1'') ulid_state0 empty_table))))
      = [row] \<and> event_insert.truncate row = sample_event ''d1''"
proof -
  obtain us' t' eff where r:
    "insert_event (sample_env 5000000) True (sample_event ''d1'') ulid_state0 empty_table = (Inr True, us', t', eff)"
    using sample_insert by (auto split: prod.splits)
  from insert_event_spec[OF table_inv_empty r] show ?thesis
    unfolding r by (auto simp: empty_table_def)
qed

text \<open>A history of the store: inserts by any producer and row removals (prune), from the
  empty table. The log is every row ever inserted, in insertion order.\<close>

datatype store_op = OpInsert insert_env bool event_insert | OpDelete "event_row \<Rightarrow> bool"

fun run_store :: "store_op list \<Rightarrow> ulid_state \<Rightarrow> event_table \<Rightarrow> ulid_state \<times> event_table \<times> event_row list" where
  "run_store [] us t = (us, t, [])"
| "run_store (OpInsert env c ev # ops) us t =
     (case insert_event env c ev us t of
        (r, us', t', eff) \<Rightarrow>
          (case run_store ops us' t' of
             (us'', t'', hist) \<Rightarrow> (us'', t'', drop (length (tb_rows t)) (tb_rows t') @ hist)))"
| "run_store (OpDelete P # ops) us t = run_store ops us (sql_delete P t)"

lemma insert_event_append:
  assumes "insert_event env c ev us t = (r, us', t', eff)"
  shows "\<exists>new. tb_rows t' = tb_rows t @ new \<and> length new \<le> 1 \<and> tb_last_seq t \<le> tb_last_seq t'
           \<and> (\<forall>x\<in>set new. tb_last_seq t < ev_seq x \<and> ev_seq x \<le> tb_last_seq t')"
  using assms
  by (auto simp: insert_event_def sql_insert_or_ignore_def Let_def split: if_splits sum.splits prod.splits)

lemma run_store_aux:
  assumes "table_inv t" "run_store ops us t = (us', t', hist)"
  shows "table_inv t' \<and> tb_last_seq t \<le> tb_last_seq t'
       \<and> sorted_wrt (\<lambda>a b. ev_seq a < ev_seq b) hist
       \<and> (\<forall>r\<in>set hist. tb_last_seq t < ev_seq r)
       \<and> set (tb_rows t') \<subseteq> set (tb_rows t) \<union> set hist"
  using assms
proof (induction ops arbitrary: us t us' hist)
  case (Cons op ops)
  show ?case
  proof (cases op)
    case (OpInsert env c ev)
    obtain r us1 t1 eff where step: "insert_event env c ev us t = (r, us1, t1, eff)"
      by (metis prod_cases4)
    obtain hist1 where rest: "run_store ops us1 t1 = (us', t', hist1)"
      and hist: "hist = drop (length (tb_rows t)) (tb_rows t1) @ hist1"
      using Cons.prems(2) by (auto simp: OpInsert step split: prod.splits)
    obtain new where new: "tb_rows t1 = tb_rows t @ new" "length new \<le> 1" "tb_last_seq t \<le> tb_last_seq t1"
      "\<forall>x\<in>set new. tb_last_seq t < ev_seq x \<and> ev_seq x \<le> tb_last_seq t1"
      using insert_event_append[OF step] by blast
    have "sorted_wrt (\<lambda>a b. ev_seq a < ev_seq b) new"
      using new(2) by (cases new) auto
    then show ?thesis
      using Cons.IH[OF insert_event_table_inv[OF Cons.prems(1) step] rest] new
      by (force simp: hist sorted_wrt_append)
  next
    case (OpDelete P)
    then show ?thesis
      using Cons.IH[OF table_inv_delete[OF Cons.prems(1), of P]] Cons.prems(2)
      by (fastforce simp: sql_delete_def)
  qed
qed simp


definition sample_ops :: "store_op list" where
  "sample_ops = [OpInsert (sample_env 5000000) True (sample_event ''d1''), OpDelete (\<lambda>_. True),
     OpInsert (sample_env 5000000) True (sample_event ''d1''),
     OpInsert (sample_env 6000000) True (sample_event ''d1'')]"

lemma sample_history: "map ev_seq (snd (snd (run_store sample_ops ulid_state0 empty_table))) = [1, 2]"
  by code_simp


lemma resume_cursor_facts:
  assumes "table_inv t" "eid \<noteq> []"
  shows "visible_rows t = pre @ [row] @ post \<Longrightarrow> ev_event_id row = Some eid \<Longrightarrow>
           iter_events_above t (seq_for_event_id t eid) None n = take n post"
    and "Some eid \<notin> ev_event_id ` set (tb_rows t) \<Longrightarrow>
           iter_events_above t (seq_for_event_id t eid) None n = take n (visible_rows t)"
    and "iter_events_above t (seq_for_event_id t []) None n = take n (visible_rows t)"
proof -
  have pos: "filter (\<lambda>r. 0 < ev_seq r) (visible_rows t) = visible_rows t"
    using assms(1) by (intro filter_all_id) (auto simp: table_inv_def visible_rows_def)
  have sorted: "sorted_wrt (\<lambda>a b. ev_seq a < ev_seq b) (visible_rows t)"
    by (rule visible_sorted[OF assms(1)])
  show "visible_rows t = pre @ [row] @ post \<Longrightarrow> ev_event_id row = Some eid \<Longrightarrow>
      iter_events_above t (seq_for_event_id t eid) None n = take n post"
  proof -
    assume v: "visible_rows t = pre @ [row] @ post" and e: "ev_event_id row = Some eid"
    have "row \<in> set (visible_rows t)" unfolding v by simp
    then have mem: "row \<in> set (tb_rows t)" by (simp add: visible_rows_def)
    obtain r where r: "fetch_event_by_id t eid = Some r"
      using mem e by (cases "fetch_event_by_id t eid") (auto simp: fetch_event_by_id_def find_None_iff)
    then have "r \<in> set (visible_rows t)" "ev_event_id r = Some eid"
      by (auto simp: fetch_event_by_id_def find_Some_iff visible_rows_def)
    moreover have "inj_on ev_event_id (set (visible_rows t))"
      using assms(1) by (simp add: table_inv_def distinct_map)
    ultimately have "r = row" using v e by (auto simp: inj_on_def)
    then have "seq_for_event_id t eid = ev_seq row" by (simp add: seq_for_event_id_def assms(2) r)
    moreover have "filter (\<lambda>x. ev_seq row < ev_seq x) (visible_rows t) = post"
      using filter_above_last[of ev_seq "pre @ [row]" post] sorted by (simp add: v)
    ultimately show ?thesis by (simp add: iter_events_above_visible[OF assms(1)])
  qed
  show "iter_events_above t (seq_for_event_id t []) None n = take n (visible_rows t)"
    by (simp add: seq_for_event_id_def iter_events_above_visible[OF assms(1)] pos)
  show "Some eid \<notin> ev_event_id ` set (tb_rows t) \<Longrightarrow>
      iter_events_above t (seq_for_event_id t eid) None n = take n (visible_rows t)"
  proof -
    assume "Some eid \<notin> ev_event_id ` set (tb_rows t)"
    then have "fetch_event_by_id t eid = None"
      by (force simp: fetch_event_by_id_def find_None_iff)
    then show ?thesis
      by (simp add: seq_for_event_id_def iter_events_above_visible[OF assms(1)] pos)
  qed
qed

text \<open>Resuming from a public cursor is exact. \<open>seq_for_event_id\<close> followed by
  \<open>iter_events_above\<close> reads the rows that follow the row of the cursor in commit order,
  nothing before it and nothing skipped; an empty or unknown cursor reads the retained window from
  its start.\<close>

theorem resume_cursor_exact:
  assumes "table_inv t" "eid \<noteq> []"
  shows "(\<forall>pre row post. visible_rows t = pre @ [row] @ post \<longrightarrow> ev_event_id row = Some eid \<longrightarrow>
            iter_events_above t (seq_for_event_id t eid) None n = take n post)
       \<and> (Some eid \<notin> ev_event_id ` set (tb_rows t) \<longrightarrow>
            iter_events_above t (seq_for_event_id t eid) None n = take n (visible_rows t))
       \<and> iter_events_above t (seq_for_event_id t []) None n = take n (visible_rows t)"
  using resume_cursor_facts[OF assms] by blast

definition sample_table :: event_table where
  "sample_table = \<lparr>tb_rows = [new_row (sample_event ''a'') ''A'' 1, new_row (sample_event ''b'') ''B'' 4,
     new_row (sample_event ''c'') ''C'' 5], tb_last_seq = 7\<rparr>"

lemma sample_table_inv [simp]: "table_inv sample_table"
  by (simp add: sample_table_def table_inv_def visible_rows_def sample_event_def event_insert_defaults_def)

lemma sample_visible:
  "visible_rows sample_table = [] @ [new_row (sample_event ''a'') ''A'' 1]
     @ [new_row (sample_event ''b'') ''B'' 4, new_row (sample_event ''c'') ''C'' 5]"
  by (simp add: sample_table_def visible_rows_def)

theorem resume_cursor_exact_witness:
  "iter_events_above sample_table (seq_for_event_id sample_table ''A'') None 10
     = [new_row (sample_event ''b'') ''B'' 4, new_row (sample_event ''c'') ''C'' 5]"
  using conjunct1[OF resume_cursor_exact[OF sample_table_inv], rule_format, OF _ sample_visible] by simp

end
