(* ===== verification/WB_Listener.thy ===== *)
theory WB_Listener
  imports WB_Store
begin

text \<open>
  The webhook listener \<open>waitbus/listener.py\<close>: one POST request from its headers and body to the
  reply and the row it stores. A request is what \<open>BaseHTTPRequestHandler\<close> has parsed, with the body
  the socket delivers; the handler's state is the generator, the table and what it has sent,
  counted and signalled. A handler that raises drops the connection without a reply. HMAC-SHA256,
  \<open>json.loads\<close>, the lossy decoding of the body and the text SQLite gives a float are functions of
  the environment. Strings are Latin-1, as \<open>http.server\<close> decodes headers; JSON text with NUL or
  lone surrogates is left out, as are logging and the write of the reply failing.
\<close>

definition MAX_BODY_BYTES :: nat where
  "MAX_BODY_BYTES = 10 * 1024 * 1024"

definition ALERT_EVENT_TYPES :: "string list" where
  "ALERT_EVENT_TYPES = [''prometheus_alert'', ''prometheus_watchdog'']"

datatype body_stream = BodyTimesOut | BodyBytes bytes

record request =
  rq_path :: string
  rq_headers :: "(string \<times> string) list"
  rq_body :: body_stream

text \<open>\<open>self.headers\<close>: names are compared without case; \<open>get\<close> returns the first value.\<close>

definition headers_all :: "request \<Rightarrow> string \<Rightarrow> string list" where
  "headers_all rq name = map snd (filter (\<lambda>h. lower (fst h) = lower name) (rq_headers rq))"

definition header_get :: "request \<Rightarrow> string \<Rightarrow> string option" where
  "header_get rq name = (case headers_all rq name of [] \<Rightarrow> None | v # _ \<Rightarrow> Some v)"

definition header_or_empty :: "request \<Rightarrow> string \<Rightarrow> string" where
  "header_or_empty rq name = (case header_get rq name of None \<Rightarrow> [] | Some v \<Rightarrow> v)"

datatype listener_metric =
    WebhookReceived string
  | BadLength string
  | ReadTimeoutMetric string
  | HmacRejected string string
  | WebhookIgnored string string
  | BadJson string
  | DbErrorMetric string string

record listener_state =
  ls_ulid :: ulid_state
  ls_table :: event_table
  ls_db_effects :: "db_effect list"
  ls_metrics :: "listener_metric list"
  ls_replies :: "(nat \<times> string) list"

record listener_env =
  le_secret :: bytes
  le_am_secret :: "bytes option"
  le_hmac :: "bytes \<Rightarrow> bytes \<Rightarrow> string"
  le_json :: "bytes \<Rightarrow> json option"
  le_decode_replace :: "bytes \<Rightarrow> string"
  le_float_text :: "pyfloat \<Rightarrow> string option"
  le_prom_owner :: string
  le_prom_repo :: string
  le_known_sources :: "string list"
  le_time_ns :: int
  le_insert :: insert_env
  le_db_up :: bool

datatype listener_error =
    PayloadNotObject
  | NonAsciiSignature
  | IntegerTooLarge
  | UnknownSourceError source_error
  | InsertError db_error

text \<open>How a handler ends: it has replied, or it raised.\<close>

datatype handler_end = Handled | Crashed listener_error

definition send_reply :: "nat \<Rightarrow> string \<Rightarrow> listener_state \<Rightarrow> listener_state" where
  "send_reply code body st = st\<lparr>ls_replies := ls_replies st @ [(code, body)]\<rparr>"

definition incr :: "listener_metric \<Rightarrow> listener_state \<Rightarrow> listener_state" where
  "incr m st = st\<lparr>ls_metrics := ls_metrics st @ [m]\<rparr>"

section \<open>Framing, body and signature\<close>

text \<open>\<open>int\<close> of a string; more than 4300 digits are a \<open>ValueError\<close> too.\<close>

definition py_int_of :: "string \<Rightarrow> int option" where
  "py_int_of s =
     (let t = strip s;
          sg = (if starts_with ''-'' t then -1 else 1);
          u = (if starts_with ''-'' t \<or> starts_with ''+'' t then tl t else t);
          ps = split_on (CHR ''_'') u
      in if list_all (\<lambda>p. p \<noteq> [] \<and> list_all is_ascii_digit p) ps
           \<and> int (length (concat ps)) \<le> 4300
         then Some (sg * foldl (\<lambda>a c. a * 10 + (of_char c - 48)) 0 (concat ps)) else None)"

definition check_request_framing :: "request \<Rightarrow> listener_state \<Rightarrow> bool \<times> listener_state" where
  "check_request_framing rq st =
     (if list_ex (\<lambda>h. lower (fst h) = ''transfer-encoding'') (rq_headers rq)
        then (False, send_reply 411 ''Transfer-Encoding not supported; send_reply a fixed Content-Length'' st)
      else if length (headers_all rq ''Content-Length'') > 1
        then (False, send_reply 400 ''Multiple Content-Length headers'' st)
      else (case header_get rq ''Content-Length'' of
              None \<Rightarrow> (False, send_reply 411 ''Content-Length required'' st)
            | Some cl_raw \<Rightarrow>
                (case py_int_of cl_raw of
                   None \<Rightarrow> (False, send_reply 400 ''Invalid Content-Length'' st)
                 | Some content_length \<Rightarrow>
                     (if content_length < 0 \<or> content_length > int MAX_BODY_BYTES
                        then (False, send_reply 413 ''Content-Length out of range'' (incr (BadLength (rq_path rq)) st))
                      else if lower (header_or_empty rq ''Expect'') = ''100-continue''
                        then (False, send_reply 417 ''Expectation Failed'' st)
                      else (True, st)))))"

definition read_body :: "request \<Rightarrow> listener_state \<Rightarrow> bytes option \<times> listener_state" where
  "read_body rq st =
     (let len = (case header_get rq ''Content-Length'' of
                   None \<Rightarrow> 0 | Some s \<Rightarrow> (case py_int_of s of None \<Rightarrow> 0 | Some i \<Rightarrow> i)) in
      if len \<le> 0 \<or> len > int MAX_BODY_BYTES
        then (None, send_reply 400 ''bad_length'' (incr (BadLength (rq_path rq)) st))
      else (case rq_body rq of
              BodyTimesOut \<Rightarrow> (None, send_reply 408 ''read_timeout'' (incr (ReadTimeoutMetric (rq_path rq)) st))
            | BodyBytes stream \<Rightarrow>
                (let body = take (nat len) stream in
                 if length body \<noteq> nat len
                   then (None, send_reply 400 ''bad_length'' (incr (BadLength (rq_path rq)) st))
                 else (Some body, st))))"

text \<open>\<open>hmac.compare_digest\<close> on two \<open>str\<close> raises unless both are ASCII.\<close>

definition is_ascii :: "string \<Rightarrow> bool" where
  "is_ascii s \<longleftrightarrow> list_all (chr_in 0 127) s"

definition compare_digest :: "string \<Rightarrow> string \<Rightarrow> listener_error + bool" where
  "compare_digest a b = (if \<not> is_ascii a \<or> \<not> is_ascii b then Inl NonAsciiSignature else Inr (a = b))"

definition verify_hmac ::
    "listener_env \<Rightarrow> request \<Rightarrow> bytes \<Rightarrow> bytes \<Rightarrow> listener_state \<Rightarrow> (listener_error + bool) \<times> listener_state" where
  "verify_hmac env rq body secret st =
     (let received_sig = header_or_empty rq ''X-Hub-Signature-256'' in
      if \<not> starts_with ''sha256='' received_sig
        then (Inr False, send_reply 401 ''missing_signature'' (incr (HmacRejected (rq_path rq) ''missing'') st))
      else (let provided_hex = drop 7 received_sig in
            if length provided_hex \<noteq> 64
              then (Inr False, send_reply 401 ''malformed_signature'' (incr (HmacRejected (rq_path rq) ''malformed'') st))
            else (case compare_digest (le_hmac env secret body) provided_hex of
                    Inl e \<Rightarrow> (Inl e, st)
                  | Inr True \<Rightarrow> (Inr True, st)
                  | Inr False \<Rightarrow>
                      (Inr False, send_reply 401 ''invalid_signature'' (incr (HmacRejected (rq_path rq) ''mismatch'') st)))))"

section \<open>The event of a payload\<close>

definition positive_int_or_none :: "json \<Rightarrow> json" where
  "positive_int_or_none j = (case j of JInt i \<Rightarrow> if i > 0 then j else JNull | _ \<Rightarrow> JNull)"

text \<open>\<open>x if isinstance(x, dict) else {}\<close>, and \<open>x or ""\<close>.\<close>

definition dict_or_empty :: "json \<Rightarrow> dict" where
  "dict_or_empty j = (case j of JObj d \<Rightarrow> d | _ \<Rightarrow> [])"

definition or_empty :: "json \<Rightarrow> json" where
  "or_empty j = (if truthy j then j else JStr [])"

text \<open>The columns as the Struct is built; \<open>msgspec\<close> does not check types on construction.\<close>

record raw_event =
  re_owner :: json
  re_repo :: json
  re_run_id :: json
  re_workflow_name :: json
  re_head_branch :: json
  re_head_sha :: json
  re_status :: json
  re_conclusion :: json
  re_job_id :: json
  re_job_name :: json
  re_parent_run_id :: json
  re_alert_name :: json
  re_alert_severity :: json
  re_alert_fingerprint :: json

definition raw_event0 :: raw_event where
  "raw_event0 = \<lparr>re_owner = JStr [], re_repo = JStr [], re_run_id = JNull, re_workflow_name = JNull,
     re_head_branch = JNull, re_head_sha = JNull, re_status = JNull, re_conclusion = JNull, re_job_id = JNull,
     re_job_name = JNull, re_parent_run_id = JNull, re_alert_name = JNull, re_alert_severity = JNull,
     re_alert_fingerprint = JNull\<rparr>"

definition alert_columns :: "listener_env \<Rightarrow> dict \<Rightarrow> raw_event" where
  "alert_columns env payload =
     (let alerts = (case dict_get payload ''alerts'' of JArr xs \<Rightarrow> xs | _ \<Rightarrow> []);
          first = dict_or_empty (case alerts of [] \<Rightarrow> JNull | a # _ \<Rightarrow> a);
          labels = dict_or_empty (dict_get first ''labels'')
      in raw_event0
           \<lparr>re_owner := JStr (le_prom_owner env), re_repo := JStr (le_prom_repo env),
            re_status := (case dict_get payload ''status'' of JStr s \<Rightarrow> JStr s | _ \<Rightarrow> JNull),
            re_alert_name := dict_get labels ''alertname'',
            re_alert_severity := dict_get labels ''severity'',
            re_alert_fingerprint := dict_get first ''fingerprint''\<rparr>)"

definition github_columns :: "string \<Rightarrow> dict \<Rightarrow> raw_event" where
  "github_columns event_type payload =
     (let repo_dict = dict_or_empty (dict_get payload ''repository'');
          owner_obj = dict_or_empty (dict_get repo_dict ''owner'');
          base = raw_event0\<lparr>re_owner := or_empty (dict_get owner_obj ''login''),
                            re_repo := or_empty (dict_get repo_dict ''name'')\<rparr>
      in if event_type = ''workflow_run'' then
           (let run = dict_or_empty (dict_get payload ''workflow_run'')
            in base\<lparr>re_run_id := positive_int_or_none (dict_get run ''id''),
                    re_workflow_name := dict_get run ''name'',
                    re_head_branch := dict_get run ''head_branch'',
                    re_head_sha := dict_get run ''head_sha'',
                    re_status := dict_get run ''status'',
                    re_conclusion := dict_get run ''conclusion''\<rparr>)
         else if event_type = ''workflow_job'' then
           (let job = dict_or_empty (dict_get payload ''workflow_job'')
            in base\<lparr>re_head_branch := dict_get job ''head_branch'',
                    re_head_sha := dict_get job ''head_sha'',
                    re_status := dict_get job ''status'',
                    re_conclusion := dict_get job ''conclusion'',
                    re_job_id := positive_int_or_none (dict_get job ''id''),
                    re_job_name := dict_get job ''name'',
                    re_parent_run_id := positive_int_or_none (dict_get job ''run_id'')\<rparr>)
         else base)"

definition event_from_webhook_payload :: "listener_env \<Rightarrow> string \<Rightarrow> json \<Rightarrow> listener_error + raw_event" where
  "event_from_webhook_payload env event_type payload =
     (case payload of
        JObj d \<Rightarrow> Inr (if event_type \<in> set ALERT_EVENT_TYPES then alert_columns env d
                        else github_columns event_type d)
      | _ \<Rightarrow> Inl PayloadNotObject)"

section \<open>Binding and storing\<close>

text \<open>SQLite's side of one parameter: the value a TEXT or INTEGER column receives, a type
  the driver does not support (a \<open>sqlite3.Error\<close>), or an integer beyond 64 bits (an
  \<open>OverflowError\<close>).\<close>

datatype 'a bound = Bound 'a | Unsupported | TooLarge

definition int64_max :: int where "int64_max = 2 ^ 63 - 1"

fun bind_text :: "listener_env \<Rightarrow> json \<Rightarrow> string option bound" where
  "bind_text env JNull = Bound None"
| "bind_text env (JStr s) = Bound (Some s)"
| "bind_text env (JBool b) = Bound (Some (if b then ''1'' else ''0''))"
| "bind_text env (JInt i) = (if i > int64_max \<or> i < - int64_max - 1 then TooLarge else Bound (Some (int_str i)))"
| "bind_text env (JFloat f) = Bound (le_float_text env f)"
| "bind_text env (JArr _) = Unsupported"
| "bind_text env (JObj _) = Unsupported"

fun bind_int :: "json \<Rightarrow> int option bound" where
  "bind_int (JInt i) = (if i > int64_max then TooLarge else Bound (Some i))"
| "bind_int _ = Bound None"

fun first_failure :: "'a bound list \<Rightarrow> unit bound" where
  "first_failure [] = Bound ()"
| "first_failure (Bound _ # bs) = first_failure bs"
| "first_failure (Unsupported # _) = Unsupported"
| "first_failure (TooLarge # _) = TooLarge"

definition text_of :: "listener_env \<Rightarrow> json \<Rightarrow> string option" where
  "text_of env j = (case bind_text env j of Bound v \<Rightarrow> v | _ \<Rightarrow> None)"

definition int_of :: "json \<Rightarrow> int option" where
  "int_of j = (case bind_int j of Bound v \<Rightarrow> v | _ \<Rightarrow> None)"

text \<open>Parameters are bound in the order of \<open>EVENT_COLUMNS\<close>.\<close>

definition bind_failure :: "listener_env \<Rightarrow> raw_event \<Rightarrow> unit bound" where
  "bind_failure env r =
     (let t = (\<lambda>j. map_bound (\<lambda>_. ()) (bind_text env j)); i = (\<lambda>j. map_bound (\<lambda>_. ()) (bind_int j)) in
      first_failure
       [t (re_owner r), t (re_repo r), i (re_run_id r), t (re_workflow_name r), t (re_head_branch r),
        t (re_head_sha r), t (re_status r), t (re_conclusion r), i (re_job_id r), t (re_job_name r),
        i (re_parent_run_id r), t (re_alert_name r), t (re_alert_severity r), t (re_alert_fingerprint r)])"

definition typed_event ::
    "listener_env \<Rightarrow> string \<Rightarrow> string \<Rightarrow> string \<Rightarrow> string \<Rightarrow> string \<Rightarrow> string \<Rightarrow> raw_event \<Rightarrow> event_insert" where
  "typed_event env delivery_id source event_type owner repo payload_json r =
     (event_insert_defaults delivery_id source event_type owner repo (le_time_ns env) payload_json ''webhook'')
       \<lparr>ev_run_id := int_of (re_run_id r), ev_workflow_name := text_of env (re_workflow_name r),
        ev_head_branch := text_of env (re_head_branch r), ev_head_sha := text_of env (re_head_sha r),
        ev_status := text_of env (re_status r), ev_conclusion := text_of env (re_conclusion r),
        ev_job_id := int_of (re_job_id r), ev_job_name := text_of env (re_job_name r),
        ev_parent_run_id := int_of (re_parent_run_id r), ev_alert_name := text_of env (re_alert_name r),
        ev_alert_severity := text_of env (re_alert_severity r),
        ev_alert_fingerprint := text_of env (re_alert_fingerprint r)\<rparr>"

text \<open>\<open>insert_event\<close> on the raw columns, with the driver's failures: \<open>Inr None\<close> is a
  \<open>sqlite3.Error\<close>. A NULL owner or repo violates a constraint, which \<open>OR IGNORE\<close> skips.\<close>

definition insert_raw ::
    "listener_env \<Rightarrow> string \<Rightarrow> string \<Rightarrow> string \<Rightarrow> string \<Rightarrow> raw_event \<Rightarrow> listener_state
       \<Rightarrow> (listener_error + bool option) \<times> listener_state" where
  "insert_raw env delivery_id source event_type payload_json r st =
     (let typed = (\<lambda>owner repo. typed_event env delivery_id source event_type owner repo payload_json r) in
      if \<not> le_db_up env then (Inr None, st)
      else if le_time_ns env < NS_RECEIVED_AT_MIN then
        (case insert_event (le_insert env) True (typed [] []) (ls_ulid st) (ls_table st) of
           (Inl e, _) \<Rightarrow> (Inl (InsertError e), st) | (Inr _, _) \<Rightarrow> (Inr None, st))
      else (case ulid_new (ie_boot (le_insert env)) (ie_mono_ns (le_insert env)) (ie_entropy (le_insert env)) (ls_ulid st) of
              (Inl e, us') \<Rightarrow> (Inl (InsertError (UlidError e)), st\<lparr>ls_ulid := us'\<rparr>)
            | (Inr _, us') \<Rightarrow>
                (case bind_failure env r of
                   TooLarge \<Rightarrow> (Inl IntegerTooLarge, st\<lparr>ls_ulid := us'\<rparr>)
                 | Unsupported \<Rightarrow> (Inr None, st\<lparr>ls_ulid := us'\<rparr>)
                 | Bound _ \<Rightarrow>
                     (case (text_of env (re_owner r), text_of env (re_repo r)) of
                        (Some owner, Some repo) \<Rightarrow>
                          (case insert_event (le_insert env) True (typed owner repo) (ls_ulid st) (ls_table st) of
                             (Inl e, us2, t2, eff) \<Rightarrow>
                               (Inl (InsertError e), st\<lparr>ls_ulid := us2, ls_table := t2, ls_db_effects := ls_db_effects st @ eff\<rparr>)
                           | (Inr ins, us2, t2, eff) \<Rightarrow>
                               (Inr (Some ins), st\<lparr>ls_ulid := us2, ls_table := t2, ls_db_effects := ls_db_effects st @ eff\<rparr>))
                      | _ \<Rightarrow> (Inr (Some False), st\<lparr>ls_ulid := us', ls_db_effects :=
                                ls_db_effects st @ [MetricDedupIgnored event_type source ''webhook'', Committed]\<rparr>)))))"

section \<open>The handlers\<close>

text \<open>From the parsed payload to the reply: what \<open>_handle_github\<close> and
  \<open>_handle_alertmanager\<close> share.\<close>

definition store_payload ::
    "listener_env \<Rightarrow> request \<Rightarrow> string \<Rightarrow> string \<Rightarrow> string \<Rightarrow> bytes \<Rightarrow> listener_state \<Rightarrow> handler_end \<times> listener_state" where
  "store_payload env rq source event_type delivery_id body st =
     (case le_json env body of
        None \<Rightarrow> (Handled, send_reply 400 ''bad_json'' (incr (BadJson (rq_path rq)) st))
      | Some payload \<Rightarrow>
          (case event_from_webhook_payload env event_type payload of
             Inl e \<Rightarrow> (Crashed e, st)
           | Inr r \<Rightarrow>
               (case validate_source (le_known_sources env) source of
                  Inl e \<Rightarrow> (Crashed (UnknownSourceError e), st)
                | Inr _ \<Rightarrow>
                    (case insert_raw env delivery_id source event_type (le_decode_replace env body) r st of
                       (Inl e, st1) \<Rightarrow> (Crashed e, st1)
                     | (Inr None, st1) \<Rightarrow> (Handled, send_reply 500 ''db_error'' (incr (DbErrorMetric (rq_path rq) source) st1))
                     | (Inr (Some _), st1) \<Rightarrow> (Handled, send_reply 200 ''ok'' st1)))))"

definition handle_github :: "listener_env \<Rightarrow> request \<Rightarrow> listener_state \<Rightarrow> handler_end \<times> listener_state" where
  "handle_github env rq st =
     (case read_body rq st of
        (None, st1) \<Rightarrow> (Handled, st1)
      | (Some body, st1) \<Rightarrow>
          (case verify_hmac env rq body (le_secret env) st1 of
             (Inl e, st2) \<Rightarrow> (Crashed e, st2)
           | (Inr False, st2) \<Rightarrow> (Handled, st2)
           | (Inr True, st2) \<Rightarrow>
               (let event_type = header_or_empty rq ''X-GitHub-Event'';
                    delivery_id = header_or_empty rq ''X-GitHub-Delivery'' in
                if delivery_id = [] then (Handled, send_reply 400 ''missing_delivery_id'' st2)
                else if event_type \<notin> {''workflow_run'', ''workflow_job''} then
                  (Handled, send_reply 200 ''ignored''
                     (incr (WebhookIgnored (rq_path rq) (if event_type = [] then ''unset'' else event_type)) st2))
                else store_payload env rq ''github'' event_type delivery_id body st2)))"

definition handle_alertmanager ::
    "listener_env \<Rightarrow> request \<Rightarrow> string \<Rightarrow> bytes \<Rightarrow> listener_state \<Rightarrow> handler_end \<times> listener_state" where
  "handle_alertmanager env rq event_type am_secret st =
     (case read_body rq st of
        (None, st1) \<Rightarrow> (Handled, st1)
      | (Some body, st1) \<Rightarrow>
          (case verify_hmac env rq body am_secret st1 of
             (Inl e, st2) \<Rightarrow> (Crashed e, st2)
           | (Inr False, st2) \<Rightarrow> (Handled, st2)
           | (Inr True, st2) \<Rightarrow>
               (let delivery_id = header_or_empty rq ''X-Alertmanager-Delivery'' in
                if delivery_id = [] then (Handled, send_reply 400 ''missing_delivery_id'' st2)
                else store_payload env rq ''alertmanager'' event_type delivery_id body st2)))"

definition do_POST :: "listener_env \<Rightarrow> request \<Rightarrow> listener_state \<Rightarrow> handler_end \<times> listener_state" where
  "do_POST env rq st0 =
     (case check_request_framing rq (incr (WebhookReceived (rq_path rq)) st0) of
        (False, st) \<Rightarrow> (Handled, st)
      | (True, st) \<Rightarrow>
          (let alert = (\<lambda>event_type.
                 case le_am_secret env of
                   None \<Rightarrow> (Handled, send_reply 503 ''alertmanager_secret_unprovisioned'' st)
                 | Some am_secret \<Rightarrow> handle_alertmanager env rq event_type am_secret st)
           in if rq_path rq = ''/webhook'' then handle_github env rq st
              else if rq_path rq = ''/alertmanager'' then alert ''prometheus_alert''
              else if rq_path rq = ''/watchdog'' then alert ''prometheus_watchdog''
              else (Handled, send_reply 404 ''not_found'' st)))"

text \<open>The other methods: \<open>/metrics\<close> answers with the counters, the rest by a constant.\<close>

definition do_GET :: "string \<Rightarrow> request \<Rightarrow> listener_state \<Rightarrow> handler_end \<times> listener_state" where
  "do_GET rendered rq st =
     (Handled, if rq_path rq = ''/healthz'' then send_reply 200 ''ok'' st
               else if rq_path rq = ''/metrics'' then send_reply 200 rendered st
               else send_reply 404 ''not_found'' st)"

definition method_not_allowed :: "listener_state \<Rightarrow> handler_end \<times> listener_state" where
  "method_not_allowed st = (Handled, send_reply 405 ''method not allowed'' st)"

section \<open>Start-up secrets\<close>

text \<open>\<open>lookup_secret\<close> gives \<open>None\<close> for a missing, unreadable or empty value; \<open>load_secret\<close> then
  exits with status 2.\<close>

definition lookup_secret :: "(string \<Rightarrow> string option) \<Rightarrow> (string \<Rightarrow> bytes) \<Rightarrow> string \<Rightarrow> bytes option" where
  "lookup_secret get encode name =
     (case get name of None \<Rightarrow> None | Some v \<Rightarrow> if v = [] then None else Some (encode v))"

definition load_secret :: "(string \<Rightarrow> string option) \<Rightarrow> (string \<Rightarrow> bytes) \<Rightarrow> string \<Rightarrow> int + bytes" where
  "load_secret get encode name =
     (case lookup_secret get encode name of None \<Rightarrow> Inl 2 | Some b \<Rightarrow> Inr b)"

section \<open>Replies\<close>

lemma send_reply_simps [simp]:
  "ls_replies (send_reply c b st) = ls_replies st @ [(c, b)]" "ls_table (send_reply c b st) = ls_table st"
  "ls_ulid (send_reply c b st) = ls_ulid st" "ls_db_effects (send_reply c b st) = ls_db_effects st"
  by (simp_all add: send_reply_def)

lemma incr_simps [simp]:
  "ls_replies (incr m st) = ls_replies st" "ls_table (incr m st) = ls_table st"
  "ls_ulid (incr m st) = ls_ulid st" "ls_db_effects (incr m st) = ls_db_effects st"
  by (simp_all add: incr_def)

text \<open>A step of a handler that leaves the store alone, and either replies once or not at all.\<close>

definition replies_once :: "listener_state \<Rightarrow> listener_state \<Rightarrow> bool" where
  "replies_once st st' \<longleftrightarrow> (\<exists>r. ls_replies st' = ls_replies st @ [r])"

definition same_store :: "listener_state \<Rightarrow> listener_state \<Rightarrow> bool" where
  "same_store st st' \<longleftrightarrow> ls_table st' = ls_table st \<and> ls_ulid st' = ls_ulid st \<and> ls_db_effects st' = ls_db_effects st"

definition silent :: "listener_state \<Rightarrow> listener_state \<Rightarrow> bool" where
  "silent st st' \<longleftrightarrow> same_store st st' \<and> ls_replies st' = ls_replies st"

lemma same_store_simps [simp]:
  "same_store st st" "same_store st (send_reply c b st') = same_store st st'" "same_store st (incr m st') = same_store st st'"
  "same_store (incr m st) st' = same_store st st'"
  by (simp_all add: same_store_def)

lemma replies_once_simps [simp]:
  "replies_once st (send_reply c b st)" "replies_once st (send_reply c b (incr m st))" "replies_once (incr m st) st' = replies_once st st'"
  by (simp_all add: replies_once_def)

lemma framing_replies:
  "check_request_framing rq st = (ok, st') \<Longrightarrow> same_store st st' \<and> (if ok then st' = st else replies_once st st')"
  by (auto simp: check_request_framing_def split: if_splits option.splits)

lemma read_body_replies:
  "read_body rq st = (b, st') \<Longrightarrow>
     same_store st st' \<and> (case b of None \<Rightarrow> replies_once st st'
       | Some body \<Rightarrow> st' = st \<and> body \<noteq> []
           \<and> (\<exists>stream. rq_body rq = BodyBytes stream \<and> body = take (length body) stream
               \<and> length body \<le> MAX_BODY_BYTES
               \<and> map_option py_int_of (header_get rq ''Content-Length'') = Some (Some (int (length body)))))"
  by (auto simp: read_body_def Let_def same_store_def replies_once_def split: if_splits option.splits body_stream.splits)

lemma starts_with_drop: "starts_with p s \<Longrightarrow> s = p @ drop (length p) s"
  unfolding starts_with_def by (metis append_take_drop_id)

lemma verify_hmac_replies:
  assumes "verify_hmac env rq body secret st = (r, st')"
  shows "same_store st st' \<and> (case r of Inl e \<Rightarrow> st' = st | Inr False \<Rightarrow> replies_once st st'
       | Inr True \<Rightarrow> st' = st \<and> header_or_empty rq ''X-Hub-Signature-256'' = ''sha256='' @ le_hmac env secret body
            \<and> length (le_hmac env secret body) = 64)"
proof -
  let ?sig = "header_or_empty rq ''X-Hub-Signature-256''"
  show ?thesis
  proof (cases "starts_with ''sha256='' ?sig \<and> length (drop 7 ?sig) = 64")
    case False
    then show ?thesis
      using assms by (auto simp: verify_hmac_def Let_def same_store_def replies_once_def split: if_splits)
  next
    case True
    have seven: "length ''sha256='' = 7" by simp
    have sig: "?sig = ''sha256='' @ drop 7 ?sig"
      using starts_with_drop[of "''sha256=''" ?sig, unfolded seven] True by blast
    have "verify_hmac env rq body secret st =
        (case compare_digest (le_hmac env secret body) (drop 7 ?sig) of
           Inl e \<Rightarrow> (Inl e, st) | Inr True \<Rightarrow> (Inr True, st)
         | Inr False \<Rightarrow> (Inr False, send_reply 401 ''invalid_signature'' (incr (HmacRejected (rq_path rq) ''mismatch'') st)))"
      using True by (simp add: verify_hmac_def Let_def del: length_drop)
    then show ?thesis
      using assms True sig
      by (auto simp: compare_digest_def same_store_def replies_once_def simp del: length_drop split: if_splits bool.splits)
  qed
qed

lemma insert_raw_facts:
  assumes "insert_raw env d src ety body r st = (x, st')"
  shows "ls_replies st' = ls_replies st
     \<and> (table_inv (ls_table st) \<longrightarrow> table_inv (ls_table st'))
     \<and> (tb_rows (ls_table st') = tb_rows (ls_table st)
        \<or> x = Inr (Some True)
          \<and> (\<exists>row. tb_rows (ls_table st') = tb_rows (ls_table st) @ [row]
               \<and> ev_delivery_id row = d \<and> ev_source row = src \<and> ev_event_type row = ety
               \<and> ev_payload_json row = body \<and> ev_ingest_method row = ''webhook''))"
proof -
  let ?ie = "le_insert env"
  have ins: "tb_rows t2 = tb_rows (ls_table st)
      \<or> y = Inr True \<and> (\<exists>row. tb_rows t2 = tb_rows (ls_table st) @ [row] \<and> event_insert.truncate row = ev)"
    and inv: "table_inv (ls_table st) \<Longrightarrow> table_inv t2"
    if "insert_event ?ie True ev (ls_ulid st) (ls_table st) = (y, us2, t2, eff)" for ev y us2 t2 eff
  proof -
    show "tb_rows t2 = tb_rows (ls_table st)
      \<or> y = Inr True \<and> (\<exists>row. tb_rows t2 = tb_rows (ls_table st) @ [row] \<and> event_insert.truncate row = ev)"
      using that by (auto simp: insert_event_def sql_insert_or_ignore_def Let_def split: if_splits sum.splits prod.splits)
    show "table_inv (ls_table st) \<Longrightarrow> table_inv t2" by (rule insert_event_table_inv[OF _ that])
  qed
  have typed: "event_insert.truncate row = typed_event env d src ety ow rp body r \<Longrightarrow>
      ev_delivery_id row = d \<and> ev_source row = src \<and> ev_event_type row = ety \<and> ev_payload_json row = body
      \<and> ev_ingest_method row = ''webhook''" for row :: event_row and ow rp
    by (cases row) (simp add: event_insert.defs typed_event_def event_insert_defaults_def)
  have quiet: ?thesis if "ls_replies st' = ls_replies st" "ls_table st' = ls_table st"
    using that by simp
  show ?thesis
  proof (cases "le_db_up env \<and> \<not> le_time_ns env < NS_RECEIVED_AT_MIN")
    case False
    then have "st' = st" using assms by (auto simp: insert_raw_def Let_def split: if_splits sum.splits prod.splits)
    then show ?thesis using quiet by simp
  next
    case True
    obtain u us' where u: "ulid_new (ie_boot ?ie) (ie_mono_ns ?ie) (ie_entropy ?ie) (ls_ulid st) = (u, us')" by fastforce
    show ?thesis
    proof (cases "(\<exists>eid. u = Inr eid) \<and> bind_failure env r = Bound () \<and> text_of env (re_owner r) \<noteq> None
        \<and> text_of env (re_repo r) \<noteq> None")
      case False
      then have "ls_replies st' = ls_replies st \<and> ls_table st' = ls_table st"
        using assms True u by (auto simp: insert_raw_def Let_def split: sum.splits bound.splits option.splits)
      then show ?thesis using quiet by simp
    next
      case bound: True
      then obtain eid ow rp where b: "u = Inr eid" "text_of env (re_owner r) = Some ow" "text_of env (re_repo r) = Some rp"
        by auto
      let ?ev = "typed_event env d src ety ow rp body r"
      obtain y us2 t2 eff where ie: "insert_event ?ie True ?ev (ls_ulid st) (ls_table st) = (y, us2, t2, eff)"
        by (cases "insert_event ?ie True ?ev (ls_ulid st) (ls_table st)") auto
      have "ls_replies st' = ls_replies st \<and> ls_table st' = t2 \<and> (y = Inr True \<longrightarrow> x = Inr (Some True))"
        using assms True u bound b ie by (auto simp: insert_raw_def Let_def split: sum.splits)
      then show ?thesis using ins[OF ie] inv[OF ie] typed by metis
    qed
  qed
qed

lemma insert_raw_row:
  assumes "insert_raw env d src ety body r st = (x, st')"
    and "tb_rows (ls_table st') = tb_rows (ls_table st) @ [row]"
  shows "\<exists>ow rp. event_insert.truncate row = typed_event env d src ety ow rp body r"
proof -
  have ins: "event_insert.truncate row = ev"
    if "insert_event (le_insert env) True ev (ls_ulid st) (ls_table st) = (y, us2, t2, eff)"
      "tb_rows t2 = tb_rows (ls_table st) @ [row]" for ev y us2 t2 eff
    using that by (auto simp: insert_event_def sql_insert_or_ignore_def Let_def split: if_splits sum.splits prod.splits)
  have "ls_table st' = ls_table st
      \<or> (\<exists>ow rp y us2 t2 eff. insert_event (le_insert env) True (typed_event env d src ety ow rp body r)
            (ls_ulid st) (ls_table st) = (y, us2, t2, eff) \<and> ls_table st' = t2)"
    using assms(1) unfolding insert_raw_def Let_def
    by (auto split: if_splits sum.splits bound.splits option.splits prod.splits)
  then show ?thesis using ins assms(2) by fastforce
qed

lemma typed_row:
  assumes "event_insert.truncate row = typed_event env d src ety ow rp body r"
  shows "ev_source row = src" "ev_event_type row = ety" "ev_run_id row = int_of (re_run_id r)"
    "ev_job_id row = int_of (re_job_id r)" "ev_parent_run_id row = int_of (re_parent_run_id r)"
    "ev_workflow_name row = text_of env (re_workflow_name r)" "ev_job_name row = text_of env (re_job_name r)"
    "ev_head_sha row = text_of env (re_head_sha r)" "ev_alert_name row = text_of env (re_alert_name r)"
    "ev_alert_fingerprint row = text_of env (re_alert_fingerprint r)"
    "ev_msg_to row = None" "ev_msg_body row = None"
  using assms by (cases row; simp add: event_insert.defs typed_event_def event_insert_defaults_def)+

lemma store_payload_facts:
  assumes "store_payload env rq src ety d body st = (r, st')"
  shows "(case r of Handled \<Rightarrow> \<exists>c b. c \<in> {200, 400, 500} \<and> ls_replies st' = ls_replies st @ [(c, b)]
          | Crashed _ \<Rightarrow> ls_replies st' = ls_replies st)
     \<and> (table_inv (ls_table st) \<longrightarrow> table_inv (ls_table st'))
     \<and> (\<not> same_store st st' \<longrightarrow> (\<exists>p. le_json env body = Some (JObj p)))
     \<and> (tb_rows (ls_table st') = tb_rows (ls_table st)
        \<or> r = Handled \<and> ls_replies st' = ls_replies st @ [(200, ''ok'')]
          \<and> (\<exists>row. tb_rows (ls_table st') = tb_rows (ls_table st) @ [row]
               \<and> ev_delivery_id row = d \<and> ev_source row = src \<and> ev_event_type row = ety
               \<and> ev_payload_json row = le_decode_replace env body \<and> ev_ingest_method row = ''webhook''))"
proof (cases "le_json env body")
  case None
  then have "r = Handled" "st' = send_reply 400 ''bad_json'' (incr (BadJson (rq_path rq)) st)"
    using assms by (simp_all add: store_payload_def)
  then show ?thesis by simp
next
  case (Some payload)
  show ?thesis
  proof (cases payload)
    case (JObj p)
    let ?r = "if ety \<in> set ALERT_EVENT_TYPES then alert_columns env p else github_columns ety p"
    obtain x st1 where ir: "insert_raw env d src ety (le_decode_replace env body) ?r st = (x, st1)" by fastforce
    note facts = insert_raw_facts[OF ir]
    show ?thesis
    proof (cases "validate_source (le_known_sources env) src")
      case (Inl e)
      then show ?thesis
        using assms Some JObj by (auto simp: store_payload_def event_from_webhook_payload_def same_store_def)
    next
      case (Inr u)
      then have "store_payload env rq src ety d body st =
          (case x of Inl e \<Rightarrow> (Crashed e, st1)
           | Inr None \<Rightarrow> (Handled, send_reply 500 ''db_error'' (incr (DbErrorMetric (rq_path rq) src) st1))
           | Inr (Some _) \<Rightarrow> (Handled, send_reply 200 ''ok'' st1))"
        using Some JObj ir by (simp add: store_payload_def event_from_webhook_payload_def)
      then show ?thesis
        using assms facts Some JObj by (auto split: sum.splits option.splits)
    qed
  qed (use assms Some in \<open>auto simp: store_payload_def event_from_webhook_payload_def same_store_def\<close>)
qed

text \<open>A body that was read in full and bears the signature of a secret.\<close>

definition signed_body :: "listener_env \<Rightarrow> request \<Rightarrow> bytes \<Rightarrow> bytes \<Rightarrow> bool" where
  "signed_body env rq secret body \<longleftrightarrow>
     body \<noteq> [] \<and> length body \<le> MAX_BODY_BYTES
     \<and> (\<exists>stream. rq_body rq = BodyBytes stream \<and> body = take (length body) stream)
     \<and> map_option py_int_of (header_get rq ''Content-Length'') = Some (Some (int (length body)))
     \<and> header_or_empty rq ''X-Hub-Signature-256'' = ''sha256='' @ le_hmac env secret body"

text \<open>Reading and checking, then the rest \<open>k\<close> of the handler.\<close>

definition with_signed_body ::
    "listener_env \<Rightarrow> request \<Rightarrow> bytes \<Rightarrow> (bytes \<Rightarrow> listener_state \<Rightarrow> handler_end \<times> listener_state)
       \<Rightarrow> listener_state \<Rightarrow> handler_end \<times> listener_state" where
  "with_signed_body env rq secret k st =
     (case read_body rq st of
        (None, st1) \<Rightarrow> (Handled, st1)
      | (Some body, st1) \<Rightarrow>
          (case verify_hmac env rq body secret st1 of
             (Inl e, st2) \<Rightarrow> (Crashed e, st2)
           | (Inr False, st2) \<Rightarrow> (Handled, st2)
           | (Inr True, st2) \<Rightarrow> k body st2))"

lemma with_signed_body_cases:
  assumes "with_signed_body env rq secret k st = (r, st')"
  shows "(same_store st st' \<and> (if r = Handled then replies_once st st' else ls_replies st' = ls_replies st))
       \<or> (\<exists>body. signed_body env rq secret body \<and> k body st = (r, st'))"
proof -
  obtain b st1 where b: "read_body rq st = (b, st1)" by fastforce
  note rb = read_body_replies[OF b]
  show ?thesis
  proof (cases b)
    case None
    then show ?thesis using assms b rb by (simp add: with_signed_body_def)
  next
    case (Some body)
    obtain v st2 where v: "verify_hmac env rq body secret st1 = (v, st2)" by fastforce
    note vh = verify_hmac_replies[OF v]
    have st1: "st1 = st" using rb Some by simp
    show ?thesis
    proof (cases v)
      case (Inl e)
      then show ?thesis using assms b v vh st1 Some by (auto simp: with_signed_body_def)
    next
      case (Inr ok)
      show ?thesis
      proof (cases ok)
        case True
        then have "signed_body env rq secret body" "st2 = st"
          using rb vh Some Inr st1 by (auto simp: signed_body_def)
        then show ?thesis using assms b v Some Inr True by (auto simp: with_signed_body_def)
      next
        case False
        then show ?thesis using assms b v vh st1 Some Inr by (auto simp: with_signed_body_def)
      qed
    qed
  qed
qed

text \<open>The secret, source and event types a path is for.\<close>

definition route :: "listener_env \<Rightarrow> request \<Rightarrow> (bytes \<times> string \<times> string \<times> string) option" where
  "route env rq =
     (if rq_path rq = ''/webhook'' then
        Some (le_secret env, ''github'', header_or_empty rq ''X-GitHub-Event'', header_or_empty rq ''X-GitHub-Delivery'')
      else if rq_path rq = ''/alertmanager'' then
        map_option (\<lambda>s. (s, ''alertmanager'', ''prometheus_alert'', header_or_empty rq ''X-Alertmanager-Delivery'')) (le_am_secret env)
      else if rq_path rq = ''/watchdog'' then
        map_option (\<lambda>s. (s, ''alertmanager'', ''prometheus_watchdog'', header_or_empty rq ''X-Alertmanager-Delivery'')) (le_am_secret env)
      else None)"

lemma do_POST_cases:
  assumes "do_POST env rq st = (r, st')"
  obtains (plain) "same_store st st'" "if r = Handled then replies_once st st' else ls_replies st' = ls_replies st"
  | (stored) secret src ety d body st0 where "route env rq = Some (secret, src, ety, d)" "d \<noteq> []"
      "ety \<in> {''workflow_run'', ''workflow_job'', ''prometheus_alert'', ''prometheus_watchdog''}"
      "signed_body env rq secret body" "same_store st st0" "ls_replies st0 = ls_replies st"
      "store_payload env rq src ety d body st0 = (r, st')"
      "src = ''github'' \<longleftrightarrow> ety \<in> {''workflow_run'', ''workflow_job''}"
proof -
  let ?st = "incr (WebhookReceived (rq_path rq)) st"
  obtain ok st1 where f: "check_request_framing rq ?st = (ok, st1)" by fastforce
  note fr = framing_replies[OF f]
  show thesis
  proof (cases ok)
    case False
    then show thesis using assms f fr plain by (auto simp: do_POST_def same_store_def replies_once_def)
  next
    case True
    then have st1: "st1 = ?st" using fr by simp
    let ?alert = "\<lambda>ety s body st. let d = header_or_empty rq ''X-Alertmanager-Delivery'' in
        if d = [] then (Handled, send_reply 400 ''missing_delivery_id'' st) else store_payload env rq ''alertmanager'' ety d body st"
    let ?github = "\<lambda>body st. let ety = header_or_empty rq ''X-GitHub-Event''; d = header_or_empty rq ''X-GitHub-Delivery'' in
        if d = [] then (Handled, send_reply 400 ''missing_delivery_id'' st)
        else if ety \<notin> {''workflow_run'', ''workflow_job''} then
          (Handled, send_reply 200 ''ignored'' (incr (WebhookIgnored (rq_path rq) (if ety = [] then ''unset'' else ety)) st))
        else store_payload env rq ''github'' ety d body st"
    have gh: "handle_github env rq = with_signed_body env rq (le_secret env) ?github"
      unfolding handle_github_def with_signed_body_def ..
    have am: "handle_alertmanager env rq ety s = with_signed_body env rq s (?alert ety s)" for ety s
      unfolding handle_alertmanager_def with_signed_body_def ..
    have base: "same_store st ?st" "ls_replies ?st = ls_replies st" by (simp_all add: same_store_def)
    show thesis
    proof (cases "route env rq")
      case None
      then show thesis
        using assms f True st1 plain
        by (auto simp: do_POST_def route_def Let_def same_store_def replies_once_def split: if_splits option.splits)
    next
      case (Some x)
      then obtain secret src ety d where rt: "route env rq = Some (secret, src, ety, d)" by (cases x) auto
      let ?k = "if rq_path rq = ''/webhook'' then ?github else ?alert ety secret"
      have "with_signed_body env rq secret ?k ?st = (r, st')"
        using assms f True st1 rt by (auto simp: do_POST_def route_def gh am split: if_splits option.splits)
      from with_signed_body_cases[OF this] show thesis
      proof (elim disjE exE conjE)
        fix body assume body: "signed_body env rq secret body" and k: "?k body ?st = (r, st')"
        show thesis
        proof (cases "d \<noteq> [] \<and> ety \<in> {''workflow_run'', ''workflow_job'', ''prometheus_alert'', ''prometheus_watchdog''}
            \<and> store_payload env rq src ety d body ?st = (r, st')
            \<and> (src = ''github'' \<longleftrightarrow> ety \<in> {''workflow_run'', ''workflow_job''})")
          case True
          then show thesis by (intro stored[OF rt _ _ body base]) simp_all
        next
          case False
          then have "same_store st st' \<and> r = Handled \<and> replies_once st st'"
            using k rt by (auto simp: route_def Let_def same_store_def replies_once_def split: if_splits)
          then show thesis using plain by simp
        qed
      qed (use plain base in \<open>auto simp: same_store_def replies_once_def split: if_splits\<close>)
    qed
  qed
qed

text \<open>C15: Nothing unsigned reaches the store. A POST that changes the table, the generator or rings
  the doorbell was sent to one of the three ingest paths, was read in full within the cap, carries
  the HMAC of its body under that path's secret, names a delivery and is a JSON object. If a row
  was added it is one row, carries the path's source and event type, the delivery and the body, and
  the request was answered 200.\<close>

theorem listener_stores_only_signed:
  assumes "do_POST env rq st = (r, st')" "\<not> same_store st st'"
  shows "\<exists>secret src ety d body p. route env rq = Some (secret, src, ety, d) \<and> d \<noteq> []
     \<and> ety \<in> {''workflow_run'', ''workflow_job'', ''prometheus_alert'', ''prometheus_watchdog''}
     \<and> signed_body env rq secret body \<and> le_json env body = Some (JObj p)
     \<and> (tb_rows (ls_table st') = tb_rows (ls_table st)
        \<or> r = Handled \<and> ls_replies st' = ls_replies st @ [(200, ''ok'')]
          \<and> (\<exists>row. tb_rows (ls_table st') = tb_rows (ls_table st) @ [row]
               \<and> ev_delivery_id row = d \<and> ev_source row = src \<and> ev_event_type row = ety
               \<and> ev_payload_json row = le_decode_replace env body \<and> ev_ingest_method row = ''webhook''))"
  using assms(1)
proof (cases rule: do_POST_cases)
  case plain
  then show ?thesis using assms(2) by simp
next
  case (stored secret src ety d body st0)
  have "\<not> same_store st0 st'" using assms(2) stored(5) by (auto simp: same_store_def)
  then obtain p where p: "le_json env body = Some (JObj p)" using store_payload_facts[OF stored(7)] by blast
  have rows: "tb_rows (ls_table st') = tb_rows (ls_table st)
        \<or> r = Handled \<and> ls_replies st' = ls_replies st @ [(200, ''ok'')]
          \<and> (\<exists>row. tb_rows (ls_table st') = tb_rows (ls_table st) @ [row]
               \<and> ev_delivery_id row = d \<and> ev_source row = src \<and> ev_event_type row = ety
               \<and> ev_payload_json row = le_decode_replace env body \<and> ev_ingest_method row = ''webhook'')"
    using store_payload_facts[OF stored(7)] stored(5,6) by (simp add: same_store_def)
  show ?thesis
    by (rule exI[of _ secret], rule exI[of _ src], rule exI[of _ ety], rule exI[of _ d], rule exI[of _ body],
        rule exI[of _ p]) (intro conjI stored(1-4) p rows)
qed

text \<open>Every POST is answered exactly once or its handler raises. A handler that raises has sent
  nothing and added no row; the table invariant holds in any case.\<close>

theorem post_answered_or_raises:
  assumes "do_POST env rq st = (r, st')" "table_inv (ls_table st)"
  shows "table_inv (ls_table st')
     \<and> (if r = Handled then replies_once st st'
        else ls_replies st' = ls_replies st \<and> tb_rows (ls_table st') = tb_rows (ls_table st))"
  using assms(1)
proof (cases rule: do_POST_cases)
  case plain
  then show ?thesis using assms(2) by (auto simp: same_store_def)
next
  case (stored secret src ety d body st0)
  show ?thesis
    using store_payload_facts[OF stored(7)] stored(5,6) assms(2)
    by (cases r) (auto simp: same_store_def replies_once_def)
qed

section \<open>Witnesses\<close>

definition sample_request :: "string \<Rightarrow> request" where
  "sample_request sig = \<lparr>rq_path = ''/webhook'',
     rq_headers = [(''content-length'', ''2''), (''X-Hub-Signature-256'', sig),
                   (''X-GitHub-Event'', ''workflow_run''), (''X-GitHub-Delivery'', ''d1'')],
     rq_body = BodyBytes [1, 2, 3]\<rparr>"

definition sample_listener :: "json \<Rightarrow> listener_env" where
  "sample_listener payload = \<lparr>le_secret = [], le_am_secret = None, le_hmac = (\<lambda>_ _. replicate 64 (CHR ''a'')),
     le_json = (\<lambda>_. Some payload), le_decode_replace = (\<lambda>_. ''{}''), le_float_text = (\<lambda>_. None),
     le_prom_owner = ''prometheus'', le_prom_repo = ''alerts'', le_known_sources = [''github'', ''alertmanager''],
     le_time_ns = 1700000000000000000, le_insert = sample_env 5000000, le_db_up = True\<rparr>"

definition listener_state0 :: listener_state where
  "listener_state0 = \<lparr>ls_ulid = ulid_state0, ls_table = empty_table, ls_db_effects = [], ls_metrics = [], ls_replies = []\<rparr>"

abbreviation "good_sig \<equiv> ''sha256='' @ replicate 64 (CHR ''a'')"

lemma sample_headers:
  "\<not> list_ex (\<lambda>h. lower (fst h) = ''transfer-encoding'') (rq_headers (sample_request sig))"
  "headers_all (sample_request sig) ''Content-Length'' = [''2'']"
  "header_or_empty (sample_request sig) ''Expect'' = []"
  "header_or_empty (sample_request sig) ''X-Hub-Signature-256'' = sig"
  "header_or_empty (sample_request sig) ''X-GitHub-Event'' = ''workflow_run''"
  "header_or_empty (sample_request sig) ''X-GitHub-Delivery'' = ''d1''"
proof -
  have names: "lower ''content-length'' = ''content-length''" "lower ''Content-Length'' = ''content-length''"
    "lower ''X-Hub-Signature-256'' = ''x-hub-signature-256''" "lower ''X-GitHub-Event'' = ''x-github-event''"
    "lower ''X-GitHub-Delivery'' = ''x-github-delivery''" "lower ''Expect'' = ''expect''"
    by code_simp+
  show "\<not> list_ex (\<lambda>h. lower (fst h) = ''transfer-encoding'') (rq_headers (sample_request sig))"
    "headers_all (sample_request sig) ''Content-Length'' = [''2'']"
    "header_or_empty (sample_request sig) ''Expect'' = []"
    "header_or_empty (sample_request sig) ''X-Hub-Signature-256'' = sig"
    "header_or_empty (sample_request sig) ''X-GitHub-Event'' = ''workflow_run''"
    "header_or_empty (sample_request sig) ''X-GitHub-Delivery'' = ''d1''"
    by (simp_all add: sample_request_def headers_all_def header_or_empty_def header_get_def names)
qed

lemma sample_post:
  "do_POST (sample_listener payload) (sample_request sig) st =
     (case verify_hmac (sample_listener payload) (sample_request sig) [1, 2] [] (incr (WebhookReceived ''/webhook'') st) of
        (Inl e, st2) \<Rightarrow> (Crashed e, st2) | (Inr False, st2) \<Rightarrow> (Handled, st2)
      | (Inr True, st2) \<Rightarrow> store_payload (sample_listener payload) (sample_request sig) ''github'' ''workflow_run'' ''d1'' [1, 2] st2)"
proof -
  have two: "py_int_of ''2'' = Some 2" by code_simp
  have cl: "header_get (sample_request sig) ''Content-Length'' = Some ''2''"
    by (simp add: header_get_def sample_headers)
  have "check_request_framing (sample_request sig) s = (True, s)" for s
    using sample_headers two cl by (simp add: check_request_framing_def MAX_BODY_BYTES_def lower_def)
  moreover have "read_body (sample_request sig) s = (Some [1, 2], s)" for s
    using two cl by (simp add: read_body_def MAX_BODY_BYTES_def sample_request_def numeral_2_eq_2)
  moreover have "rq_path (sample_request sig) = ''/webhook''" "le_secret (sample_listener payload) = []"
    by (simp_all add: sample_request_def sample_listener_def)
  moreover obtain v st2 where v: "verify_hmac (sample_listener payload) (sample_request sig) [1, 2] []
      (incr (WebhookReceived ''/webhook'') st) = (v, st2)" by fastforce
  ultimately show ?thesis
    by (cases v) (simp_all add: do_POST_def handle_github_def sample_headers split: bool.split)
qed

lemma sample_verified:
  "verify_hmac (sample_listener payload) (sample_request good_sig) [1, 2] [] st = (Inr True, st)"
proof -
  have "drop 7 good_sig = replicate 64 (CHR ''a'')" "starts_with ''sha256='' good_sig" by code_simp+
  moreover have "is_ascii (replicate 64 (CHR ''a''))" by code_simp
  ultimately show ?thesis
    by (simp add: verify_hmac_def sample_headers sample_listener_def compare_digest_def Let_def)
qed

lemma sample_post_signed:
  "do_POST (sample_listener payload) (sample_request good_sig) st =
     store_payload (sample_listener payload) (sample_request good_sig) ''github'' ''workflow_run'' ''d1'' [1, 2]
       (incr (WebhookReceived ''/webhook'') st)"
  unfolding sample_post sample_verified by simp

lemma sample_stored:
  "\<exists>st'. do_POST (sample_listener (JObj [])) (sample_request good_sig) listener_state0 = (Handled, st')
     \<and> ls_replies st' = [(200, ''ok'')] \<and> length (tb_rows (ls_table st')) = 1"
proof -
  have "case store_payload (sample_listener (JObj [])) (sample_request good_sig) ''github'' ''workflow_run'' ''d1'' [1, 2]
      (incr (WebhookReceived ''/webhook'') listener_state0) of
      (r, st') \<Rightarrow> r = Handled \<and> ls_replies st' = [(200, ''ok'')] \<and> length (tb_rows (ls_table st')) = 1"
    by code_simp
  then show ?thesis unfolding sample_post_signed by (auto split: prod.splits)
qed

theorem listener_stores_only_signed_witness:
  "\<exists>st' row. do_POST (sample_listener (JObj [])) (sample_request good_sig) listener_state0 = (Handled, st')
     \<and> tb_rows (ls_table st') = [row] \<and> ev_delivery_id row = ''d1'' \<and> ev_source row = ''github''"
proof -
  obtain st' where st': "do_POST (sample_listener (JObj [])) (sample_request good_sig) listener_state0 = (Handled, st')"
    "length (tb_rows (ls_table st')) = 1" using sample_stored by blast
  have empty: "tb_rows (ls_table listener_state0) = []" by (simp add: listener_state0_def empty_table_def)
  then have "\<not> same_store listener_state0 st'" using st'(2) by (auto simp: same_store_def)
  from listener_stores_only_signed[OF st'(1) this] show ?thesis
    using st' empty by (auto simp: route_def sample_request_def sample_headers[unfolded sample_request_def])
qed

theorem post_answered_or_raises_witness:
  "\<exists>r st'. do_POST (sample_listener (JObj [])) (sample_request good_sig) listener_state0 = (r, st') \<and> table_inv (ls_table st')"
  using post_answered_or_raises[of "sample_listener (JObj [])" "sample_request good_sig" listener_state0] sample_stored
  by (auto simp: listener_state0_def)

text \<open>Two requests nobody answers: a signed JSON array, and a signature with a non-ASCII character.\<close>

lemma signed_array_unanswered:
  "\<exists>st'. do_POST (sample_listener (JArr [])) (sample_request good_sig) listener_state0 = (Crashed PayloadNotObject, st')
     \<and> ls_replies st' = []"
  unfolding sample_post_signed
  by (simp add: store_payload_def sample_listener_def event_from_webhook_payload_def listener_state0_def)

lemma non_ascii_signature_unanswered:
  "\<exists>st'. do_POST (sample_listener (JObj [])) (sample_request (''sha256='' @ replicate 64 (char_of (233 :: nat)))) listener_state0
     = (Crashed NonAsciiSignature, st') \<and> ls_replies st' = []"
proof -
  let ?s = "''sha256='' @ replicate 64 (char_of (233 :: nat))"
  have "starts_with ''sha256='' ?s" "drop 7 ?s = replicate 64 (char_of (233 :: nat))"
    "\<not> is_ascii (replicate 64 (char_of (233 :: nat)))" by code_simp+
  then show ?thesis
    by (simp add: sample_post verify_hmac_def sample_headers compare_digest_def Let_def listener_state0_def)
qed

section \<open>The types of a stored row\<close>

definition id_ok :: "int option \<Rightarrow> bool" where
  "id_ok x \<longleftrightarrow> (case x of None \<Rightarrow> True | Some i \<Rightarrow> 0 < i \<and> i \<le> int64_max)"

lemma id_ok_bound: "id_ok (int_of (positive_int_or_none j))" "id_ok (int_of JNull)"
  by (auto simp: id_ok_def int_of_def positive_int_or_none_def split: json.split)

lemma store_payload_row:
  assumes "store_payload env rq src ety d body st = (r, st')"
    and "tb_rows (ls_table st') = tb_rows (ls_table st) @ [row]"
  obtains ow rp p where "event_insert.truncate row = typed_event env d src ety ow rp (le_decode_replace env body)
      (if ety \<in> set ALERT_EVENT_TYPES then alert_columns env p else github_columns ety p)"
proof -
  have changed: "ls_table st' \<noteq> ls_table st" using assms(2) by auto
  obtain p where p: "le_json env body = Some (JObj p)"
    using store_payload_facts[OF assms(1)] changed by (auto simp: same_store_def)
  let ?r = "if ety \<in> set ALERT_EVENT_TYPES then alert_columns env p else github_columns ety p"
  obtain x st1 where ir: "insert_raw env d src ety (le_decode_replace env body) ?r st = (x, st1)" by fastforce
  have "ls_table st' = ls_table st1 \<or> ls_table st' = ls_table st"
    using assms(1) p ir by (auto simp: store_payload_def event_from_webhook_payload_def split: sum.splits option.splits)
  then have "tb_rows (ls_table st1) = tb_rows (ls_table st) @ [row]" using changed assms(2) by auto
  from insert_raw_row[OF ir this] show thesis using that by blast
qed

text \<open>C18: A row stored by the listener has the shape of its event type. Its identifiers are absent or
  positive 64-bit integers; a run has no job columns, a job no run columns, an alert neither, and only
  an alert has alert columns; no webhook row has message columns.\<close>

theorem webhook_row_typed:
  assumes "do_POST env rq st = (r, st')" "tb_rows (ls_table st') = tb_rows (ls_table st) @ [row]"
  shows "id_ok (ev_run_id row) \<and> id_ok (ev_job_id row) \<and> id_ok (ev_parent_run_id row)
     \<and> (ev_event_type row = ''workflow_run'' \<longrightarrow>
          ev_job_id row = None \<and> ev_job_name row = None \<and> ev_parent_run_id row = None)
     \<and> (ev_event_type row = ''workflow_job'' \<longrightarrow> ev_run_id row = None \<and> ev_workflow_name row = None)
     \<and> (ev_event_type row \<in> {''prometheus_alert'', ''prometheus_watchdog''} \<longrightarrow>
          ev_source row = ''alertmanager'' \<and> ev_run_id row = None \<and> ev_job_id row = None \<and> ev_head_sha row = None)
     \<and> (ev_event_type row \<in> {''workflow_run'', ''workflow_job''} \<longrightarrow>
          ev_source row = ''github'' \<and> ev_alert_name row = None \<and> ev_alert_fingerprint row = None)
     \<and> ev_msg_to row = None \<and> ev_msg_body row = None"
  using assms(1)
proof (cases rule: do_POST_cases)
  case plain
  then show ?thesis using assms(2) by (simp add: same_store_def)
next
  case (stored secret src ety d body st0)
  have "tb_rows (ls_table st') = tb_rows (ls_table st0) @ [row]"
    using assms(2) stored(5) by (simp add: same_store_def)
  from store_payload_row[OF stored(7) this] obtain ow rp p where
    row: "event_insert.truncate row = typed_event env d src ety ow rp (le_decode_replace env body)
      (if ety \<in> set ALERT_EVENT_TYPES then alert_columns env p else github_columns ety p)" .
  have src: "ety \<in> set ALERT_EVENT_TYPES \<longleftrightarrow> src = ''alertmanager''" "src = ''alertmanager'' \<or> src = ''github''"
    using stored(1,3,8) by (auto simp: route_def ALERT_EVENT_TYPES_def split: if_splits)
  have none: "text_of env JNull = None" "int_of JNull = None" by (simp_all add: text_of_def int_of_def)
  note cols = typed_row[OF row]
  show ?thesis
  proof (cases "ety \<in> set ALERT_EVENT_TYPES")
    case True
    then show ?thesis
      using src unfolding cols
      by (auto simp: alert_columns_def raw_event0_def Let_def none id_ok_def ALERT_EVENT_TYPES_def)
  next
    case False
    then have "ety = ''workflow_run'' \<or> ety = ''workflow_job''" "src = ''github''"
      using stored(3) src by (auto simp: ALERT_EVENT_TYPES_def)
    then show ?thesis
      using False id_ok_bound unfolding cols
      by (auto simp: github_columns_def raw_event0_def Let_def none)
  qed
qed

theorem webhook_row_typed_witness:
  "\<exists>st' row. do_POST (sample_listener (JObj [])) (sample_request good_sig) listener_state0 = (Handled, st')
     \<and> tb_rows (ls_table st') = [row] \<and> id_ok (ev_run_id row) \<and> ev_msg_to row = None"
proof -
  obtain st' where st': "do_POST (sample_listener (JObj [])) (sample_request good_sig) listener_state0 = (Handled, st')"
    "length (tb_rows (ls_table st')) = 1" using sample_stored by blast
  then obtain row where row: "tb_rows (ls_table st') = [row]" by (cases "tb_rows (ls_table st')") auto
  have "tb_rows (ls_table st') = tb_rows (ls_table listener_state0) @ [row]"
    using row by (simp add: listener_state0_def empty_table_def)
  from webhook_row_typed[OF st'(1) this] show ?thesis using st'(1) row by blast
qed

end
