(* ===== verification/WB_Untrusted.thy ===== *)
theory WB_Untrusted
  imports WB_Types
begin

text \<open>
  The neutralising of untrusted text in \<open>waitbus/_untrusted.py\<close>, and the column catalogue of
  \<open>waitbus/_columns.py\<close> that says which columns need it. Text is a list of code points.
  \<open>re.sub\<close> is \<open>sub_all\<close>: the leftmost match is replaced and the scan goes on behind it. The
  patterns of the code are deterministic (a greedy star is always followed by a character outside
  it), so a match at a position is a function: the number of code points it takes. \<open>ci_eq\<close> is
  the comparison of \<open>re.IGNORECASE\<close> on the letters the patterns use, the two letters \<open>i\<close>
  and \<open>s\<close> with their non-ASCII equivalents. The locale \<open>close_tag\<close> proves once, for a
  closing tag and its replacement, that the tag cannot be forged.
\<close>

type_synonym codepoints = "nat list"

abbreviation cps :: "string \<Rightarrow> codepoints" where
  "cps s \<equiv> map of_char s"

text \<open>\<open>pattern.sub(repl, text)\<close>.\<close>

fun sub_all :: "(codepoints \<Rightarrow> nat option) \<Rightarrow> codepoints \<Rightarrow> nat \<Rightarrow> codepoints \<Rightarrow> codepoints" where
  "sub_all m rep skip [] = []"
| "sub_all m rep (Suc skip) (c # cs) = sub_all m rep skip cs"
| "sub_all m rep 0 (c # cs) =
     (case m (c # cs) of
        Some (Suc n) \<Rightarrow> rep @ sub_all m rep n cs
      | _ \<Rightarrow> c # sub_all m rep 0 cs)"

section \<open>Control characters and escape sequences\<close>

definition control_char :: "nat \<Rightarrow> bool" where
  "control_char c \<longleftrightarrow> c \<le> 8 \<or> 11 \<le> c \<and> c \<le> 31 \<or> 127 \<le> c \<and> c \<le> 159
     \<or> 0x200b \<le> c \<and> c \<le> 0x200f \<or> c = 0x2028 \<or> c = 0x2029 \<or> 0x202a \<le> c \<and> c \<le> 0x202e
     \<or> c = 0x2060 \<or> 0x2066 \<le> c \<and> c \<le> 0x2069 \<or> c = 0xfeff"

definition CONTROL_RE :: "codepoints \<Rightarrow> nat option" where
  "CONTROL_RE s = (case s of [] \<Rightarrow> None | c # _ \<Rightarrow> if control_char c then Some 1 else None)"

definition csi_len :: "codepoints \<Rightarrow> nat option" where
  "csi_len s =
     (let a = length (takeWhile (\<lambda>c. 48 \<le> c \<and> c \<le> 57 \<or> c = 59 \<or> c = 63) s);
          b = length (takeWhile (\<lambda>c. 32 \<le> c \<and> c \<le> 47) (drop a s))
      in (case drop (a + b) s of
            [] \<Rightarrow> None | c # _ \<Rightarrow> if 64 \<le> c \<and> c \<le> 126 then Some (a + b + 1) else None))"

definition osc_len :: "codepoints \<Rightarrow> nat option" where
  "osc_len s =
     (let a = length (takeWhile (\<lambda>c. c \<noteq> 7 \<and> c \<noteq> 27) s) in
      (case drop a s of
         [] \<Rightarrow> None
       | c # rest \<Rightarrow>
           (if c = 7 then Some (a + 1)
            else (case rest of [] \<Rightarrow> None | d # _ \<Rightarrow> if d = 92 then Some (a + 2) else None))))"

definition ANSI_RE :: "codepoints \<Rightarrow> nat option" where
  "ANSI_RE s =
     (case s of
        c # d # rest \<Rightarrow>
          (if c = 27 \<and> d = 91 then map_option (\<lambda>n. n + 2) (csi_len rest)
           else if c = 27 \<and> d = 93 then map_option (\<lambda>n. n + 2) (osc_len rest)
           else None)
      | _ \<Rightarrow> None)"

definition strip_control :: "codepoints \<Rightarrow> codepoints" where
  "strip_control text = sub_all CONTROL_RE [] 0 (sub_all ANSI_RE [] 0 text)"

datatype field_value = FText codepoints | FOther json

fun clean_opt :: "field_value \<Rightarrow> field_value" where
  "clean_opt (FText t) = FText (strip_control t)"
| "clean_opt v = v"

section \<open>Closing tags\<close>

datatype pat = Lit char | Spaces

definition re_space :: "nat \<Rightarrow> bool" where
  "re_space c \<longleftrightarrow> 9 \<le> c \<and> c \<le> 13 \<or> 28 \<le> c \<and> c \<le> 32 \<or> c = 133 \<or> c = 160 \<or> c = 0x1680
     \<or> 0x2000 \<le> c \<and> c \<le> 0x200a \<or> c = 0x2028 \<or> c = 0x2029 \<or> c = 0x202f \<or> c = 0x205f \<or> c = 0x3000"

definition ci_eq :: "char \<Rightarrow> nat \<Rightarrow> bool" where
  "ci_eq l c \<longleftrightarrow> c = of_char l \<or> c = of_char (to_upper_ascii l)
     \<or> l = CHR ''i'' \<and> (c = 0x130 \<or> c = 0x131) \<or> l = CHR ''s'' \<and> c = 0x17f"

fun match_pat :: "pat list \<Rightarrow> codepoints \<Rightarrow> nat option" where
  "match_pat [] s = Some 0"
| "match_pat (Spaces # ps) s =
     (let n = length (takeWhile re_space s) in map_option (\<lambda>k. n + k) (match_pat ps (drop n s)))"
| "match_pat (Lit l # ps) s =
     (case s of [] \<Rightarrow> None | c # cs \<Rightarrow> if ci_eq l c then map_option Suc (match_pat ps cs) else None)"

definition FENCE_OPEN :: string where "FENCE_OPEN = ''<waitbus:untrusted>''"
definition FENCE_CLOSE :: string where "FENCE_CLOSE = ''</waitbus:untrusted>''"
definition EXTERNAL_OPEN :: string where "EXTERNAL_OPEN = ''<external_event_data>''"
definition EXTERNAL_CLOSE :: string where "EXTERNAL_CLOSE = ''</external_event_data>''"

definition CLOSE_SPOOF_RE :: "pat list" where
  "CLOSE_SPOOF_RE = [Lit (CHR ''<''), Spaces, Lit (CHR ''/''), Spaces] @ map Lit ''waitbus''
     @ [Spaces, Lit (CHR '':''), Spaces] @ map Lit ''untrusted'' @ [Spaces, Lit (CHR ''>'')]"

definition EXTERNAL_CLOSE_SPOOF_RE :: "pat list" where
  "EXTERNAL_CLOSE_SPOOF_RE = [Lit (CHR ''<''), Spaces, Lit (CHR ''/''), Spaces] @ map Lit ''external_event_data''
     @ [Spaces, Lit (CHR ''>'')]"

definition label_char :: "nat \<Rightarrow> bool" where
  "label_char c \<longleftrightarrow> 65 \<le> c \<and> c \<le> 90 \<or> 97 \<le> c \<and> c \<le> 122 \<or> 48 \<le> c \<and> c \<le> 57 \<or> c = 46 \<or> c = 95 \<or> c = 45"

definition safe_label :: "codepoints \<Rightarrow> codepoints" where
  "safe_label label = (let l = filter label_char label in if l = [] then cps ''external'' else l)"

definition fence :: "codepoints \<Rightarrow> codepoints \<Rightarrow> codepoints" where
  "fence text label =
     (let clean = sub_all (match_pat CLOSE_SPOOF_RE) (cps ''(waitbus:untrusted)'') 0 (strip_control text) in
      cps (butlast FENCE_OPEN) @ cps '' label='' @ [34] @ safe_label label @ [34, 62] @ clean @ cps FENCE_CLOSE)"

definition wrap_external :: "codepoints \<Rightarrow> codepoints" where
  "wrap_external text =
     (let clean = sub_all (match_pat EXTERNAL_CLOSE_SPOOF_RE) (cps ''(external_event_data)'') 0 (strip_control text) in
      cps EXTERNAL_OPEN @ clean @ cps EXTERNAL_CLOSE)"

fun wrap_external_opt :: "field_value \<Rightarrow> field_value" where
  "wrap_external_opt (FText t) = (if t = [] then FText t else FText (wrap_external t))"
| "wrap_external_opt v = v"

section \<open>Control characters are gone\<close>

lemma sub_all_control: "sub_all CONTROL_RE [] n s = filter (\<lambda>c. \<not> control_char c) (drop n s)"
  by (induction "CONTROL_RE" "[] :: nat list" n s rule: sub_all.induct) (auto simp: CONTROL_RE_def)

lemma strip_control_clean: "c \<in> set (strip_control t) \<Longrightarrow> \<not> control_char c"
  by (simp add: strip_control_def sub_all_control)

lemma sub_all_no_match: "(\<And>t. m t \<noteq> None \<Longrightarrow> hd t \<notin> set s) \<Longrightarrow> sub_all m rep 0 s = s"
proof (induction s)
  case (Cons c s)
  have "m (c # s) = None" using Cons.prems[of "c # s"] by (cases "m (c # s)") auto
  then show ?case using Cons by fastforce
qed simp

lemma ansi_head: "ANSI_RE t \<noteq> None \<Longrightarrow> hd t = 27"
  by (auto simp: ANSI_RE_def split: list.splits if_splits)

lemma strip_control_idem: "strip_control (strip_control t) = strip_control t"
proof -
  have "27 \<notin> set (strip_control t)" using strip_control_clean by (force simp: control_char_def)
  then have "sub_all ANSI_RE [] 0 (strip_control t) = strip_control t"
    using ansi_head by (intro sub_all_no_match) metis
  then have "strip_control (strip_control t) = filter (\<lambda>c. \<not> control_char c) (strip_control t)"
    by (simp add: strip_control_def[of "strip_control t"] sub_all_control)
  then show ?thesis using strip_control_clean by (simp add: filter_all_id)
qed

section \<open>A closing tag cannot be forged\<close>

text \<open>The contract of a closing-tag pattern with its replacement: the pattern starts with \<open><\<close> and has
  no other \<open><\<close>; the replacement starts with a character the pattern cannot consume and has no \<open><\<close>.\<close>

locale close_tag =
  fixes m :: "codepoints \<Rightarrow> nat option" and rest :: "pat list" and rep :: codepoints
  assumes m_tag: "m = match_pat (Lit (CHR ''<'') # rest)"
    and rest_lit: "Lit l \<in> set rest \<Longrightarrow> \<not> ci_eq l 60 \<and> \<not> ci_eq l (hd rep)"
    and rep_head: "rep \<noteq> []" "\<not> re_space (hd rep)" "60 \<notin> set rep"
begin

lemma m_simps [simp]:
  "m [] = None" "m (c # s) = (if c = 60 then map_option Suc (match_pat rest s) else None)"
  by (auto simp: m_tag ci_eq_def to_upper_ascii_def is_ascii_lower_def chr_in_def)

lemma tag_head: "m s \<noteq> None \<Longrightarrow> s \<noteq> [] \<and> hd s = 60"
  by (cases s) (auto split: if_splits)

lemma sub_spaces: "list_all re_space u \<Longrightarrow> sub_all m rep 0 (u @ s) = u @ sub_all m rep 0 s"
proof (induction u)
  case (Cons c u)
  then have "m (c # u @ s) = None" by (auto simp: re_space_def)
  then show ?case using Cons by simp
qed simp

text \<open>The head of a substituted text is the head of the text or of the replacement.\<close>

lemma sub_head:
  "sub_all m rep 0 s = [] \<and> s = []
   \<or> (\<exists>c s'. s = c # s' \<and> sub_all m rep 0 s = c # sub_all m rep 0 s')
   \<or> (\<exists>t. sub_all m rep 0 s = rep @ t)"
proof (cases s)
  case (Cons c s')
  show ?thesis
  proof (cases "m (c # s')")
    case (Some n)
    then show ?thesis using Cons by (cases n) auto
  qed (use Cons in auto)
qed simp

lemma match_through_sub:
  assumes "\<And>l. Lit l \<in> set qs \<Longrightarrow> Lit l \<in> set rest"
    and "match_pat qs (sub_all m rep 0 s @ 60 # z) \<noteq> None"
  shows "match_pat qs s \<noteq> None"
  using assms
proof (induction qs arbitrary: s)
  case (Cons q qs)
  let ?sub = "sub_all m rep 0"
  show ?case
  proof (cases q)
    case (Lit l)
    then have l: "\<not> ci_eq l 60" "\<not> ci_eq l (hd rep)" using rest_lit Cons.prems(1)[of l] by auto
    have "\<not> (\<exists>t. ?sub s = rep @ t)"
      using Cons.prems(2) Lit l(2) rep_head(1) by (cases rep) (auto split: if_splits)
    moreover have "s \<noteq> []" using Cons.prems(2) Lit l(1) by auto
    ultimately obtain c s' where s: "s = c # s'" "?sub s = c # ?sub s'" using sub_head[of s] by auto
    then have "match_pat qs (?sub s' @ 60 # z) \<noteq> None" "ci_eq l c"
      using Cons.prems(2) Lit by (auto split: if_splits)
    then show ?thesis using Cons.IH[of s'] Cons.prems(1) Lit s(1) by auto
  next
    case Spaces
    define u where "u = takeWhile re_space s"
    define s' where "s' = drop (length u) s"
    have s: "s = u @ s'"
      unfolding u_def s'_def dropWhile_eq_drop[symmetric] by (rule takeWhile_dropWhile_id[symmetric])
    have u: "list_all re_space u" unfolding u_def list_all_iff using set_takeWhileD by fast
    have "s' = [] \<or> \<not> re_space (hd s')"
      unfolding s'_def u_def dropWhile_eq_drop[symmetric] using hd_dropWhile by blast
    moreover have lt: "\<not> re_space 60" by (simp add: re_space_def)
    ultimately have "\<not> re_space (hd (?sub s' @ 60 # z))"
      using sub_head[of s'] lt by (elim disjE conjE exE) (simp_all add: rep_head)
    then have "takeWhile re_space (?sub s' @ 60 # z) = []"
      by (cases "?sub s' @ 60 # z") simp_all
    then have "takeWhile re_space (?sub s @ 60 # z) = u"
      using u by (simp add: s sub_spaces[OF u] list_all_iff takeWhile_append2)
    then have "match_pat qs (?sub s' @ 60 # z) \<noteq> None"
      using Cons.prems(2) Spaces by (simp add: s sub_spaces[OF u])
    then have "match_pat qs s' \<noteq> None" using Cons.IH[of s'] Cons.prems(1) by simp
    then show ?thesis using Spaces by (simp add: u_def[symmetric] s'_def Let_def)
  qed
qed simp

lemma no_forged_tag:
  "i < length (sub_all m rep n s) \<Longrightarrow>
     m (drop i (sub_all m rep n s @ 60 # z)) = None"
proof (induction s arbitrary: n i)
  case (Cons c cs)
  let ?sub = "sub_all m rep"
  show ?case
  proof (cases n)
    case (Suc n')
    then show ?thesis using Cons by simp
  next
    case zero: 0
    show ?thesis
    proof (cases "m (c # cs)")
    case None
    show ?thesis
    proof (cases i)
      case 0
      have "m (c # ?sub 0 cs @ 60 # z) = None"
      proof (rule ccontr)
        assume "m (c # ?sub 0 cs @ 60 # z) \<noteq> None"
        then have "c = 60" "match_pat rest (?sub 0 cs @ 60 # z) \<noteq> None" by (auto split: if_splits)
        then have "match_pat rest cs \<noteq> None" using match_through_sub[of rest cs z] by blast
        then show False using None \<open>c = 60\<close> by simp
      qed
      then show ?thesis using None 0 zero by simp
    next
      case (Suc j)
      then show ?thesis using Cons.IH[of j 0] Cons.prems None zero by simp
    qed
  next
    case (Some k)
    then obtain n' where k: "k = Suc n'" by (auto split: if_splits)
    have sub: "?sub n (c # cs) = rep @ ?sub n' cs" using Some k zero by simp
    show ?thesis
    proof (cases "i < length rep")
      case True
      then have "hd (drop i (?sub n (c # cs) @ 60 # z)) \<noteq> 60"
        using rep_head(3) by (simp add: sub hd_drop_conv_nth nth_append) (metis nth_mem)
      then show ?thesis using tag_head by blast
    next
      case False
      then have "m (drop (i - length rep) (?sub n' cs @ 60 # z)) = None"
        using Cons.IH[of "i - length rep" n'] Cons.prems sub by simp
      then show ?thesis using False by (simp add: sub)
    qed
  qed
  qed
qed simp

end

interpretation fence_tag: close_tag "match_pat CLOSE_SPOOF_RE" "tl CLOSE_SPOOF_RE" "cps ''(waitbus:untrusted)''"
  by unfold_locales
    (auto simp: CLOSE_SPOOF_RE_def ci_eq_def to_upper_ascii_def is_ascii_lower_def chr_in_def re_space_def)

interpretation external_tag: close_tag "match_pat EXTERNAL_CLOSE_SPOOF_RE" "tl EXTERNAL_CLOSE_SPOOF_RE"
    "cps ''(external_event_data)''"
  by unfold_locales
    (auto simp: EXTERNAL_CLOSE_SPOOF_RE_def ci_eq_def to_upper_ascii_def is_ascii_lower_def chr_in_def re_space_def)

lemma sub_all_set: "set (sub_all m rep n s) \<subseteq> set s \<union> set rep"
  by (induction m rep n s rule: sub_all.induct) (auto split: option.splits nat.splits)

lemma safe_label_chars: "c \<in> set (safe_label l) \<Longrightarrow> label_char c"
  by (auto simp: safe_label_def Let_def label_char_def split: if_splits)

text \<open>C16: Untrusted text cannot close its fence. Both wrappers put between their opening tag and
  their closing tag a text without control characters in which no closing tag, in any spelling of
  the pattern, starts before the one the wrapper appends, not even one completed by it; and the
  label on the fence consists of letters, digits, dot, underscore and hyphen.\<close>

theorem fence_unforgeable:
  "(\<exists>clean. fence text label = cps ''<waitbus:untrusted label='' @ [34] @ safe_label label @ [34, 62]
                 @ clean @ cps FENCE_CLOSE
       \<and> (\<forall>i < length clean. match_pat CLOSE_SPOOF_RE (drop i (clean @ cps FENCE_CLOSE)) = None)
       \<and> list_all (\<lambda>c. \<not> control_char c) clean \<and> list_all label_char (safe_label label))
   \<and> (\<exists>clean. wrap_external text = cps EXTERNAL_OPEN @ clean @ cps EXTERNAL_CLOSE
       \<and> (\<forall>i < length clean. match_pat EXTERNAL_CLOSE_SPOOF_RE (drop i (clean @ cps EXTERNAL_CLOSE)) = None)
       \<and> list_all (\<lambda>c. \<not> control_char c) clean)"
proof -
  let ?c1 = "sub_all (match_pat CLOSE_SPOOF_RE) (cps ''(waitbus:untrusted)'') 0 (strip_control text)"
  let ?c2 = "sub_all (match_pat EXTERNAL_CLOSE_SPOOF_RE) (cps ''(external_event_data)'') 0 (strip_control text)"
  have ctl: "list_all (\<lambda>c. \<not> control_char c) (sub_all m rep 0 (strip_control text))"
    if "list_all (\<lambda>c. \<not> control_char c) rep" for m rep
    using that sub_all_set[of m rep 0 "strip_control text"] strip_control_clean by (auto simp: list_all_iff)
  have ctl1: "list_all (\<lambda>c. \<not> control_char c) ?c1" and ctl2: "list_all (\<lambda>c. \<not> control_char c) ?c2"
    by (rule ctl, simp add: control_char_def)+
  have close: "cps FENCE_CLOSE = 60 # tl (cps FENCE_CLOSE)" "cps EXTERNAL_CLOSE = 60 # tl (cps EXTERNAL_CLOSE)"
    by (simp_all add: FENCE_CLOSE_def EXTERNAL_CLOSE_def)
  have forge1: "\<forall>i < length ?c1. match_pat CLOSE_SPOOF_RE (drop i (?c1 @ cps FENCE_CLOSE)) = None"
    by (subst close(1)) (intro allI impI fence_tag.no_forged_tag)
  have forge2: "\<forall>i < length ?c2. match_pat EXTERNAL_CLOSE_SPOOF_RE (drop i (?c2 @ cps EXTERNAL_CLOSE)) = None"
    by (subst close(2)) (intro allI impI external_tag.no_forged_tag)
  have "fence text label = cps ''<waitbus:untrusted label='' @ [34] @ safe_label label @ [34, 62] @ ?c1 @ cps FENCE_CLOSE"
    unfolding fence_def Let_def append_assoc[symmetric] by (simp add: FENCE_OPEN_def)
  moreover have "list_all label_char (safe_label label)" using safe_label_chars by (simp add: list_all_iff)
  moreover have "wrap_external text = cps EXTERNAL_OPEN @ ?c2 @ cps EXTERNAL_CLOSE"
    unfolding wrap_external_def Let_def ..
  ultimately show ?thesis using ctl1 ctl2 forge1 forge2 by blast
qed

lemma strip_control_id:
  assumes "list_all (\<lambda>c. \<not> control_char c) t"
  shows "strip_control t = t"
proof -
  have "27 \<notin> set t" using assms by (force simp: list_all_iff control_char_def)
  then have "sub_all ANSI_RE [] 0 t = t" using ansi_head by (intro sub_all_no_match) metis
  then show ?thesis using assms by (simp add: strip_control_def sub_all_control filter_all_id list_all_iff)
qed

lemma sample_spoof: "match_pat CLOSE_SPOOF_RE (cps ''</WAITBUS:untrusted>'') = Some 20"
  by (simp add: CLOSE_SPOOF_RE_def ci_eq_def to_upper_ascii_def is_ascii_lower_def chr_in_def re_space_def)

lemma sample_fence:
  "fence (cps ''</WAITBUS:untrusted>'') (cps ''t'')
     = cps ''<waitbus:untrusted label='' @ [34] @ cps ''t'' @ [34, 62] @ cps ''(waitbus:untrusted)'' @ cps FENCE_CLOSE"
proof -
  have "strip_control (cps ''</WAITBUS:untrusted>'') = cps ''</WAITBUS:untrusted>''"
    by (rule strip_control_id) (simp add: control_char_def)
  moreover have "sub_all (match_pat CLOSE_SPOOF_RE) rep 0 (cps ''</WAITBUS:untrusted>'') = rep" for rep
  proof -
    obtain cs where cs: "cps ''</WAITBUS:untrusted>'' = 60 # cs" "length cs = 19" by simp
    have skip: "sub_all m rep (length t) t = []" for m t by (induction t) simp_all
    have "match_pat CLOSE_SPOOF_RE (60 # cs) = Some (Suc 19)" using sample_spoof cs(1) by simp
    then show ?thesis using skip[of _ cs] cs by simp
  qed
  moreover have "safe_label (cps ''t'') = cps ''t''" by (simp add: safe_label_def label_char_def)
  ultimately show ?thesis by (simp add: fence_def FENCE_OPEN_def)
qed

theorem fence_unforgeable_witness:
  "match_pat CLOSE_SPOOF_RE (drop 1 (cps ''(waitbus:untrusted)'' @ cps FENCE_CLOSE)) = None"
proof -
  obtain clean where c: "fence (cps ''</WAITBUS:untrusted>'') (cps ''t'')
      = cps ''<waitbus:untrusted label='' @ [34] @ safe_label (cps ''t'') @ [34, 62] @ clean @ cps FENCE_CLOSE"
    "\<forall>i < length clean. match_pat CLOSE_SPOOF_RE (drop i (clean @ cps FENCE_CLOSE)) = None"
    using fence_unforgeable[of "cps ''</WAITBUS:untrusted>''" "cps ''t''"] by blast
  have "safe_label (cps ''t'') = cps ''t''" by (simp add: safe_label_def label_char_def)
  then have clean: "clean = cps ''(waitbus:untrusted)''" using c(1) unfolding sample_fence by simp
  then have "1 < length clean" by simp
  with c(2) have "match_pat CLOSE_SPOOF_RE (drop 1 (clean @ cps FENCE_CLOSE)) = None" by blast
  then show ?thesis unfolding clean .
qed

end
