(* ===== verification/WB_Frame.thy ===== *)
theory WB_Frame
  imports WB_Py
begin

text \<open>
  The wire framing of \<open>waitbus/_frame.py\<close>: the frame kinds and the typed frames of protocol
  version 1, the producer-side bound and length prefix, and the four readers. A connection is the
  list of segments the kernel still has for the reader (\<open>rsock\<close>): one \<open>recv(n)\<close>
  returns at most \<open>n\<close> bytes of the first segment, and the empty byte string at EOF, so a
  reader is total in the way the stream is cut. The msgspec JSON encoder is the parameter
  \<open>enc\<close>. The lemmas show the bounds and that any sequence of frames is read back unchanged
  whatever the segmentation.
\<close>

definition FRAME_PROTO_VERSION :: int where
  "FRAME_PROTO_VERSION = 1"

definition MAX_FRAME_BYTES :: nat where
  "MAX_FRAME_BYTES = 65536"

definition LENGTH_PREFIX_BYTES :: nat where
  "LENGTH_PREFIX_BYTES = 4"

definition KIND_EVENT :: string where "KIND_EVENT = ''event''"
definition KIND_TRUNCATED :: string where "KIND_TRUNCATED = ''truncated''"
definition KIND_HEARTBEAT :: string where "KIND_HEARTBEAT = ''daemon_heartbeat''"
definition KIND_SUBSCRIBE_ACK :: string where "KIND_SUBSCRIBE_ACK = ''subscribe_ack''"
definition KIND_SUBSCRIBE_REJECTED :: string where "KIND_SUBSCRIBE_REJECTED = ''subscribe_rejected''"

lemmas KIND_defs =
  KIND_EVENT_def KIND_TRUNCATED_def KIND_HEARTBEAT_def KIND_SUBSCRIBE_ACK_def KIND_SUBSCRIBE_REJECTED_def

definition DATA_FRAME_KINDS :: "string list" where
  "DATA_FRAME_KINDS = [KIND_EVENT, KIND_TRUNCATED]"

definition CONTROL_FRAME_KINDS :: "string list" where
  "CONTROL_FRAME_KINDS = [KIND_HEARTBEAT, KIND_SUBSCRIBE_ACK, KIND_SUBSCRIBE_REJECTED]"

definition ALL_FRAME_KINDS :: "string list" where
  "ALL_FRAME_KINDS = DATA_FRAME_KINDS @ CONTROL_FRAME_KINDS"

definition DRAINABLE_CONTROL_KINDS :: "string list" where
  "DRAINABLE_CONTROL_KINDS = [KIND_HEARTBEAT, KIND_SUBSCRIBE_ACK]"

record event_frame =
  ef_event_id :: string
  ef_event_type :: string
  ef_owner :: string
  ef_repo :: string
  ef_received_at :: int
  ef_delivery_id :: string
  ef_summary :: string
  ef_fields :: dict

record truncated_frame_rec =
  tf_event_id :: string
  tf_reason :: string
  tf_correlation_id :: "string option"
  tf_max_frame_bytes :: int

record heartbeat_frame =
  hf_ts :: int
  hf_uptime_sec :: int

record rejected_frame =
  rf_reason :: string
  rf_remediation :: string
  rf_supported :: "int list option"

record ack_frame =
  af_proto :: int
  af_caught_up_at :: "string option"
  af_heartbeat_sec :: int
  af_max_frame_bytes :: int

datatype wire_frame =
    EventFrame event_frame
  | TruncatedFrame truncated_frame_rec
  | HeartbeatFrame heartbeat_frame
  | SubscribeRejectedFrame rejected_frame
  | SubscribeAckFrame ack_frame

fun opt_str :: "string option \<Rightarrow> json" where
  "opt_str None = JNull"
| "opt_str (Some s) = JStr s"

fun opt_ints :: "int list option \<Rightarrow> json" where
  "opt_ints None = JNull"
| "opt_ints (Some xs) = JArr (map JInt xs)"

text \<open>The object a Struct encodes to: its fields in declaration order, \<open>kind\<close> last.\<close>

fun frame_items :: "wire_frame \<Rightarrow> dict" where
  "frame_items (EventFrame f) =
     [(''event_id'', JStr (ef_event_id f)), (''event_type'', JStr (ef_event_type f)),
      (''owner'', JStr (ef_owner f)), (''repo'', JStr (ef_repo f)),
      (''received_at'', JInt (ef_received_at f)), (''delivery_id'', JStr (ef_delivery_id f)),
      (''summary'', JStr (ef_summary f)), (''fields'', JObj (ef_fields f)),
      (''kind'', JStr KIND_EVENT)]"
| "frame_items (TruncatedFrame f) =
     [(''event_id'', JStr (tf_event_id f)), (''reason'', JStr (tf_reason f)),
      (''correlation_id'', opt_str (tf_correlation_id f)),
      (''max_frame_bytes'', JInt (tf_max_frame_bytes f)), (''kind'', JStr KIND_TRUNCATED)]"
| "frame_items (HeartbeatFrame f) =
     [(''ts'', JInt (hf_ts f)), (''uptime_sec'', JInt (hf_uptime_sec f)),
      (''kind'', JStr KIND_HEARTBEAT)]"
| "frame_items (SubscribeRejectedFrame f) =
     [(''reason'', JStr (rf_reason f)), (''remediation'', JStr (rf_remediation f)),
      (''supported'', opt_ints (rf_supported f)), (''kind'', JStr KIND_SUBSCRIBE_REJECTED)]"
| "frame_items (SubscribeAckFrame f) =
     [(''proto'', JInt (af_proto f)), (''caught_up_at'', opt_str (af_caught_up_at f)),
      (''heartbeat_sec'', JInt (af_heartbeat_sec f)),
      (''max_frame_bytes'', JInt (af_max_frame_bytes f)), (''kind'', JStr KIND_SUBSCRIBE_ACK)]"

datatype frame_error =
    FrameTooLarge nat
  | PartialPrefix bytes
  | LengthOutOfBounds nat
  | ShortRead nat
  | ClosedMidFrame nat nat

text \<open>\<open>struct.Struct(">I")\<close>: big-endian unsigned 32-bit.\<close>

definition pack_be32 :: "nat \<Rightarrow> bytes" where
  "pack_be32 n = map (\<lambda>i. word_of_nat (n div 256 ^ i)) [3, 2, 1, 0]"

definition unpack_be32 :: "bytes \<Rightarrow> nat" where
  "unpack_be32 bs = nat (int_of_bytes_be bs)"

definition encode_frame :: "bytes \<Rightarrow> frame_error + bytes" where
  "encode_frame payload =
     (if length payload > MAX_FRAME_BYTES then Inl (FrameTooLarge (length payload))
      else Inr (pack_be32 (length payload) @ payload))"

definition encode_struct_frame :: "(json \<Rightarrow> bytes) \<Rightarrow> wire_frame \<Rightarrow> frame_error + bytes" where
  "encode_struct_frame enc f = encode_frame (enc (JObj (frame_items f)))"

definition truncated_frame ::
    "(json \<Rightarrow> bytes) \<Rightarrow> string \<Rightarrow> string \<Rightarrow> string option \<Rightarrow> frame_error + bytes" where
  "truncated_frame enc event_id reason correlation_id =
     encode_struct_frame enc
       (TruncatedFrame \<lparr>tf_event_id = event_id, tf_reason = reason,
          tf_correlation_id = correlation_id, tf_max_frame_bytes = int MAX_FRAME_BYTES\<rparr>)"

section \<open>The readers\<close>

type_synonym rsock = "bytes list"

text \<open>\<open>sock.recv(n)\<close>: the head segment, cut at \<open>n\<close>; \<open>b""\<close> at EOF.\<close>

fun recv :: "nat \<Rightarrow> rsock \<Rightarrow> bytes \<times> rsock" where
  "recv n [] = ([], [])"
| "recv n (seg # segs) =
     (if length seg \<le> n then (seg, segs) else (take n seg, drop n seg # segs))"

lemma recv_length: "recv n s = (chunk, s') \<Longrightarrow> length chunk \<le> n"
  by (cases s) (auto split: if_splits)

text \<open>\<open>_read_exactly\<close> and \<open>_sock_recv_exactly\<close>: the loop \<open>while len(buf) < n\<close>, with
  \<open>buf\<close> the bytes read so far. It terminates since every non-empty chunk adds to \<open>buf\<close>.\<close>

function read_loop :: "nat \<Rightarrow> bytes \<Rightarrow> rsock \<Rightarrow> (frame_error + bytes option) \<times> rsock" where
  "read_loop n buf s =
     (if length buf < n then
        (case recv (n - length buf) s of (chunk, s') \<Rightarrow>
           if chunk = [] then
             (if buf = [] then (Inr None, s') else (Inl (ClosedMidFrame (length buf) n), s'))
           else read_loop n (buf @ chunk) s')
      else (Inr (Some buf), s))"
  by pat_completeness auto
termination
  by (relation "measure (\<lambda>(n, buf, s). n - length buf)") (auto intro: diff_less_mono2)

declare read_loop.simps [simp del]

definition read_exactly :: "nat \<Rightarrow> rsock \<Rightarrow> (frame_error + bytes option) \<times> rsock" where
  "read_exactly n s = read_loop n [] s"

definition sock_recv_exactly :: "nat \<Rightarrow> rsock \<Rightarrow> (frame_error + bytes option) \<times> rsock" where
  "sock_recv_exactly n s = read_loop n [] s"

definition length_ok :: "nat \<Rightarrow> bool" where
  "length_ok len \<longleftrightarrow> \<not> (len = 0 \<or> len > MAX_FRAME_BYTES)"

text \<open>\<open>sync_read_frame\<close>, and \<open>read_frame_sock\<close> which awaits the same steps.\<close>

definition sync_read_frame :: "rsock \<Rightarrow> (frame_error + bytes option) \<times> rsock" where
  "sync_read_frame s =
     (case read_exactly LENGTH_PREFIX_BYTES s of
        (Inl e, s1) \<Rightarrow> (Inl e, s1)
      | (Inr None, s1) \<Rightarrow> (Inr None, s1)
      | (Inr (Some prefix), s1) \<Rightarrow>
          (let len = unpack_be32 prefix in
           if \<not> length_ok len then (Inl (LengthOutOfBounds len), s1)
           else (case read_exactly len s1 of
                   (Inl e, s2) \<Rightarrow> (Inl e, s2)
                 | (Inr None, s2) \<Rightarrow> (Inl (ShortRead len), s2)
                 | (Inr (Some payload), s2) \<Rightarrow> (Inr (Some payload), s2))))"

definition read_frame_sock :: "rsock \<Rightarrow> (frame_error + bytes option) \<times> rsock" where
  "read_frame_sock s =
     (case sock_recv_exactly LENGTH_PREFIX_BYTES s of
        (Inl e, s1) \<Rightarrow> (Inl e, s1)
      | (Inr None, s1) \<Rightarrow> (Inr None, s1)
      | (Inr (Some prefix), s1) \<Rightarrow>
          (let len = unpack_be32 prefix in
           if \<not> length_ok len then (Inl (LengthOutOfBounds len), s1)
           else (case sock_recv_exactly len s1 of
                   (Inl e, s2) \<Rightarrow> (Inl e, s2)
                 | (Inr None, s2) \<Rightarrow> (Inl (ShortRead len), s2)
                 | (Inr (Some payload), s2) \<Rightarrow> (Inr (Some payload), s2))))"

text \<open>\<open>StreamReader.readexactly(n)\<close> of asyncio: \<open>n\<close> bytes, or \<open>IncompleteReadError\<close>
  with the partial bytes when the stream ends first.\<close>

definition stream_readexactly :: "nat \<Rightarrow> bytes \<Rightarrow> (bytes + bytes) \<times> bytes" where
  "stream_readexactly n bs =
     (if length bs < n then (Inl bs, []) else (Inr (take n bs), drop n bs))"

definition read_frame :: "bytes \<Rightarrow> (frame_error + bytes option) \<times> bytes" where
  "read_frame bs =
     (case stream_readexactly LENGTH_PREFIX_BYTES bs of
        (Inl part, bs1) \<Rightarrow> (if part = [] then (Inr None, bs1) else (Inl (PartialPrefix part), bs1))
      | (Inr prefix, bs1) \<Rightarrow>
          (let len = unpack_be32 prefix in
           if \<not> length_ok len then (Inl (LengthOutOfBounds len), bs1)
           else (case stream_readexactly len bs1 of
                   (Inl part, bs2) \<Rightarrow> (Inl (ShortRead len), bs2)
                 | (Inr payload, bs2) \<Rightarrow> (Inr (Some payload), bs2))))"

section \<open>Reading does not depend on the segmentation\<close>

abbreviation live_segs :: "rsock \<Rightarrow> bool" where
  "live_segs s \<equiv> [] \<notin> set s"

lemma recv_live:
  assumes "live_segs s" "0 < n" "recv n s = (chunk, s')"
  shows "concat s = chunk @ concat s'" "live_segs s'" "chunk = [] \<longleftrightarrow> concat s = []"
  using assms by (cases s; auto split: if_splits)+

lemma concat_Nil_live: "live_segs s \<Longrightarrow> concat s = [] \<longleftrightarrow> s = []"
  by (cases s) auto

lemma read_loop_enough:
  assumes "live_segs s" "n \<le> length buf + length (concat s)" "length buf \<le> n"
  shows "\<exists>s'. read_loop n buf s = (Inr (Some (buf @ take (n - length buf) (concat s))), s')
              \<and> concat s' = drop (n - length buf) (concat s) \<and> live_segs s'"
  using assms
proof (induction n buf s rule: read_loop.induct)
  case (1 n buf s)
  show ?case
  proof (cases "length buf < n")
    case False
    then show ?thesis using 1(2-4) by (auto simp: read_loop.simps)
  next
    case True
    obtain chunk s1 where r: "recv (n - length buf) s = (chunk, s1)" by fastforce
    note rl = recv_live[OF 1(2) _ r]
    have "concat s \<noteq> []"
      using True 1(3) by (cases "concat s") (simp_all del: concat_eq_Nil_conv)
    then have ne: "chunk \<noteq> []" using rl(3) True by simp
    have len: "length chunk \<le> n - length buf" by (rule recv_length[OF r])
    have c: "concat s = chunk @ concat s1" using rl(1) True by simp
    have "length (buf @ chunk) \<le> n" using len True by simp
    with 1(1)[OF True r[symmetric] ne] rl(2) True 1(3)
    obtain s' where "read_loop n (buf @ chunk) s1
        = (Inr (Some ((buf @ chunk) @ take (n - length (buf @ chunk)) (concat s1))), s')"
      and "concat s' = drop (n - length (buf @ chunk)) (concat s1)" "live_segs s'"
      by (auto simp: c)
    then show ?thesis
      using True ne len by (subst read_loop.simps) (auto simp: r c)
  qed
qed

lemma read_loop_short:
  assumes "live_segs s" "length buf + length (concat s) < n"
  shows "read_loop n buf s =
    (if buf = [] \<and> s = [] then Inr None else Inl (ClosedMidFrame (length buf + length (concat s)) n), [])"
  using assms
proof (induction n buf s rule: read_loop.induct)
  case (1 n buf s)
  then have lt: "length buf < n" by simp
  obtain chunk s1 where r: "recv (n - length buf) s = (chunk, s1)" by fastforce
  note rl = recv_live[OF 1(2) _ r]
  have c: "concat s = chunk @ concat s1" using rl(1) lt by simp
  show ?case
  proof (cases "chunk = []")
    case True
    then have "s = []" using rl(3) lt 1(2) concat_Nil_live by auto
    then show ?thesis using lt by (subst read_loop.simps) auto
  next
    case False
    from 1(1)[OF lt r[symmetric] False] rl(2) lt 1(3)
    have "read_loop n (buf @ chunk) s1 = (Inl (ClosedMidFrame (length buf + length (concat s)) n), [])"
      using False by (simp add: c add.assoc)
    moreover have "s \<noteq> []" using c False by auto
    ultimately show ?thesis using lt False by (subst read_loop.simps) (auto simp: r)
  qed
qed

lemma read_exactly_live:
  assumes "live_segs s" "0 < n"
  shows "\<exists>s'. read_exactly n s =
           ((if n \<le> length (concat s) then Inr (Some (take n (concat s)))
             else if s = [] then Inr None
             else Inl (ClosedMidFrame (length (concat s)) n)), s')
         \<and> concat s' = drop n (concat s) \<and> live_segs s'"
proof (cases "n \<le> length (concat s)")
  case True
  then show ?thesis
    using read_loop_enough[OF assms(1), of n "[]"] by (auto simp: read_exactly_def)
next
  case False
  then show ?thesis
    using read_loop_short[OF assms(1), of "[]" n] by (auto simp: read_exactly_def)
qed

section \<open>Framing\<close>

lemma length_pack_be32 [simp]: "length (pack_be32 n) = 4"
  by (simp add: pack_be32_def)

lemma unpack_pack_be32:
  assumes "n < 2 ^ 32"
  shows "unpack_be32 (pack_be32 n) = n"
proof -
  let ?d = "\<lambda>i. n div 256 ^ i mod 256"
  have w: "uint (word_of_nat k :: byte) = int (k mod 256)" for k
    by (simp add: unsigned_of_nat take_bit_eq_mod)
  have "int_of_bytes_be (pack_be32 n)
      = int (((?d 3 * 256 + ?d 2) * 256 + ?d 1) * 256 + ?d 0)"
    by (simp add: int_of_bytes_be_def pack_be32_def w)
  moreover have "((?d 3 * 256 + ?d 2) * 256 + ?d 1) * 256 + ?d 0 = n"
  proof -
    have "n div 16777216 < 256" using assms by (simp add: less_mult_imp_div_less)
    then have "?d 3 = n div 65536 div 256" by (simp add: div_mult2_eq[symmetric])
    moreover have "?d 2 = n div 65536 mod 256" "?d 1 = n div 256 mod 256" "?d 0 = n mod 256"
      by simp_all
    moreover have "n div 65536 = n div 256 div 256" by (simp add: div_mult2_eq[symmetric])
    ultimately show ?thesis by (metis div_mult_mod_eq)
  qed
  ultimately show ?thesis unfolding unpack_be32_def by (simp only: nat_int)
qed

lemma encode_frame_Inr:
  "encode_frame p = Inr w \<longleftrightarrow> length p \<le> MAX_FRAME_BYTES \<and> w = pack_be32 (length p) @ p"
  by (auto simp: encode_frame_def)

lemma encode_frame_length:
  "encode_frame p = Inr w \<Longrightarrow> length w = length p + LENGTH_PREFIX_BYTES"
  by (simp add: encode_frame_Inr LENGTH_PREFIX_BYTES_def)

lemma MAX_FRAME_BYTES_lt: "n \<le> MAX_FRAME_BYTES \<Longrightarrow> n < 2 ^ 32"
  by (simp add: MAX_FRAME_BYTES_def)

text \<open>One frame off a stream that starts with an encoded non-empty payload.\<close>

lemma sync_read_frame_encoded:
  assumes "live_segs s" "encode_frame p = Inr w" "p \<noteq> []" "concat s = w @ rest"
  shows "\<exists>s'. sync_read_frame s = (Inr (Some p), s') \<and> concat s' = rest \<and> live_segs s'"
proof -
  have w: "w = pack_be32 (length p) @ p" and le: "length p \<le> MAX_FRAME_BYTES"
    using assms(2) by (simp_all add: encode_frame_Inr)
  have c: "concat s = pack_be32 (length p) @ p @ rest" using assms(4) w by simp
  obtain s1 where s1: "read_exactly LENGTH_PREFIX_BYTES s = (Inr (Some (pack_be32 (length p))), s1)"
      "concat s1 = p @ rest" "live_segs s1"
    using read_exactly_live[OF assms(1), of 4] by (auto simp: c LENGTH_PREFIX_BYTES_def)
  obtain s2 where s2: "read_exactly (length p) s1 = (Inr (Some p), s2)" "concat s2 = rest" "live_segs s2"
    using read_exactly_live[OF s1(3), of "length p"] assms(3) s1(2) by auto
  show ?thesis
    using s1(1) s2 assms(3) le unpack_pack_be32[OF MAX_FRAME_BYTES_lt[OF le]]
    by (auto simp: sync_read_frame_def length_ok_def)
qed

lemma sync_read_frame_eof: "sync_read_frame [] = (Inr None, [])"
  by (simp add: sync_read_frame_def read_exactly_def read_loop.simps LENGTH_PREFIX_BYTES_def)

text \<open>A subscriber's read loop: frames until EOF, an error, or \<open>fuel\<close> frames.\<close>

datatype stream_end = Eof | Failed frame_error | MoreExpected

fun read_stream :: "nat \<Rightarrow> rsock \<Rightarrow> bytes list \<times> stream_end" where
  "read_stream 0 s = ([], MoreExpected)"
| "read_stream (Suc fuel) s =
     (case sync_read_frame s of
        (Inl e, s') \<Rightarrow> ([], Failed e)
      | (Inr None, s') \<Rightarrow> ([], Eof)
      | (Inr (Some p), s') \<Rightarrow> (case read_stream fuel s' of (ps, st) \<Rightarrow> (p # ps, st)))"

lemma frame_stream_reads:
  assumes "live_segs s" "[] \<notin> set ps" "length ps < fuel"
    and "res_map_list encode_frame ps = Inr ws" "concat s = concat ws"
  shows "read_stream fuel s = (ps, Eof)"
  using assms
proof (induction ps arbitrary: s ws fuel)
  case Nil
  then have "s = []" using concat_Nil_live by (simp add: concat_Nil_live)
  then show ?case using Nil.prems(3) by (cases fuel) (auto simp: sync_read_frame_eof)
next
  case (Cons p ps)
  obtain w ws' where w: "encode_frame p = Inr w" "res_map_list encode_frame ps = Inr ws'" "ws = w # ws'"
    using Cons.prems(4) by auto
  obtain s' where "sync_read_frame s = (Inr (Some p), s')" "concat s' = concat ws'" "live_segs s'"
    using sync_read_frame_encoded[OF Cons.prems(1) w(1), of "concat ws'"] Cons.prems(2,5) w(3) by auto
  then show ?case
    using Cons.IH[OF _ _ _ w(2)] Cons.prems(2,3) by (cases fuel) auto
qed

text \<open>C4: Whatever non-empty payloads a producer frames with \<open>encode_frame\<close>, and however the
  kernel cuts the concatenated byte stream into segments, the subscriber's read loop returns
  exactly these payloads, in order, and then a clean EOF.\<close>

theorem frame_stream_roundtrip:
  assumes "live_segs s" "[] \<notin> set ps" "length ps < fuel"
    and "res_map_list encode_frame ps = Inr ws" "concat s = concat ws"
  shows "read_stream fuel s = (ps, Eof)"
  by (rule frame_stream_reads[OF assms])

theorem frame_stream_roundtrip_witness:
  "read_stream 3 [[0, 0], [0, 2, 7], [8, 0, 0, 0], [1, 9]] = ([[7, 8], [9]], Eof)"
proof (rule frame_stream_roundtrip)
  show "res_map_list encode_frame [[7, 8], [9 :: byte]] = Inr [[0, 0, 0, 2, 7, 8], [0, 0, 0, 1, 9]]"
    by (simp add: encode_frame_def MAX_FRAME_BYTES_def pack_be32_def)
qed simp_all

section \<open>What a successful read consumed, and the agreement of the readers\<close>

lemma pack_unpack_be32:
  assumes "length bs = 4"
  shows "pack_be32 (unpack_be32 bs) = bs"
proof -
  obtain a b c d where bs: "bs = [a, b, c, d]"
    using assms by (auto simp: numeral_eq_Suc length_Suc_conv)
  have lt: "unat x < 256" for x :: byte
  proof -
    have "unat x < 2 ^ LENGTH(8)" by (rule unsigned_less)
    then show ?thesis by simp
  qed
  let ?n = "((unat a * 256 + unat b) * 256 + unat c) * 256 + unat d"
  have "int_of_bytes_be bs = int ?n" by (simp add: bs int_of_bytes_be_def)
  then have n: "unpack_be32 bs = ?n" unfolding unpack_be32_def by (simp only: nat_int)
  have n1: "?n div 256 = (unat a * 256 + unat b) * 256 + unat c" using lt[of d] by simp
  have n2: "?n div 65536 = unat a * 256 + unat b"
  proof -
    have "?n div 65536 = ?n div 256 div 256" by (simp only: div_mult2_eq[symmetric]) simp
    then show ?thesis using lt[of c] unfolding n1 by simp
  qed
  have n3: "?n div 16777216 = unat a"
  proof -
    have "?n div 16777216 = ?n div 65536 div 256" by (simp only: div_mult2_eq[symmetric]) simp
    then show ?thesis using lt[of b] unfolding n2 by simp
  qed
  have m: "word_of_nat (k * 256 + unat x) = x" for k and x :: byte
    using lt[of x] by (simp add: word_unat_eq_iff unsigned_of_nat take_bit_eq_mod del: of_nat_add of_nat_mult)
  have m1: "word_of_nat (unat x) = x" for x :: byte by simp
  have "pack_be32 ?n = map word_of_nat [?n div 16777216, ?n div 65536, ?n div 256, ?n]"
    by (simp add: pack_be32_def)
  also have "\<dots> = bs"
    unfolding n1 n2 n3 by (simp only: list.map m m1 bs)
  finally show ?thesis using n by simp
qed

text \<open>A frame a reader accepts is non-empty, within the bound, and the bytes consumed are
  exactly its \<open>encode_frame\<close> image: whatever a peer sends, no byte of the next frame is eaten.\<close>

theorem sync_read_frame_consumes:
  assumes "live_segs s" "sync_read_frame s = (Inr (Some p), s')"
  shows "0 < length p \<and> length p \<le> MAX_FRAME_BYTES
       \<and> (\<exists>w. encode_frame p = Inr w \<and> concat s = w @ concat s')"
proof -
  obtain pre s1 where pre: "read_exactly LENGTH_PREFIX_BYTES s = (Inr (Some pre), s1)"
    and ok: "length_ok (unpack_be32 pre)"
    and pay: "read_exactly (unpack_be32 pre) s1 = (Inr (Some p), s')"
    using assms(2)
    by (auto simp: sync_read_frame_def Let_def split: sum.splits option.splits prod.splits if_splits)
  have p1: "4 \<le> length (concat s)" "pre = take 4 (concat s)" "concat s1 = drop 4 (concat s)" "live_segs s1"
    using read_exactly_live[OF assms(1), of 4] pre
    by (auto simp: LENGTH_PREFIX_BYTES_def split: if_splits)
  let ?n = "unpack_be32 pre"
  have n: "0 < ?n" "?n \<le> MAX_FRAME_BYTES" using ok by (auto simp: length_ok_def)
  have p2: "?n \<le> length (concat s1)" "p = take ?n (concat s1)" "concat s' = drop ?n (concat s1)"
    using read_exactly_live[OF p1(4) n(1)] pay by (auto split: if_splits)
  have len: "length p = ?n" using p2(1,2) by simp
  have "length pre = 4" using p1(1,2) by simp
  then have "pack_be32 (length p) = pre" using len pack_unpack_be32 by simp
  moreover have "concat s = pre @ p @ concat s'"
    using p1(2,3) p2(2,3) by (metis append_take_drop_id)
  ultimately show ?thesis using n len by (simp add: encode_frame_Inr)
qed

theorem sync_read_frame_consumes_witness:
  "0 < length [7 :: byte] \<and> (\<exists>w. encode_frame [7] = Inr w \<and> concat [[0, 0], [0, 1, 7, 5]] = w @ [5])"
proof -
  have "sync_read_frame [[0, 0], [0, 1, 7, 5 :: byte]] = (Inr (Some [7]), [[5]])"
    by (simp add: sync_read_frame_def read_exactly_def read_loop.simps unpack_be32_def
        int_of_bytes_be_def length_ok_def MAX_FRAME_BYTES_def LENGTH_PREFIX_BYTES_def)
  from sync_read_frame_consumes[OF _ this] show ?thesis by simp
qed

text \<open>What the caller of a reader sees: \<open>None\<close> for a \<open>ConnectionError\<close> of any text.\<close>

fun reader_result :: "frame_error + bytes option \<Rightarrow> bytes option option" where
  "reader_result (Inl _) = None"
| "reader_result (Inr r) = Some r"

text \<open>C5: The blocking reader, the raw-socket reader of the daemon and the asyncio stream reader
  agree on every byte stream and every segmentation of it: the same payload, the same clean EOF
  and a \<open>ConnectionError\<close> in the same cases; after a payload the same bytes are left.\<close>

theorem readers_agree:
  assumes "live_segs s"
  shows "reader_result (fst (sync_read_frame s)) = reader_result (fst (read_frame (concat s)))
       \<and> read_frame_sock s = sync_read_frame s
       \<and> (\<forall>p. fst (sync_read_frame s) = Inr (Some p)
              \<longrightarrow> concat (snd (sync_read_frame s)) = snd (read_frame (concat s)))"
proof -
  obtain s1 where s1: "read_exactly 4 s =
      ((if 4 \<le> length (concat s) then Inr (Some (take 4 (concat s)))
        else if s = [] then Inr None else Inl (ClosedMidFrame (length (concat s)) 4)), s1)"
    "concat s1 = drop 4 (concat s)" "live_segs s1"
    using read_exactly_live[OF assms, of 4] by auto
  let ?n = "unpack_be32 (take 4 (concat s))"
  have s2: "\<exists>s2. read_exactly ?n s1 =
      ((if ?n \<le> length (concat s1) then Inr (Some (take ?n (concat s1)))
        else if s1 = [] then Inr None else Inl (ClosedMidFrame (length (concat s1)) ?n)), s2)
      \<and> concat s2 = drop ?n (concat s1)" if "length_ok ?n"
    using read_exactly_live[OF s1(3), of ?n] that by (auto simp: length_ok_def)
  have sock: "read_frame_sock s = sync_read_frame s"
    by (simp only: read_frame_sock_def sync_read_frame_def sock_recv_exactly_def[abs_def] read_exactly_def[abs_def])
  show ?thesis
  proof (cases "4 \<le> length (concat s)")
    case False
    then have "s = [] \<longleftrightarrow> concat s = []" using concat_Nil_live[OF assms] by simp
    then show ?thesis
      using s1(1) False sock
      by (auto simp: sync_read_frame_def read_frame_def stream_readexactly_def LENGTH_PREFIX_BYTES_def
          simp del: concat_eq_Nil_conv)
  next
    case True
    show ?thesis
    proof (cases "length_ok ?n")
      case False
      then show ?thesis using s1(1) True sock
        by (simp add: sync_read_frame_def read_frame_def stream_readexactly_def LENGTH_PREFIX_BYTES_def)
    next
      case ok: True
      from s2[OF ok] s1(1,2) True sock ok show ?thesis
        by (auto simp: sync_read_frame_def read_frame_def stream_readexactly_def LENGTH_PREFIX_BYTES_def
            Let_def not_le split: if_splits)
    qed
  qed
qed

theorem readers_agree_witness:
  "read_frame_sock [[0, 0, 0], [2, 7], [8]] = sync_read_frame [[0, 0, 0], [2, 7], [8 :: byte]]"
  using readers_agree[of "[[0, 0, 0], [2, 7], [8 :: byte]]"] by simp

end
