(* ===== verification/WB_Subscriber.thy ===== *)
theory WB_Subscriber
  imports WB_Frame
begin

text \<open>
  One connected client of the broadcast daemon: the class \<open>Subscriber\<close> of
  \<open>waitbus/broadcast.py\<close> and the validators of the subscribe envelope.

  The non-blocking socket is the record \<open>sock\<close>: \<open>sk_script\<close> holds the kernel's answers to
  the coming \<open>send\<close> calls (accept so many bytes, EAGAIN, or an error, after which the stream
  is dead), \<open>sk_wire\<close> the bytes the kernel has accepted. Two fields of \<open>subscriber\<close> are
  history variables the code does not have and no operation reads: \<open>sub_sent\<close> lists the frames
  handed to the socket or to \<open>enqueue\<close>, \<open>sub_delivered\<close> counts this subscriber's share of
  \<open>waitbus_broadcast_events_delivered_total\<close>.

  \<open>wire_fifo\<close> is the contract the daemon relies on: the wire followed by what is still pending
  is what was sent, in order.
\<close>

definition PER_SUBSCRIBER_SNDBUF :: nat where
  "PER_SUBSCRIBER_SNDBUF = 1048576"

definition LAG_LIMIT :: nat where
  "LAG_LIMIT = 10"

definition PRE_ACK_BUFFER_FRAMES :: nat where
  "PRE_ACK_BUFFER_FRAMES = LAG_LIMIT"

definition PRE_ACK_BUFFER_BYTES :: nat where
  "PRE_ACK_BUFFER_BYTES = LAG_LIMIT * (MAX_FRAME_BYTES + LENGTH_PREFIX_BYTES)"

datatype send_answer = Accepts nat | WouldBlock | Broken

datatype send_result = Sent nat | BlockingIO | SockError

record sock =
  sk_script :: "send_answer list"
  sk_wire :: bytes
  sk_dead :: bool
  sk_registerable :: bool

text \<open>\<open>sock.send(view)\<close>: at least one byte when it accepts, at most the whole view. With no
  answer scripted the kernel buffer is full.\<close>

definition sock_send :: "bytes \<Rightarrow> sock \<Rightarrow> send_result \<times> sock" where
  "sock_send view k =
     (if sk_dead k then (SockError, k)
      else (case sk_script k of
              [] \<Rightarrow> (BlockingIO, k)
            | WouldBlock # as \<Rightarrow> (BlockingIO, k\<lparr>sk_script := as\<rparr>)
            | Broken # as \<Rightarrow> (SockError, k\<lparr>sk_script := as, sk_dead := True\<rparr>)
            | Accepts n # as \<Rightarrow>
                (let m = min (max 1 n) (length view) in
                 (Sent m, k\<lparr>sk_script := as, sk_wire := sk_wire k @ take m view\<rparr>))))"

type_synonym tx_entry = "bytes \<times> bool"

record subscriber =
  sub_sock :: sock
  sub_filters :: "string list"
  sub_event_types :: "string list"
  sub_lag_count :: nat
  sub_remote_uid :: nat
  sub_replay_watermark :: "int option"
  sub_pre_ack_buffer :: "bytes list option"
  sub_pre_ack_buffered_bytes :: nat
  sub_tx_queue :: "tx_entry list"
  sub_draining :: bool
  sub_sent :: "tx_entry list"
  sub_delivered :: nat

definition new_subscriber :: "sock \<Rightarrow> string list \<Rightarrow> string list \<Rightarrow> nat \<Rightarrow> subscriber" where
  "new_subscriber k filters event_types remote_uid =
     \<lparr>sub_sock = k, sub_filters = filters, sub_event_types = event_types, sub_lag_count = 0,
      sub_remote_uid = remote_uid, sub_replay_watermark = None, sub_pre_ack_buffer = None,
      sub_pre_ack_buffered_bytes = 0, sub_tx_queue = [], sub_draining = False,
      sub_sent = [], sub_delivered = 0\<rparr>"

text \<open>\<open>matches\<close>: the event type first, then the filters in order.\<close>

fun filters_match :: "string list \<Rightarrow> string \<Rightarrow> string \<Rightarrow> bool" where
  "filters_match [] owner repo = False"
| "filters_match (f # fs) owner repo =
     (if f = ''*'' then True
      else if f = owner @ ''/'' @ repo then True
      else if ends_with ''/*'' f \<and> take (length f - 2) f = owner then True
      else filters_match fs owner repo)"

definition matches :: "subscriber \<Rightarrow> string \<Rightarrow> string \<Rightarrow> string \<Rightarrow> bool" where
  "matches s owner repo event_type =
     (if event_type \<notin> set (sub_event_types s) then False
      else filters_match (sub_filters s) owner repo)"

definition tx_buffered_bytes :: "subscriber \<Rightarrow> nat" where
  "tx_buffered_bytes s = sum_list (map (length \<circ> fst) (sub_tx_queue s))"

text \<open>\<open>_start_draining\<close> and \<open>_stop_draining\<close>: the writability callback is armed when the
  descriptor can be registered with the running loop.\<close>

definition start_draining :: "subscriber \<Rightarrow> subscriber" where
  "start_draining s =
     (if sub_draining s then s
      else if \<not> sk_registerable (sub_sock s) then s
      else s\<lparr>sub_draining := True\<rparr>)"

definition stop_draining :: "subscriber \<Rightarrow> subscriber" where
  "stop_draining s = (if \<not> sub_draining s then s else s\<lparr>sub_draining := False\<rparr>)"

definition tx_append :: "bytes \<Rightarrow> bool \<Rightarrow> subscriber \<Rightarrow> subscriber" where
  "tx_append view c s = s\<lparr>sub_tx_queue := sub_tx_queue s @ [(view, c)]\<rparr>"

definition lag_incr :: "subscriber \<Rightarrow> subscriber" where
  "lag_incr s = s\<lparr>sub_lag_count := sub_lag_count s + 1\<rparr>"

definition record_sent :: "bytes \<Rightarrow> bool \<Rightarrow> subscriber \<Rightarrow> subscriber" where
  "record_sent blob c s = s\<lparr>sub_sent := sub_sent s @ [(blob, c)]\<rparr>"

definition count_delivered :: "bool \<Rightarrow> subscriber \<Rightarrow> subscriber" where
  "count_delivered c s = (if c then s\<lparr>sub_delivered := sub_delivered s + 1\<rparr> else s)"

text \<open>\<open>enqueue\<close> returns whether the frame was fully sent at once. \<open>record_sent\<close> only writes
  the history.\<close>

definition enqueue :: "bytes \<Rightarrow> bool \<Rightarrow> subscriber \<Rightarrow> bool \<times> subscriber" where
  "enqueue blob counts s0 =
     (let s = record_sent blob counts s0 in
      if sub_tx_queue s \<noteq> [] then
        (False, start_draining (lag_incr (tx_append blob counts s)))
      else (case sock_send blob (sub_sock s) of
              (BlockingIO, k) \<Rightarrow>
                (False, lag_incr (start_draining (tx_append blob counts (s\<lparr>sub_sock := k\<rparr>))))
            | (SockError, k) \<Rightarrow> (False, s\<lparr>sub_sock := k, sub_lag_count := LAG_LIMIT\<rparr>)
            | (Sent n, k) \<Rightarrow>
                (if n = length blob then
                   (True, count_delivered counts (s\<lparr>sub_sock := k, sub_lag_count := 0\<rparr>))
                 else
                   (False, lag_incr (start_draining
                      (tx_append (drop n blob) counts (s\<lparr>sub_sock := k\<rparr>)))))))"

text \<open>\<open>_drain\<close>: the loop over the queue; \<open>DrainWaits\<close> is a return that waits for the next
  writability signal, \<open>DrainDied\<close> a dead peer, \<open>DrainDone\<close> the emptied queue.\<close>

datatype drain_end = DrainWaits | DrainDied | DrainDone

fun drain_loop :: "tx_entry list \<Rightarrow> sock \<Rightarrow> nat \<Rightarrow> tx_entry list \<times> sock \<times> nat \<times> drain_end" where
  "drain_loop [] k d = ([], k, d, DrainDone)"
| "drain_loop ((view, counts) # q) k d =
     (case sock_send view k of
        (BlockingIO, k') \<Rightarrow> ((view, counts) # q, k', d, DrainWaits)
      | (SockError, k') \<Rightarrow> ([], k', d, DrainDied)
      | (Sent n, k') \<Rightarrow>
          (if n < length view then ((drop n view, counts) # q, k', d, DrainWaits)
           else drain_loop q k' (if counts then d + 1 else d)))"

definition drain :: "subscriber \<Rightarrow> subscriber" where
  "drain s =
     (case drain_loop (sub_tx_queue s) (sub_sock s) (sub_delivered s) of
        (q, k, d, e) \<Rightarrow>
          (let s' = s\<lparr>sub_tx_queue := q, sub_sock := k, sub_delivered := d\<rparr> in
           case e of
             DrainWaits \<Rightarrow> s'
           | DrainDied \<Rightarrow> stop_draining (s'\<lparr>sub_lag_count := LAG_LIMIT\<rparr>)
           | DrainDone \<Rightarrow> stop_draining (s'\<lparr>sub_lag_count := 0\<rparr>)))"

section \<open>The subscribe-envelope validators\<close>

datatype subscribe_error =
    FiltersNotArray | TooManyFilters nat | InvalidFilter json
  | EventTypesNotArray | NoRecognizedEventType
  | EnvelopeReserved | EnvelopeNotString | UnknownEnvelope string
  | SinceNotString | SinceMalformed

definition MAX_FILTERS_PER_SUBSCRIBER :: nat where
  "MAX_FILTERS_PER_SUBSCRIBER = 64"

definition slug_char :: "char \<Rightarrow> bool" where
  "slug_char c \<longleftrightarrow> is_ascii_upper c \<or> is_ascii_lower c \<or> is_ascii_digit c \<or> c \<in> {CHR ''_'', CHR ''.'', CHR ''-''}"

definition filter_body :: "string \<Rightarrow> bool" where
  "filter_body s \<longleftrightarrow> s = ''*''
     \<or> (case partition_on (CHR ''/'') s of
          (a, found, b) \<Rightarrow> found \<and> a \<noteq> [] \<and> list_all slug_char a
                         \<and> (b = ''*'' \<or> (b \<noteq> [] \<and> list_all slug_char b)))"

definition FILTER_RE :: "string \<Rightarrow> bool" where
  "FILTER_RE = dollar_match filter_body"

definition ulid_char :: "char \<Rightarrow> bool" where
  "ulid_char c \<longleftrightarrow> is_ascii_digit c \<or> chr_in 65 72 c \<or> chr_in 74 75 c \<or> chr_in 77 78 c
                 \<or> chr_in 80 84 c \<or> chr_in 86 90 c"

definition ULID_RE :: "string \<Rightarrow> bool" where
  "ULID_RE = dollar_match (\<lambda>s. length s = 26 \<and> list_all ulid_char s)"

fun check_filter :: "json \<Rightarrow> subscribe_error + string" where
  "check_filter (JStr f) = (if FILTER_RE f then Inr f else Inl (InvalidFilter (JStr f)))"
| "check_filter j = Inl (InvalidFilter j)"

fun validate_subscribe_filters :: "json \<Rightarrow> subscribe_error + string list" where
  "validate_subscribe_filters JNull = Inr [''*'']"
| "validate_subscribe_filters (JArr fs) =
     (if length fs > MAX_FILTERS_PER_SUBSCRIBER then Inl (TooManyFilters (length fs))
      else res_bind (res_map_list check_filter fs) (\<lambda>out. Inr (if out = [] then [''*''] else out)))"
| "validate_subscribe_filters _ = Inl FiltersNotArray"

text \<open>The supported types are the union over the registered sources; a frozenset is a list
  without repetition.\<close>

fun accepted_types :: "string list \<Rightarrow> json list \<Rightarrow> string list" where
  "accepted_types supported [] = []"
| "accepted_types supported (JStr t # ts) =
     (if t \<in> set supported then t # removeAll t (accepted_types supported ts)
      else accepted_types supported ts)"
| "accepted_types supported (_ # ts) = accepted_types supported ts"

fun validate_subscribe_event_types :: "string list \<Rightarrow> json \<Rightarrow> subscribe_error + string list" where
  "validate_subscribe_event_types supported JNull = Inr supported"
| "validate_subscribe_event_types supported (JArr ts) =
     (let accepted = accepted_types supported ts in
      if accepted = [] then Inl NoRecognizedEventType else Inr accepted)"
| "validate_subscribe_event_types supported _ = Inl EventTypesNotArray"

fun validate_subscribe_envelope :: "json \<Rightarrow> subscribe_error + unit" where
  "validate_subscribe_envelope JNull = Inr ()"
| "validate_subscribe_envelope (JStr e) =
     (if e = ''diffs'' then Inr ()
      else if e = ''upsert'' then Inl EnvelopeReserved
      else Inl (UnknownEnvelope e))"
| "validate_subscribe_envelope _ = Inl EnvelopeNotString"

fun validate_since_cursor :: "json \<Rightarrow> subscribe_error + string option" where
  "validate_since_cursor JNull = Inr None"
| "validate_since_cursor (JStr s) = (if ULID_RE s then Inr (Some s) else Inl SinceMalformed)"
| "validate_since_cursor _ = Inl SinceNotString"

section \<open>The invariant of the outbound path\<close>

text \<open>The frames handed over split into those wholly on the wire (\<open>done\<close>) and those pending
  (\<open>pend\<close>), of which the first may be on the wire up to the proper prefix \<open>part\<close>; the queue
  holds exactly the rest, unless the peer is dead.\<close>

fun torn :: "bytes \<Rightarrow> tx_entry list \<Rightarrow> bool" where
  "torn part [] \<longleftrightarrow> part = []"
| "torn part ((b, c) # q) \<longleftrightarrow> length part < length b \<and> part = take (length part) b"

fun remaining :: "bytes \<Rightarrow> tx_entry list \<Rightarrow> tx_entry list" where
  "remaining part [] = []"
| "remaining part ((b, c) # q) = (drop (length part) b, c) # q"

definition count_true :: "tx_entry list \<Rightarrow> nat" where
  "count_true fs = length (filter snd fs)"

definition sub_split :: "subscriber \<Rightarrow> tx_entry list \<Rightarrow> bytes \<Rightarrow> tx_entry list \<Rightarrow> bool" where
  "sub_split s sent part pend \<longleftrightarrow>
     sub_sent s = sent @ pend \<and> sk_wire (sub_sock s) = concat (map fst sent) @ part
     \<and> sub_delivered s = count_true sent \<and> torn part pend
     \<and> sub_tx_queue s = (if sk_dead (sub_sock s) then [] else remaining part pend)"

definition sub_inv :: "subscriber \<Rightarrow> bool" where
  "sub_inv s \<longleftrightarrow>
     (\<exists>sent part pend. sub_split s sent part pend)
     \<and> (\<forall>f\<in>set (sub_sent s). fst f \<noteq> [])
     \<and> length (sub_tx_queue s) \<le> sub_lag_count s
     \<and> (sk_dead (sub_sock s) \<longrightarrow> LAG_LIMIT \<le> sub_lag_count s)
     \<and> (sub_draining s \<longrightarrow> sub_tx_queue s \<noteq> [])
     \<and> (sk_registerable (sub_sock s) \<and> sub_tx_queue s \<noteq> [] \<longrightarrow> sub_draining s)"

lemma count_true_simps [simp]:
  "count_true [] = 0" "count_true (f # fs) = (if snd f then Suc (count_true fs) else count_true fs)"
  "count_true (fs @ gs) = count_true fs + count_true gs"
  by (simp_all add: count_true_def)

lemma remaining_Nil [simp]: "remaining part pend = [] \<longleftrightarrow> pend = []"
  by (cases pend) auto

lemma Nil_remaining [simp]: "[] = remaining part pend \<longleftrightarrow> pend = []"
  by (cases pend) auto

lemma remaining_fresh [simp]: "remaining [] pend = pend"
  by (cases pend) auto

lemma remaining_append: "pend \<noteq> [] \<Longrightarrow> remaining part (pend @ q) = remaining part pend @ q"
  by (cases pend) auto

lemma length_remaining [simp]: "length (remaining part pend) = length pend"
  by (cases pend) auto

lemma torn_append: "pend \<noteq> [] \<Longrightarrow> torn part (pend @ q) = torn part pend"
  by (cases pend) auto

lemma torn_bytes: "torn part pend \<Longrightarrow> part @ concat (map fst (remaining part pend)) = concat (map fst pend)"
  by (cases pend) (auto, metis append_take_drop_id append_assoc)

text \<open>The four outcomes of one \<open>send\<close>.\<close>

lemma sock_send_cases:
  assumes "sock_send view k = (r, k')"
  obtains (blocked) "r = BlockingIO" "\<not> sk_dead k" "\<not> sk_dead k'" "sk_wire k' = sk_wire k" "sk_registerable k' = sk_registerable k"
  | (failed) "r = SockError" "sk_dead k'" "sk_wire k' = sk_wire k" "sk_registerable k' = sk_registerable k"
  | (accepted) n where "r = Sent n" "\<not> sk_dead k" "\<not> sk_dead k'" "n \<le> length view" "view \<noteq> [] \<longrightarrow> 0 < n"
      "sk_wire k' = sk_wire k @ take n view" "sk_registerable k' = sk_registerable k"
proof (cases "sk_dead k")
  case True
  then show thesis using assms failed by (simp add: sock_send_def)
next
  case alive: False
  show thesis
  proof (cases "sk_script k")
    case Nil
    then show thesis using assms alive blocked by (simp add: sock_send_def)
  next
    case (Cons a as)
    show thesis
    proof (cases a)
      case (Accepts n)
      let ?m = "min (max 1 n) (length view)"
      show thesis
        by (rule accepted[of ?m]) (use assms alive Cons Accepts in \<open>auto simp: sock_send_def Let_def\<close>)
    next
      case WouldBlock
      then show thesis using assms alive Cons blocked by (auto simp: sock_send_def)
    next
      case Broken
      then show thesis using assms alive Cons failed by (auto simp: sock_send_def)
    qed
  qed
qed

lemma start_draining_simps [simp]:
  "sub_sock (start_draining s) = sub_sock s" "sub_sent (start_draining s) = sub_sent s"
  "sub_tx_queue (start_draining s) = sub_tx_queue s" "sub_lag_count (start_draining s) = sub_lag_count s"
  "sub_delivered (start_draining s) = sub_delivered s"
  "sub_draining (start_draining s) \<longleftrightarrow> sub_draining s \<or> sk_registerable (sub_sock s)"
  "sub_filters (start_draining s) = sub_filters s" "sub_event_types (start_draining s) = sub_event_types s"
  "sub_replay_watermark (start_draining s) = sub_replay_watermark s"
  "sub_pre_ack_buffer (start_draining s) = sub_pre_ack_buffer s"
  "sub_pre_ack_buffered_bytes (start_draining s) = sub_pre_ack_buffered_bytes s"
  by (simp_all add: start_draining_def)

lemma stop_draining_simps [simp]:
  "sub_sock (stop_draining s) = sub_sock s" "sub_sent (stop_draining s) = sub_sent s"
  "sub_tx_queue (stop_draining s) = sub_tx_queue s" "sub_lag_count (stop_draining s) = sub_lag_count s"
  "sub_delivered (stop_draining s) = sub_delivered s" "\<not> sub_draining (stop_draining s)"
  "sub_filters (stop_draining s) = sub_filters s" "sub_event_types (stop_draining s) = sub_event_types s"
  "sub_replay_watermark (stop_draining s) = sub_replay_watermark s"
  "sub_pre_ack_buffer (stop_draining s) = sub_pre_ack_buffer s"
  "sub_pre_ack_buffered_bytes (stop_draining s) = sub_pre_ack_buffered_bytes s"
  by (simp_all add: stop_draining_def)

lemmas enqueue_parts = record_sent_def tx_append_def lag_incr_def count_delivered_def

lemma enqueue_frame [simp]:
  "sub_sent (snd (enqueue b c s)) = sub_sent s @ [(b, c)]"
  "sub_filters (snd (enqueue b c s)) = sub_filters s"
  "sub_event_types (snd (enqueue b c s)) = sub_event_types s"
  "sub_replay_watermark (snd (enqueue b c s)) = sub_replay_watermark s"
  "sub_pre_ack_buffer (snd (enqueue b c s)) = sub_pre_ack_buffer s"
  "sub_pre_ack_buffered_bytes (snd (enqueue b c s)) = sub_pre_ack_buffered_bytes s"
  by (auto simp: enqueue_def Let_def enqueue_parts split: send_result.splits prod.splits)

lemma drain_frame [simp]:
  "sub_sent (drain s) = sub_sent s"
  "sub_filters (drain s) = sub_filters s"
  "sub_event_types (drain s) = sub_event_types s"
  "sub_replay_watermark (drain s) = sub_replay_watermark s"
  "sub_pre_ack_buffer (drain s) = sub_pre_ack_buffer s"
  "sub_pre_ack_buffered_bytes (drain s) = sub_pre_ack_buffered_bytes s"
  by (auto simp: drain_def Let_def split: prod.splits drain_end.splits)

lemma torn_snoc: "torn part pend \<Longrightarrow> b \<noteq> [] \<Longrightarrow> torn part (pend @ [(b, c)])"
  by (cases pend) auto

lemma sub_invI:
  assumes "sub_split s sent part pend" "\<forall>f\<in>set (sub_sent s). fst f \<noteq> []"
    and "length (sub_tx_queue s) \<le> sub_lag_count s"
    and "sk_dead (sub_sock s) \<Longrightarrow> LAG_LIMIT \<le> sub_lag_count s"
    and "sub_draining s \<Longrightarrow> sub_tx_queue s \<noteq> []"
    and "sk_registerable (sub_sock s) \<Longrightarrow> sub_tx_queue s \<noteq> [] \<Longrightarrow> sub_draining s"
  shows "sub_inv s"
  using assms unfolding sub_inv_def by blast

lemma enqueue_inv:
  assumes inv: "sub_inv s" and b: "b \<noteq> []"
  shows "sub_inv (snd (enqueue b c s))"
proof -
  obtain sent part pend where sp: "sub_split s sent part pend"
    using inv by (auto simp: sub_inv_def)
  have facts: "sub_sent s = sent @ pend" "sk_wire (sub_sock s) = concat (map fst sent) @ part"
    "sub_delivered s = count_true sent" "torn part pend"
    "sub_tx_queue s = (if sk_dead (sub_sock s) then [] else remaining part pend)"
    using sp by (simp_all add: sub_split_def)
  have ne: "\<forall>f\<in>set (sub_sent (snd (enqueue b c s))). fst f \<noteq> []"
    using inv b by (auto simp: sub_inv_def)
  show ?thesis
  proof (cases "sub_tx_queue s = []")
    case False
    then have alive: "\<not> sk_dead (sub_sock s)" and pend: "pend \<noteq> []"
      using facts(5) by (auto split: if_splits)
    have "sub_split (snd (enqueue b c s)) sent part (pend @ [(b, c)])"
      using False alive facts
      by (simp add: sub_split_def enqueue_def Let_def enqueue_parts remaining_append[OF pend] torn_snoc b)
    then show ?thesis
      by (rule sub_invI[OF _ ne])
         (use False alive inv in \<open>auto simp: enqueue_def Let_def enqueue_parts sub_inv_def\<close>)
  next
    case True
    obtain r k where send: "sock_send b (sub_sock s) = (r, k)" by fastforce
    note unf = enqueue_def Let_def enqueue_parts True send
    from send show ?thesis
    proof (cases rule: sock_send_cases)
      case blocked
      then have "pend = []" "part = []" using facts(4,5) True by auto
      then have "sub_split (snd (enqueue b c s)) sent [] [(b, c)]"
        using blocked facts b by (simp add: sub_split_def unf)
      then show ?thesis
        by (rule sub_invI[OF _ ne]) (use blocked in \<open>auto simp: unf\<close>)
    next
      case failed
      have "sub_split (snd (enqueue b c s)) sent part (pend @ [(b, c)])"
        using failed facts b torn_snoc by (simp add: sub_split_def unf)
      then show ?thesis
        by (rule sub_invI[OF _ ne]) (use failed inv in \<open>auto simp: unf sub_inv_def\<close>)
    next
      case (accepted n)
      then have nil: "pend = []" "part = []" using facts(4,5) True by auto
      show ?thesis
      proof (cases "n = length b")
        case full: True
        then have "sub_split (snd (enqueue b c s)) (sent @ [(b, c)]) [] []"
          using accepted facts nil by (simp add: sub_split_def unf)
        then show ?thesis
          by (rule sub_invI[OF _ ne]) (use accepted full inv in \<open>auto simp: unf sub_inv_def split: if_splits\<close>)
      next
        case partial: False
        then have "sub_split (snd (enqueue b c s)) sent (take n b) [(b, c)]"
          using accepted facts nil by (simp add: sub_split_def unf min_def)
        then show ?thesis
          by (rule sub_invI[OF _ ne]) (use accepted partial in \<open>auto simp: unf\<close>)
      qed
    qed
  qed
qed

lemma drain_loop_split:
  assumes "drain_loop (remaining part pend) k d = (q, k', d', e)" "torn part pend" "\<not> sk_dead k"
    and "\<forall>f\<in>set pend. fst f \<noteq> []" "sk_wire k = w @ part"
  shows "\<exists>flushed part' pend'. pend = flushed @ pend' \<and> sk_wire k' = w @ concat (map fst flushed) @ part'
           \<and> d' = d + count_true flushed \<and> torn part' pend' \<and> sk_registerable k' = sk_registerable k
           \<and> (case e of DrainWaits \<Rightarrow> \<not> sk_dead k' \<and> q = remaining part' pend' \<and> q \<noteq> []
                      | DrainDied \<Rightarrow> sk_dead k' \<and> q = []
                      | DrainDone \<Rightarrow> \<not> sk_dead k' \<and> q = [] \<and> pend' = [])"
  using assms
proof (induction pend arbitrary: part k d w)
  case (Cons f pend)
  obtain b c where f: "f = (b, c)" by (cases f)
  have part: "length part < length b" "part = take (length part) b" using Cons.prems(2) by (auto simp: f)
  have b: "part @ drop (length part) b = b" by (metis append_take_drop_id part(2))
  obtain r k1 where send: "sock_send (drop (length part) b) k = (r, k1)" by fastforce
  from send show ?case
  proof (cases rule: sock_send_cases)
    case blocked
    have "pend = pend" by simp
    show ?thesis
      by (rule exI[of _ "[]"], rule exI[of _ part], rule exI[of _ "f # pend"])
         (use Cons.prems blocked send f in auto)
  next
    case failed
    show ?thesis
      by (rule exI[of _ "[]"], rule exI[of _ part], rule exI[of _ "f # pend"])
         (use Cons.prems failed send f in auto)
  next
    case (accepted n)
    show ?thesis
    proof (cases "n < length (drop (length part) b)")
      case True
      have tk: "part @ take n (drop (length part) b) = take (length part + n) b"
        using b by (metis take_add part(2))
      show ?thesis
        by (rule exI[of _ "[]"], rule exI[of _ "take (length part + n) b"], rule exI[of _ "f # pend"])
           (use Cons.prems accepted send f True tk in \<open>auto simp: add.commute\<close>)
    next
      case False
      then have n: "n = length (drop (length part) b)" using accepted by simp
      have wire: "sk_wire k1 = (w @ b) @ []" using accepted n b Cons.prems(5) by simp
      have "drain_loop (remaining [] pend) k1 (if c then d + 1 else d) = (q, k', d', e)"
        using Cons.prems(1) send accepted n by (simp add: f)
      moreover have "torn [] pend" using Cons.prems(4) by (cases pend) auto
      ultimately obtain fl part' pend' where ih: "pend = fl @ pend'"
        "sk_wire k' = (w @ b) @ concat (map fst fl) @ part'"
        "d' = (if c then d + 1 else d) + count_true fl" "torn part' pend'"
        "sk_registerable k' = sk_registerable k1"
        "case e of DrainWaits \<Rightarrow> \<not> sk_dead k' \<and> q = remaining part' pend' \<and> q \<noteq> []
                 | DrainDied \<Rightarrow> sk_dead k' \<and> q = [] | DrainDone \<Rightarrow> \<not> sk_dead k' \<and> q = [] \<and> pend' = []"
        using Cons.IH[OF _ _ accepted(3) _ wire] Cons.prems(4) by (metis list.set_intros(2))
      show ?thesis
        by (rule exI[of _ "f # fl"], rule exI[of _ part'], rule exI[of _ pend'])
           (use ih accepted f in auto)
    qed
  qed
qed auto

text \<open>The callback only runs while it is armed, so the queue is not empty and the peer not yet
  known to be dead.\<close>

lemma drain_inv:
  assumes inv: "sub_inv s" and armed: "sub_draining s"
  shows "sub_inv (drain s)"
proof -
  obtain sent part pend where sp: "sub_split s sent part pend"
    using inv by (auto simp: sub_inv_def)
  have q: "sub_tx_queue s \<noteq> []" using inv armed by (auto simp: sub_inv_def)
  have alive: "\<not> sk_dead (sub_sock s)" using sp q by (auto simp: sub_split_def)
  have facts: "sub_sent s = sent @ pend" "sk_wire (sub_sock s) = concat (map fst sent) @ part"
    "sub_delivered s = count_true sent" "torn part pend" "sub_tx_queue s = remaining part pend"
    using sp alive by (simp_all add: sub_split_def)
  have ne: "\<forall>f\<in>set (sub_sent (drain s)). fst f \<noteq> []" using inv by (simp add: sub_inv_def)
  have ne': "\<forall>f\<in>set pend. fst f \<noteq> []" using inv facts(1) by (auto simp: sub_inv_def)
  obtain q' k' d' e where run: "drain_loop (sub_tx_queue s) (sub_sock s) (sub_delivered s) = (q', k', d', e)"
    by (metis prod_cases4)
  obtain fl part' pend' where fl: "pend = fl @ pend'"
    "sk_wire k' = concat (map fst sent) @ concat (map fst fl) @ part'" "d' = sub_delivered s + count_true fl"
    "torn part' pend'" "sk_registerable k' = sk_registerable (sub_sock s)"
    "case e of DrainWaits \<Rightarrow> \<not> sk_dead k' \<and> q' = remaining part' pend' \<and> q' \<noteq> []
             | DrainDied \<Rightarrow> sk_dead k' \<and> q' = [] | DrainDone \<Rightarrow> \<not> sk_dead k' \<and> q' = [] \<and> pend' = []"
    using drain_loop_split[OF run[unfolded facts(5)] facts(4) alive ne' facts(2)] by blast
  have "sub_split (drain s) (sent @ fl) part' pend'"
    using fl facts run by (auto simp: sub_split_def drain_def Let_def split: drain_end.splits)
  moreover have "length pend' \<le> sub_lag_count s"
    using inv facts(5) fl(1) by (simp add: sub_inv_def)
  ultimately show ?thesis
    by (rule_tac sub_invI[OF _ ne])
       (use fl run armed q in \<open>auto simp: drain_def Let_def split: drain_end.splits\<close>)
qed

lemma new_subscriber_inv [simp]:
  "sk_wire k = [] \<Longrightarrow> \<not> sk_dead k \<Longrightarrow> sub_inv (new_subscriber k fs ts uid)"
  by (rule sub_invI[of _ "[]" "[]" "[]"]) (auto simp: new_subscriber_def sub_split_def)

section \<open>The outbound contract as an interface\<close>

datatype tx_op = TxSend bytes bool | TxFlush

fun tx_frames :: "tx_op list \<Rightarrow> tx_entry list" where
  "tx_frames [] = []"
| "tx_frames (TxSend b c # ops) = (b, c) # tx_frames ops"
| "tx_frames (TxFlush # ops) = tx_frames ops"

text \<open>A schedule of sends and writability callbacks; a callback only runs while armed.\<close>

fun tx_run :: "(bytes \<Rightarrow> bool \<Rightarrow> 's \<Rightarrow> 's) \<Rightarrow> ('s \<Rightarrow> 's) \<Rightarrow> ('s \<Rightarrow> bool) \<Rightarrow> tx_op list \<Rightarrow> 's \<Rightarrow> 's" where
  "tx_run snd_f fl armed [] s = s"
| "tx_run snd_f fl armed (TxSend b c # ops) s = tx_run snd_f fl armed ops (snd_f b c s)"
| "tx_run snd_f fl armed (TxFlush # ops) s = tx_run snd_f fl armed ops (if armed s then fl s else s)"

locale wire_fifo =
  fixes inv :: "'s \<Rightarrow> bool"
    and send :: "bytes \<Rightarrow> bool \<Rightarrow> 's \<Rightarrow> 's"
    and flush :: "'s \<Rightarrow> 's"
    and armed :: "'s \<Rightarrow> bool"
    and dead :: "'s \<Rightarrow> bool"
    and handed :: "'s \<Rightarrow> tx_entry list"
    and wire :: "'s \<Rightarrow> bytes"
    and pending :: "'s \<Rightarrow> bytes"
  assumes send_inv: "inv s \<Longrightarrow> b \<noteq> [] \<Longrightarrow> inv (send b c s)"
    and flush_inv: "inv s \<Longrightarrow> armed s \<Longrightarrow> inv (flush s)"
    and handed_send: "handed (send b c s) = handed s @ [(b, c)]"
    and handed_flush: "handed (flush s) = handed s"
    and alive_wire: "inv s \<Longrightarrow> \<not> dead s \<Longrightarrow> wire s @ pending s = concat (map fst (handed s))"
    and wire_prefix: "inv s \<Longrightarrow> \<exists>rest. concat (map fst (handed s)) = wire s @ rest"
begin

lemma run_handed: "handed (tx_run send flush armed ops s) = handed s @ tx_frames ops"
  by (induction ops arbitrary: s rule: tx_frames.induct) (auto simp: handed_send handed_flush)

lemma run_inv:
  "inv s \<Longrightarrow> \<forall>f\<in>set (tx_frames ops). fst f \<noteq> [] \<Longrightarrow> inv (tx_run send flush armed ops s)"
  by (induction ops arbitrary: s rule: tx_frames.induct) (auto simp: send_inv flush_inv)

lemma run_wire:
  assumes "inv s" "\<forall>f\<in>set (tx_frames ops). fst f \<noteq> []" "s' = tx_run send flush armed ops s"
  shows "\<not> dead s' \<Longrightarrow> wire s' @ pending s' = concat (map fst (handed s @ tx_frames ops))"
    and "\<exists>rest. concat (map fst (handed s @ tx_frames ops)) = wire s' @ rest"
  using alive_wire[of s'] wire_prefix[of s'] run_inv[OF assms(1,2)] run_handed[of ops s]
  by (simp_all add: assms(3))

end

definition tx_pending :: "subscriber \<Rightarrow> bytes" where
  "tx_pending s = concat (map fst (sub_tx_queue s))"

lemma sub_split_wire:
  "sub_split s sent part pend \<Longrightarrow> \<not> sk_dead (sub_sock s)
     \<Longrightarrow> sk_wire (sub_sock s) @ tx_pending s = concat (map fst (sub_sent s))"
  using torn_bytes[of part pend] by (simp add: sub_split_def tx_pending_def)

lemma sub_split_prefix:
  "sub_split s sent part pend \<Longrightarrow> \<exists>rest. concat (map fst (sub_sent s)) = sk_wire (sub_sock s) @ rest"
  using torn_bytes[of part pend, symmetric] by (auto simp: sub_split_def)

interpretation sub_tx: wire_fifo sub_inv "\<lambda>b c s. snd (enqueue b c s)" drain sub_draining
  "\<lambda>s. sk_dead (sub_sock s)" sub_sent "\<lambda>s. sk_wire (sub_sock s)" tx_pending
proof unfold_locales
  show "sub_inv s \<Longrightarrow> \<not> sk_dead (sub_sock s) \<Longrightarrow>
      sk_wire (sub_sock s) @ tx_pending s = concat (map fst (sub_sent s))" for s
    unfolding sub_inv_def using sub_split_wire by blast
  show "sub_inv s \<Longrightarrow> \<exists>rest. concat (map fst (sub_sent s)) = sk_wire (sub_sock s) @ rest" for s
    unfolding sub_inv_def using sub_split_prefix by blast
qed (simp_all add: enqueue_inv drain_inv)

abbreviation sub_run :: "tx_op list \<Rightarrow> subscriber \<Rightarrow> subscriber" where
  "sub_run \<equiv> tx_run (\<lambda>b c s. snd (enqueue b c s)) drain sub_draining"

section \<open>Properties of the outbound path\<close>

text \<open>C7: Whatever frames are sent to a subscriber, whatever the kernel answers and however
  writability callbacks interleave, the bytes on its wire are whole frames in send order, of which
  the last may be cut only at the end: wire plus queue is exactly the concatenation of the frames
  as long as the peer lives, and a prefix of it afterwards; the delivered counter is the number of
  counting frames that are wholly on the wire.\<close>

theorem subscriber_wire_fifo:
  assumes "\<forall>f\<in>set (tx_frames ops). fst f \<noteq> []" "sk_wire k = []" "\<not> sk_dead k"
    and "s = sub_run ops (new_subscriber k fs ts uid)"
  shows "(\<not> sk_dead (sub_sock s) \<longrightarrow>
            sk_wire (sub_sock s) @ tx_pending s = concat (map fst (tx_frames ops)))
       \<and> (\<exists>sent part pend. tx_frames ops = sent @ pend
            \<and> sk_wire (sub_sock s) = concat (map fst sent) @ part \<and> torn part pend
            \<and> sub_delivered s = count_true sent)"
proof -
  let ?s0 = "new_subscriber k fs ts uid"
  have inv: "sub_inv s"
    unfolding assms(4) by (rule sub_tx.run_inv[OF new_subscriber_inv[OF assms(2,3)] assms(1)])
  have "sub_sent s = tx_frames ops"
    using sub_tx.run_handed[of ops ?s0] by (simp add: assms(4) new_subscriber_def)
  then show ?thesis
    using sub_tx.run_wire(1)[OF new_subscriber_inv[OF assms(2,3)] assms(1,4)] inv
    by (auto simp: new_subscriber_def sub_inv_def sub_split_def)
qed

definition sample_sock :: "send_answer list \<Rightarrow> sock" where
  "sample_sock as = \<lparr>sk_script = as, sk_wire = [], sk_dead = False, sk_registerable = True\<rparr>"

definition sample_sub :: "send_answer list \<Rightarrow> subscriber" where
  "sample_sub as = new_subscriber (sample_sock as) [''*''] [''workflow_run''] 1000"

definition sample_tx :: "tx_op list" where
  "sample_tx = [TxSend [1, 2, 3] True, TxSend [4, 5] True, TxFlush, TxSend [6] False]"

lemmas tx_eval = sample_tx_def sample_sub_def sample_sock_def new_subscriber_def enqueue_def drain_def
  sock_send_def Let_def enqueue_parts start_draining_def stop_draining_def LAG_LIMIT_def tx_pending_def

theorem subscriber_wire_fifo_witness:
  "let s = sub_run sample_tx (sample_sub [Accepts 1, Accepts 2, Accepts 1])
   in sk_wire (sub_sock s) = [1, 2, 3, 4] \<and> sk_wire (sub_sock s) @ tx_pending s = [1, 2, 3, 4, 5, 6]"
proof -
  let ?s = "sub_run sample_tx (sample_sub [Accepts 1, Accepts 2, Accepts 1])"
  have "sk_wire (sub_sock ?s) = [1, 2, 3, 4] \<and> \<not> sk_dead (sub_sock ?s)"
    by (simp add: tx_eval)
  then show ?thesis
    using subscriber_wire_fifo[of sample_tx "sample_sock [Accepts 1, Accepts 2, Accepts 1]" ?s
        "[''*'']" "[''workflow_run'']" 1000]
    by (simp add: sample_tx_def sample_sock_def sample_sub_def)
qed

text \<open>The memory a subscriber can hold is bounded by its lag: the queue never has more
  entries than \<open>lag_count\<close>, so one that is not yet due for eviction buffers fewer than
  \<open>LAG_LIMIT\<close> frames and fewer than \<open>LAG_LIMIT\<close> maximal frames of bytes.\<close>

theorem tx_queue_bounded:
  assumes "\<forall>f\<in>set (tx_frames ops). fst f \<noteq> [] \<and> length (fst f) \<le> MAX_FRAME_BYTES + LENGTH_PREFIX_BYTES"
    and "sk_wire k = []" "\<not> sk_dead k" "s = sub_run ops (new_subscriber k fs ts uid)"
    and "sub_lag_count s < LAG_LIMIT"
  shows "length (sub_tx_queue s) < LAG_LIMIT
       \<and> tx_buffered_bytes s \<le> (LAG_LIMIT - 1) * (MAX_FRAME_BYTES + LENGTH_PREFIX_BYTES)"
proof -
  let ?m = "MAX_FRAME_BYTES + LENGTH_PREFIX_BYTES"
  have ne: "\<forall>f\<in>set (tx_frames ops). fst f \<noteq> []" using assms(1) by blast
  have inv: "sub_inv s"
    unfolding assms(4) by (rule sub_tx.run_inv[OF new_subscriber_inv[OF assms(2,3)] ne])
  have sent: "sub_sent s = tx_frames ops"
    using sub_tx.run_handed[of ops "new_subscriber k fs ts uid"] by (simp add: assms(4) new_subscriber_def)
  obtain flushed part pend where sp: "sub_split s flushed part pend" using inv by (auto simp: sub_inv_def)
  have len: "length (sub_tx_queue s) \<le> sub_lag_count s" using inv by (simp add: sub_inv_def)
  have le: "sum_list (map (length \<circ> fst) (remaining part pend)) \<le> length pend * ?m"
    if "\<forall>f\<in>set pend. length (fst f) \<le> ?m" for part pend
    using that
  proof (induction pend arbitrary: part)
    case (Cons f pend)
    then show ?case using Cons.IH[of "[]"] by (cases f) force
  qed simp
  have "\<forall>f\<in>set pend. length (fst f) \<le> ?m"
    using assms(1) sp sent by (auto simp: sub_split_def)
  then have "tx_buffered_bytes s \<le> length (sub_tx_queue s) * ?m"
    using le[of pend part] sp by (auto simp: tx_buffered_bytes_def sub_split_def)
  also have "\<dots> \<le> (LAG_LIMIT - 1) * ?m"
    using len assms(5) by (intro mult_le_mono1) simp
  finally show ?thesis using len assms(5) by simp
qed

theorem tx_queue_bounded_witness:
  "tx_buffered_bytes (sub_run sample_tx (sample_sub [Accepts 1])) \<le> 9 * 65540"
proof -
  let ?s = "sub_run sample_tx (sample_sub [Accepts 1])"
  have "sub_lag_count ?s < LAG_LIMIT" by (simp add: tx_eval)
  from tx_queue_bounded[of sample_tx "sample_sock [Accepts 1]" ?s "[''*'']" "[''workflow_run'']" 1000, OF _ _ _ _ this]
  show ?thesis
    by (simp add: sample_tx_def sample_sock_def sample_sub_def MAX_FRAME_BYTES_def LENGTH_PREFIX_BYTES_def LAG_LIMIT_def)
qed

lemma drain_loop_accepting:
  assumes "length q \<le> length as" "\<not> sk_dead k" "sk_script k = as"
    and "\<forall>a\<in>set (take (length q) as). \<exists>n. a = Accepts n \<and> (\<forall>e\<in>set q. length (fst e) \<le> n)"
  shows "\<exists>k' d'. drain_loop q k d = ([], k', d', DrainDone) \<and> \<not> sk_dead k'
           \<and> sk_wire k' = sk_wire k @ concat (map fst q) \<and> d' = d + count_true q"
  using assms
proof (induction q arbitrary: as k d)
  case (Cons e q)
  obtain b c where e: "e = (b, c)" by (cases e)
  obtain a as' where as: "as = a # as'" using Cons.prems(1) by (cases as) auto
  obtain n where n: "a = Accepts n" "length b \<le> n" using Cons.prems(4) by (auto simp: as e)
  let ?k1 = "k\<lparr>sk_script := as', sk_wire := sk_wire k @ b\<rparr>"
  have send: "sock_send b k = (Sent (length b), ?k1)"
    using Cons.prems(2,3) n by (simp add: sock_send_def as min_def)
  have "\<forall>a\<in>set (take (length q) as'). \<exists>n. a = Accepts n \<and> (\<forall>e\<in>set q. length (fst e) \<le> n)"
    using Cons.prems(4) by (fastforce simp: as)
  then obtain k' d' where "drain_loop q ?k1 (if c then d + 1 else d) = ([], k', d', DrainDone)"
    "\<not> sk_dead k'" "sk_wire k' = sk_wire ?k1 @ concat (map fst q)"
    "d' = (if c then d + 1 else d) + count_true q"
    using Cons.IH[of as' ?k1 "if c then d + 1 else d"] Cons.prems by (auto simp: as)
  then show ?case using send by (auto simp: e)
qed simp

text \<open>A lagging subscriber whose peer reads again catches up in one writability callback: when
  the kernel accepts every queued entry, \<open>_drain\<close> empties the queue, puts every frame ever sent
  on the wire, resets the lag counter and disarms itself; and as long as the queue is not empty the
  callback is armed, so no buffered byte is stranded.\<close>

theorem drain_catches_up:
  assumes "sub_inv s" "sk_registerable (sub_sock s)" "sub_tx_queue s \<noteq> []"
  shows "sub_draining s
       \<and> (length (sub_tx_queue s) \<le> length (sk_script (sub_sock s))
          \<and> (\<forall>a\<in>set (take (length (sub_tx_queue s)) (sk_script (sub_sock s))).
                \<exists>n. a = Accepts n \<and> (\<forall>e\<in>set (sub_tx_queue s). length (fst e) \<le> n))
          \<longrightarrow> sub_tx_queue (drain s) = [] \<and> sub_lag_count (drain s) = 0 \<and> \<not> sub_draining (drain s)
            \<and> sk_wire (sub_sock (drain s)) = concat (map fst (sub_sent s)))"
proof -
  have armed: "sub_draining s" using assms by (simp add: sub_inv_def)
  obtain sent part pend where sp: "sub_split s sent part pend" using assms(1) by (auto simp: sub_inv_def)
  have alive: "\<not> sk_dead (sub_sock s)" using sp assms(3) by (auto simp: sub_split_def)
  have wire: "sk_wire (sub_sock s) @ concat (map fst (sub_tx_queue s)) = concat (map fst (sub_sent s))"
    using sub_split_wire[OF sp alive] by (simp add: tx_pending_def)
  show ?thesis
    using armed wire drain_loop_accepting[OF _ alive refl, of "sub_tx_queue s" "sub_delivered s"]
    by (auto simp: drain_def Let_def)
qed

theorem drain_catches_up_witness:
  "let s = sub_run [TxSend [1, 2, 3] True, TxSend [4, 5] True] (sample_sub [Accepts 1, Accepts 2, Accepts 2])
   in sub_lag_count s = 2 \<and> sub_lag_count (drain s) = 0 \<and> sk_wire (sub_sock (drain s)) = [1, 2, 3, 4, 5]"
proof -
  let ?s = "sub_run [TxSend [1, 2, 3] True, TxSend [4, 5] True] (sample_sub [Accepts 1, Accepts 2, Accepts 2])"
  have inv: "sub_inv ?s"
    unfolding sample_sub_def
    by (rule sub_tx.run_inv[OF new_subscriber_inv]) (simp_all add: sample_sock_def)
  have facts: "sk_registerable (sub_sock ?s)" "sub_tx_queue ?s = [([2, 3], True), ([4, 5], True)]"
    "sk_script (sub_sock ?s) = [Accepts 2, Accepts 2]" "sub_sent ?s = [([1, 2, 3], True), ([4, 5], True)]"
    "sub_lag_count ?s = 2"
    by (simp_all add: tx_eval)
  show ?thesis
    using drain_catches_up[OF inv facts(1)] facts by simp
qed

section \<open>The validators\<close>

lemma ends_with_take: "ends_with ''/*'' f \<and> take (length f - 2) f = owner \<longleftrightarrow> f = owner @ ''/*''"
proof
  assume a: "ends_with ''/*'' f \<and> take (length f - 2) f = owner"
  then have "drop (length f - 2) f = ''/*''" by (simp add: ends_with_def numeral_2_eq_2)
  then show "f = owner @ ''/*''" using a by (metis append_take_drop_id)
qed (simp add: ends_with_def)

lemma filters_match_iff:
  "filters_match fs owner repo \<longleftrightarrow>
     (\<exists>f\<in>set fs. f = ''*'' \<or> f = owner @ ''/'' @ repo \<or> f = owner @ ''/*'')"
  using ends_with_take[of _ owner] by (induction fs) auto

text \<open>The subscription filter means what the protocol says: an event is wanted exactly when
  its type was accepted at subscribe time and some accepted filter is \<open>*\<close>, the event's
  \<open>owner/repo\<close>, or \<open>owner/*\<close>; every accepted filter list is non-empty, at most
  64 long and made of strings the pattern admits, and every accepted event type is a supported one.\<close>

theorem subscription_filter_spec:
  assumes "validate_subscribe_filters jf = Inr fs" "validate_subscribe_event_types supported jt = Inr ts"
  shows "(matches (new_subscriber k fs ts uid) owner repo event_type \<longleftrightarrow>
            event_type \<in> set ts
            \<and> (\<exists>f\<in>set fs. f = ''*'' \<or> f = owner @ ''/'' @ repo \<or> f = owner @ ''/*''))
       \<and> fs \<noteq> [] \<and> length fs \<le> MAX_FILTERS_PER_SUBSCRIBER
       \<and> (\<forall>f\<in>set fs. FILTER_RE f)
       \<and> set ts \<subseteq> set supported \<and> (jt \<noteq> JNull \<longrightarrow> ts \<noteq> [])"
proof -
  have star: "FILTER_RE ''*''" by (simp add: FILTER_RE_def dollar_match_def filter_body_def)
  have chk: "check_filter j = Inr f \<longleftrightarrow> j = JStr f \<and> FILTER_RE f" for j f
    by (cases j) auto
  have all: "list_all2 (\<lambda>j f. check_filter j = Inr f) js out \<Longrightarrow> (\<forall>f\<in>set out. FILTER_RE f) \<and> length out = length js"
    for js out
    by (induction rule: list_all2_induct) (auto simp: chk)
  have fs: "fs \<noteq> [] \<and> length fs \<le> MAX_FILTERS_PER_SUBSCRIBER \<and> (\<forall>f\<in>set fs. FILTER_RE f)"
    using assms(1) all star
    by (cases jf) (auto simp: res_map_list_Inr MAX_FILTERS_PER_SUBSCRIBER_def split: if_splits)
  have acc: "set (accepted_types supported js) \<subseteq> set supported" for js
    by (induction supported js rule: accepted_types.induct) auto
  have ts: "set ts \<subseteq> set supported \<and> (jt \<noteq> JNull \<longrightarrow> ts \<noteq> [])"
    using assms(2) acc by (cases jt) (auto simp: Let_def split: if_splits)
  show ?thesis
    using fs ts by (simp add: matches_def new_subscriber_def filters_match_iff)
qed

theorem subscription_filter_spec_witness:
  "matches (new_subscriber (sample_sock []) [''octo/*''] [''fs_change''] 0) ''octo'' ''cat'' ''fs_change''"
proof -
  have "validate_subscribe_filters (JArr [JStr ''octo/*'']) = Inr [''octo/*'']"
    by (simp add: MAX_FILTERS_PER_SUBSCRIBER_def FILTER_RE_def dollar_match_def filter_body_def
        slug_char_def is_ascii_upper_def is_ascii_lower_def chr_in_def)
  from subscription_filter_spec[OF this, of "[''fs_change'', ''x'']" "JArr [JStr ''fs_change'']"] show ?thesis
    by simp
qed

end
