(* ===== verification/WB_Broadcast.thy ===== *)
theory WB_Broadcast
  imports WB_Subscriber WB_Store
begin

text \<open>
  The broadcast daemon of \<open>waitbus/broadcast.py\<close>. The record \<open>daemon\<close> is the state of
  \<open>class Broadcast\<close> together with the events table it shares with the producers; one
  \<open>action\<close> is one stretch of the event loop between two awaits, so every interleaving of
  producers, doorbell passes, subscribe handshakes, heartbeats, writability callbacks and shutdown is
  a sequence of actions. \<open>d_subs\<close> is the dict of subscribers in insertion order (its keys,
  the descriptors of open sockets, are pairwise different), \<open>d_pending\<close> the
  \<open>_read_subscribe\<close> tasks that wait for their acknowledgement to be sent.

  History variables no operation reads: \<open>d_swept\<close> (the rows handed to \<open>_fan_out\<close>),
  \<open>d_hist\<close> (what each subscriber's registration and replay saw), \<open>d_closed\<close> (closed
  subscribers). The JSON encoder of msgspec, the one-line summary of \<open>read_events\<close>
  (\<open>None\<close> where it raises), the heartbeat period and the registered event types are the fields
  of \<open>config\<close>.
\<close>

definition SWEEP_LIMIT :: nat where
  "SWEEP_LIMIT = 500"

definition REPLAY_LIMIT :: nat where
  "REPLAY_LIMIT = 500"

record config =
  cf_enc :: "json \<Rightarrow> bytes"
  cf_format_text :: "event_row \<Rightarrow> string option"
  cf_heartbeat_sec :: int
  cf_event_types :: "string list"
  cf_uid :: nat

section \<open>Frame construction\<close>

definition summary_for :: "config \<Rightarrow> event_row \<Rightarrow> string" where
  "summary_for cf r =
     (case cf_format_text cf r of
        Some t \<Rightarrow> t
      | None \<Rightarrow> ev_owner r @ ''/'' @ ev_repo r @ '' '' @ ev_event_type r @ '' '' @ ev_delivery_id r)"

definition frame_fields :: "event_row \<Rightarrow> dict" where
  "frame_fields r =
     map (\<lambda>c. (c, row_get r c))
       (filter (\<lambda>c. c \<notin> {''delivery_id'', ''received_at'', ''payload_json'', ''event_id''}) EVENT_COLUMNS)"

text \<open>Rows reach this function only with an \<open>event_id\<close> (see \<open>iter_events_above\<close>).\<close>

definition row_event_id :: "event_row \<Rightarrow> string" where
  "row_event_id r = (case ev_event_id r of Some e \<Rightarrow> e | None \<Rightarrow> [])"

definition row_to_frame :: "config \<Rightarrow> event_row \<Rightarrow> event_frame" where
  "row_to_frame cf r =
     \<lparr>ef_event_id = row_event_id r, ef_event_type = ev_event_type r, ef_owner = ev_owner r,
      ef_repo = ev_repo r, ef_received_at = ev_received_at r, ef_delivery_id = ev_delivery_id r,
      ef_summary = summary_for cf r, ef_fields = frame_fields r\<rparr>"

fun json_str_opt :: "json \<Rightarrow> string option" where
  "json_str_opt (JStr s) = Some s"
| "json_str_opt _ = None"

text \<open>The stub is built by a second call of the encoder, which may raise as well.\<close>

definition serialize :: "config \<Rightarrow> event_frame \<Rightarrow> frame_error + bytes" where
  "serialize cf f =
     (case encode_struct_frame (cf_enc cf) (EventFrame f) of
        Inr b \<Rightarrow> Inr b
      | Inl _ \<Rightarrow> truncated_frame (cf_enc cf) (ef_event_id f) ''payload exceeds MAX_FRAME_BYTES''
                  (json_str_opt (dict_get (ef_fields f) ''msg_correlation_id'')))"

definition row_blob :: "config \<Rightarrow> event_row \<Rightarrow> frame_error + bytes" where
  "row_blob cf r = serialize cf (row_to_frame cf r)"

text \<open>The reject frames are encoded once at import; they always fit.\<close>

definition encoded :: "config \<Rightarrow> wire_frame \<Rightarrow> bytes" where
  "encoded cf f = (case encode_struct_frame (cf_enc cf) f of Inr b \<Rightarrow> b | Inl _ \<Rightarrow> [])"

definition SUBSCRIBE_REJECT_VERSION_FRAME :: "config \<Rightarrow> bytes" where
  "SUBSCRIBE_REJECT_VERSION_FRAME cf = encoded cf (SubscribeRejectedFrame
     \<lparr>rf_reason = ''version'',
      rf_remediation = ''This daemon speaks broadcast wire protocol v1; send 'proto': 1 (or omit it) in the subscribe envelope.'',
      rf_supported = Some [FRAME_PROTO_VERSION]\<rparr>)"

definition SUBSCRIBE_REJECT_LAG_LIMIT_FRAME :: "config \<Rightarrow> bytes" where
  "SUBSCRIBE_REJECT_LAG_LIMIT_FRAME cf = encoded cf (SubscribeRejectedFrame
     \<lparr>rf_reason = ''lag_limit_exceeded'',
      rf_remediation = ''The daemon dropped consecutive sends to this subscriber; either drain the receive buffer faster, raise the subscriber's send buffer, or reconnect.'',
      rf_supported = None\<rparr>)"

definition TERMINAL_REJECT_FRAMES :: "config \<Rightarrow> (string \<times> bytes) list" where
  "TERMINAL_REJECT_FRAMES cf =
     [(''lag_limit_exceeded'', SUBSCRIBE_REJECT_LAG_LIMIT_FRAME cf),
      (''heartbeat_lag'', SUBSCRIBE_REJECT_LAG_LIMIT_FRAME cf),
      (''replay_lag_limit_exceeded'', SUBSCRIBE_REJECT_LAG_LIMIT_FRAME cf)]"

section \<open>The state\<close>

record pending_ack =
  pa_since :: "string option"
  pa_until_seq :: "int option"
  pa_caught_up_at :: "string option"

record sub_history =
  h_cursor :: int
  h_until :: "int option"
  h_lo :: int
  h_window :: "event_row list"
  h_replayed :: "event_row list"

record metrics =
  m_emitted :: nat
  m_opened :: nat
  m_closed :: nat
  m_evicted :: "string list"
  m_rejected :: "string list"
  m_subscriber_count :: int
  m_subscription_count :: nat
  m_stale :: nat
  m_lag_max :: nat
  m_tx_buffer_bytes :: nat
  m_replay_events :: nat

record daemon =
  d_table :: event_table
  d_cursor :: int
  d_subs :: "(nat \<times> subscriber) list"
  d_pending :: "(nat \<times> pending_ack) list"
  d_stopping :: bool
  d_metrics :: metrics
  d_swept :: "event_row list"
  d_hist :: "(nat \<times> sub_history) list"
  d_closed :: "(nat \<times> subscriber \<times> string) list"

definition metrics0 :: metrics where
  "metrics0 = \<lparr>m_emitted = 0, m_opened = 0, m_closed = 0, m_evicted = [], m_rejected = [],
     m_subscriber_count = 0, m_subscription_count = 0, m_stale = 0, m_lag_max = 0,
     m_tx_buffer_bytes = 0, m_replay_events = 0\<rparr>"

definition init_daemon :: "event_table \<Rightarrow> daemon" where
  "init_daemon t = \<lparr>d_table = t, d_cursor = 0, d_subs = [], d_pending = [], d_stopping = False,
     d_metrics = metrics0, d_swept = [], d_hist = [], d_closed = []\<rparr>"

text \<open>\<open>SELECT COALESCE(MAX(seq), 0)\<close>.\<close>

definition seed_cursor :: "daemon \<Rightarrow> daemon" where
  "seed_cursor d = d\<lparr>d_cursor := (case map ev_seq (tb_rows (d_table d)) of
                                     [] \<Rightarrow> 0 | x # xs \<Rightarrow> foldl max x xs)\<rparr>"

text \<open>\<open>SELECT seq, event_id ... ORDER BY seq DESC LIMIT 1\<close>.\<close>

definition current_max_snapshot :: "event_table \<Rightarrow> int \<times> string option" where
  "current_max_snapshot t =
     (case rev (sort_key ev_seq (filter (\<lambda>r. ev_event_id r \<noteq> None) (tb_rows t))) of
        [] \<Rightarrow> (0, None)
      | r # _ \<Rightarrow> (ev_seq r, ev_event_id r))"

text \<open>Assignments to the dict of subscribers.\<close>

definition subs_put :: "nat \<Rightarrow> subscriber \<Rightarrow> daemon \<Rightarrow> daemon" where
  "subs_put fd s d = d\<lparr>d_subs := map (\<lambda>(k, v). if k = fd then (k, s) else (k, v)) (d_subs d)\<rparr>"

definition subs_pop :: "nat \<Rightarrow> daemon \<Rightarrow> daemon" where
  "subs_pop fd d = d\<lparr>d_subs := filter (\<lambda>(k, v). k \<noteq> fd) (d_subs d)\<rparr>"

abbreviation upd_metrics :: "(metrics \<Rightarrow> metrics) \<Rightarrow> daemon \<Rightarrow> daemon" where
  "upd_metrics f d \<equiv> d\<lparr>d_metrics := f (d_metrics d)\<rparr>"

section \<open>Closing a subscriber\<close>

definition close_socket :: "sock \<Rightarrow> sock" where
  "close_socket k = k\<lparr>sk_dead := True\<rparr>"

text \<open>What closing does to the subscriber object: disarm, a best-effort reject frame at a frame
  boundary, drop the queue, close the socket.\<close>

definition close_sub :: "config \<Rightarrow> string \<Rightarrow> subscriber \<Rightarrow> subscriber \<times> bool" where
  "close_sub cf reason s0 =
     (let s1 = stop_draining s0 in
      case map_of (TERMINAL_REJECT_FRAMES cf) reason of
        Some frame \<Rightarrow>
          (if sub_tx_queue s1 = [] then
             (s1\<lparr>sub_sock := close_socket (snd (sock_send frame (sub_sock s1))), sub_tx_queue := []\<rparr>, True)
           else (s1\<lparr>sub_sock := close_socket (sub_sock s1), sub_tx_queue := []\<rparr>, False))
      | None \<Rightarrow> (s1\<lparr>sub_sock := close_socket (sub_sock s1), sub_tx_queue := []\<rparr>, False))"

definition close_subscriber :: "config \<Rightarrow> nat \<Rightarrow> string \<Rightarrow> daemon \<Rightarrow> daemon" where
  "close_subscriber cf fd reason d =
     (case map_of (d_subs d) fd of
        None \<Rightarrow> d
      | Some s \<Rightarrow>
          (let (s', rejected) = close_sub cf reason s in
           (subs_pop fd d)
             \<lparr>d_metrics := (d_metrics d)
                \<lparr>m_subscriber_count := m_subscriber_count (d_metrics d) - 1,
                 m_closed := m_closed (d_metrics d) + 1,
                 m_evicted := m_evicted (d_metrics d) @ [reason],
                 m_rejected := m_rejected (d_metrics d) @ (if rejected then [''lag_limit_exceeded''] else [])\<rparr>,
              d_closed := d_closed d @ [(fd, s', reason)]\<rparr>))"

definition close_all :: "config \<Rightarrow> string \<Rightarrow> nat list \<Rightarrow> daemon \<Rightarrow> daemon" where
  "close_all cf reason fds d = foldl (\<lambda>d fd. close_subscriber cf fd reason d) d fds"

section \<open>The broadcast pass\<close>

text \<open>One iteration of the loop in \<open>_fan_out\<close>: the subscriber afterwards, whether it counts as
  matched, whether it is put on the drop list.\<close>

definition fan_out_one ::
    "int \<Rightarrow> string \<Rightarrow> string \<Rightarrow> string \<Rightarrow> bytes \<Rightarrow> subscriber \<Rightarrow> subscriber \<times> bool \<times> bool" where
  "fan_out_one s owner repo event_type blob sub =
     (if \<not> matches sub owner repo event_type then (sub, False, False)
      else if (case sub_replay_watermark sub of None \<Rightarrow> False | Some w \<Rightarrow> s \<le> w) then (sub, False, False)
      else
        (let sub1 = sub\<lparr>sub_replay_watermark := None\<rparr> in
         case sub_pre_ack_buffer sub1 of
           Some buf \<Rightarrow>
             (if length buf \<ge> PRE_ACK_BUFFER_FRAMES
                 \<or> sub_pre_ack_buffered_bytes sub1 + length blob > PRE_ACK_BUFFER_BYTES
              then (sub1, False, True)
              else (sub1\<lparr>sub_pre_ack_buffer := Some (buf @ [blob]),
                         sub_pre_ack_buffered_bytes := sub_pre_ack_buffered_bytes sub1 + length blob\<rparr>,
                    True, False))
         | None \<Rightarrow>
             (let sub2 = snd (enqueue blob True sub1) in (sub2, True, sub_lag_count sub2 \<ge> LAG_LIMIT))))"

definition update_backlog_gauges :: "daemon \<Rightarrow> daemon" where
  "update_backlog_gauges d = upd_metrics (\<lambda>m.
     m\<lparr>m_lag_max := foldl max 0 (map (sub_lag_count \<circ> snd) (d_subs d)),
       m_tx_buffer_bytes := sum_list (map (tx_buffered_bytes \<circ> snd) (d_subs d))\<rparr>) d"

definition fan_out :: "config \<Rightarrow> int \<Rightarrow> string \<Rightarrow> string \<Rightarrow> string \<Rightarrow> bytes \<Rightarrow> daemon \<Rightarrow> daemon" where
  "fan_out cf s owner repo event_type blob d =
     (let results = map (\<lambda>(fd, sub). (fd, fan_out_one s owner repo event_type blob sub)) (d_subs d);
          d1 = d\<lparr>d_subs := map (\<lambda>(fd, sub, _, _). (fd, sub)) results\<rparr>;
          d2 = upd_metrics (\<lambda>m. m\<lparr>m_subscription_count := length (filter (\<lambda>(fd, sub, matched, _). matched) results),
                 m_stale := length (filter (\<lambda>(fd, sub). 0 < sub_lag_count sub \<and> sub_lag_count sub < LAG_LIMIT) (d_subs d1))\<rparr>) d1;
          to_drop = map fst (filter (\<lambda>(fd, sub, _, drop). drop) results)
      in close_all cf ''lag_limit_exceeded'' to_drop (update_backlog_gauges d2))"

text \<open>The loop of \<open>_broadcast_pass\<close>; an exception of the encoder leaves it.\<close>

fun pass_rows :: "config \<Rightarrow> event_row list \<Rightarrow> daemon \<Rightarrow> (frame_error + unit) \<times> daemon" where
  "pass_rows cf [] d = (Inr (), d)"
| "pass_rows cf (r # rs) d =
     (case row_blob cf r of
        Inl e \<Rightarrow> (Inl e, d)
      | Inr blob \<Rightarrow>
          (let d1 = upd_metrics (\<lambda>m. m\<lparr>m_emitted := m_emitted m + 1\<rparr>) d;
               d2 = fan_out cf (ev_seq r) (ev_owner r) (ev_repo r) (ev_event_type r) blob d1
           in pass_rows cf rs (d2\<lparr>d_cursor := ev_seq r, d_swept := d_swept d2 @ [r]\<rparr>)))"

definition broadcast_pass :: "config \<Rightarrow> daemon \<Rightarrow> (frame_error + unit) \<times> daemon" where
  "broadcast_pass cf d =
     (let rows = iter_events_above (d_table d) (d_cursor d) None SWEEP_LIMIT in
      if rows = [] then (Inr (), d) else pass_rows cf rows d)"

text \<open>The doorbell callback logs an exception of the pass and carries on.\<close>

definition run_broadcast_pass :: "config \<Rightarrow> daemon \<Rightarrow> daemon" where
  "run_broadcast_pass cf d = snd (broadcast_pass cf d)"

section \<open>The subscribe handshake\<close>

definition REJECT_DRAIN_LIMIT_BYTES :: nat where
  "REJECT_DRAIN_LIMIT_BYTES = 32768"

definition REJECT_DRAIN_CHUNK_BYTES :: nat where
  "REJECT_DRAIN_CHUNK_BYTES = 4096"

text \<open>\<open>_shutdown_close\<close> reads and drops what the peer has already sent (\<open>EAGAIN\<close> and EOF
  are the empty stream), at most 32 KiB; the number of dropped bytes is returned.\<close>

function drain_rejected :: "nat \<Rightarrow> rsock \<Rightarrow> nat \<times> rsock" where
  "drain_rejected drained s =
     (if drained < REJECT_DRAIN_LIMIT_BYTES then
        (case recv (min REJECT_DRAIN_CHUNK_BYTES (REJECT_DRAIN_LIMIT_BYTES - drained)) s of (chunk, s') \<Rightarrow>
           if chunk = [] then (drained, s') else drain_rejected (drained + length chunk) s')
      else (drained, s))"
  by pat_completeness auto
termination
  by (relation "measure (\<lambda>(drained, s). REJECT_DRAIN_LIMIT_BYTES - drained)") (auto intro: diff_less_mono2)

declare drain_rejected.simps [simp del]

definition shutdown_close :: "rsock \<Rightarrow> nat \<times> rsock" where
  "shutdown_close s = drain_rejected 0 s"

text \<open>\<open>_handle_accept\<close>: only a peer with the daemon's uid gets as far as the handshake.\<close>

definition accept_peer :: "config \<Rightarrow> nat option \<Rightarrow> bool" where
  "accept_peer cf peer = (case peer of None \<Rightarrow> False | Some u \<Rightarrow> u = cf_uid cf)"

text \<open>\<open>_recv_subscribe_frame\<close>: \<open>loads\<close> is UTF-8 decoding and \<open>json.loads\<close>,
  \<open>None\<close> where either raises.\<close>

definition recv_subscribe_frame :: "(bytes \<Rightarrow> json option) \<Rightarrow> bool \<Rightarrow> rsock \<Rightarrow> dict option" where
  "recv_subscribe_frame loads timed_out s =
     (if timed_out then None
      else (case fst (read_frame_sock s) of
              Inl _ \<Rightarrow> None
            | Inr None \<Rightarrow> None
            | Inr (Some payload) \<Rightarrow>
                (case loads payload of
                   None \<Rightarrow> None
                 | Some msg \<Rightarrow> as_dict msg)))"

datatype handshake_reject = BadProto json | BadField subscribe_error

definition proto_supported :: "json \<Rightarrow> bool" where
  "proto_supported j \<longleftrightarrow> j = JNull \<or> j = JInt FRAME_PROTO_VERSION"

definition validate_subscribe ::
    "config \<Rightarrow> dict \<Rightarrow> handshake_reject + string list \<times> string list \<times> string option" where
  "validate_subscribe cf msg =
     (if \<not> proto_supported (dict_get msg ''proto'') then Inl (BadProto (dict_get msg ''proto''))
      else (case validate_subscribe_filters (dict_get msg ''filters'') of
              Inl e \<Rightarrow> Inl (BadField e)
            | Inr filters \<Rightarrow>
                (case validate_subscribe_event_types (cf_event_types cf) (dict_get msg ''event_types'') of
                   Inl e \<Rightarrow> Inl (BadField e)
                 | Inr types \<Rightarrow>
                     (case validate_since_cursor (dict_get msg ''since'') of
                        Inl e \<Rightarrow> Inl (BadField e)
                      | Inr since \<Rightarrow>
                          (case validate_subscribe_envelope (dict_get msg ''envelope'') of
                             Inl e \<Rightarrow> Inl (BadField e)
                           | Inr _ \<Rightarrow> Inr (filters, types, since))))))"

text \<open>The part of \<open>_read_subscribe\<close> up to the await of the acknowledgement. A bad
  \<open>proto\<close> is answered with a reject frame before the close, a bad field with silence;
  neither reaches the dict. Returned with the daemon: the bytes written to a refused client.\<close>

definition read_subscribe :: "config \<Rightarrow> nat \<Rightarrow> sock \<Rightarrow> nat \<Rightarrow> dict \<Rightarrow> daemon \<Rightarrow> bytes \<times> daemon" where
  "read_subscribe cf fd k peer_uid msg d =
     (case validate_subscribe cf msg of
        Inl (BadProto _) \<Rightarrow>
          (SUBSCRIBE_REJECT_VERSION_FRAME cf,
           upd_metrics (\<lambda>m. m\<lparr>m_rejected := m_rejected m @ [''version'']\<rparr>) d)
      | Inl (BadField _) \<Rightarrow> ([], d)
      | Inr (filters, types, since) \<Rightarrow>
          (let sub = (new_subscriber k filters types peer_uid)
                       \<lparr>sub_pre_ack_buffer := Some [], sub_pre_ack_buffered_bytes := 0\<rparr>;
               m = (d_metrics d)\<lparr>m_subscriber_count := m_subscriber_count (d_metrics d) + 1,
                                 m_opened := m_opened (d_metrics d) + 1\<rparr>;
               (until_seq, caught_up_at) =
                 (case since of
                    Some _ \<Rightarrow> (case current_max_snapshot (d_table d) of (u, e) \<Rightarrow> (Some u, e))
                  | None \<Rightarrow> (None, None));
               sub' = (case since of Some _ \<Rightarrow> sub\<lparr>sub_replay_watermark := until_seq\<rparr> | None \<Rightarrow> sub)
           in ([], d\<lparr>d_subs := d_subs d @ [(fd, sub')], d_metrics := m,
                     d_pending := d_pending d
                       @ [(fd, \<lparr>pa_since = since, pa_until_seq = until_seq, pa_caught_up_at = caught_up_at\<rparr>)],
                     d_hist := d_hist d
                       @ [(fd, \<lparr>h_cursor = d_cursor d, h_until = until_seq, h_lo = 0,
                                h_window = [], h_replayed = []\<rparr>)]\<rparr>)))"

definition ack_frame_of :: "config \<Rightarrow> string option \<Rightarrow> wire_frame" where
  "ack_frame_of cf caught_up_at = SubscribeAckFrame
     \<lparr>af_proto = FRAME_PROTO_VERSION, af_caught_up_at = caught_up_at,
      af_heartbeat_sec = cf_heartbeat_sec cf, af_max_frame_bytes = int MAX_FRAME_BYTES\<rparr>"

text \<open>\<open>_replay\<close>: \<open>ReplayAlive\<close> and \<open>ReplayEvicted\<close> are its return values,
  \<open>ReplayRaised\<close> an exception of the encoder.\<close>

datatype replay_end = ReplayAlive | ReplayEvicted | ReplayRaised

fun replay_rows :: "config \<Rightarrow> nat \<Rightarrow> subscriber \<Rightarrow> event_row list \<Rightarrow> daemon \<Rightarrow> replay_end \<times> subscriber \<times> daemon" where
  "replay_rows cf fd sub [] d = (ReplayAlive, sub, d)"
| "replay_rows cf fd sub (r # rs) d =
     (if \<not> matches sub (ev_owner r) (ev_repo r) (ev_event_type r) then replay_rows cf fd sub rs d
      else (case row_blob cf r of
              Inl _ \<Rightarrow> (ReplayRaised, sub, d)
            | Inr blob \<Rightarrow>
                (let sub' = snd (enqueue blob True sub);
                     d' = subs_put fd sub' (upd_metrics (\<lambda>m. m\<lparr>m_replay_events := m_replay_events m + 1\<rparr>) d)
                 in if sub_lag_count sub' \<ge> LAG_LIMIT
                    then (ReplayEvicted, sub', close_subscriber cf fd ''replay_lag_limit_exceeded'' d')
                    else replay_rows cf fd sub' rs d')))"

definition hist_replay :: "nat \<Rightarrow> int \<Rightarrow> event_row list \<Rightarrow> event_row list \<Rightarrow> daemon \<Rightarrow> daemon" where
  "hist_replay fd lo window replayed d =
     d\<lparr>d_hist := map (\<lambda>(k, h). if k = fd
          then (k, h\<lparr>h_lo := lo, h_window := window, h_replayed := replayed\<rparr>) else (k, h)) (d_hist d)\<rparr>"

definition replay :: "config \<Rightarrow> nat \<Rightarrow> subscriber \<Rightarrow> string \<Rightarrow> int option \<Rightarrow> daemon \<Rightarrow> replay_end \<times> subscriber \<times> daemon" where
  "replay cf fd sub since until_seq d =
     (let since_seq = seq_for_event_id (d_table d) since;
          rows = iter_events_above (d_table d) since_seq until_seq REPLAY_LIMIT;
          window = filter (\<lambda>r. since_seq < ev_seq r \<and> (case until_seq of None \<Rightarrow> True | Some u \<Rightarrow> ev_seq r \<le> u))
                     (visible_rows (d_table d));
          wanted = filter (\<lambda>r. matches sub (ev_owner r) (ev_repo r) (ev_event_type r)) rows
      in replay_rows cf fd sub rows (hist_replay fd since_seq window wanted d))"

text \<open>The drain of the pre-ack buffer at the end of \<open>_read_subscribe\<close>.\<close>

fun drain_pre_ack :: "config \<Rightarrow> nat \<Rightarrow> subscriber \<Rightarrow> bytes list \<Rightarrow> daemon \<Rightarrow> daemon" where
  "drain_pre_ack cf fd sub [] d = d"
| "drain_pre_ack cf fd sub (b # bs) d =
     (let sub' = snd (enqueue b True sub);
          d' = subs_put fd sub' d
      in if sub_lag_count sub' \<ge> LAG_LIMIT then close_subscriber cf fd ''lag_limit_exceeded'' d'
         else drain_pre_ack cf fd sub' bs d')"

text \<open>How the awaited \<open>sock_sendall\<close> of the acknowledgement ends: all of it written, or an
  error or the two-second timeout after a part of it.\<close>

datatype ack_outcome = AckSent | AckFailed nat

datatype db_outcome = DbOk | DbError

definition ack_sent :: "bytes \<Rightarrow> subscriber \<Rightarrow> subscriber" where
  "ack_sent ack s = record_sent ack False
     (s\<lparr>sub_sock := (sub_sock s)\<lparr>sk_wire := sk_wire (sub_sock s) @ ack\<rparr>\<rparr>)"

definition ack_failed :: "nat \<Rightarrow> bytes \<Rightarrow> subscriber \<Rightarrow> subscriber" where
  "ack_failed n ack s = s\<lparr>sub_sock := (sub_sock s)\<lparr>sk_wire := sk_wire (sub_sock s) @ take n ack\<rparr>\<rparr>"

definition open_gate :: "subscriber \<Rightarrow> subscriber" where
  "open_gate s = s\<lparr>sub_pre_ack_buffer := None, sub_pre_ack_buffered_bytes := 0\<rparr>"

definition finish_handshake :: "config \<Rightarrow> nat \<Rightarrow> subscriber \<Rightarrow> daemon \<Rightarrow> daemon" where
  "finish_handshake cf fd sub d =
     drain_pre_ack cf fd (open_gate sub) (case sub_pre_ack_buffer sub of Some b \<Rightarrow> b | None \<Rightarrow> [])
       (subs_put fd (open_gate sub) d)"

text \<open>The rest of \<open>_read_subscribe\<close> after the acknowledgement was sent. An exception of the
  encoder in the replay ends the task with the subscriber still registered and gated.\<close>

definition after_ack :: "config \<Rightarrow> nat \<Rightarrow> pending_ack \<Rightarrow> db_outcome \<Rightarrow> subscriber \<Rightarrow> daemon \<Rightarrow> daemon" where
  "after_ack cf fd p db sub d =
     (case pa_since p of
        None \<Rightarrow> finish_handshake cf fd sub d
      | Some since \<Rightarrow>
          (case db of
             DbError \<Rightarrow> close_subscriber cf fd ''replay_db_error'' d
           | DbOk \<Rightarrow>
               (case replay cf fd sub since (pa_until_seq p) d of
                  (e, sub', d') \<Rightarrow> (if e = ReplayAlive then finish_handshake cf fd sub' d' else d'))))"

text \<open>The resumption of \<open>_read_subscribe\<close>. When the subscriber was evicted meanwhile its
  socket is closed, \<open>fileno()\<close> is \<open>-1\<close> and everything left of the task is without
  effect on the daemon, but for the replay counter that its one failing send may still move.\<close>

definition resume_subscribe :: "config \<Rightarrow> nat \<Rightarrow> ack_outcome \<Rightarrow> db_outcome \<Rightarrow> daemon \<Rightarrow> daemon" where
  "resume_subscribe cf fd out db d0 =
     (case map_of (d_pending d0) fd of
        None \<Rightarrow> d0
      | Some p \<Rightarrow>
          (let d = d0\<lparr>d_pending := filter (\<lambda>(k, v). k \<noteq> fd) (d_pending d0)\<rparr> in
           case map_of (d_subs d) fd of
             None \<Rightarrow> d
           | Some sub \<Rightarrow>
               (case encode_struct_frame (cf_enc cf) (ack_frame_of cf (pa_caught_up_at p)) of
                  Inl _ \<Rightarrow> d
                | Inr ack \<Rightarrow>
                    (case out of
                       AckFailed n \<Rightarrow>
                         close_subscriber cf fd ''subscribe_ack_send_failed'' (subs_put fd (ack_failed n ack sub) d)
                     | AckSent \<Rightarrow>
                         (let sub' = ack_sent ack sub in after_ack cf fd p db sub' (subs_put fd sub' d))))))"

section \<open>Heartbeats, writability, shutdown\<close>

definition heartbeat_blob :: "config \<Rightarrow> int \<Rightarrow> int \<Rightarrow> frame_error + bytes" where
  "heartbeat_blob cf ts uptime = encode_struct_frame (cf_enc cf) (HeartbeatFrame \<lparr>hf_ts = ts, hf_uptime_sec = uptime\<rparr>)"

definition heartbeat_tick :: "config \<Rightarrow> int \<Rightarrow> int \<Rightarrow> daemon \<Rightarrow> daemon" where
  "heartbeat_tick cf ts uptime d =
     (if d_stopping d then d
      else (case heartbeat_blob cf ts uptime of
              Inl _ \<Rightarrow> d
            | Inr blob \<Rightarrow>
                (let d1 = d\<lparr>d_subs := map (\<lambda>(fd, sub). (fd, snd (enqueue blob False sub))) (d_subs d)\<rparr>;
                     to_drop = map fst (filter (\<lambda>(fd, sub). sub_lag_count sub \<ge> LAG_LIMIT) (d_subs d1))
                 in update_backlog_gauges (close_all cf ''heartbeat_lag'' to_drop d1))))"

definition writable :: "nat \<Rightarrow> daemon \<Rightarrow> daemon" where
  "writable fd d =
     (case map_of (d_subs d) fd of
        None \<Rightarrow> d
      | Some s \<Rightarrow> if sub_draining s then subs_put fd (drain s) d else d)"

text \<open>\<open>_shutdown\<close>, entered from the \<open>finally\<close> of \<open>run\<close> after the in-flight
  subscribe tasks have been cancelled.\<close>

definition shutdown :: "config \<Rightarrow> daemon \<Rightarrow> daemon" where
  "shutdown cf d =
     (if d_stopping d then d
      else (let d1 = snd (broadcast_pass cf (d\<lparr>d_stopping := True\<rparr>))
            in close_all cf ''shutdown'' (map fst (d_subs d1)) d1))"

definition run_finally :: "config \<Rightarrow> daemon \<Rightarrow> daemon" where
  "run_finally cf d = shutdown cf (d\<lparr>d_pending := []\<rparr>)"

section \<open>The event loop\<close>

datatype action =
    ACommit nat event_insert string
  | APrune "event_row \<Rightarrow> bool"
  | APass
  | ASubscribe nat sock nat dict
  | AResume nat ack_outcome db_outcome
  | AHeartbeat int int
  | AWritable nat
  | AStop

text \<open>A newly accepted connection has an unused descriptor, nothing on its wire, and passed the
  credential check. After shutdown only the producers go on.\<close>

fun enabled :: "config \<Rightarrow> daemon \<Rightarrow> action \<Rightarrow> bool" where
  "enabled cf d (ASubscribe fd k uid msg) \<longleftrightarrow>
     \<not> d_stopping d \<and> fd \<notin> fst ` set (d_subs d) \<and> fd \<notin> fst ` set (d_pending d)
     \<and> fd \<notin> fst ` set (d_hist d)
     \<and> sk_wire k = [] \<and> \<not> sk_dead k \<and> sk_registerable k \<and> accept_peer cf (Some uid)"
| "enabled cf d (ACommit _ _ _) \<longleftrightarrow> True"
| "enabled cf d (APrune _) \<longleftrightarrow> True"
| "enabled cf d _ \<longleftrightarrow> \<not> d_stopping d"

fun step :: "config \<Rightarrow> action \<Rightarrow> daemon \<Rightarrow> daemon" where
  "step cf (ACommit gap ev eid) d = d\<lparr>d_table := snd (sql_insert_or_ignore gap ev eid (d_table d))\<rparr>"
| "step cf (APrune P) d = d\<lparr>d_table := sql_delete P (d_table d)\<rparr>"
| "step cf APass d = run_broadcast_pass cf d"
| "step cf (ASubscribe fd k uid msg) d = snd (read_subscribe cf fd k uid msg d)"
| "step cf (AResume fd out db) d = resume_subscribe cf fd out db d"
| "step cf (AHeartbeat ts up) d = heartbeat_tick cf ts up d"
| "step cf (AWritable fd) d = writable fd d"
| "step cf AStop d = run_finally cf d"

text \<open>Runs from a started daemon on any store, under a restriction \<open>ok\<close> of the schedule.\<close>

inductive reach :: "config \<Rightarrow> (daemon \<Rightarrow> action \<Rightarrow> bool) \<Rightarrow> daemon \<Rightarrow> bool" for cf ok where
  reach_start: "table_inv t \<Longrightarrow> reach cf ok (seed_cursor (init_daemon t))"
| reach_step: "reach cf ok d \<Longrightarrow> enabled cf d a \<Longrightarrow> ok d a \<Longrightarrow> reach cf ok (step cf a d)"

abbreviation any_schedule :: "daemon \<Rightarrow> action \<Rightarrow> bool" where
  "any_schedule d a \<equiv> True"

text \<open>No heartbeat fires while a subscribe handshake waits for its acknowledgement.\<close>

fun quiet_handshake :: "daemon \<Rightarrow> action \<Rightarrow> bool" where
  "quiet_handshake d (AHeartbeat _ _) \<longleftrightarrow> d_pending d = []"
| "quiet_handshake d _ \<longleftrightarrow> True"

end
