(* ===== verification/WB_BroadcastInv.thy ===== *)
theory WB_BroadcastInv
  imports WB_Broadcast
begin

text \<open>
  The invariant of the broadcast daemon. \<open>sub_ok\<close> ties what a subscriber has been handed to the
  rows the daemon has swept: before the handshake ends the pre-ack buffer holds exactly the frames of
  the live rows the subscriber wants, afterwards the counting frames are those of the replayed rows
  followed by the live ones. \<open>daemon_inv\<close> collects it with the facts on the cursor, the sweep and
  the store, and every action of the event loop keeps it.
\<close>

section \<open>What the operations leave alone\<close>

text \<open>Everything but the subscribers, the metrics and the list of closed connections.\<close>

definition same_core :: "daemon \<Rightarrow> daemon \<Rightarrow> bool" where
  "same_core d d' \<longleftrightarrow> d_table d' = d_table d \<and> d_cursor d' = d_cursor d \<and> d_swept d' = d_swept d
     \<and> d_hist d' = d_hist d \<and> d_pending d' = d_pending d \<and> d_stopping d' = d_stopping d"

lemma same_core_refl [simp]: "same_core d d"
  by (simp add: same_core_def)

lemma same_core_trans: "same_core d d' \<Longrightarrow> same_core d' d'' \<Longrightarrow> same_core d d''"
  by (simp add: same_core_def)

lemma same_core_put [simp]: "same_core d (subs_put fd s d')= same_core d d'"
  by (simp add: same_core_def subs_put_def)

lemma same_core_metrics [simp]: "same_core d (upd_metrics f d') = same_core d d'"
  by (simp add: same_core_def)

lemma same_core_gauges [simp]: "same_core d (update_backlog_gauges d') = same_core d d'"
  by (simp add: same_core_def update_backlog_gauges_def)

lemma d_subs_gauges [simp]: "d_subs (update_backlog_gauges d) = d_subs d"
  by (simp add: update_backlog_gauges_def)

lemma close_subscriber_subs [simp]:
  "d_subs (close_subscriber cf fd reason d) = filter (\<lambda>(k, v). k \<noteq> fd) (d_subs d)"
proof (cases "map_of (d_subs d) fd")
  case None
  then have "filter (\<lambda>(k, v). k \<noteq> fd) (d_subs d) = d_subs d"
    by (intro filter_all_id) (force simp: map_of_eq_None_iff)
  then show ?thesis using None by (simp add: close_subscriber_def)
qed (simp add: close_subscriber_def subs_pop_def Let_def split: prod.splits)

lemma close_subscriber_core [simp]: "same_core d (close_subscriber cf fd reason d') = same_core d d'"
  by (auto simp: close_subscriber_def same_core_def subs_pop_def Let_def split: option.splits prod.splits)

lemma close_all_subs [simp]:
  "d_subs (close_all cf reason fds d) = filter (\<lambda>(k, v). k \<notin> set fds) (d_subs d)"
proof (induction fds arbitrary: d)
  case (Cons fd fds)
  have "d_subs (close_all cf reason (fd # fds) d)
      = filter (\<lambda>(k, v). k \<notin> set fds) (filter (\<lambda>(k, v). k \<noteq> fd) (d_subs d))"
    using Cons.IH[of "close_subscriber cf fd reason d"] by (simp add: close_all_def)
  then show ?case by (simp add: case_prod_unfold)
qed (simp add: close_all_def)

lemma close_all_core [simp]: "same_core d (close_all cf reason fds d') = same_core d d'"
proof (induction fds arbitrary: d')
  case (Cons fd fds)
  then show ?case
    using Cons.IH[of "close_subscriber cf fd reason d'"] by (simp add: close_all_def)
qed (simp add: close_all_def)

lemma same_coreD:
  assumes "same_core d d'"
  shows "d_table d' = d_table d" "d_cursor d' = d_cursor d" "d_swept d' = d_swept d"
    "d_hist d' = d_hist d" "d_pending d' = d_pending d" "d_stopping d' = d_stopping d"
  using assms by (simp_all add: same_core_def)

lemma assoc_put_mem:
  "(k, v) \<in> set (map (\<lambda>(k, v). if k = fd then (k, x) else (k, v)) xs)
     \<Longrightarrow> k = fd \<and> v = x \<or> k \<noteq> fd \<and> (k, v) \<in> set xs"
proof (induction xs)
  case (Cons y ys)
  then show ?case by (cases y) (auto split: if_splits)
qed simp

lemma subs_put_mem:
  "(k, v) \<in> set (d_subs (subs_put fd s d)) \<Longrightarrow> k = fd \<and> v = s \<or> k \<noteq> fd \<and> (k, v) \<in> set (d_subs d)"
  unfolding subs_put_def using assoc_put_mem[of k v fd s "d_subs d"] by simp

lemma assoc_put_keys: "map fst (map (\<lambda>(k, v). if k = fd then (k, x) else (k, v)) xs) = map fst xs"
  by (induction xs) auto

lemma subs_put_keys [simp]: "map fst (d_subs (subs_put fd s d)) = map fst (d_subs d)"
  unfolding subs_put_def using assoc_put_keys[of fd s "d_subs d"] by simp

lemma map_fst_filter_distinct: "distinct (map fst xs) \<Longrightarrow> distinct (map fst (filter P xs))"
  by (simp add: distinct_map_filter)

section \<open>What a subscriber has been handed\<close>

definition wants :: "subscriber \<Rightarrow> event_row \<Rightarrow> bool" where
  "wants s r \<longleftrightarrow> matches s (ev_owner r) (ev_repo r) (ev_event_type r)"

definition blob_of :: "config \<Rightarrow> event_row \<Rightarrow> bytes" where
  "blob_of cf r = (case row_blob cf r of Inr b \<Rightarrow> b | Inl _ \<Rightarrow> [])"

text \<open>The data frames handed to the subscriber, and the rows swept for it since it registered.\<close>

definition counted :: "subscriber \<Rightarrow> bytes list" where
  "counted s = map fst (filter snd (sub_sent s))"

definition above_until :: "sub_history \<Rightarrow> event_row \<Rightarrow> bool" where
  "above_until h r \<longleftrightarrow> (case h_until h of None \<Rightarrow> True | Some u \<Rightarrow> u < ev_seq r)"

definition live_rows :: "daemon \<Rightarrow> sub_history \<Rightarrow> subscriber \<Rightarrow> event_row list" where
  "live_rows d h s = filter (\<lambda>r. h_cursor h < ev_seq r \<and> wants s r \<and> above_until h r) (d_swept d)"

definition handed_ok :: "config \<Rightarrow> daemon \<Rightarrow> sub_history \<Rightarrow> subscriber \<Rightarrow> bool" where
  "handed_ok cf d h s \<longleftrightarrow>
     (case sub_pre_ack_buffer s of
        Some buf \<Rightarrow> buf = map (blob_of cf) (live_rows d h s)
          \<and> sub_pre_ack_buffered_bytes s = sum_list (map length buf)
          \<and> length buf \<le> PRE_ACK_BUFFER_FRAMES \<and> sub_pre_ack_buffered_bytes s \<le> PRE_ACK_BUFFER_BYTES
      | None \<Rightarrow> counted s = map (blob_of cf) (h_replayed h @ live_rows d h s))"

definition watermark_ok :: "daemon \<Rightarrow> sub_history \<Rightarrow> subscriber \<Rightarrow> bool" where
  "watermark_ok d h s \<longleftrightarrow>
     (case sub_replay_watermark s of
        Some w \<Rightarrow> h_until h = Some w
      | None \<Rightarrow> (\<forall>u. h_until h = Some u \<longrightarrow> u \<le> d_cursor d))"

definition rows_ok :: "daemon \<Rightarrow> sub_history \<Rightarrow> bool" where
  "rows_ok d h \<longleftrightarrow>
     h_cursor h \<le> d_cursor d
     \<and> (\<forall>u. h_until h = Some u \<longrightarrow> u \<le> tb_last_seq (d_table d))
     \<and> (\<forall>r\<in>set (visible_rows (d_table d)). h_until h \<noteq> None \<and> above_until h r \<longrightarrow> h_cursor h < ev_seq r)
     \<and> (\<forall>r\<in>set (visible_rows (d_table d)). h_cursor h < ev_seq r \<and> ev_seq r \<le> d_cursor d \<longrightarrow> r \<in> set (d_swept d))"

definition replay_ok :: "daemon \<Rightarrow> sub_history \<Rightarrow> subscriber \<Rightarrow> bool" where
  "replay_ok d h s \<longleftrightarrow>
     h_replayed h = filter (wants s) (take REPLAY_LIMIT (h_window h))
     \<and> sorted_wrt (\<lambda>a b. ev_seq a < ev_seq b) (h_window h)
     \<and> (h_until h = None \<longrightarrow> h_window h = [])
     \<and> (\<forall>u. h_until h = Some u \<longrightarrow>
          (\<forall>r\<in>set (h_window h). h_lo h < ev_seq r \<and> ev_seq r \<le> u)
          \<and> (sub_pre_ack_buffer s = None \<longrightarrow>
               (\<forall>r\<in>set (visible_rows (d_table d)). h_lo h < ev_seq r \<and> ev_seq r \<le> u \<longrightarrow> r \<in> set (h_window h))))"

definition sub_ok :: "config \<Rightarrow> daemon \<Rightarrow> sub_history \<Rightarrow> subscriber \<Rightarrow> bool" where
  "sub_ok cf d h s \<longleftrightarrow> handed_ok cf d h s \<and> watermark_ok d h s \<and> rows_ok d h \<and> replay_ok d h s"

definition pending_ok :: "pending_ack \<Rightarrow> sub_history \<Rightarrow> subscriber \<Rightarrow> bool" where
  "pending_ok p h s \<longleftrightarrow>
     sub_pre_ack_buffer s \<noteq> None \<and> counted s = [] \<and> h_window h = [] \<and> h_replayed h = []
     \<and> pa_until_seq p = h_until h \<and> (pa_since p = None \<longleftrightarrow> h_until h = None)"

definition core_inv :: "config \<Rightarrow> daemon \<Rightarrow> bool" where
  "core_inv cf d \<longleftrightarrow>
     table_inv (d_table d) \<and> d_cursor d \<le> tb_last_seq (d_table d)
     \<and> sorted_wrt (\<lambda>a b. ev_seq a < ev_seq b) (d_swept d)
     \<and> (\<forall>r\<in>set (d_swept d). ev_seq r \<le> d_cursor d \<and> row_blob cf r = Inr (blob_of cf r))"

definition keys_inv :: "daemon \<Rightarrow> bool" where
  "keys_inv d \<longleftrightarrow>
     distinct (map fst (d_subs d)) \<and> distinct (map fst (d_hist d)) \<and> distinct (map fst (d_pending d))
     \<and> fst ` set (d_subs d) \<subseteq> fst ` set (d_hist d) \<and> fst ` set (d_pending d) \<subseteq> fst ` set (d_hist d)"

definition subs_inv :: "config \<Rightarrow> daemon \<Rightarrow> bool" where
  "subs_inv cf d \<longleftrightarrow>
     (\<forall>fd s h. (fd, s) \<in> set (d_subs d) \<longrightarrow> (fd, h) \<in> set (d_hist d) \<longrightarrow>
        sub_ok cf d h s \<and> (\<forall>p. (fd, p) \<in> set (d_pending d) \<longrightarrow> pending_ok p h s))"

definition daemon_inv :: "config \<Rightarrow> daemon \<Rightarrow> bool" where
  "daemon_inv cf d \<longleftrightarrow> core_inv cf d \<and> keys_inv d \<and> subs_inv cf d"

lemma counted_enqueue [simp]: "counted (snd (enqueue b c s)) = counted s @ (if c then [b] else [])"
  by (simp add: counted_def)

lemma counted_drain [simp]: "counted (drain s) = counted s"
  by (simp add: counted_def)

lemma wants_enqueue [simp]: "wants (snd (enqueue b c s)) = wants s"
  by (simp add: wants_def[abs_def] matches_def)

lemma wants_drain [simp]: "wants (drain s) = wants s"
  by (simp add: wants_def[abs_def] matches_def)

text \<open>\<open>sub_ok\<close> reads only these parts of the daemon and the subscriber.\<close>

lemma sub_ok_cong:
  assumes "d_table d' = d_table d" "d_cursor d' = d_cursor d" "d_swept d' = d_swept d"
    and "counted s' = counted s" "wants s' = wants s" "sub_pre_ack_buffer s' = sub_pre_ack_buffer s"
      "sub_pre_ack_buffered_bytes s' = sub_pre_ack_buffered_bytes s"
      "sub_replay_watermark s' = sub_replay_watermark s"
  shows "sub_ok cf d' h s' = sub_ok cf d h s"
proof -
  have "live_rows d' h s' = live_rows d h s" by (simp add: live_rows_def assms)
  then show ?thesis
    by (simp add: sub_ok_def handed_ok_def watermark_ok_def rows_ok_def replay_ok_def assms cong: option.case_cong)
qed

lemma pending_ok_cong:
  assumes "counted s' = counted s" "sub_pre_ack_buffer s' = sub_pre_ack_buffer s"
  shows "pending_ok p h s' = pending_ok p h s"
  by (simp add: pending_ok_def assms)

text \<open>An operation that only changes subscribers, each in the harmless way above, or drops them.\<close>

lemma daemon_inv_subs:
  assumes inv: "daemon_inv cf d" and core: "same_core d d'"
    and dist: "distinct (map fst (d_subs d'))"
    and each: "\<And>fd s'. (fd, s') \<in> set (d_subs d') \<Longrightarrow>
        \<exists>s. (fd, s) \<in> set (d_subs d) \<and> counted s' = counted s \<and> wants s' = wants s
          \<and> sub_pre_ack_buffer s' = sub_pre_ack_buffer s
          \<and> sub_pre_ack_buffered_bytes s' = sub_pre_ack_buffered_bytes s
          \<and> sub_replay_watermark s' = sub_replay_watermark s"
  shows "daemon_inv cf d'"
proof -
  note eq = same_coreD[OF core]
  have keys: "fst ` set (d_subs d') \<subseteq> fst ` set (d_subs d)" using each by force
  have "subs_inv cf d'"
    unfolding subs_inv_def
  proof (intro allI impI)
    fix fd s' h
    assume a: "(fd, s') \<in> set (d_subs d')" "(fd, h) \<in> set (d_hist d')"
    obtain s where s: "(fd, s) \<in> set (d_subs d)" "counted s' = counted s" "wants s' = wants s"
      "sub_pre_ack_buffer s' = sub_pre_ack_buffer s"
      "sub_pre_ack_buffered_bytes s' = sub_pre_ack_buffered_bytes s"
      "sub_replay_watermark s' = sub_replay_watermark s"
      using each[OF a(1)] by blast
    have "sub_ok cf d h s \<and> (\<forall>p. (fd, p) \<in> set (d_pending d) \<longrightarrow> pending_ok p h s)"
      using inv s(1) a(2) eq by (auto simp: daemon_inv_def subs_inv_def)
    then show "sub_ok cf d' h s' \<and> (\<forall>p. (fd, p) \<in> set (d_pending d') \<longrightarrow> pending_ok p h s')"
      using sub_ok_cong[OF eq(1-3) s(2-6)] pending_ok_cong[OF s(2,4)] eq(5) by simp
  qed
  moreover have "keys_inv d'"
    using inv subset_trans[OF keys] dist eq by (simp add: daemon_inv_def keys_inv_def)
  ultimately show ?thesis
    using inv eq by (simp add: daemon_inv_def core_inv_def)
qed

text \<open>Rules for the two predicates on rows.\<close>

lemma rows_okI:
  assumes "h_cursor h \<le> d_cursor d" "\<And>u. h_until h = Some u \<Longrightarrow> u \<le> tb_last_seq (d_table d)"
    and "\<And>r. r \<in> set (visible_rows (d_table d)) \<Longrightarrow> h_until h \<noteq> None \<Longrightarrow> above_until h r \<Longrightarrow> h_cursor h < ev_seq r"
    and "\<And>r. r \<in> set (visible_rows (d_table d)) \<Longrightarrow> h_cursor h < ev_seq r \<Longrightarrow> ev_seq r \<le> d_cursor d \<Longrightarrow> r \<in> set (d_swept d)"
  shows "rows_ok d h"
  unfolding rows_ok_def using assms by blast

lemma rows_okD:
  assumes "rows_ok d h"
  shows "h_cursor h \<le> d_cursor d" "h_until h = Some u \<Longrightarrow> u \<le> tb_last_seq (d_table d)"
    "r \<in> set (visible_rows (d_table d)) \<Longrightarrow> h_until h \<noteq> None \<Longrightarrow> above_until h r \<Longrightarrow> h_cursor h < ev_seq r"
    "r \<in> set (visible_rows (d_table d)) \<Longrightarrow> h_cursor h < ev_seq r \<Longrightarrow> ev_seq r \<le> d_cursor d \<Longrightarrow> r \<in> set (d_swept d)"
  using assms unfolding rows_ok_def by blast+

lemma replay_okI:
  assumes "h_replayed h = filter (wants s) (take REPLAY_LIMIT (h_window h))"
    and "sorted_wrt (\<lambda>a b. ev_seq a < ev_seq b) (h_window h)"
    and "h_until h = None \<Longrightarrow> h_window h = []"
    and "\<And>u r. h_until h = Some u \<Longrightarrow> r \<in> set (h_window h) \<Longrightarrow> h_lo h < ev_seq r \<and> ev_seq r \<le> u"
    and "\<And>u r. h_until h = Some u \<Longrightarrow> sub_pre_ack_buffer s = None \<Longrightarrow> r \<in> set (visible_rows (d_table d))
           \<Longrightarrow> h_lo h < ev_seq r \<Longrightarrow> ev_seq r \<le> u \<Longrightarrow> r \<in> set (h_window h)"
  shows "replay_ok d h s"
  unfolding replay_ok_def using assms by blast

lemma replay_okD:
  assumes "replay_ok d h s"
  shows "h_replayed h = filter (wants s) (take REPLAY_LIMIT (h_window h))"
    "sorted_wrt (\<lambda>a b. ev_seq a < ev_seq b) (h_window h)"
    "h_until h = None \<Longrightarrow> h_window h = []"
    "h_until h = Some u \<Longrightarrow> r \<in> set (h_window h) \<Longrightarrow> h_lo h < ev_seq r"
    "h_until h = Some u \<Longrightarrow> r \<in> set (h_window h) \<Longrightarrow> ev_seq r \<le> u"
    "h_until h = Some u \<Longrightarrow> sub_pre_ack_buffer s = None \<Longrightarrow> r \<in> set (visible_rows (d_table d))
       \<Longrightarrow> h_lo h < ev_seq r \<Longrightarrow> ev_seq r \<le> u \<Longrightarrow> r \<in> set (h_window h)"
  using assms unfolding replay_ok_def by blast+

section \<open>Producers and the prune\<close>

lemma daemon_inv_table:
  assumes inv: "daemon_inv cf d" and t': "table_inv t'"
    and last: "tb_last_seq (d_table d) \<le> tb_last_seq t'"
    and vis: "\<And>r. r \<in> set (visible_rows t') \<Longrightarrow>
               r \<in> set (visible_rows (d_table d)) \<or> tb_last_seq (d_table d) < ev_seq r"
  shows "daemon_inv cf (d\<lparr>d_table := t'\<rparr>)"
proof -
  let ?d = "d\<lparr>d_table := t'\<rparr>"
  have cur: "d_cursor d \<le> tb_last_seq (d_table d)" using inv by (simp add: daemon_inv_def core_inv_def)
  have ok: "sub_ok cf ?d h s" if old: "sub_ok cf d h s" for h s
  proof -
    have r: "rows_ok d h" and p: "replay_ok d h s" using old by (simp_all add: sub_ok_def)
    have old_row: "x \<in> set (visible_rows (d_table d))"
      if "x \<in> set (visible_rows t')" "ev_seq x \<le> tb_last_seq (d_table d)" for x
      using vis[OF that(1)] that(2) by auto
    note rd = rows_okD[OF r] and pd = replay_okD[OF p]
    have "rows_ok ?d h"
    proof (rule rows_okI)
      show "h_cursor h < ev_seq x"
        if x: "x \<in> set (visible_rows (d_table ?d))" "h_until h \<noteq> None" "above_until h x" for x
        using vis[of x] x rd(1) rd(3)[of x] cur by auto
      show "x \<in> set (d_swept ?d)"
        if x: "x \<in> set (visible_rows (d_table ?d))" "h_cursor h < ev_seq x" "ev_seq x \<le> d_cursor ?d" for x
        using old_row[of x] rd(4)[of x] x cur by simp
      show "u \<le> tb_last_seq (d_table ?d)" if "h_until h = Some u" for u
        using rd(2)[OF that] last by simp
    qed (simp add: rd(1))
    moreover have "replay_ok ?d h s"
    proof (rule replay_okI)
      show "x \<in> set (h_window h)"
        if x: "h_until h = Some u" "sub_pre_ack_buffer s = None" "x \<in> set (visible_rows (d_table ?d))"
          "h_lo h < ev_seq x" "ev_seq x \<le> u" for u x
        using pd(6)[of u x] old_row[of x] rd(2)[OF x(1)] x by simp
    qed (use pd in auto)
    ultimately show ?thesis
      using old by (simp add: sub_ok_def handed_ok_def watermark_ok_def live_rows_def cong: option.case_cong)
  qed
  show ?thesis
    using inv ok t' last cur by (auto simp: daemon_inv_def core_inv_def keys_inv_def subs_inv_def)
qed

lemma visible_insert:
  "r \<in> set (visible_rows (snd (sql_insert_or_ignore gap ev eid t)))
     \<Longrightarrow> r \<in> set (visible_rows t) \<or> tb_last_seq t < ev_seq r"
  by (auto simp: sql_insert_or_ignore_def visible_rows_def Let_def split: if_splits)

lemma last_seq_insert: "tb_last_seq t \<le> tb_last_seq (snd (sql_insert_or_ignore gap ev eid t))"
  by (simp add: sql_insert_or_ignore_def Let_def)

lemma inv_commit: "daemon_inv cf d \<Longrightarrow> daemon_inv cf (step cf (ACommit gap ev eid) d)"
  unfolding step.simps
  by (rule daemon_inv_table)
     (simp_all add: daemon_inv_def core_inv_def last_seq_insert visible_insert table_inv_insert)

lemma inv_prune: "daemon_inv cf d \<Longrightarrow> daemon_inv cf (step cf (APrune P) d)"
  unfolding step.simps
  by (rule daemon_inv_table)
     (auto simp: daemon_inv_def core_inv_def table_inv_delete visible_rows_delete, simp add: sql_delete_def)

section \<open>One row of the broadcast pass\<close>

lemma fan_out_core [simp]: "same_core d (fan_out cf s ow re et b d') = same_core d d'"
  unfolding fan_out_def Let_def close_all_core same_core_gauges by (simp add: same_core_def)

lemma fan_out_subs:
  assumes "(fd, s') \<in> set (d_subs (fan_out cf sq ow re et b d))"
  shows "\<exists>s m. (fd, s) \<in> set (d_subs d) \<and> fan_out_one sq ow re et b s = (s', m, False)"
  using assms by (force simp: fan_out_def Let_def split: prod.splits)

lemma fan_out_keys:
  "distinct (map fst (d_subs d)) \<Longrightarrow> distinct (map fst (d_subs (fan_out cf sq ow re et b d)))"
  by (auto simp: fan_out_def Let_def case_prod_unfold comp_def intro!: map_fst_filter_distinct)

text \<open>The state after one row of the pass.\<close>

definition swept_one :: "config \<Rightarrow> event_row \<Rightarrow> bytes \<Rightarrow> daemon \<Rightarrow> daemon" where
  "swept_one cf r blob d =
     (let d2 = fan_out cf (ev_seq r) (ev_owner r) (ev_repo r) (ev_event_type r) blob
                 (upd_metrics (\<lambda>m. m\<lparr>m_emitted := m_emitted m + 1\<rparr>) d)
      in d2\<lparr>d_cursor := ev_seq r, d_swept := d_swept d2 @ [r]\<rparr>)"

lemma pass_rows_Cons:
  "pass_rows cf (r # rs) d =
     (case row_blob cf r of Inl e \<Rightarrow> (Inl e, d) | Inr blob \<Rightarrow> pass_rows cf rs (swept_one cf r blob d))"
  by (simp add: swept_one_def Let_def split: sum.splits)

lemma swept_one_core:
  "d_table (swept_one cf r b d) = d_table d" "d_cursor (swept_one cf r b d) = ev_seq r"
  "d_swept (swept_one cf r b d) = d_swept d @ [r]" "d_hist (swept_one cf r b d) = d_hist d"
  "d_pending (swept_one cf r b d) = d_pending d" "d_stopping (swept_one cf r b d) = d_stopping d"
  using same_coreD[of d "fan_out cf (ev_seq r) (ev_owner r) (ev_repo r) (ev_event_type r) b
                 (upd_metrics (\<lambda>m. m\<lparr>m_emitted := m_emitted m + 1\<rparr>) d)"]
  by (simp_all add: swept_one_def Let_def)

lemma swept_one_subs:
  assumes "(fd, s') \<in> set (d_subs (swept_one cf r b d))"
  shows "\<exists>s m. (fd, s) \<in> set (d_subs d)
           \<and> fan_out_one (ev_seq r) (ev_owner r) (ev_repo r) (ev_event_type r) b s = (s', m, False)"
  using assms fan_out_subs[of fd s' cf _ _ _ _ _ "upd_metrics (\<lambda>m. m\<lparr>m_emitted := m_emitted m + 1\<rparr>) d"]
  by (simp add: swept_one_def Let_def)

lemma swept_one_keys:
  "distinct (map fst (d_subs d)) \<Longrightarrow> distinct (map fst (d_subs (swept_one cf r b d)))"
  by (simp add: swept_one_def Let_def fan_out_keys)

text \<open>What happens to a subscriber that stays: the row is not for it, or it is and its frame is
  buffered or enqueued.\<close>

lemma fan_out_one_cases:
  assumes "fan_out_one (ev_seq r) (ev_owner r) (ev_repo r) (ev_event_type r) blob s = (s', m, False)"
  obtains (unwanted) "\<not> wants s r" "s' = s"
  | (replayed) w where "wants s r" "sub_replay_watermark s = Some w" "ev_seq r \<le> w" "s' = s"
  | (buffered) buf where "wants s r" "\<forall>w. sub_replay_watermark s = Some w \<longrightarrow> w < ev_seq r"
      "sub_pre_ack_buffer s = Some buf" "length buf < PRE_ACK_BUFFER_FRAMES"
      "sub_pre_ack_buffered_bytes s + length blob \<le> PRE_ACK_BUFFER_BYTES"
      "s' = s\<lparr>sub_replay_watermark := None, sub_pre_ack_buffer := Some (buf @ [blob]),
              sub_pre_ack_buffered_bytes := sub_pre_ack_buffered_bytes s + length blob\<rparr>"
  | (sent) "wants s r" "\<forall>w. sub_replay_watermark s = Some w \<longrightarrow> w < ev_seq r"
      "sub_pre_ack_buffer s = None" "s' = snd (enqueue blob True (s\<lparr>sub_replay_watermark := None\<rparr>))"
      "sub_lag_count s' < LAG_LIMIT"
proof (cases "wants s r")
  case False
  moreover have "s' = s" using assms False by (simp add: fan_out_one_def wants_def)
  ultimately show thesis by (rule unwanted)
next
  case w: True
  then have m: "matches s (ev_owner r) (ev_repo r) (ev_event_type r)" by (simp add: wants_def)
  show thesis
  proof (cases "\<exists>wm. sub_replay_watermark s = Some wm \<and> ev_seq r \<le> wm")
    case True
    then obtain wm where "sub_replay_watermark s = Some wm" "ev_seq r \<le> wm" by blast
    moreover from this have "s' = s" using assms m by (simp add: fan_out_one_def)
    ultimately show thesis using replayed[OF w] by blast
  next
    case False
    then have gate: "\<not> (case sub_replay_watermark s of None \<Rightarrow> False | Some wm \<Rightarrow> ev_seq r \<le> wm)"
      and above: "\<forall>wm. sub_replay_watermark s = Some wm \<longrightarrow> wm < ev_seq r"
      by (auto split: option.splits)
    show thesis
    proof (cases "sub_pre_ack_buffer s")
      case None
      then have "s' = snd (enqueue blob True (s\<lparr>sub_replay_watermark := None\<rparr>))" "sub_lag_count s' < LAG_LIMIT"
        using assms m gate by (auto simp: fan_out_one_def Let_def not_le)
      then show thesis by (rule sent[OF w above None])
    next
      case (Some buf)
      show thesis
        by (rule buffered[OF w above Some])
           (use assms m gate Some in \<open>auto simp: fan_out_one_def Let_def not_le split: if_splits\<close>)
    qed
  qed
qed

lemma next_row_facts:
  assumes inv: "core_inv cf d" and nxt: "filter (\<lambda>x. d_cursor d < ev_seq x) (visible_rows (d_table d)) = r # rest"
  shows "d_cursor d < ev_seq r" "r \<in> set (visible_rows (d_table d))"
    and "\<And>x. x \<in> set (visible_rows (d_table d)) \<Longrightarrow> d_cursor d < ev_seq x \<Longrightarrow> ev_seq x \<le> ev_seq r \<Longrightarrow> x = r"
    and "filter (\<lambda>x. ev_seq r < ev_seq x) (visible_rows (d_table d)) = rest"
proof -
  have sorted: "sorted_wrt (\<lambda>a b. ev_seq a < ev_seq b) (visible_rows (d_table d))"
    using inv by (simp add: core_inv_def visible_sorted)
  have "r \<in> set (filter (\<lambda>x. d_cursor d < ev_seq x) (visible_rows (d_table d)))" by (simp add: nxt)
  then show r: "d_cursor d < ev_seq r" "r \<in> set (visible_rows (d_table d))" by auto
  have sr: "sorted_wrt (\<lambda>a b. ev_seq a < ev_seq b) ([r] @ rest)"
    using sorted_wrt_filter[OF sorted] by (simp flip: nxt)
  show "x = r" if "x \<in> set (visible_rows (d_table d))" "d_cursor d < ev_seq x" "ev_seq x \<le> ev_seq r" for x
  proof -
    have "x \<in> set (r # rest)" using that by (simp flip: nxt)
    then show ?thesis using sr that(3) by auto
  qed
  have "filter (\<lambda>x. ev_seq r < ev_seq x) (r # rest) = rest"
    using filter_above_last[OF sr] by simp
  moreover have "filter (\<lambda>x. ev_seq r < ev_seq x) (r # rest)
      = filter (\<lambda>x. ev_seq r < ev_seq x) (visible_rows (d_table d))"
    unfolding nxt[symmetric] filter_filter using r(1) by (intro filter_cong) auto
  ultimately show "filter (\<lambda>x. ev_seq r < ev_seq x) (visible_rows (d_table d)) = rest" by simp
qed

lemma fan_out_one_ok:
  assumes inv: "core_inv cf d" and ok: "sub_ok cf d h s"
    and nxt: "filter (\<lambda>x. d_cursor d < ev_seq x) (visible_rows (d_table d)) = r # rest"
    and blob: "row_blob cf r = Inr blob"
    and one: "fan_out_one (ev_seq r) (ev_owner r) (ev_repo r) (ev_event_type r) blob s = (s', m, False)"
    and d': "d_table d' = d_table d" "d_cursor d' = ev_seq r" "d_swept d' = d_swept d @ [r]"
  shows "sub_ok cf d' h s'"
    and "sub_pre_ack_buffer s \<noteq> None \<Longrightarrow> counted s' = counted s \<and> sub_pre_ack_buffer s' \<noteq> None"
proof -
  note nf = next_row_facts[OF inv nxt]
  have h: "handed_ok cf d h s" and w: "watermark_ok d h s" and ro: "rows_ok d h" and rp: "replay_ok d h s"
    using ok by (simp_all add: sub_ok_def)
  have bl: "blob_of cf r = blob" by (simp add: blob_of_def blob)
  have hc: "h_cursor h < ev_seq r" using rows_okD(1)[OF ro] nf(1) by simp
  have ro': "rows_ok d' h"
  proof (rule rows_okI)
    show "x \<in> set (d_swept d')"
      if "x \<in> set (visible_rows (d_table d'))" "h_cursor h < ev_seq x" "ev_seq x \<le> d_cursor d'" for x
      using that rows_okD(4)[OF ro, of x] nf(3)[of x] by (cases "ev_seq x \<le> d_cursor d") (auto simp: d')
  qed (use rows_okD[OF ro] hc in \<open>auto simp: d'\<close>)
  have live: "live_rows d' h s'' = live_rows d h s @ (if wants s r \<and> above_until h r then [r] else [])"
    if "wants s'' = wants s" for s''
    using that hc by (simp add: live_rows_def d')
  have above: "above_until h r" if "\<forall>w. sub_replay_watermark s = Some w \<longrightarrow> w < ev_seq r"
    using w that nf(1) by (auto simp: watermark_ok_def above_until_def split: option.splits)
  have w_same: "watermark_ok d' h s"
    using w nf(1) by (auto simp: watermark_ok_def d' split: option.splits)
  have w_none: "watermark_ok d' h s''"
    if "\<forall>w. sub_replay_watermark s = Some w \<longrightarrow> w < ev_seq r" "sub_replay_watermark s'' = None" for s''
    using above[OF that(1)] that(2) by (auto simp: watermark_ok_def above_until_def d')
  have rp': "replay_ok d' h s''"
    if "wants s'' = wants s" "sub_pre_ack_buffer s'' = None \<longleftrightarrow> sub_pre_ack_buffer s = None" for s''
    using rp unfolding replay_ok_def that d' by blast
  have both: "sub_ok cf d' h s' \<and> (sub_pre_ack_buffer s \<noteq> None \<longrightarrow> counted s' = counted s \<and> sub_pre_ack_buffer s' \<noteq> None)"
    using one
  proof (cases rule: fan_out_one_cases)
    case unwanted
    then show ?thesis
      using h w_same ro' rp' live[of s] by (simp add: sub_ok_def handed_ok_def cong: option.case_cong)
  next
    case (replayed wm)
    then have "\<not> above_until h r" using w by (auto simp: watermark_ok_def above_until_def)
    then show ?thesis
      using replayed(4) h w_same ro' rp' live[of s] by (simp add: sub_ok_def handed_ok_def cong: option.case_cong)
  next
    case (buffered buf)
    have wt: "wants s' = wants s" by (simp add: buffered(6) wants_def[abs_def] matches_def)
    have "handed_ok cf d' h s'"
      using h buffered above live[OF wt] by (simp add: handed_ok_def bl)
    moreover have "counted s' = counted s" by (simp add: buffered(6) counted_def)
    ultimately show ?thesis
      using w_none[OF buffered(2), of s'] ro' rp'[OF wt] buffered by (simp add: sub_ok_def)
  next
    case sent
    have wt: "wants s' = wants s" by (simp add: sent(4) wants_def[abs_def] matches_def)
    have c: "counted s' = counted s @ [blob]" by (simp add: sent(4) counted_def[of "s\<lparr>sub_replay_watermark := None\<rparr>"] counted_def[of s])
    have "handed_ok cf d' h s'"
      using h sent(1-3) above live[OF wt] c by (simp add: handed_ok_def bl sent(4))
    then show ?thesis
      using w_none[OF sent(2), of s'] ro' rp'[OF wt] sent by (simp add: sub_ok_def)
  qed
  then show "sub_ok cf d' h s'"
    and "sub_pre_ack_buffer s \<noteq> None \<Longrightarrow> counted s' = counted s \<and> sub_pre_ack_buffer s' \<noteq> None"
    by blast+
qed

lemma swept_one_inv:
  assumes inv: "daemon_inv cf d"
    and nxt: "filter (\<lambda>x. d_cursor d < ev_seq x) (visible_rows (d_table d)) = r # rest"
    and blob: "row_blob cf r = Inr blob"
  shows "daemon_inv cf (swept_one cf r blob d)"
proof -
  let ?d = "swept_one cf r blob d"
  have core: "core_inv cf d" using inv by (simp add: daemon_inv_def)
  note nf = next_row_facts[OF core nxt] and c = swept_one_core[of cf r blob d]
  have "ev_seq r \<le> tb_last_seq (d_table d)"
    using nf(2) core by (auto simp: core_inv_def table_inv_def visible_rows_def)
  then have "core_inv cf ?d"
    using core nf(1) blob unfolding core_inv_def c by (fastforce simp: blob_of_def)
  moreover have "keys_inv ?d"
    using inv swept_one_keys[of d cf r blob] swept_one_subs[of _ _ cf r blob d]
    unfolding daemon_inv_def keys_inv_def c by force
  moreover have "subs_inv cf ?d"
    unfolding subs_inv_def
  proof (intro allI impI)
    fix fd s' h
    assume a: "(fd, s') \<in> set (d_subs ?d)" "(fd, h) \<in> set (d_hist ?d)"
    obtain s m where s: "(fd, s) \<in> set (d_subs d)"
      "fan_out_one (ev_seq r) (ev_owner r) (ev_repo r) (ev_event_type r) blob s = (s', m, False)"
      using swept_one_subs[OF a(1)] by blast
    have old: "sub_ok cf d h s" "\<And>p. (fd, p) \<in> set (d_pending d) \<Longrightarrow> pending_ok p h s"
      using inv s(1) a(2) by (auto simp: daemon_inv_def subs_inv_def c)
    note one = fan_out_one_ok[OF core old(1) nxt blob s(2) c(1-3)]
    show "sub_ok cf ?d h s' \<and> (\<forall>p. (fd, p) \<in> set (d_pending ?d) \<longrightarrow> pending_ok p h s')"
      using one old(2) unfolding c by (auto simp: pending_ok_def)
  qed
  ultimately show ?thesis by (simp add: daemon_inv_def)
qed

lemma pass_rows_inv:
  assumes "daemon_inv cf d" "filter (\<lambda>x. d_cursor d < ev_seq x) (visible_rows (d_table d)) = rows @ rest"
  shows "daemon_inv cf (snd (pass_rows cf rows d))"
  using assms
proof (induction rows arbitrary: d)
  case (Cons r rows)
  show ?case
  proof (cases "row_blob cf r")
    case (Inl e)
    then show ?thesis using Cons.prems(1) by (simp add: pass_rows_Cons del: pass_rows.simps)
  next
    case (Inr blob)
    have nxt: "filter (\<lambda>x. d_cursor d < ev_seq x) (visible_rows (d_table d)) = r # (rows @ rest)"
      using Cons.prems(2) by simp
    have core: "core_inv cf d" using Cons.prems(1) by (simp add: daemon_inv_def)
    have "filter (\<lambda>x. d_cursor (swept_one cf r blob d) < ev_seq x)
        (visible_rows (d_table (swept_one cf r blob d))) = rows @ rest"
      using next_row_facts(4)[OF core nxt] by (simp add: swept_one_core)
    then show ?thesis
      using Cons.IH[OF swept_one_inv[OF Cons.prems(1) nxt Inr]] Inr
      by (simp add: pass_rows_Cons del: pass_rows.simps)
  qed
qed simp

lemma broadcast_pass_inv:
  assumes "daemon_inv cf d"
  shows "daemon_inv cf (snd (broadcast_pass cf d))"
proof -
  let ?rows = "iter_events_above (d_table d) (d_cursor d) None SWEEP_LIMIT"
  have t: "table_inv (d_table d)" using assms by (simp add: daemon_inv_def core_inv_def)
  have "filter (\<lambda>x. d_cursor d < ev_seq x) (visible_rows (d_table d)) = ?rows
      @ drop SWEEP_LIMIT (filter (\<lambda>x. d_cursor d < ev_seq x) (visible_rows (d_table d)))"
    using events.above_batch[OF t, of "d_cursor d" SWEEP_LIMIT] by simp
  from pass_rows_inv[OF assms this] show ?thesis
    using assms by (simp add: broadcast_pass_def Let_def)
qed

section \<open>Closing, heartbeats, writability, shutdown\<close>

lemma inv_distinct [simp]: "daemon_inv cf d \<Longrightarrow> distinct (map fst (d_subs d))"
  by (simp add: daemon_inv_def keys_inv_def)

lemma inv_close_all [wb_intros]:
  assumes "daemon_inv cf d"
  shows "daemon_inv cf (close_all cf reason fds d)"
  by (rule daemon_inv_subs[OF assms]) (use inv_distinct[OF assms] in \<open>auto simp: map_fst_filter_distinct\<close>)

lemma inv_close [wb_intros]:
  assumes "daemon_inv cf d"
  shows "daemon_inv cf (close_subscriber cf fd reason d)"
  by (rule daemon_inv_subs[OF assms]) (use inv_distinct[OF assms] in \<open>auto simp: map_fst_filter_distinct\<close>)

lemma inv_gauges [wb_intros]:
  assumes "daemon_inv cf d"
  shows "daemon_inv cf (update_backlog_gauges d)"
  by (rule daemon_inv_subs[OF assms]) (use inv_distinct[OF assms] in \<open>auto\<close>)

lemma inv_metrics [wb_intros]:
  assumes "daemon_inv cf d"
  shows "daemon_inv cf (upd_metrics f d)"
  by (rule daemon_inv_subs[OF assms]) (use inv_distinct[OF assms] in \<open>auto\<close>)

lemma inv_heartbeat: "daemon_inv cf d \<Longrightarrow> daemon_inv cf (step cf (AHeartbeat ts up) d)"
proof -
  assume inv: "daemon_inv cf d"
  have "daemon_inv cf (d\<lparr>d_subs := map (\<lambda>(fd, sub). (fd, snd (enqueue blob False sub))) (d_subs d)\<rparr>)" for blob
    by (rule daemon_inv_subs[OF inv])
       (use inv in \<open>auto simp: same_core_def case_prod_unfold comp_def wants_def[abs_def] matches_def\<close>)
  then show ?thesis
    using inv by (auto simp: heartbeat_tick_def Let_def intro: inv_gauges inv_close_all split: sum.splits)
qed

lemma inv_writable: "daemon_inv cf d \<Longrightarrow> daemon_inv cf (step cf (AWritable fd) d)"
proof -
  assume inv: "daemon_inv cf d"
  have "daemon_inv cf (subs_put fd (drain s) d)" if "map_of (d_subs d) fd = Some s" for s
  proof (rule daemon_inv_subs[OF inv])
    fix k s' assume "(k, s') \<in> set (d_subs (subs_put fd (drain s) d))"
    then have "(k, s') \<in> set (d_subs d) \<or> k = fd \<and> s' = drain s" using subs_put_mem by fastforce
    then show "\<exists>s. (k, s) \<in> set (d_subs d) \<and> counted s' = counted s \<and> wants s' = wants s
          \<and> sub_pre_ack_buffer s' = sub_pre_ack_buffer s
          \<and> sub_pre_ack_buffered_bytes s' = sub_pre_ack_buffered_bytes s
          \<and> sub_replay_watermark s' = sub_replay_watermark s"
      using map_of_SomeD[OF that] by auto
  qed (use inv in simp_all)
  then show ?thesis using inv by (auto simp: writable_def split: option.splits)
qed

lemma inv_flags:
  assumes inv: "daemon_inv cf d"
    and eq: "d_table d' = d_table d" "d_cursor d' = d_cursor d" "d_swept d' = d_swept d"
      "d_subs d' = d_subs d" "d_hist d' = d_hist d"
    and pend: "set (d_pending d') \<subseteq> set (d_pending d)" "distinct (map fst (d_pending d'))"
  shows "daemon_inv cf d'"
proof -
  have ok: "sub_ok cf d' h s = sub_ok cf d h s" for h s by (rule sub_ok_cong) (simp_all add: eq)
  have keys: "fst ` set (d_pending d') \<subseteq> fst ` set (d_pending d)" using pend(1) by blast
  have "core_inv cf d'" using inv by (simp add: daemon_inv_def core_inv_def eq)
  moreover have "keys_inv d'"
    using inv pend(2) subset_trans[OF keys] by (simp add: daemon_inv_def keys_inv_def eq)
  moreover have "subs_inv cf d'"
    using inv pend(1) unfolding daemon_inv_def subs_inv_def eq ok by blast
  ultimately show ?thesis by (simp add: daemon_inv_def)
qed

lemma inv_no_pending: "daemon_inv cf d \<Longrightarrow> daemon_inv cf (d\<lparr>d_pending := []\<rparr>)"
  using inv_flags[of cf d "d\<lparr>d_pending := []\<rparr>"] by simp

lemma inv_stopping: "daemon_inv cf d \<Longrightarrow> daemon_inv cf (d\<lparr>d_stopping := b\<rparr>)"
  using inv_flags[of cf d "d\<lparr>d_stopping := b\<rparr>"] by (simp add: daemon_inv_def keys_inv_def)

lemma inv_stop: "daemon_inv cf d \<Longrightarrow> daemon_inv cf (step cf AStop d)"
  by (auto simp: run_finally_def shutdown_def Let_def
      intro!: inv_close_all broadcast_pass_inv inv_stopping inv_no_pending)

section \<open>The handshake\<close>

lemma snapshot_max:
  assumes "table_inv t" "current_max_snapshot t = (u, e)"
  shows "u \<le> tb_last_seq t" "\<forall>r\<in>set (visible_rows t). ev_seq r \<le> u"
proof -
  have "sort_key ev_seq (visible_rows t) = visible_rows t"
    by (rule sort_key_sorted_wrt) (rule visible_sorted[OF assms(1)])
  then have c: "(u, e) = (case rev (visible_rows t) of [] \<Rightarrow> (0, None) | r # _ \<Rightarrow> (ev_seq r, ev_event_id r))"
    using assms(2) by (simp add: current_max_snapshot_def visible_rows_def)
  have sorted: "sorted_wrt (\<lambda>a b. ev_seq a < ev_seq b) (visible_rows t)" by (rule visible_sorted[OF assms(1)])
  show "u \<le> tb_last_seq t"
  proof (cases "visible_rows t" rule: rev_cases)
    case Nil
    then show ?thesis using c assms(1) by (simp add: table_inv_def)
  next
    case (snoc ys y)
    then have "y \<in> set (visible_rows t)" by simp
    then have "y \<in> set (tb_rows t)" by (simp add: visible_rows_def)
    then show ?thesis using c snoc assms(1) by (simp add: table_inv_def)
  qed
  show "\<forall>r\<in>set (visible_rows t). ev_seq r \<le> u"
    using c sorted by (cases "visible_rows t" rule: rev_cases) (auto intro: less_imp_le)
qed

lemma inv_subscribe:
  assumes inv: "daemon_inv cf d" and en: "enabled cf d (ASubscribe fd k uid msg)"
  shows "daemon_inv cf (step cf (ASubscribe fd k uid msg) d)"
proof (cases "validate_subscribe cf msg")
  case (Inl e)
  then show ?thesis using inv by (cases e) (auto simp: read_subscribe_def intro: inv_metrics)
next
  case (Inr v)
  obtain filters types since where v: "v = (filters, types, since)" by (cases v)
  define u where "u = (case since of Some _ \<Rightarrow> Some (fst (current_max_snapshot (d_table d))) | None \<Rightarrow> None)"
  define s where "s = (new_subscriber k filters types uid)
      \<lparr>sub_pre_ack_buffer := Some [], sub_pre_ack_buffered_bytes := 0, sub_replay_watermark := u\<rparr>"
  define h where "h = \<lparr>h_cursor = d_cursor d, h_until = u, h_lo = 0, h_window = [], h_replayed = []\<rparr>"
  define p where "p = \<lparr>pa_since = since, pa_until_seq = u,
      pa_caught_up_at = (case since of Some _ \<Rightarrow> snd (current_max_snapshot (d_table d)) | None \<Rightarrow> None)\<rparr>"
  define d' where "d' = step cf (ASubscribe fd k uid msg) d"
  have st: "d_subs d' = d_subs d @ [(fd, s)]" "d_pending d' = d_pending d @ [(fd, p)]"
    "d_hist d' = d_hist d @ [(fd, h)]" "d_table d' = d_table d" "d_cursor d' = d_cursor d"
    "d_swept d' = d_swept d"
    by (auto simp: d'_def read_subscribe_def Inr v Let_def s_def h_def p_def u_def new_subscriber_def
        split: option.splits prod.splits)
  have fresh: "fd \<notin> fst ` set (d_subs d)" "fd \<notin> fst ` set (d_pending d)" "fd \<notin> fst ` set (d_hist d)"
    using en by auto
  have core: "core_inv cf d" and t: "table_inv (d_table d)" using inv by (simp_all add: daemon_inv_def core_inv_def)
  have live: "live_rows d' h s = []"
    using core by (auto simp: live_rows_def st h_def core_inv_def intro!: filter_none_Nil)
  have until: "x \<le> tb_last_seq (d_table d)" "\<forall>r\<in>set (visible_rows (d_table d)). ev_seq r \<le> x" if "u = Some x" for x
    using that snapshot_max[OF t, of "fst (current_max_snapshot (d_table d))" "snd (current_max_snapshot (d_table d))"]
    by (auto simp: u_def split: option.splits)
  have "handed_ok cf d' h s"
  proof -
    have "sub_pre_ack_buffer s = Some []" "sub_pre_ack_buffered_bytes s = 0" by (simp_all add: s_def)
    then show ?thesis by (simp add: handed_ok_def live)
  qed
  moreover have "watermark_ok d' h s"
    by (auto simp: watermark_ok_def s_def h_def split: option.splits)
  moreover have "rows_ok d' h"
  proof (rule rows_okI)
    show "h_cursor h < ev_seq r"
      if "r \<in> set (visible_rows (d_table d'))" "h_until h \<noteq> None" "above_until h r" for r
      using that until(2) by (cases u) (fastforce simp: st h_def above_until_def)+
  qed (use until(1) in \<open>auto simp: st h_def\<close>)
  moreover have "replay_ok d' h s"
    by (rule replay_okI) (simp_all add: h_def s_def)
  ultimately have new: "sub_ok cf d' h s" by (simp add: sub_ok_def)
  have new_p: "pending_ok p h s"
    by (auto simp: pending_ok_def p_def h_def s_def counted_def new_subscriber_def u_def split: option.splits)
  have old: "sub_ok cf d' h' s' = sub_ok cf d h' s'" for h' s'
    by (rule sub_ok_cong) (simp_all add: st)
  have "keys_inv d'" using inv fresh unfolding daemon_inv_def keys_inv_def st by auto
  moreover have "core_inv cf d'" using core unfolding core_inv_def st .
  moreover have "subs_inv cf d'"
    unfolding subs_inv_def
  proof (intro allI impI)
    fix fd' s' h'
    assume a: "(fd', s') \<in> set (d_subs d')" "(fd', h') \<in> set (d_hist d')"
    show "sub_ok cf d' h' s' \<and> (\<forall>p. (fd', p) \<in> set (d_pending d') \<longrightarrow> pending_ok p h' s')"
    proof (cases "fd' = fd")
      case True
      then have "s' = s" "h' = h" using a fresh by (force simp: st)+
      moreover have "p' = p" if "(fd, p') \<in> set (d_pending d')" for p' using that fresh by (force simp: st)
      ultimately show ?thesis using new new_p True by blast
    next
      case False
      then have "(fd', s') \<in> set (d_subs d)" "(fd', h') \<in> set (d_hist d)" using a by (auto simp: st)
      then have "sub_ok cf d h' s' \<and> (\<forall>p. (fd', p) \<in> set (d_pending d) \<longrightarrow> pending_ok p h' s')"
        using inv by (auto simp: daemon_inv_def subs_inv_def)
      then show ?thesis using False by (auto simp: old st(2))
    qed
  qed
  ultimately show ?thesis unfolding d'_def[symmetric] daemon_inv_def by blast
qed

section \<open>The end of the handshake\<close>

text \<open>The parts of a subscriber that enqueueing leaves alone.\<close>

definition same_frame :: "subscriber \<Rightarrow> subscriber \<Rightarrow> bool" where
  "same_frame s s' \<longleftrightarrow> wants s' = wants s \<and> sub_replay_watermark s' = sub_replay_watermark s
     \<and> sub_pre_ack_buffer s' = sub_pre_ack_buffer s
     \<and> sub_pre_ack_buffered_bytes s' = sub_pre_ack_buffered_bytes s"

lemma same_frame_refl [simp]: "same_frame s s"
  by (simp add: same_frame_def)

lemma same_frame_enqueue [simp]: "same_frame s (snd (enqueue b c s')) = same_frame s s'"
  by (simp add: same_frame_def)

lemma same_frame_wants: "same_frame s s' \<Longrightarrow> wants s' = wants s"
  by (simp add: same_frame_def)

text \<open>Only the entry of \<open>fd\<close> changes, to a subscriber satisfying \<open>P\<close>, or it is removed.\<close>

definition only_fd :: "nat \<Rightarrow> daemon \<Rightarrow> daemon \<Rightarrow> (subscriber \<Rightarrow> bool) \<Rightarrow> bool" where
  "only_fd fd d d' P \<longleftrightarrow> same_core d d' \<and> distinct (map fst (d_subs d'))
     \<and> (\<forall>k v. (k, v) \<in> set (d_subs d') \<longrightarrow> (k \<noteq> fd \<and> (k, v) \<in> set (d_subs d)) \<or> (k = fd \<and> P v))"

lemma only_fd_put:
  "distinct (map fst (d_subs d)) \<Longrightarrow> P s \<Longrightarrow> only_fd fd d (subs_put fd s (upd_metrics f d)) P"
  unfolding only_fd_def using subs_put_mem[of _ _ fd s "upd_metrics f d"] by fastforce

lemma only_fd_put0: "distinct (map fst (d_subs d)) \<Longrightarrow> P s \<Longrightarrow> only_fd fd d (subs_put fd s d) P"
  unfolding only_fd_def using subs_put_mem[of _ _ fd s d] by fastforce

lemma only_fd_trans:
  assumes "only_fd fd d d1 P" "only_fd fd d1 d2 Q"
  shows "only_fd fd d d2 Q"
  unfolding only_fd_def
proof (intro conjI allI impI)
  show "same_core d d2" using assms same_core_trans unfolding only_fd_def by blast
  show "distinct (map fst (d_subs d2))" using assms unfolding only_fd_def by blast
  fix k v assume "(k, v) \<in> set (d_subs d2)"
  then show "k \<noteq> fd \<and> (k, v) \<in> set (d_subs d) \<or> k = fd \<and> Q v"
    using assms unfolding only_fd_def by blast
qed

lemma only_fd_mono: "only_fd fd d d' P \<Longrightarrow> (\<And>s. P s \<Longrightarrow> Q s) \<Longrightarrow> only_fd fd d d' Q"
  unfolding only_fd_def by blast

lemma only_fd_close:
  assumes "only_fd fd d d' P"
  shows "only_fd fd d (close_subscriber cf fd reason d') Q"
  using assms unfolding only_fd_def
  by (auto simp: map_fst_filter_distinct)

lemma only_fd_distinct: "only_fd fd d d' P \<Longrightarrow> distinct (map fst (d_subs d'))"
  by (simp add: only_fd_def)

lemma drain_pre_ack_only:
  assumes "only_fd fd d0 d (\<lambda>v. v = sub)"
  shows "only_fd fd d0 (drain_pre_ack cf fd sub bs d)
           (\<lambda>v. same_frame sub v \<and> counted v = counted sub @ bs)"
  using assms
proof (induction bs arbitrary: sub d)
  case Nil
  then show ?case by (auto intro: only_fd_mono)
next
  case (Cons b bs)
  let ?sub = "snd (enqueue b True sub)"
  have put: "only_fd fd d0 (subs_put fd ?sub d) (\<lambda>v. v = ?sub)"
    by (rule only_fd_trans[OF Cons.prems only_fd_put0]) (use only_fd_distinct[OF Cons.prems] in simp_all)
  show ?case
  proof (cases "LAG_LIMIT \<le> sub_lag_count ?sub")
    case True
    then show ?thesis using only_fd_close[OF put] by (simp add: Let_def)
  next
    case False
    have "only_fd fd d0 (drain_pre_ack cf fd ?sub bs (subs_put fd ?sub d)) 
            (\<lambda>v. same_frame ?sub v \<and> counted v = counted ?sub @ bs)"
      by (rule Cons.IH[OF put])
    then show ?thesis
      using False by (auto simp: Let_def same_frame_def elim!: only_fd_mono)
  qed
qed

lemma replay_rows_only:
  assumes "replay_rows cf fd sub rows d = (e, sub', d')" "only_fd fd d0 d (\<lambda>v. v = sub)"
  shows "only_fd fd d0 d' (\<lambda>v. v = sub' \<and> e \<noteq> ReplayEvicted) \<and> same_frame sub sub'
       \<and> (e = ReplayAlive \<longrightarrow> counted sub' = counted sub @ map (blob_of cf) (filter (wants sub) rows))"
  using assms
proof (induction rows arbitrary: sub d)
  case Nil
  then show ?case by (auto elim: only_fd_mono)
next
  case (Cons r rows)
  show ?case
  proof (cases "wants sub r")
    case False
    then show ?thesis using Cons.IH[of sub d] Cons.prems by (simp add: wants_def)
  next
    case w: True
    show ?thesis
    proof (cases "row_blob cf r")
      case (Inl x)
      then show ?thesis using Cons.prems w by (auto simp: wants_def elim: only_fd_mono)
    next
      case (Inr blob)
      let ?sub = "snd (enqueue blob True sub)"
      let ?d = "subs_put fd ?sub (upd_metrics (\<lambda>m. m\<lparr>m_replay_events := m_replay_events m + 1\<rparr>) d)"
      have put: "only_fd fd d0 ?d (\<lambda>v. v = ?sub)"
        by (rule only_fd_trans[OF Cons.prems(2) only_fd_put]) (use only_fd_distinct[OF Cons.prems(2)] in simp_all)
      show ?thesis
      proof (cases "LAG_LIMIT \<le> sub_lag_count ?sub")
        case True
        then show ?thesis
          using Cons.prems(1) w Inr only_fd_close[OF put] by (auto simp: wants_def Let_def)
      next
        case False
        then have rec: "replay_rows cf fd ?sub rows ?d = (e, sub', d')"
          using Cons.prems(1) w Inr by (simp add: wants_def Let_def)
        show ?thesis
          using Cons.IH[OF rec put] w Inr by (auto simp: same_frame_def blob_of_def)
      qed
    qed
  qed
qed

lemma inv_only_fd:
  assumes core: "core_inv cf d" and keys: "keys_inv d"
    and others: "\<And>k s h. k \<noteq> fd \<Longrightarrow> (k, s) \<in> set (d_subs d) \<Longrightarrow> (k, h) \<in> set (d_hist d) \<Longrightarrow>
                   sub_ok cf d h s \<and> (\<forall>p. (k, p) \<in> set (d_pending d) \<longrightarrow> pending_ok p h s)"
    and fd: "fd \<notin> fst ` set (d_pending d)" "fd \<in> fst ` set (d_hist d)"
    and only: "only_fd fd d d' P"
    and new: "\<And>s' h. P s' \<Longrightarrow> (fd, h) \<in> set (d_hist d) \<Longrightarrow> sub_ok cf d h s'"
  shows "daemon_inv cf d'"
proof -
  note eq = same_coreD[of d d']
  have sc: "same_core d d'" and dist: "distinct (map fst (d_subs d'))"
    and mem: "\<And>k v. (k, v) \<in> set (d_subs d') \<Longrightarrow> (k \<noteq> fd \<and> (k, v) \<in> set (d_subs d)) \<or> (k = fd \<and> P v)"
    using only by (auto simp: only_fd_def)
  have ok: "sub_ok cf d' h s = sub_ok cf d h s" for h s
    by (rule sub_ok_cong) (simp_all add: eq[OF sc])
  have "fst ` set (d_subs d') \<subseteq> fst ` set (d_hist d)"
  proof
    fix k assume "k \<in> fst ` set (d_subs d')"
    then obtain v where "(k, v) \<in> set (d_subs d')" by force
    from mem[OF this] have "k \<in> fst ` set (d_subs d) \<or> k = fd" by (metis fst_conv image_eqI)
    then show "k \<in> fst ` set (d_hist d)"
      using fd(2) keys unfolding keys_inv_def by blast
  qed
  then have "keys_inv d'" using keys dist unfolding keys_inv_def eq[OF sc] by blast
  moreover have "core_inv cf d'" using core unfolding core_inv_def eq[OF sc] .
  moreover have "subs_inv cf d'"
    unfolding subs_inv_def eq[OF sc] ok
  proof (intro allI impI)
    fix k s h assume a: "(k, s) \<in> set (d_subs d')" "(k, h) \<in> set (d_hist d)"
    show "sub_ok cf d h s \<and> (\<forall>p. (k, p) \<in> set (d_pending d) \<longrightarrow> pending_ok p h s)"
    proof (cases "k = fd")
      case True
      then have "P s" "(fd, h) \<in> set (d_hist d)" using mem[OF a(1)] a(2) by blast+
      then have "sub_ok cf d h s" by (rule new)
      moreover have "(k, p) \<notin> set (d_pending d)" for p using fd(1) True by (metis fst_conv image_eqI)
      ultimately show ?thesis by blast
    next
      case False
      then show ?thesis using others[OF False _ a(2)] mem[OF a(1)] by blast
    qed
  qed
  ultimately show ?thesis by (simp add: daemon_inv_def)
qed

lemma distinct_assoc: "distinct (map fst xs) \<Longrightarrow> (k, a) \<in> set xs \<Longrightarrow> (k, b) \<in> set xs \<Longrightarrow> a = b"
  by (metis map_of_is_SomeI option.inject)

text \<open>The completed handshake: acknowledged, replayed where asked for, and the buffer drained.\<close>

lemma sub_ok_finished:
  assumes ok: "sub_ok cf d h s" and pend: "pending_ok p h s"
    and h': "h_cursor h' = h_cursor h" "h_until h' = h_until h"
    and v: "wants v = wants s" "sub_replay_watermark v = sub_replay_watermark s" "sub_pre_ack_buffer v = None"
      "counted v = map (blob_of cf) (h_replayed h') @ the (sub_pre_ack_buffer s)"
    and rp: "replay_ok d h' v"
  shows "sub_ok cf d h' v"
proof -
  obtain buf where buf: "sub_pre_ack_buffer s = Some buf" "buf = map (blob_of cf) (live_rows d h s)"
    using ok pend by (auto simp: sub_ok_def handed_ok_def pending_ok_def)
  have "live_rows d h' v = live_rows d h s" by (simp add: live_rows_def above_until_def h' v)
  then have "handed_ok cf d h' v" by (simp add: handed_ok_def v buf)
  moreover have "watermark_ok d h' v" "rows_ok d h'"
    using ok by (simp_all add: sub_ok_def watermark_ok_def rows_ok_def above_until_def h' v cong: option.case_cong)
  ultimately show ?thesis using rp by (simp add: sub_ok_def)
qed

text \<open>A handshake that raised in the middle of the replay leaves the subscriber gated.\<close>

lemma sub_ok_gated:
  assumes ok: "sub_ok cf d h s" and pend: "pending_ok p h s"
    and h': "h_cursor h' = h_cursor h" "h_until h' = h_until h"
    and v: "same_frame s v" and rp: "replay_ok d h' v"
  shows "sub_ok cf d h' v"
proof -
  have vs: "wants v = wants s" "sub_replay_watermark v = sub_replay_watermark s"
    "sub_pre_ack_buffer v = sub_pre_ack_buffer s" "sub_pre_ack_buffered_bytes v = sub_pre_ack_buffered_bytes s"
    using v by (simp_all add: same_frame_def)
  have "live_rows d h' v = live_rows d h s" by (simp add: live_rows_def above_until_def h' vs)
  moreover obtain buf where "sub_pre_ack_buffer s = Some buf" using pend by (auto simp: pending_ok_def)
  ultimately have "handed_ok cf d h' v = handed_ok cf d h s" by (simp add: handed_ok_def vs)
  then have "handed_ok cf d h' v" using ok by (simp add: sub_ok_def)
  moreover have "watermark_ok d h' v" "rows_ok d h'"
    using ok by (simp_all add: sub_ok_def watermark_ok_def rows_ok_def above_until_def h' vs cong: option.case_cong)
  ultimately show ?thesis using rp by (simp add: sub_ok_def)
qed

lemma hist_replay_simps [simp]:
  "d_table (hist_replay fd lo w r d) = d_table d" "d_cursor (hist_replay fd lo w r d) = d_cursor d"
  "d_swept (hist_replay fd lo w r d) = d_swept d" "d_subs (hist_replay fd lo w r d) = d_subs d"
  "d_pending (hist_replay fd lo w r d) = d_pending d" "d_stopping (hist_replay fd lo w r d) = d_stopping d"
  by (simp_all add: hist_replay_def)

lemma assoc_upd_keys: "map fst (map (\<lambda>(k, v). if k = fd then (k, f v) else (k, v)) xs) = map fst xs"
  by (induction xs) auto

lemma assoc_upd_mem:
  "(k, v') \<in> set (map (\<lambda>(k, v). if k = fd then (k, f v) else (k, v)) xs)
     \<Longrightarrow> if k = fd then (\<exists>v. (fd, v) \<in> set xs \<and> v' = f v) else (k, v') \<in> set xs"
proof (induction xs)
  case (Cons y ys)
  then show ?case by (cases y) (auto split: if_splits)
qed simp

lemma hist_replay_keys: "map fst (d_hist (hist_replay fd lo w r d)) = map fst (d_hist d)"
  using assoc_upd_keys[of fd "\<lambda>h. h\<lparr>h_lo := lo, h_window := w, h_replayed := r\<rparr>" "d_hist d"]
  by (simp add: hist_replay_def)

lemma hist_replay_mem:
  "(k, h') \<in> set (d_hist (hist_replay fd lo w r d)) \<Longrightarrow>
     if k = fd then (\<exists>h. (fd, h) \<in> set (d_hist d) \<and> h' = h\<lparr>h_lo := lo, h_window := w, h_replayed := r\<rparr>)
     else (k, h') \<in> set (d_hist d)"
  using assoc_upd_mem[of k h' fd "\<lambda>h. h\<lparr>h_lo := lo, h_window := w, h_replayed := r\<rparr>" "d_hist d"]
  by (simp add: hist_replay_def)

lemma ack_sent_frame [simp]:
  "same_frame s (ack_sent ack s)" "counted (ack_sent ack s) = counted s" "wants (ack_sent ack s) = wants s"
  "sub_pre_ack_buffer (ack_sent ack s) = sub_pre_ack_buffer s"
  by (simp_all add: same_frame_def ack_sent_def record_sent_def counted_def wants_def[abs_def] matches_def)

lemma open_gate_frame [simp]:
  "wants (open_gate s) = wants s" "sub_replay_watermark (open_gate s) = sub_replay_watermark s"
  "sub_pre_ack_buffer (open_gate s) = None" "counted (open_gate s) = counted s"
  by (simp_all add: open_gate_def wants_def[abs_def] matches_def counted_def)

lemma finish_only:
  assumes "only_fd fd d0 d (\<lambda>v. v = sub)"
  shows "only_fd fd d0 (finish_handshake cf fd sub d)
     (\<lambda>v. wants v = wants sub \<and> sub_replay_watermark v = sub_replay_watermark sub
        \<and> sub_pre_ack_buffer v = None
        \<and> counted v = counted sub @ (case sub_pre_ack_buffer sub of Some b \<Rightarrow> b | None \<Rightarrow> []))"
proof -
  have "only_fd fd d0 (subs_put fd (open_gate sub) d) (\<lambda>v. v = open_gate sub)"
    by (rule only_fd_trans[OF assms only_fd_put0]) (use only_fd_distinct[OF assms] in simp_all)
  from drain_pre_ack_only[OF this] show ?thesis
    unfolding finish_handshake_def by (rule only_fd_mono) (auto simp: same_frame_def)
qed

lemma inv_after_ack:
  assumes inv: "daemon_inv cf d" and fd: "fd \<notin> fst ` set (d_pending d)"
    and sub: "(fd, s) \<in> set (d_subs d)" and h: "(fd, h) \<in> set (d_hist d)" and pend: "pending_ok p h s"
    and only: "only_fd fd d d1 (\<lambda>v. v = sub)" and same: "same_frame s sub" "counted sub = counted s"
  shows "daemon_inv cf (after_ack cf fd p db sub d1)"
proof -
  have core: "core_inv cf d" and keys: "keys_inv d" and t: "table_inv (d_table d)"
    using inv by (auto simp: daemon_inv_def core_inv_def)
  have ok: "sub_ok cf d h s" using inv sub h by (auto simp: daemon_inv_def subs_inv_def)
  have others: "\<And>k s h. k \<noteq> fd \<Longrightarrow> (k, s) \<in> set (d_subs d) \<Longrightarrow> (k, h) \<in> set (d_hist d) \<Longrightarrow>
      sub_ok cf d h s \<and> (\<forall>p. (k, p) \<in> set (d_pending d) \<longrightarrow> pending_ok p h s)"
    using inv unfolding daemon_inv_def subs_inv_def by blast
  have uniq: "h' = h" if "(fd, h') \<in> set (d_hist d)" for h'
    using distinct_assoc[OF _ that h] keys by (simp add: keys_inv_def)
  have fdh: "fd \<in> fst ` set (d_hist d)" using h by (metis fst_conv image_eqI)
  obtain buf where buf: "sub_pre_ack_buffer s = Some buf" and cs: "counted s = []"
    using pend by (auto simp: pending_ok_def)
  have fr: "wants sub = wants s" "sub_replay_watermark sub = sub_replay_watermark s"
    "sub_pre_ack_buffer sub = sub_pre_ack_buffer s" "counted sub = []"
    using same cs by (simp_all add: same_frame_def)
  note close = inv_only_fd[OF core keys others fd fdh only_fd_close[OF only, of _ _ "\<lambda>_. False"]]
  show ?thesis
  proof (cases "pa_since p")
    case None
    then have until: "h_until h = None" using pend by (simp add: pending_ok_def)
    have hr: "h_replayed h = []" "h_window h = []" using pend by (simp_all add: pending_ok_def)
    have "daemon_inv cf (finish_handshake cf fd sub d1)"
    proof (rule inv_only_fd[OF core keys others fd fdh finish_only[OF only]])
      fix v h' assume v: "wants v = wants sub \<and> sub_replay_watermark v = sub_replay_watermark sub
        \<and> sub_pre_ack_buffer v = None
        \<and> counted v = counted sub @ (case sub_pre_ack_buffer sub of Some b \<Rightarrow> b | None \<Rightarrow> [])"
        and "(fd, h') \<in> set (d_hist d)"
      then have "h' = h" by (simp add: uniq)
      moreover have "replay_ok d h v" by (rule replay_okI) (simp_all add: hr until)
      ultimately show "sub_ok cf d h' v"
        using sub_ok_finished[OF ok pend, of h v] v fr buf hr by simp
    qed
    then show ?thesis by (simp add: after_ack_def None)
  next
    case (Some since)
    show ?thesis
    proof (cases db)
      case DbError
      then show ?thesis using close by (simp add: after_ack_def Some)
    next
      case DbOk
      define lo where "lo = seq_for_event_id (d_table d) since"
      define w where "w = filter (\<lambda>r. lo < ev_seq r \<and> (case pa_until_seq p of None \<Rightarrow> True | Some u \<Rightarrow> ev_seq r \<le> u))
                     (visible_rows (d_table d))"
      define r where "r = filter (wants sub) (take REPLAY_LIMIT w)"
      let ?b = "hist_replay fd lo w r d" and ?b1 = "hist_replay fd lo w r d1"
      have t1: "d_table d1 = d_table d" using only by (simp add: only_fd_def same_core_def)
      have rows: "iter_events_above (d_table d) lo (pa_until_seq p) REPLAY_LIMIT = take REPLAY_LIMIT w"
        by (simp add: iter_events_above_visible[OF t] w_def)
      have run: "replay cf fd sub since (pa_until_seq p) d1 = replay_rows cf fd sub (take REPLAY_LIMIT w) ?b1"
        unfolding replay_def Let_def t1 lo_def[symmetric] w_def[symmetric] rows r_def wants_def[abs_def] ..
      obtain e sub2 d2 where res: "replay_rows cf fd sub (take REPLAY_LIMIT w) ?b1 = (e, sub2, d2)"
        by (metis prod_cases3)
      have "only_fd fd ?b ?b1 (\<lambda>v. v = sub)"
        using only by (auto simp: only_fd_def same_core_def hist_replay_def)
      from replay_rows_only[OF res this]
      have rr: "only_fd fd ?b d2 (\<lambda>v. v = sub2 \<and> e \<noteq> ReplayEvicted)" "same_frame sub sub2"
        "e = ReplayAlive \<longrightarrow> counted sub2 = map (blob_of cf) r"
        by (simp_all add: fr r_def)
      obtain u where until: "h_until h = Some u" "pa_until_seq p = Some u"
        using pend Some by (cases "h_until h") (auto simp: pending_ok_def)
      define h1 where "h1 = h\<lparr>h_lo := lo, h_window := w, h_replayed := r\<rparr>"
      have bcore: "core_inv cf ?b" using core by (simp add: core_inv_def)
      have bkeys: "keys_inv ?b"
        using keys hist_replay_keys[of fd lo w r d] unfolding keys_inv_def
        by (metis (no_types, lifting) hist_replay_simps(4,5) list.set_map)
      have bok: "sub_ok cf ?b h' v = sub_ok cf d h' v" for h' v
        by (rule sub_ok_cong) simp_all
      have bothers: "sub_ok cf ?b h' v \<and> (\<forall>p. (k, p) \<in> set (d_pending ?b) \<longrightarrow> pending_ok p h' v)"
        if "k \<noteq> fd" "(k, v) \<in> set (d_subs ?b)" "(k, h') \<in> set (d_hist ?b)" for k v h'
        using others[of k v h'] that hist_replay_mem[OF that(3)] by (simp add: bok)
      have bfd: "fd \<notin> fst ` set (d_pending ?b)" "fd \<in> fst ` set (d_hist ?b)"
        using fd fdh hist_replay_keys[of fd lo w r d] by (simp, metis list.set_map)
      have buniq: "h' = h1" if "(fd, h') \<in> set (d_hist ?b)" for h'
        using hist_replay_mem[OF that] uniq by (auto simp: h1_def)
      have rp: "replay_ok d h1 v" if "wants v = wants sub" for v
      proof (rule replay_okI)
        show "sorted_wrt (\<lambda>a b. ev_seq a < ev_seq b) (h_window h1)"
          by (simp add: h1_def w_def sorted_wrt_filter visible_sorted[OF t])
      qed (use that until in \<open>auto simp: h1_def r_def w_def\<close>)
      have h1: "h_cursor h1 = h_cursor h" "h_until h1 = h_until h" "h_replayed h1 = r"
        by (simp_all add: h1_def)
      have sf: "same_frame s sub2" using same(1) rr(2) by (simp add: same_frame_def)
      show ?thesis
      proof (cases "e = ReplayAlive")
        case True
        have only2: "only_fd fd ?b d2 (\<lambda>v. v = sub2)" using rr(1) by (rule only_fd_mono) simp
        have "daemon_inv cf (finish_handshake cf fd sub2 d2)"
        proof (rule inv_only_fd[OF bcore bkeys bothers bfd finish_only[OF only2]])
          fix v h' assume v: "wants v = wants sub2 \<and> sub_replay_watermark v = sub_replay_watermark sub2
            \<and> sub_pre_ack_buffer v = None
            \<and> counted v = counted sub2 @ (case sub_pre_ack_buffer sub2 of Some b \<Rightarrow> b | None \<Rightarrow> [])"
            and "(fd, h') \<in> set (d_hist ?b)"
          then have "h' = h1" by (simp add: buniq)
          moreover have "sub_ok cf d h1 v"
            using sub_ok_finished[OF ok pend h1(1,2), of v] rp[of v] v sf buf rr(3) True fr(1) h1(3)
            by (simp add: same_frame_def)
          ultimately show "sub_ok cf ?b h' v" by (simp add: bok)
        qed auto
        then show ?thesis using True by (simp add: after_ack_def Some DbOk run res)
      next
        case False
        have "daemon_inv cf d2"
        proof (rule inv_only_fd[OF bcore bkeys bothers bfd rr(1)])
          fix v h' assume v: "v = sub2 \<and> e \<noteq> ReplayEvicted" and "(fd, h') \<in> set (d_hist ?b)"
          then have "h' = h1" by (simp add: buniq)
          moreover have "sub_ok cf d h1 v"
            using sub_ok_gated[OF ok pend h1(1,2), of v] rp[of v] v sf fr(1) by (simp add: same_frame_def)
          ultimately show "sub_ok cf ?b h' v" by (simp add: bok)
        qed auto
        then show ?thesis using False by (cases e) (simp_all add: after_ack_def Some DbOk run res)
      qed
    qed
  qed
qed

lemma inv_resume:
  assumes inv: "daemon_inv cf d0"
  shows "daemon_inv cf (step cf (AResume fd out db) d0)"
proof (cases "map_of (d_pending d0) fd")
  case None
  then show ?thesis using inv by (simp add: resume_subscribe_def)
next
  case (Some p)
  define d where "d = d0\<lparr>d_pending := filter (\<lambda>(k, v). k \<noteq> fd) (d_pending d0)\<rparr>"
  have d: "daemon_inv cf d"
    by (rule inv_flags[OF inv])
       (use inv in \<open>auto simp: d_def daemon_inv_def keys_inv_def map_fst_filter_distinct\<close>)
  have fd: "fd \<notin> fst ` set (d_pending d)" by (auto simp: d_def)
  show ?thesis
  proof (cases "map_of (d_subs d) fd")
    case None
    then show ?thesis using Some d by (simp add: resume_subscribe_def Let_def flip: d_def)
  next
    case sub: (Some s)
    have mem: "(fd, s) \<in> set (d_subs d)" using sub by (rule map_of_SomeD)
    have keys: "keys_inv d" using d by (simp add: daemon_inv_def)
    obtain h where h: "(fd, h) \<in> set (d_hist d)"
      using keys mem unfolding keys_inv_def by force
    have pend: "pending_ok p h s"
      using inv mem h map_of_SomeD[OF Some] by (simp add: daemon_inv_def subs_inv_def d_def)
    have dist: "distinct (map fst (d_subs d))" using keys by (simp add: keys_inv_def)
    show ?thesis
    proof (cases "encode_struct_frame (cf_enc cf) (ack_frame_of cf (pa_caught_up_at p))")
      case (Inl e)
      then show ?thesis using Some sub d by (simp add: resume_subscribe_def Let_def flip: d_def)
    next
      case (Inr ack)
      show ?thesis
      proof (cases out)
        case AckSent
        have "only_fd fd d (subs_put fd (ack_sent ack s) d) (\<lambda>v. v = ack_sent ack s)"
          by (rule only_fd_put0[OF dist]) simp
        from inv_after_ack[OF d fd mem h pend this] have
          "daemon_inv cf (after_ack cf fd p db (ack_sent ack s) (subs_put fd (ack_sent ack s) d))" by simp
        then show ?thesis using Some sub Inr AckSent by (simp add: resume_subscribe_def Let_def flip: d_def)
      next
        case (AckFailed n)
        have put: "only_fd fd d (subs_put fd (ack_failed n ack s) d) (\<lambda>v. v = ack_failed n ack s)"
          by (rule only_fd_put0[OF dist]) simp
        have fdh: "fd \<in> fst ` set (d_hist d)" using h by (metis fst_conv image_eqI)
        have "daemon_inv cf (close_subscriber cf fd ''subscribe_ack_send_failed'' (subs_put fd (ack_failed n ack s) d))"
          by (rule inv_only_fd[OF _ keys _ fd fdh only_fd_close[OF put, of _ _ "\<lambda>_. False"]])
             (use d in \<open>auto simp: daemon_inv_def subs_inv_def\<close>)
        then show ?thesis using Some sub Inr AckFailed by (simp add: resume_subscribe_def Let_def flip: d_def)
      qed
    qed
  qed
qed

section \<open>Every reachable state\<close>

lemma foldl_max_last:
  "sorted_wrt (<) (x # xs) \<Longrightarrow> foldl max x xs = last (x # xs)" for x :: int
proof (induction xs arbitrary: x)
  case (Cons y xs)
  then have "max x y = y" by auto
  then show ?case using Cons.IH[of y] Cons.prems by simp
qed simp

lemma seed_cursor_last:
  assumes "table_inv t"
  shows "d_cursor (seed_cursor (init_daemon t)) \<le> tb_last_seq t"
proof (cases "map ev_seq (tb_rows t)")
  case Nil
  then show ?thesis using assms by (simp add: seed_cursor_def init_daemon_def table_inv_def)
next
  case (Cons x xs)
  have "sorted_wrt (<) (map ev_seq (tb_rows t))" using assms by (simp add: table_inv_def sorted_wrt_map)
  then have "foldl max x xs = last (x # xs)" using Cons by (intro foldl_max_last) simp
  moreover have "last (x # xs) \<in> set (map ev_seq (tb_rows t))" unfolding Cons by simp
  then obtain r where "r \<in> set (tb_rows t)" "last (x # xs) = ev_seq r" by (auto simp del: last.simps)
  moreover have "d_cursor (seed_cursor (init_daemon t)) = foldl max x xs"
    by (simp add: seed_cursor_def init_daemon_def Cons)
  ultimately show ?thesis using assms by (simp add: table_inv_def del: last.simps)
qed

lemma inv_start: "table_inv t \<Longrightarrow> daemon_inv cf (seed_cursor (init_daemon t))"
  using seed_cursor_last[of t]
  by (simp add: daemon_inv_def core_inv_def keys_inv_def subs_inv_def seed_cursor_def init_daemon_def)

lemma inv_step:
  assumes "daemon_inv cf d" "enabled cf d a"
  shows "daemon_inv cf (step cf a d)"
proof (cases a)
  case (ACommit gap ev eid)
  then show ?thesis using inv_commit[OF assms(1)] by simp
next
  case (APrune P)
  then show ?thesis using inv_prune[OF assms(1)] by simp
next
  case APass
  then show ?thesis using broadcast_pass_inv[OF assms(1)] by (simp add: run_broadcast_pass_def)
next
  case (ASubscribe fd k uid msg)
  then show ?thesis using inv_subscribe[OF assms(1)] assms(2) by blast
next
  case (AResume fd out db)
  then show ?thesis using inv_resume[OF assms(1)] by blast
next
  case (AHeartbeat ts up)
  then show ?thesis using inv_heartbeat[OF assms(1)] by blast
next
  case (AWritable fd)
  then show ?thesis using inv_writable[OF assms(1)] by blast
next
  case AStop
  then show ?thesis using inv_stop[OF assms(1)] by blast
qed

lemma reach_inv: "reach cf ok d \<Longrightarrow> daemon_inv cf d"
  by (induction rule: reach.induct) (simp_all add: inv_start inv_step)

end
