(* ===== verification/WB_BroadcastWire.thy ===== *)
theory WB_BroadcastWire
  imports WB_BroadcastInv
begin

text \<open>
  The second invariant of the broadcast daemon, for schedules in which no heartbeat fires during a
  subscribe handshake: every subscriber's outbound path satisfies \<open>sub_inv\<close> (so its wire is whole
  frames in order), a subscriber in the middle of its handshake has nothing on its wire, and one
  whose handshake is over has the acknowledgement as its first frame.
\<close>

definition pristine :: "subscriber \<Rightarrow> bool" where
  "pristine s \<longleftrightarrow> sub_sent s = [] \<and> sub_tx_queue s = [] \<and> sk_wire (sub_sock s) = []
     \<and> \<not> sk_dead (sub_sock s) \<and> sub_delivered s = 0 \<and> sub_lag_count s = 0 \<and> \<not> sub_draining s"

definition starts_with_ack :: "config \<Rightarrow> subscriber \<Rightarrow> bool" where
  "starts_with_ack cf s \<longleftrightarrow> (\<exists>c ack rest. encode_struct_frame (cf_enc cf) (ack_frame_of cf c) = Inr ack
     \<and> sub_sent s = (ack, False) # rest)"

text \<open>Everything sent is the encoding of one of the five frames.\<close>

definition framed :: "config \<Rightarrow> bytes \<Rightarrow> bool" where
  "framed cf b \<longleftrightarrow> (\<exists>f. encode_struct_frame (cf_enc cf) f = Inr b)"

definition all_framed :: "config \<Rightarrow> subscriber \<Rightarrow> bool" where
  "all_framed cf s \<longleftrightarrow> (\<forall>f\<in>set (sub_sent s). framed cf (fst f))"

definition wire_ok :: "config \<Rightarrow> subscriber \<Rightarrow> bool" where
  "wire_ok cf s \<longleftrightarrow> sub_inv s \<and> all_framed cf s \<and> (sub_pre_ack_buffer s = None \<longrightarrow> starts_with_ack cf s)"

definition wire_inv :: "config \<Rightarrow> daemon \<Rightarrow> bool" where
  "wire_inv cf d \<longleftrightarrow>
     (\<forall>(fd, s)\<in>set (d_subs d). wire_ok cf s \<and> (fd \<in> fst ` set (d_pending d) \<longrightarrow> pristine s))"

lemma wire_invI:
  "(\<And>fd s. (fd, s) \<in> set (d_subs d) \<Longrightarrow> wire_ok cf s \<and> (fd \<in> fst ` set (d_pending d) \<longrightarrow> pristine s))
     \<Longrightarrow> wire_inv cf d"
  unfolding wire_inv_def by blast

lemma wire_invD:
  assumes "wire_inv cf d" "(fd, s) \<in> set (d_subs d)"
  shows "wire_ok cf s" "fd \<in> fst ` set (d_pending d) \<Longrightarrow> pristine s"
  using assms unfolding wire_inv_def by blast+

lemma encode_frame_nonempty: "encode_frame p = Inr b \<Longrightarrow> b \<noteq> []"
  using encode_frame_length[of p b] by (auto simp: LENGTH_PREFIX_BYTES_def)

lemma encode_struct_nonempty: "encode_struct_frame enc f = Inr b \<Longrightarrow> b \<noteq> []"
  unfolding encode_struct_frame_def by (rule encode_frame_nonempty)

lemma framedI: "encode_struct_frame (cf_enc cf) f = Inr b \<Longrightarrow> framed cf b"
  unfolding framed_def by blast

lemma framed_nonempty: "framed cf b \<Longrightarrow> b \<noteq> []"
  unfolding framed_def using encode_struct_nonempty by blast

lemma row_blob_framed: "row_blob cf r = Inr b \<Longrightarrow> framed cf b"
  by (auto simp: row_blob_def serialize_def truncated_frame_def framed_def split: sum.splits)

lemma all_framed_enqueue: "all_framed cf s \<Longrightarrow> framed cf b \<Longrightarrow> all_framed cf (snd (enqueue b c s))"
  by (auto simp: all_framed_def)

lemma starts_with_ack_enqueue: "starts_with_ack cf s \<Longrightarrow> starts_with_ack cf (snd (enqueue b c s))"
  unfolding starts_with_ack_def by auto

lemma wire_ok_enqueue: "wire_ok cf s \<Longrightarrow> framed cf b \<Longrightarrow> wire_ok cf (snd (enqueue b c s))"
  by (auto simp: wire_ok_def enqueue_inv framed_nonempty all_framed_enqueue starts_with_ack_enqueue)

text \<open>\<open>sub_inv\<close> and the history do not look at the gate or the watermark.\<close>

lemma sub_inv_gate [simp]:
  "sub_inv (s\<lparr>sub_replay_watermark := w\<rparr>) = sub_inv s"
  "sub_inv (s\<lparr>sub_pre_ack_buffer := b\<rparr>) = sub_inv s"
  "sub_inv (s\<lparr>sub_pre_ack_buffered_bytes := n\<rparr>) = sub_inv s"
  by (simp_all add: sub_inv_def sub_split_def)

lemma pristine_gate [simp]:
  "pristine (s\<lparr>sub_replay_watermark := w\<rparr>) = pristine s"
  "pristine (s\<lparr>sub_pre_ack_buffer := b\<rparr>) = pristine s"
  "pristine (s\<lparr>sub_pre_ack_buffered_bytes := n\<rparr>) = pristine s"
  by (simp_all add: pristine_def)

lemma all_framed_gate [simp]:
  "all_framed cf (s\<lparr>sub_replay_watermark := w\<rparr>) = all_framed cf s"
  "all_framed cf (s\<lparr>sub_pre_ack_buffer := b\<rparr>) = all_framed cf s"
  "all_framed cf (s\<lparr>sub_pre_ack_buffered_bytes := n\<rparr>) = all_framed cf s"
  by (simp_all add: all_framed_def)

lemma starts_with_ack_gate [simp]:
  "starts_with_ack cf (s\<lparr>sub_replay_watermark := w\<rparr>) = starts_with_ack cf s"
  "starts_with_ack cf (s\<lparr>sub_pre_ack_buffer := b\<rparr>) = starts_with_ack cf s"
  "starts_with_ack cf (s\<lparr>sub_pre_ack_buffered_bytes := n\<rparr>) = starts_with_ack cf s"
  by (simp_all add: starts_with_ack_def)

text \<open>An operation that only changes subscribers.\<close>

lemma wire_inv_subs:
  assumes "same_core d d'"
    and "\<And>fd s'. (fd, s') \<in> set (d_subs d') \<Longrightarrow> wire_ok cf s' \<and> (fd \<in> fst ` set (d_pending d) \<longrightarrow> pristine s')"
  shows "wire_inv cf d'"
  by (rule wire_invI) (use assms in \<open>auto simp: same_core_def\<close>)

lemma pending_gated:
  assumes "daemon_inv cf d" "(fd, s) \<in> set (d_subs d)" "fd \<in> fst ` set (d_pending d)"
  shows "sub_pre_ack_buffer s \<noteq> None"
proof -
  obtain p where p: "(fd, p) \<in> set (d_pending d)" using assms(3) by force
  have "fd \<in> fst ` set (d_hist d)"
    using assms(1,3) unfolding daemon_inv_def keys_inv_def by blast
  then obtain h where "(fd, h) \<in> set (d_hist d)" by force
  then have "pending_ok p h s"
    using assms(1,2) p unfolding daemon_inv_def subs_inv_def by blast
  then show ?thesis by (simp add: pending_ok_def)
qed

lemma wire_swept_one:
  assumes inv: "daemon_inv cf d" and wi: "wire_inv cf d" and blob: "row_blob cf r = Inr blob"
  shows "wire_inv cf (swept_one cf r blob d)"
proof (rule wire_invI)
  fix fd s' assume a: "(fd, s') \<in> set (d_subs (swept_one cf r blob d))"
  obtain s m where s: "(fd, s) \<in> set (d_subs d)"
    "fan_out_one (ev_seq r) (ev_owner r) (ev_repo r) (ev_event_type r) blob s = (s', m, False)"
    using swept_one_subs[OF a] by blast
  note w = wire_invD[OF wi s(1)]
  have pend: "d_pending (swept_one cf r blob d) = d_pending d" by (simp add: swept_one_core)
  show "wire_ok cf s' \<and> (fd \<in> fst ` set (d_pending (swept_one cf r blob d)) \<longrightarrow> pristine s')"
    using s(2)
  proof (cases rule: fan_out_one_cases)
    case unwanted
    then show ?thesis using w pend by simp
  next
    case (replayed wm)
    then show ?thesis using w pend by simp
  next
    case (buffered buf)
    then show ?thesis using w pend by (simp add: wire_ok_def)
  next
    case sent
    have "fd \<notin> fst ` set (d_pending d)" using pending_gated[OF inv s(1)] sent(3) by blast
    moreover have "wire_ok cf (s\<lparr>sub_replay_watermark := None\<rparr>)" using w(1) by (simp add: wire_ok_def)
    ultimately show ?thesis
      using wire_ok_enqueue[OF _ row_blob_framed[OF blob]] pend by (simp add: sent(4))
  qed
qed

lemma wire_pass_rows:
  assumes "daemon_inv cf d" "wire_inv cf d"
    and "filter (\<lambda>x. d_cursor d < ev_seq x) (visible_rows (d_table d)) = rows @ rest"
  shows "wire_inv cf (snd (pass_rows cf rows d))"
  using assms
proof (induction rows arbitrary: d)
  case (Cons r rows)
  show ?case
  proof (cases "row_blob cf r")
    case (Inl e)
    then show ?thesis using Cons.prems(2) by (simp add: pass_rows_Cons del: pass_rows.simps)
  next
    case (Inr blob)
    have nxt: "filter (\<lambda>x. d_cursor d < ev_seq x) (visible_rows (d_table d)) = r # (rows @ rest)"
      using Cons.prems(3) by simp
    have core: "core_inv cf d" using Cons.prems(1) by (simp add: daemon_inv_def)
    have "filter (\<lambda>x. d_cursor (swept_one cf r blob d) < ev_seq x)
        (visible_rows (d_table (swept_one cf r blob d))) = rows @ rest"
      using next_row_facts(4)[OF core nxt] by (simp add: swept_one_core)
    then show ?thesis
      using Cons.IH[OF swept_one_inv[OF Cons.prems(1) nxt Inr] wire_swept_one[OF Cons.prems(1,2) Inr]] Inr
      by (simp add: pass_rows_Cons del: pass_rows.simps)
  qed
qed simp

lemma pass_batch:
  assumes "daemon_inv cf d"
  shows "filter (\<lambda>x. d_cursor d < ev_seq x) (visible_rows (d_table d))
    = iter_events_above (d_table d) (d_cursor d) None SWEEP_LIMIT
      @ drop SWEEP_LIMIT (filter (\<lambda>x. d_cursor d < ev_seq x) (visible_rows (d_table d)))"
proof -
  have t: "table_inv (d_table d)" using assms by (simp add: daemon_inv_def core_inv_def)
  show ?thesis using events.above_batch[OF t, of "d_cursor d" SWEEP_LIMIT] by simp
qed

lemma wire_broadcast_pass:
  assumes "daemon_inv cf d" "wire_inv cf d"
  shows "wire_inv cf (snd (broadcast_pass cf d))"
  using wire_pass_rows[OF assms pass_batch[OF assms(1)]] assms(2) by (simp add: broadcast_pass_def Let_def)

lemma wire_close_all:
  assumes "wire_inv cf d"
  shows "wire_inv cf (close_all cf reason fds d)"
proof (rule wire_inv_subs[of d])
  fix fd s assume "(fd, s) \<in> set (d_subs (close_all cf reason fds d))"
  then have "(fd, s) \<in> set (d_subs d)" by auto
  then show "wire_ok cf s \<and> (fd \<in> fst ` set (d_pending d) \<longrightarrow> pristine s)"
    using wire_invD[OF assms] by blast
qed simp

lemma wire_heartbeat:
  assumes wi: "wire_inv cf d" and quiet: "d_pending d = []"
  shows "wire_inv cf (heartbeat_tick cf ts up d)"
proof -
  have "wire_inv cf (d\<lparr>d_subs := map (\<lambda>(fd, sub). (fd, snd (enqueue blob False sub))) (d_subs d)\<rparr>)"
    if "framed cf blob" for blob
    by (rule wire_inv_subs[of d])
       (use wire_ok_enqueue[OF _ that] wire_invD(1)[OF wi] quiet in \<open>auto simp: same_core_def\<close>)
  moreover have "wire_inv cf (update_backlog_gauges d') = wire_inv cf d'" for d'
    by (simp add: wire_inv_def update_backlog_gauges_def)
  ultimately show ?thesis
    using wi
    by (auto simp: heartbeat_tick_def heartbeat_blob_def framed_def Let_def intro: wire_close_all split: sum.splits)
qed

lemma wire_writable:
  assumes wi: "wire_inv cf d"
  shows "wire_inv cf (writable fd d)"
proof (cases "map_of (d_subs d) fd")
  case (Some s)
  note s = wire_invD[OF wi map_of_SomeD[OF Some]]
  have "wire_inv cf (subs_put fd (drain s) d)" if armed: "sub_draining s"
  proof (rule wire_inv_subs[of d])
    fix k s' assume "(k, s') \<in> set (d_subs (subs_put fd (drain s) d))"
    then consider "k = fd" "s' = drain s" | "(k, s') \<in> set (d_subs d)" using subs_put_mem by fastforce
    then show "wire_ok cf s' \<and> (k \<in> fst ` set (d_pending d) \<longrightarrow> pristine s')"
    proof cases
      case 1
      have "fd \<notin> fst ` set (d_pending d)" using s(2) armed by (auto simp: pristine_def)
      then show ?thesis
        using 1 s(1) drain_inv[OF _ armed] by (simp add: wire_ok_def all_framed_def starts_with_ack_def)
    next
      case 2
      then show ?thesis using wire_invD[OF wi] by blast
    qed
  qed simp
  then show ?thesis using wi Some by (simp add: writable_def)
qed (use wi in \<open>simp add: writable_def\<close>)

lemma new_pristine:
  "sk_wire k = [] \<Longrightarrow> \<not> sk_dead k \<Longrightarrow> pristine (new_subscriber k fs ts uid)"
  by (simp add: pristine_def new_subscriber_def)

lemma new_all_framed: "all_framed cf (new_subscriber k fs ts uid)"
  by (simp add: all_framed_def new_subscriber_def)

lemma wire_subscribe:
  assumes wi: "wire_inv cf d" and en: "enabled cf d (ASubscribe fd k uid msg)"
  shows "wire_inv cf (step cf (ASubscribe fd k uid msg) d)"
proof (cases "validate_subscribe cf msg")
  case (Inl e)
  then show ?thesis using wi by (cases e) (auto simp: read_subscribe_def wire_inv_def)
next
  case (Inr v)
  obtain filters types since where v: "v = (filters, types, since)" by (cases v)
  define d' where "d' = step cf (ASubscribe fd k uid msg) d"
  have "\<exists>w. d_subs d' = d_subs d @ [(fd, (new_subscriber k filters types uid)
      \<lparr>sub_pre_ack_buffer := Some [], sub_pre_ack_buffered_bytes := 0, sub_replay_watermark := w\<rparr>)]
      \<and> fst ` set (d_pending d') = insert fd (fst ` set (d_pending d))"
    unfolding d'_def
    by (cases since; cases "current_max_snapshot (d_table d)")
       (auto simp: read_subscribe_def Inr v new_subscriber_def)
  then obtain w where st: "d_subs d' = d_subs d @ [(fd, (new_subscriber k filters types uid)
      \<lparr>sub_pre_ack_buffer := Some [], sub_pre_ack_buffered_bytes := 0, sub_replay_watermark := w\<rparr>)]"
    "fst ` set (d_pending d') = insert fd (fst ` set (d_pending d))" by blast
  have k: "sk_wire k = []" "\<not> sk_dead k" "fd \<notin> fst ` set (d_subs d)" using en by auto
  have "wire_inv cf d'"
  proof (rule wire_invI)
    fix k' s assume "(k', s) \<in> set (d_subs d')"
    then show "wire_ok cf s \<and> (k' \<in> fst ` set (d_pending d') \<longrightarrow> pristine s)"
      using wire_invD[OF wi, of k' s] k new_pristine[OF k(1,2)] new_subscriber_inv[OF k(1,2)] new_all_framed
      by (auto simp: st wire_ok_def) (metis fst_conv image_eqI)+
  qed
  then show ?thesis by (simp add: d'_def)
qed

section \<open>The end of the handshake\<close>

text \<open>The acknowledgement \<open>ack\<close> is the first frame, on a sound outbound path.\<close>

definition acked_with :: "config \<Rightarrow> bytes \<Rightarrow> subscriber \<Rightarrow> bool" where
  "acked_with cf ack s \<longleftrightarrow> sub_inv s \<and> all_framed cf s \<and> (\<exists>rest. sub_sent s = (ack, False) # rest)"

lemma acked_with_enqueue: "acked_with cf ack s \<Longrightarrow> framed cf b \<Longrightarrow> acked_with cf ack (snd (enqueue b c s))"
  unfolding acked_with_def using enqueue_inv framed_nonempty all_framed_enqueue by auto

lemma acked_with_open [simp]: "acked_with cf ack (open_gate s) = acked_with cf ack s"
  by (simp add: acked_with_def open_gate_def all_framed_def sub_inv_def sub_split_def)

lemma ack_sent_acked:
  assumes "pristine s" "framed cf ack"
  shows "acked_with cf ack (ack_sent ack s)"
  unfolding acked_with_def
proof (intro conjI)
  show "sub_inv (ack_sent ack s)"
    by (rule sub_invI[of _ "[(ack, False)]" "[]" "[]"])
       (use assms framed_nonempty in \<open>auto simp: pristine_def sub_split_def ack_sent_def record_sent_def\<close>)
  show "all_framed cf (ack_sent ack s)"
    using assms by (simp add: all_framed_def pristine_def ack_sent_def record_sent_def)
  show "\<exists>rest. sub_sent (ack_sent ack s) = (ack, False) # rest"
    using assms by (simp add: pristine_def ack_sent_def record_sent_def)
qed

lemma drain_pre_ack_acked:
  assumes "only_fd fd d0 d (\<lambda>v. v = sub)" "acked_with cf ack sub" "\<forall>b\<in>set bs. framed cf b"
  shows "only_fd fd d0 (drain_pre_ack cf fd sub bs d) (acked_with cf ack)"
  using assms
proof (induction bs arbitrary: sub d)
  case Nil
  then show ?case by (auto intro: only_fd_mono)
next
  case (Cons b bs)
  let ?sub = "snd (enqueue b True sub)"
  have put: "only_fd fd d0 (subs_put fd ?sub d) (\<lambda>v. v = ?sub)"
    by (rule only_fd_trans[OF Cons.prems(1) only_fd_put0]) (use only_fd_distinct[OF Cons.prems(1)] in simp_all)
  show ?case
    using only_fd_close[OF put] Cons.IH[OF put acked_with_enqueue[OF Cons.prems(2)]] Cons.prems(3)
    by (simp add: Let_def)
qed

lemma replay_rows_acked:
  assumes "replay_rows cf fd sub rows d = (e, sub', d')" "acked_with cf ack sub"
  shows "acked_with cf ack sub'"
  using assms
proof (induction rows arbitrary: sub d)
  case (Cons r rows)
  then show ?case
    by (auto simp: Let_def acked_with_enqueue row_blob_framed split: if_splits sum.splits)
qed simp

lemma finish_acked:
  assumes "only_fd fd d0 d (\<lambda>v. v = sub)" "acked_with cf ack sub"
    and "\<forall>buf. sub_pre_ack_buffer sub = Some buf \<longrightarrow> (\<forall>b\<in>set buf. framed cf b)"
  shows "only_fd fd d0 (finish_handshake cf fd sub d) (acked_with cf ack)"
proof -
  have put: "only_fd fd d0 (subs_put fd (open_gate sub) d) (\<lambda>v. v = open_gate sub)"
    by (rule only_fd_trans[OF assms(1) only_fd_put0]) (use only_fd_distinct[OF assms(1)] in simp_all)
  show ?thesis
    unfolding finish_handshake_def
    by (rule drain_pre_ack_acked[OF put], use assms(2) in simp)
       (cases "sub_pre_ack_buffer sub", use assms(3) in auto)
qed

text \<open>Up to \<open>d_hist\<close>, only the entry of \<open>fd\<close> changes.\<close>

definition only_fd_subs :: "nat \<Rightarrow> daemon \<Rightarrow> daemon \<Rightarrow> (subscriber \<Rightarrow> bool) \<Rightarrow> bool" where
  "only_fd_subs fd d d' P \<longleftrightarrow> d_pending d' = d_pending d
     \<and> (\<forall>k v. (k, v) \<in> set (d_subs d') \<longrightarrow> (k \<noteq> fd \<and> (k, v) \<in> set (d_subs d)) \<or> (k = fd \<and> P v))"

lemma only_fd_weaken: "only_fd fd d d' P \<Longrightarrow> only_fd_subs fd d d' P"
  by (simp add: only_fd_def only_fd_subs_def same_core_def)

lemma only_fd_hist: "only_fd_subs fd (hist_replay k lo w r d) d' P \<longleftrightarrow> only_fd_subs fd d d' P"
  by (simp add: only_fd_subs_def)

lemma wire_after_ack:
  assumes only: "only_fd fd d d1 (\<lambda>v. v = sub)" and a: "acked_with cf ack sub"
    and buf: "\<forall>buf. sub_pre_ack_buffer sub = Some buf \<longrightarrow> (\<forall>b\<in>set buf. framed cf b)"
  shows "only_fd_subs fd d (after_ack cf fd p db sub d1) (acked_with cf ack)"
proof (cases "pa_since p")
  case None
  then show ?thesis using only_fd_weaken[OF finish_acked[OF only a buf]] by (simp add: after_ack_def)
next
  case (Some since)
  show ?thesis
  proof (cases db)
    case DbError
    then show ?thesis using only_fd_weaken[OF only_fd_close[OF only]] by (simp add: after_ack_def Some)
  next
    case DbOk
    obtain lo w r rows where run: "replay cf fd sub since (pa_until_seq p) d1
        = replay_rows cf fd sub rows (hist_replay fd lo w r d1)"
      by (auto simp: replay_def Let_def)
    obtain e sub2 d2 where res: "replay_rows cf fd sub rows (hist_replay fd lo w r d1) = (e, sub2, d2)"
      by (metis prod_cases3)
    have "only_fd fd (hist_replay fd lo w r d) (hist_replay fd lo w r d1) (\<lambda>v. v = sub)"
      using only by (auto simp: only_fd_def same_core_def hist_replay_def)
    from replay_rows_only[OF res this] have
      rr: "only_fd fd (hist_replay fd lo w r d) d2 (\<lambda>v. v = sub2 \<and> e \<noteq> ReplayEvicted)" "same_frame sub sub2"
      by simp_all
    have a2: "acked_with cf ack sub2" by (rule replay_rows_acked[OF res a])
    have "only_fd fd (hist_replay fd lo w r d) d2 (\<lambda>v. v = sub2)" using rr(1) by (rule only_fd_mono) simp
    then have "only_fd fd (hist_replay fd lo w r d) (finish_handshake cf fd sub2 d2) (acked_with cf ack)"
      by (rule finish_acked[OF _ a2]) (use buf rr(2) in \<open>simp add: same_frame_def\<close>)
    from only_fd_weaken[OF this] have
      "only_fd_subs fd d (finish_handshake cf fd sub2 d2) (acked_with cf ack)"
      by (simp add: only_fd_subs_def)
    moreover have "only_fd_subs fd d d2 (acked_with cf ack)"
      using only_fd_weaken[OF only_fd_mono[OF rr(1), of "acked_with cf ack"]] a2 by (simp add: only_fd_hist)
    ultimately show ?thesis by (simp add: after_ack_def Some DbOk run res)
  qed
qed

lemma wire_resume:
  assumes inv: "daemon_inv cf d0" and wi: "wire_inv cf d0"
  shows "wire_inv cf (step cf (AResume fd out db) d0)"
proof (cases "map_of (d_pending d0) fd")
  case None
  then show ?thesis using wi by (simp add: resume_subscribe_def)
next
  case (Some p)
  define d where "d = d0\<lparr>d_pending := filter (\<lambda>(k, v). k \<noteq> fd) (d_pending d0)\<rparr>"
  have wd: "wire_inv cf d"
  proof (rule wire_invI)
    fix k s assume "(k, s) \<in> set (d_subs d)"
    then show "wire_ok cf s \<and> (k \<in> fst ` set (d_pending d) \<longrightarrow> pristine s)"
      using wire_invD[OF wi, of k s] by (force simp: d_def)
  qed
  have fd: "fd \<notin> fst ` set (d_pending d)" by (auto simp: d_def)
  have final: "wire_inv cf d'"
    if o: "only_fd_subs fd d d' (acked_with cf ack)"
      and e: "encode_struct_frame (cf_enc cf) (ack_frame_of cf c) = Inr ack"
    for d' ack c
  proof (rule wire_invI)
    fix k s assume a: "(k, s) \<in> set (d_subs d')"
    have pend: "d_pending d' = d_pending d" using o by (simp add: only_fd_subs_def)
    consider "k \<noteq> fd" "(k, s) \<in> set (d_subs d)" | "k = fd" "acked_with cf ack s"
      using o a unfolding only_fd_subs_def by blast
    then show "wire_ok cf s \<and> (k \<in> fst ` set (d_pending d') \<longrightarrow> pristine s)"
    proof cases
      case 1
      then show ?thesis using wire_invD[OF wd] pend by simp
    next
      case 2
      then show ?thesis
        using fd e pend by (auto simp: wire_ok_def acked_with_def starts_with_ack_def)
    qed
  qed
  show ?thesis
  proof (cases "map_of (d_subs d) fd")
    case None
    then show ?thesis using Some wd by (simp add: resume_subscribe_def Let_def flip: d_def)
  next
    case sub: (Some s)
    have mem: "(fd, s) \<in> set (d_subs d)" "(fd, s) \<in> set (d_subs d0)"
      using map_of_SomeD[OF sub] by (simp_all add: d_def)
    have dist: "distinct (map fst (d_subs d))" using inv by (simp add: d_def)
    have fdp: "fd \<in> fst ` set (d_pending d0)" using map_of_SomeD[OF Some] by (metis fst_conv image_eqI)
    have prist: "pristine s" using wire_invD(2)[OF wi mem(2) fdp] .
    have buf: "framed cf b" if sb: "sub_pre_ack_buffer s = Some buf" and mb: "b \<in> set buf" for buf b
    proof -
      have "fd \<in> fst ` set (d_hist d0)" using inv fdp unfolding daemon_inv_def keys_inv_def by blast
      then obtain h where "(fd, h) \<in> set (d_hist d0)" by force
      then have "handed_ok cf d0 h s" using inv mem(2) unfolding daemon_inv_def subs_inv_def sub_ok_def by blast
      then obtain r where r: "r \<in> set (d_swept d0)" "b = blob_of cf r"
        using sb mb by (auto simp: handed_ok_def live_rows_def)
      have "row_blob cf r = Inr b" using inv r by (simp add: daemon_inv_def core_inv_def)
      then show ?thesis by (rule row_blob_framed)
    qed
    show ?thesis
    proof (cases "encode_struct_frame (cf_enc cf) (ack_frame_of cf (pa_caught_up_at p))")
      case (Inl e)
      then show ?thesis using Some sub wd by (simp add: resume_subscribe_def Let_def flip: d_def)
    next
      case (Inr ack)
      show ?thesis
      proof (cases out)
        case AckSent
        have only: "only_fd fd d (subs_put fd (ack_sent ack s) d) (\<lambda>v. v = ack_sent ack s)"
          by (rule only_fd_put0[OF dist]) simp
        have "wire_inv cf (after_ack cf fd p db (ack_sent ack s) (subs_put fd (ack_sent ack s) d))"
          by (rule final[OF wire_after_ack[OF only ack_sent_acked[OF prist framedI[OF Inr]]] Inr])
             (use buf in auto)
        then show ?thesis using Some sub Inr AckSent by (simp add: resume_subscribe_def Let_def flip: d_def)
      next
        case (AckFailed n)
        have put: "only_fd fd d (subs_put fd (ack_failed n ack s) d) (\<lambda>v. v = ack_failed n ack s)"
          by (rule only_fd_put0[OF dist]) simp
        have "wire_inv cf (close_subscriber cf fd ''subscribe_ack_send_failed'' (subs_put fd (ack_failed n ack s) d))"
          by (rule final[OF only_fd_weaken[OF only_fd_close[OF put]] Inr])
        then show ?thesis using Some sub Inr AckFailed by (simp add: resume_subscribe_def Let_def flip: d_def)
      qed
    qed
  qed
qed

lemma wire_stop:
  assumes "daemon_inv cf d" "wire_inv cf d"
  shows "wire_inv cf (step cf AStop d)"
proof -
  let ?d = "d\<lparr>d_pending := [], d_stopping := True\<rparr>"
  have "daemon_inv cf ?d" using inv_stopping[OF inv_no_pending[OF assms(1)]] by simp
  moreover have "wire_inv cf ?d" using wire_invD(1)[OF assms(2)] by (auto intro: wire_invI)
  ultimately have "wire_inv cf (snd (broadcast_pass cf ?d))" by (rule wire_broadcast_pass)
  moreover have "wire_inv cf (d\<lparr>d_pending := []\<rparr>)" using wire_invD(1)[OF assms(2)] by (auto intro: wire_invI)
  ultimately show ?thesis by (simp add: run_finally_def shutdown_def Let_def wire_close_all)
qed

lemma reach_wire:
  "reach cf quiet_handshake d \<Longrightarrow> wire_inv cf d"
proof (induction rule: reach.induct)
  case (reach_start t)
  then show ?case by (simp add: wire_inv_def seed_cursor_def init_daemon_def)
next
  case (reach_step d a)
  have inv: "daemon_inv cf d" by (rule reach_inv[OF reach_step(1)])
  note wi = reach_step(4)
  show ?case
  proof (cases a)
    case (ACommit gap ev eid)
    then show ?thesis using wi by (simp add: wire_inv_def)
  next
    case (APrune P)
    then show ?thesis using wi by (simp add: wire_inv_def)
  next
    case APass
    then show ?thesis using wire_broadcast_pass[OF inv wi] by (simp add: run_broadcast_pass_def)
  next
    case (ASubscribe fd k uid msg)
    then show ?thesis using wire_subscribe[OF wi] reach_step(2) by blast
  next
    case (AResume fd out db)
    then show ?thesis using wire_resume[OF inv wi] by blast
  next
    case (AHeartbeat ts up)
    then show ?thesis using wire_heartbeat[OF wi] reach_step(3) by simp
  next
    case (AWritable fd)
    then show ?thesis using wire_writable[OF wi] by simp
  next
    case AStop
    then show ?thesis using wire_stop[OF inv wi] by blast
  qed
qed

end
