(* ===== verification/WB_BroadcastProps.thy ===== *)
theory WB_BroadcastProps
  imports WB_BroadcastWire
begin

text \<open>
  What the broadcast daemon promises its clients, from the two invariants of its runs: exactly-once
  delivery in commit order, the shape of the wire, the bounds of the handshake buffer, the
  bookkeeping of connections, eviction and catching up; and the three places where a run does
  not do what the documents say.
\<close>

section \<open>Concrete runs\<close>

text \<open>A schedule executed from a state; \<open>None\<close> where an action is not enabled.\<close>

fun run_actions :: "config \<Rightarrow> (daemon \<Rightarrow> action \<Rightarrow> bool) \<Rightarrow> action list \<Rightarrow> daemon \<Rightarrow> daemon option" where
  "run_actions cf ok [] d = Some d"
| "run_actions cf ok (a # as) d =
     (if enabled cf d a \<and> ok d a then run_actions cf ok as (step cf a d) else None)"

lemma run_actions_reach: "reach cf ok d \<Longrightarrow> run_actions cf ok as d = Some d' \<Longrightarrow> reach cf ok d'"
  by (induction as arbitrary: d) (auto intro: reach_step split: if_splits)

lemma run_reach: "table_inv t \<Longrightarrow> run_actions cf ok as (seed_cursor (init_daemon t)) = Some d \<Longrightarrow> reach cf ok d"
  using run_actions_reach reach_start by blast

definition sample_enc :: "json \<Rightarrow> bytes" where
  "sample_enc j =
     (case as_dict j of
        None \<Rightarrow> [8]
      | Some d \<Rightarrow> (case dict_get d ''event_id'' of
                      JStr e \<Rightarrow> 2 # replicate (length e) 1
                    | _ \<Rightarrow> if dict_get d ''ts'' = JNull then [9] else [7]))"

definition sample_cf :: config where
  "sample_cf = \<lparr>cf_enc = sample_enc, cf_format_text = (\<lambda>r. Some ''text''), cf_heartbeat_sec = 60,
     cf_event_types = [''workflow_run'', ''fs_change''], cf_uid = 1000\<rparr>"

definition sample_since :: string where
  "sample_since = ''01ARZ3NDEKTSV4RRFFQ69G5FAV''"

lemma sample_cf_sel [simp]:
  "cf_enc sample_cf = sample_enc" "cf_uid sample_cf = 1000"
  "cf_event_types sample_cf = [''workflow_run'', ''fs_change'']"
  by (simp_all add: sample_cf_def)

lemma new_row_fields [simp]:
  "ev_owner (new_row ev eid n) = ev_owner ev" "ev_repo (new_row ev eid n) = ev_repo ev"
  "ev_event_type (new_row ev eid n) = ev_event_type ev"
  by (simp_all add: new_row_def event_insert.defs)

lemma sample_event_sel [simp]:
  "ev_delivery_id (sample_event i) = i" "ev_event_type (sample_event i) = ''workflow_run''"
  "ev_owner (sample_event i) = ''o''" "ev_repo (sample_event i) = ''r''"
  by (simp_all add: sample_event_def event_insert_defaults_def)

lemma sample_blob:
  "length (row_event_id r) \<le> 26 \<Longrightarrow>
     row_blob sample_cf r
       = Inr (pack_be32 (Suc (length (row_event_id r))) @ 2 # replicate (length (row_event_id r)) 1)"
  by (simp add: row_blob_def serialize_def row_to_frame_def encode_struct_frame_def encode_frame_def
      MAX_FRAME_BYTES_def sample_enc_def dict_get_def)

lemma sample_ack:
  "encode_struct_frame sample_enc (ack_frame_of cf c) = Inr (pack_be32 1 @ [9])"
  by (simp add: encode_struct_frame_def ack_frame_of_def encode_frame_def MAX_FRAME_BYTES_def
      sample_enc_def dict_get_def)

lemma sample_heartbeat: "heartbeat_blob sample_cf ts up = Inr (pack_be32 1 @ [7])"
  by (simp add: heartbeat_blob_def encode_struct_frame_def encode_frame_def MAX_FRAME_BYTES_def
      sample_enc_def dict_get_def)

lemma sample_since_ok [simp]: "ULID_RE sample_since" "sample_since \<noteq> []"
  by (simp_all add: sample_since_def ULID_RE_def dollar_match_def ulid_char_def is_ascii_digit_def chr_in_def)

lemma neq_sample_since [simp]: "length x \<noteq> 26 \<Longrightarrow> x = sample_since \<longleftrightarrow> False"
  by (auto simp: sample_since_def)

text \<open>Unfolds one action on concrete data.\<close>

lemmas run_eval = run_broadcast_pass_def broadcast_pass_def Let_def fan_out_def fan_out_one_def
  update_backlog_gauges_def close_all_def read_subscribe_def validate_subscribe_def dict_get_def
  proto_supported_def new_subscriber_def current_max_snapshot_def resume_subscribe_def after_ack_def
  replay_def hist_replay_def finish_handshake_def open_gate_def ack_sent_def
  subs_put_def matches_def enqueue_def sock_send_def enqueue_parts LAG_LIMIT_def
  PRE_ACK_BUFFER_FRAMES_def PRE_ACK_BUFFER_BYTES_def MAX_FRAME_BYTES_def LENGTH_PREFIX_BYTES_def
  accept_peer_def seed_cursor_def init_daemon_def metrics0_def
  sample_sock_def sql_insert_or_ignore_def row_conflicts_def iter_events_above_def
  seq_for_event_id_def fetch_event_by_id_def tx_buffered_bytes_def SWEEP_LIMIT_def REPLAY_LIMIT_def sample_ack sample_blob row_event_id_def

section \<open>Delivery\<close>

text \<open>A subscriber past its handshake has been handed the frames of these rows.\<close>

definition handed_rows :: "daemon \<Rightarrow> sub_history \<Rightarrow> subscriber \<Rightarrow> event_row list" where
  "handed_rows d h s = filter (wants s) (take REPLAY_LIMIT (h_window h)) @ live_rows d h s"

definition resume_point :: "sub_history \<Rightarrow> int" where
  "resume_point h = (case h_until h of None \<Rightarrow> h_cursor h | Some _ \<Rightarrow> h_lo h)"

lemma reach_sub_ok:
  assumes "reach cf ok d" "(fd, s) \<in> set (d_subs d)" "(fd, h) \<in> set (d_hist d)"
  shows "core_inv cf d" "sub_ok cf d h s"
  using reach_inv[OF assms(1)] assms(2,3) unfolding daemon_inv_def subs_inv_def by blast+

lemma counted_handed:
  assumes "sub_ok cf d h s" "sub_pre_ack_buffer s = None"
  shows "counted s = map (blob_of cf) (handed_rows d h s)"
  using assms by (simp add: sub_ok_def handed_ok_def replay_ok_def handed_rows_def)

lemma handed_rows_sorted:
  assumes "core_inv cf d" "sub_ok cf d h s"
  shows "sorted_wrt (\<lambda>a b. ev_seq a < ev_seq b) (handed_rows d h s)"
proof -
  have r: "replay_ok d h s" using assms(2) by (simp add: sub_ok_def)
  note rd = replay_okD[OF r]
  have "ev_seq a < ev_seq b" if "a \<in> set (h_window h)" "b \<in> set (live_rows d h s)" for a b
  proof (cases "h_until h")
    case None
    then show ?thesis using that(1) rd(3) by simp
  next
    case (Some u)
    then show ?thesis using that rd(5)[OF Some that(1)] by (auto simp: live_rows_def above_until_def)
  qed
  moreover have "sorted_wrt (\<lambda>a b. ev_seq a < ev_seq b) (live_rows d h s)"
    using assms(1) by (simp add: core_inv_def live_rows_def sorted_wrt_filter)
  ultimately show ?thesis
    using rd(2) by (auto simp: handed_rows_def sorted_wrt_append sorted_wrt_filter sorted_wrt_take dest: in_set_takeD)
qed

lemma handed_rows_complete:
  assumes "sub_ok cf d h s" "sub_pre_ack_buffer s = None" "length (h_window h) \<le> REPLAY_LIMIT"
    and "r \<in> set (visible_rows (d_table d))" "wants s r" "resume_point h < ev_seq r" "ev_seq r \<le> d_cursor d"
  shows "r \<in> set (handed_rows d h s)"
proof -
  have ok: "rows_ok d h" "replay_ok d h s" using assms(1) by (simp_all add: sub_ok_def)
  show ?thesis
  proof (cases "h_until h")
    case None
    then show ?thesis
      using rows_okD(4)[OF ok(1) assms(4)] assms(5-7)
      by (simp add: handed_rows_def live_rows_def resume_point_def above_until_def)
  next
    case (Some u)
    show ?thesis
    proof (cases "ev_seq r \<le> u")
      case True
      then show ?thesis
        using replay_okD(6)[OF ok(2) Some assms(2,4)] assms(3,5,6) Some
        by (simp add: handed_rows_def resume_point_def)
    next
      case False
      then have above: "above_until h r" by (simp add: above_until_def Some)
      then have "h_cursor h < ev_seq r" using rows_okD(3)[OF ok(1) assms(4)] Some by simp
      then show ?thesis
        using rows_okD(4)[OF ok(1) assms(4)] assms(5,7) above by (simp add: handed_rows_def live_rows_def)
    qed
  qed
qed

text \<open>C1: Exactly once, in order. In every reachable state of the daemon, whatever the
  interleaving of producers, prunes, passes, handshakes, heartbeats, writability callbacks and
  evictions, a subscriber whose handshake is over has been handed the frames of a strictly
  \<open>seq\<close>-increasing list of rows (so no row twice), all matching its subscription; and when its
  replay window fits the replay cap, every stored row that matches and lies between its resume
  point and the broadcast cursor is among them.\<close>

theorem exactly_once_in_order:
  assumes "reach cf ok d" "(fd, s) \<in> set (d_subs d)" "(fd, h) \<in> set (d_hist d)"
    and "sub_pre_ack_buffer s = None"
  shows "\<exists>rows. counted s = map (blob_of cf) rows
           \<and> sorted_wrt (\<lambda>a b. ev_seq a < ev_seq b) rows
           \<and> (\<forall>r\<in>set rows. wants s r)
           \<and> (length (h_window h) \<le> REPLAY_LIMIT \<longrightarrow>
                (\<forall>r\<in>set (visible_rows (d_table d)).
                   wants s r \<and> resume_point h < ev_seq r \<and> ev_seq r \<le> d_cursor d \<longrightarrow> r \<in> set rows))"
proof (intro exI conjI)
  note inv = reach_sub_ok[OF assms(1-3)]
  show "counted s = map (blob_of cf) (handed_rows d h s)" by (rule counted_handed[OF inv(2) assms(4)])
  show "sorted_wrt (\<lambda>a b. ev_seq a < ev_seq b) (handed_rows d h s)" by (rule handed_rows_sorted[OF inv])
  show "\<forall>r\<in>set (handed_rows d h s). wants s r" by (auto simp: handed_rows_def live_rows_def)
  show "length (h_window h) \<le> REPLAY_LIMIT \<longrightarrow> (\<forall>r\<in>set (visible_rows (d_table d)).
      wants s r \<and> resume_point h < ev_seq r \<and> ev_seq r \<le> d_cursor d \<longrightarrow> r \<in> set (handed_rows d h s))"
    using handed_rows_complete[OF inv(2) assms(4)] by blast
qed



definition sample_run :: "action list" where
  "sample_run = [ASubscribe 3 (sample_sock [Accepts 100, Accepts 100, Accepts 100, Accepts 100]) 1000
       [(''since'', JStr sample_since)],
     ACommit 0 (sample_event ''d'') ''DDDD'', APass, AResume 3 AckSent DbOk]"

text \<open>The subscription came in before the fourth row was committed: three frames are replayed, the
  fourth waited in the pre-ack buffer.\<close>

lemma sample_run_result:
  "\<exists>d s h. run_actions sample_cf quiet_handshake sample_run (seed_cursor (init_daemon sample_table)) = Some d
     \<and> d_subs d = [(3, s)] \<and> d_hist d = [(3, h)] \<and> sub_pre_ack_buffer s = None
     \<and> length (counted s) = 4 \<and> h_lo h = 0 \<and> h_until h = Some 5 \<and> d_cursor d = 8
     \<and> length (h_window h) = 3 \<and> length (sub_sent s) = 5 \<and> sk_wire (sub_sock s) \<noteq> []
     \<and> wants s (new_row (sample_event ''d'') ''DDDD'' 8)
     \<and> new_row (sample_event ''d'') ''DDDD'' 8 \<in> set (visible_rows (d_table d))
     \<and> \<not> d_stopping d \<and> map ev_seq (visible_rows (d_table d)) = [1, 4, 5, 8]
     \<and> \<not> sk_dead (sub_sock s) \<and> sub_tx_queue s = []
     \<and> sk_wire (sub_sock s) = concat (map fst (sub_sent s))"
  by (simp add: sample_run_def run_eval sample_table_def counted_def visible_rows_def wants_def)

theorem exactly_once_in_order_witness:
  "\<exists>d s rows. reach sample_cf quiet_handshake d \<and> counted s = map (blob_of sample_cf) rows
     \<and> length rows = 4 \<and> new_row (sample_event ''d'') ''DDDD'' 8 \<in> set rows"
proof -
  obtain d s h where run:
    "run_actions sample_cf quiet_handshake sample_run (seed_cursor (init_daemon sample_table)) = Some d"
    and f: "d_subs d = [(3, s)]" "d_hist d = [(3, h)]" "sub_pre_ack_buffer s = None"
      "length (counted s) = 4" "h_lo h = 0" "h_until h = Some 5" "d_cursor d = 8"
      "length (h_window h) = 3" "wants s (new_row (sample_event ''d'') ''DDDD'' 8)"
      "new_row (sample_event ''d'') ''DDDD'' 8 \<in> set (visible_rows (d_table d))"
    using sample_run_result by blast
  have r: "reach sample_cf quiet_handshake d" by (rule run_reach[OF sample_table_inv run])
  have mem: "(3, s) \<in> set (d_subs d)" "(3, h) \<in> set (d_hist d)" using f by simp_all
  from exactly_once_in_order[OF r mem f(3)] obtain rows where rows:
    "counted s = map (blob_of sample_cf) rows"
    "\<forall>x\<in>set (visible_rows (d_table d)). wants s x \<and> resume_point h < ev_seq x \<and> ev_seq x \<le> d_cursor d \<longrightarrow> x \<in> set rows"
    using f(8) by (auto simp: REPLAY_LIMIT_def)
  have "length rows = 4" using f(4) arg_cong[OF rows(1), of length] by simp
  moreover have "new_row (sample_event ''d'') ''DDDD'' 8 \<in> set rows"
    using bspec[OF rows(2) f(10)] f(5,6,7,9) by (simp add: resume_point_def)
  ultimately show ?thesis using r rows(1) by blast
qed

section \<open>The wire\<close>

abbreviation frame_payload :: "config \<Rightarrow> wire_frame \<Rightarrow> bytes" where
  "frame_payload cf f \<equiv> cf_enc cf (JObj (frame_items f))"

lemma framed_payloads:
  assumes "\<forall>b\<in>set bs. framed cf b"
  shows "\<exists>fs. res_map_list encode_frame (map (frame_payload cf) fs) = Inr bs"
  using assms
proof (induction bs)
  case Nil
  then show ?case by (auto intro: exI[of _ "[]"])
next
  case (Cons b bs)
  obtain f where f: "encode_frame (frame_payload cf f) = Inr b"
    using Cons.prems by (auto simp: framed_def encode_struct_frame_def)
  obtain fs where "res_map_list encode_frame (map (frame_payload cf) fs) = Inr bs"
    using Cons by auto
  then show ?case using f by (auto intro!: exI[of _ "f # fs"] simp: res_map_list_Inr)
qed



text \<open>The handshake buffer. While a subscriber waits for its acknowledgement, its
  buffer holds exactly the frames of the matching rows swept since it registered (and above the
  snapshot its replay covers), in order; it never exceeds ten frames or ten maximal frames of
  bytes, and nothing has been handed to the socket yet.\<close>

theorem pre_ack_buffer_exact:
  assumes "reach cf ok d" "(fd, s) \<in> set (d_subs d)" "(fd, h) \<in> set (d_hist d)"
    and "sub_pre_ack_buffer s = Some buf"
  shows "buf = map (blob_of cf) (live_rows d h s)
       \<and> length buf \<le> PRE_ACK_BUFFER_FRAMES
       \<and> sum_list (map length buf) \<le> PRE_ACK_BUFFER_BYTES
       \<and> (fd \<in> fst ` set (d_pending d) \<longrightarrow> counted s = [])"
proof -
  have ok: "sub_ok cf d h s" "\<forall>p. (fd, p) \<in> set (d_pending d) \<longrightarrow> pending_ok p h s"
    using reach_inv[OF assms(1)] assms(2,3) unfolding daemon_inv_def subs_inv_def by blast+
  then show ?thesis using assms(4) by (auto simp: sub_ok_def handed_ok_def pending_ok_def)
qed

lemma sample_gated_result:
  "\<exists>d s h buf. run_actions sample_cf quiet_handshake (take 3 sample_run) (seed_cursor (init_daemon sample_table)) = Some d
     \<and> d_subs d = [(3, s)] \<and> d_hist d = [(3, h)] \<and> sub_pre_ack_buffer s = Some buf \<and> length buf = 1"
  by (simp add: sample_run_def run_eval sample_table_def)

theorem pre_ack_buffer_exact_witness:
  "\<exists>d s h. reach sample_cf quiet_handshake d
     \<and> sub_pre_ack_buffer s = Some (map (blob_of sample_cf) (live_rows d h s)) \<and> length (live_rows d h s) = 1"
proof -
  obtain d s h buf where run:
    "run_actions sample_cf quiet_handshake (take 3 sample_run) (seed_cursor (init_daemon sample_table)) = Some d"
    and f: "d_subs d = [(3, s)]" "d_hist d = [(3, h)]" "sub_pre_ack_buffer s = Some buf" "length buf = 1"
    using sample_gated_result by blast
  have r: "reach sample_cf quiet_handshake d" by (rule run_reach[OF sample_table_inv run])
  have mem: "(3, s) \<in> set (d_subs d)" "(3, h) \<in> set (d_hist d)" using f by simp_all
  from pre_ack_buffer_exact[OF r mem f(3)] have b: "buf = map (blob_of sample_cf) (live_rows d h s)" by simp
  then have "length (live_rows d h s) = 1" using f(4) by simp
  then show ?thesis using r f(3) b by blast
qed

text \<open>Without that restriction the acknowledgement need not come first: the heartbeat loop
  enqueues to every subscriber of the dict, one in the middle of its handshake included. Reachable:
  a client past its handshake whose wire starts with a heartbeat frame, the acknowledgement behind
  it.\<close>

theorem heartbeat_before_ack:
  "\<exists>d s hb ack caught_up_at. reach sample_cf any_schedule d \<and> d_subs d = [(3, s)]
     \<and> sub_pre_ack_buffer s = None
     \<and> heartbeat_blob sample_cf 1700000000 60 = Inr hb
     \<and> encode_struct_frame (cf_enc sample_cf) (ack_frame_of sample_cf caught_up_at) = Inr ack
     \<and> sk_wire (sub_sock s) = hb @ ack \<and> hb \<noteq> ack"
proof -
  let ?as = "[ASubscribe 3 (sample_sock [Accepts 100]) 1000 [], AHeartbeat 1700000000 60, AResume 3 AckSent DbOk]"
  let ?hb = "pack_be32 1 @ [7]" and ?ack = "pack_be32 1 @ [9]"
  have "\<exists>d s. run_actions sample_cf any_schedule ?as (seed_cursor (init_daemon sample_table)) = Some d
      \<and> d_subs d = [(3, s)] \<and> sub_pre_ack_buffer s = None \<and> sk_wire (sub_sock s) = ?hb @ ?ack"
    by (simp add: run_eval sample_table_def heartbeat_tick_def sample_heartbeat)
  then obtain d s where run: "run_actions sample_cf any_schedule ?as (seed_cursor (init_daemon sample_table)) = Some d"
    and f: "d_subs d = [(3, s)]" "sub_pre_ack_buffer s = None" "sk_wire (sub_sock s) = ?hb @ ?ack" by blast
  have "reach sample_cf any_schedule d" by (rule run_reach[OF sample_table_inv run])
  moreover have "heartbeat_blob sample_cf 1700000000 60 = Inr ?hb" by (rule sample_heartbeat)
  moreover have "encode_struct_frame (cf_enc sample_cf) (ack_frame_of sample_cf None) = Inr ?ack"
    using sample_ack by simp
  moreover have "?hb \<noteq> ?ack" by simp
  ultimately show ?thesis using f by blast
qed

section \<open>The replay cap\<close>

text \<open>The replay cap counts rows before the subscription filter is applied, and the live
  stream starts above the snapshot the replay was bounded by. So a stored row that lies beyond the
  first 500 rows of the replay window is never handed to the subscriber, in no later state of the
  connection, even if it is the only row that matches its subscription.\<close>

theorem replay_cap_skips_rows:
  assumes "reach cf ok d" "(fd, s) \<in> set (d_subs d)" "(fd, h) \<in> set (d_hist d)"
    and "sub_pre_ack_buffer s = None" "r \<in> set (drop REPLAY_LIMIT (h_window h))"
  shows "counted s = map (blob_of cf) (handed_rows d h s) \<and> r \<notin> set (handed_rows d h s)"
proof
  note inv = reach_sub_ok[OF assms(1-3)]
  show "counted s = map (blob_of cf) (handed_rows d h s)" by (rule counted_handed[OF inv(2) assms(4)])
  have p: "replay_ok d h s" using inv(2) by (simp add: sub_ok_def)
  note rd = replay_okD[OF p]
  have r: "r \<in> set (h_window h)" using assms(5) by (rule in_set_dropD)
  obtain u where u: "h_until h = Some u" using rd(3) r by fastforce
  have "sorted_wrt (\<lambda>a b. ev_seq a < ev_seq b) (take REPLAY_LIMIT (h_window h) @ drop REPLAY_LIMIT (h_window h))"
    using rd(2) by simp
  then have "r \<notin> set (take REPLAY_LIMIT (h_window h))"
    using assms(5) unfolding sorted_wrt_append by blast
  moreover have "r \<notin> set (live_rows d h s)"
    using rd(5)[OF u r] by (simp add: live_rows_def above_until_def u)
  ultimately show "r \<notin> set (handed_rows d h s)" by (simp add: handed_rows_def)
qed

text \<open>A store of 501 rows of which only the last is of the type subscribed to.\<close>

definition cap_row :: "nat \<Rightarrow> event_row" where
  "cap_row i = new_row ((sample_event (replicate i CHR ''x''))
      \<lparr>ev_event_type := if i = 501 then ''fs_change'' else ''workflow_run''\<rparr>) (replicate i CHR ''x'') (int i)"

definition cap_table :: event_table where
  "cap_table = \<lparr>tb_rows = map cap_row [1..<502], tb_last_seq = 501\<rparr>"

lemma cap_row_sel [simp]:
  "ev_seq (cap_row i) = int i" "ev_event_id (cap_row i) = Some (replicate i CHR ''x'')"
  "ev_delivery_id (cap_row i) = replicate i CHR ''x''"
  "ev_event_type (cap_row i) = (if i = 501 then ''fs_change'' else ''workflow_run'')"
  by (simp_all add: cap_row_def)

lemma cap_visible: "visible_rows cap_table = map cap_row [1..<502]"
  by (simp add: visible_rows_def cap_table_def filter_map o_def del: upt_rec_numeral)

lemma cap_sorted: "sorted_wrt (\<lambda>a b. ev_seq a < ev_seq b) (map cap_row [1..<502])"
  by (simp add: sorted_wrt_map sorted_wrt_upt del: upt_rec_numeral)

lemma cap_table_inv: "table_inv cap_table"
proof -
  have "inj (\<lambda>i. replicate i CHR ''x'')" by (rule injI) (metis length_replicate)
  then have "distinct (map (\<lambda>i. replicate i CHR ''x'') [1..<502])"
    by (auto simp: distinct_map inj_on_def simp del: upt_rec_numeral dest: injD)
  moreover from this have "distinct (map (\<lambda>i. Some (replicate i CHR ''x'')) [1..<502])"
    by (simp add: distinct_map inj_on_def del: upt_rec_numeral)
  ultimately show ?thesis
    using cap_sorted unfolding table_inv_def cap_visible
    by (simp add: cap_table_def o_def del: upt_rec_numeral)
qed

lemma cap_snapshot: "current_max_snapshot cap_table = (501, Some (replicate 501 CHR ''x''))"
proof -
  have "[1..<502] = [1..<501] @ [501::nat]" by (simp flip: upt_Suc_append del: upt_rec_numeral)
  moreover have "sort_key ev_seq (map cap_row [1..<502]) = map cap_row [1..<502]"
    by (rule sort_key_sorted_wrt[OF cap_sorted])
  ultimately show ?thesis
    using cap_visible by (simp add: current_max_snapshot_def visible_rows_def del: upt_rec_numeral)
qed

lemma cap_since: "seq_for_event_id cap_table sample_since = 0"
proof -
  have "replicate i CHR ''x'' \<noteq> sample_since" for i
  proof
    assume "replicate i CHR ''x'' = sample_since"
    then have "CHR ''0'' \<in> set (replicate i CHR ''x'')" by (simp add: sample_since_def)
    then show False by (auto split: if_splits)
  qed
  then have "fetch_event_by_id cap_table sample_since = None"
    by (auto simp: fetch_event_by_id_def find_None_iff cap_table_def simp del: upt_rec_numeral)
  then show ?thesis by (simp add: seq_for_event_id_def)
qed

lemma cap_batch: "iter_events_above cap_table 0 (Some 501) REPLAY_LIMIT = map cap_row [1..<501]"
proof -
  have "filter (\<lambda>r. 0 < ev_seq r \<and> ev_seq r \<le> 501) (map cap_row [1..<502]) = map cap_row [1..<502]"
    by (rule filter_all_id) (auto simp del: upt_rec_numeral)
  then show ?thesis
    by (simp add: iter_events_above_visible[OF cap_table_inv] cap_visible take_map REPLAY_LIMIT_def del: upt_rec_numeral)
qed

lemma replay_rows_unwanted:
  "\<forall>r\<in>set rows. \<not> matches sub (ev_owner r) (ev_repo r) (ev_event_type r)
     \<Longrightarrow> replay_rows cf fd sub rows d = (ReplayAlive, sub, d)"
  by (induction rows) auto

definition cap_run :: "action list" where
  "cap_run = [ASubscribe 3 (sample_sock [Accepts 100]) 1000
       [(''since'', JStr sample_since), (''event_types'', JArr [JStr ''fs_change''])], AResume 3 AckSent DbOk]"

lemmas cap_eval = Let_def read_subscribe_def validate_subscribe_def dict_get_def
  proto_supported_def new_subscriber_def resume_subscribe_def after_ack_def
  replay_def hist_replay_def finish_handshake_def open_gate_def ack_sent_def
  subs_put_def matches_def enqueue_parts accept_peer_def seed_cursor_def init_daemon_def metrics0_def
  sample_sock_def sample_ack cap_snapshot cap_since cap_batch cap_visible

lemma cap_run_result:
  "\<exists>d s h. run_actions sample_cf quiet_handshake cap_run (seed_cursor (init_daemon cap_table)) = Some d
     \<and> d_subs d = [(3, s)] \<and> d_hist d = [(3, h)] \<and> sub_pre_ack_buffer s = None
     \<and> h_window h = map cap_row [1..<502] \<and> wants s (cap_row 501) \<and> counted s = []"
proof -
  have unw: "replay_rows sample_cf fd sub (map cap_row [Suc 0..<501]) d = (ReplayAlive, sub, d)"
    if "sub_event_types sub = [''fs_change'']" for fd sub d
    by (rule replay_rows_unwanted) (use that in \<open>auto simp: matches_def simp del: upt_rec_numeral\<close>)
  have win: "filter (\<lambda>r. 0 < ev_seq r \<and> ev_seq r \<le> 501) (map cap_row [Suc 0..<502]) = map cap_row [Suc 0..<502]"
    by (rule filter_all_id) (auto simp del: upt_rec_numeral)
  show ?thesis
    by (simp add: cap_run_def cap_eval unw win counted_def wants_def del: upt_rec_numeral)
qed

theorem replay_cap_skips_rows_witness:
  "\<exists>d s h. reach sample_cf quiet_handshake d \<and> sub_pre_ack_buffer s = None \<and> wants s (cap_row 501)
     \<and> cap_row 501 \<in> set (h_window h) \<and> cap_row 501 \<notin> set (handed_rows d h s)"
proof -
  obtain d s h where run:
    "run_actions sample_cf quiet_handshake cap_run (seed_cursor (init_daemon cap_table)) = Some d"
    and f: "d_subs d = [(3, s)]" "d_hist d = [(3, h)]" "sub_pre_ack_buffer s = None"
      "h_window h = map cap_row [1..<502]" "wants s (cap_row 501)"
    using cap_run_result by blast
  have r: "reach sample_cf quiet_handshake d" by (rule run_reach[OF cap_table_inv run])
  have mem: "(3, s) \<in> set (d_subs d)" "(3, h) \<in> set (d_hist d)" using f by simp_all
  have w: "cap_row 501 \<in> set (drop REPLAY_LIMIT (h_window h))"
    by (simp add: f(4) drop_map REPLAY_LIMIT_def del: upt_rec_numeral)
  have "cap_row 501 \<notin> set (handed_rows d h s)"
    using replay_cap_skips_rows[OF r mem f(3) w] by blast
  then show ?thesis using r f(3,5) in_set_dropD[OF w] by blast
qed

section \<open>Passes\<close>

lemma pass_rows_all:
  assumes "\<forall>r\<in>set rows. row_blob cf r = Inr (blob_of cf r)"
  shows "fst (pass_rows cf rows d) = Inr ()"
    and "d_swept (snd (pass_rows cf rows d)) = d_swept d @ rows"
    and "d_table (snd (pass_rows cf rows d)) = d_table d"
    and "d_cursor (snd (pass_rows cf rows d)) = (if rows = [] then d_cursor d else ev_seq (last rows))"
  using assms
proof (induction rows arbitrary: d)
  case (Cons r rows)
  {
    case 1
    then show ?case using Cons.IH(1) by (simp add: pass_rows_Cons del: pass_rows.simps)
  next
    case 2
    then show ?case using Cons.IH(2) by (simp add: pass_rows_Cons swept_one_core del: pass_rows.simps)
  next
    case 3
    then show ?case using Cons.IH(3) by (simp add: pass_rows_Cons swept_one_core del: pass_rows.simps)
  next
    case 4
    then show ?case using Cons.IH(4) by (simp add: pass_rows_Cons swept_one_core del: pass_rows.simps)
  }
qed simp_all

definition backlog :: "daemon \<Rightarrow> event_row list" where
  "backlog d = filter (\<lambda>r. d_cursor d < ev_seq r) (visible_rows (d_table d))"

lemma one_pass:
  assumes "table_inv (d_table d)" "\<forall>r\<in>set (backlog d). row_blob cf r = Inr (blob_of cf r)"
  defines "d' \<equiv> run_broadcast_pass cf d"
  shows "d_table d' = d_table d" "d_swept d' = d_swept d @ take SWEEP_LIMIT (backlog d)"
    "backlog d' = drop SWEEP_LIMIT (backlog d)"
proof -
  let ?b = "iter_events_above (d_table d) (d_cursor d) None SWEEP_LIMIT"
  have b: "?b = take SWEEP_LIMIT (backlog d)" unfolding backlog_def by (rule events.above_batch[OF assms(1)])
  have enc: "\<forall>r\<in>set ?b. row_blob cf r = Inr (blob_of cf r)" using assms(2) by (auto simp: b dest: in_set_takeD)
  note all = pass_rows_all[OF enc, of d]
  have d': "d' = snd (pass_rows cf ?b d)" by (simp add: d'_def run_broadcast_pass_def broadcast_pass_def Let_def)
  show tab: "d_table d' = d_table d" unfolding d' by (rule all(3))
  show "d_swept d' = d_swept d @ take SWEEP_LIMIT (backlog d)" unfolding d' using all(2) b by simp
  show "backlog d' = drop SWEEP_LIMIT (backlog d)"
  proof (cases "?b = []")
    case True
    then have "backlog d = []" using b by (simp add: SWEEP_LIMIT_def)
    then show ?thesis using True by (simp add: d')
  next
    case False
    have rest: "backlog d' = filter (\<lambda>r. ev_seq (last ?b) < ev_seq r) (visible_rows (d_table d))"
      using all(3,4) False by (simp add: d' backlog_def)
    have "backlog d = take SWEEP_LIMIT (backlog d) @ backlog d'"
      unfolding rest b[symmetric] unfolding backlog_def by (rule events.above_split[OF assms(1) False])
    then have "take SWEEP_LIMIT (backlog d) @ backlog d' = take SWEEP_LIMIT (backlog d) @ drop SWEEP_LIMIT (backlog d)"
      unfolding append_take_drop_id by (rule sym)
    then show ?thesis by (simp only: same_append_eq)
  qed
qed

text \<open>C17: The daemon catches up. When every committed row above the cursor can be encoded, as
  many broadcast passes as it takes at 500 rows a pass sweep the whole backlog, each row once and in
  commit order, and leave nothing above the cursor: the sweep limit delays rows but loses none.\<close>

theorem passes_catch_up:
  assumes "reach cf ok d" "\<forall>r\<in>set (backlog d). \<exists>b. row_blob cf r = Inr b"
    and "length (backlog d) \<le> n * SWEEP_LIMIT"
  shows "backlog ((run_broadcast_pass cf ^^ n) d) = []
       \<and> d_swept ((run_broadcast_pass cf ^^ n) d) = d_swept d @ backlog d"
proof -
  have t: "table_inv (d_table d)" using reach_inv[OF assms(1)] by (simp add: daemon_inv_def core_inv_def)
  have enc: "\<forall>r\<in>set (backlog d). row_blob cf r = Inr (blob_of cf r)"
    using assms(2) by (fastforce simp: blob_of_def)
  have "d_table ((run_broadcast_pass cf ^^ k) d) = d_table d
      \<and> backlog ((run_broadcast_pass cf ^^ k) d) = drop (k * SWEEP_LIMIT) (backlog d)
      \<and> d_swept ((run_broadcast_pass cf ^^ k) d) = d_swept d @ take (k * SWEEP_LIMIT) (backlog d)" for k
  proof (induction k)
    case (Suc k)
    let ?d = "(run_broadcast_pass cf ^^ k) d"
    have "\<forall>r\<in>set (backlog ?d). row_blob cf r = Inr (blob_of cf r)"
      using Suc.IH enc by (metis in_set_dropD)
    from one_pass[OF _ this] t Suc.IH show ?case by (simp add: take_add add.commute[of SWEEP_LIMIT])
  qed simp
  from this[of n] show ?thesis using assms(3) by simp
qed

theorem passes_catch_up_witness:
  "\<exists>d. reach sample_cf any_schedule d \<and> d_swept d = []
     \<and> d_swept (run_broadcast_pass sample_cf d) = [new_row (sample_event ''d'') ''DDDD'' 8]"
proof -
  let ?as = "[ACommit 0 (sample_event ''d'') ''DDDD'']"
  have "\<exists>d. run_actions sample_cf any_schedule ?as (seed_cursor (init_daemon sample_table)) = Some d
      \<and> backlog d = [new_row (sample_event ''d'') ''DDDD'' 8] \<and> d_swept d = []"
    by (simp add: run_eval sample_table_def backlog_def visible_rows_def)
  then obtain d where run: "run_actions sample_cf any_schedule ?as (seed_cursor (init_daemon sample_table)) = Some d"
    and b: "backlog d = [new_row (sample_event ''d'') ''DDDD'' 8]" "d_swept d = []" by blast
  have r: "reach sample_cf any_schedule d" by (rule run_reach[OF sample_table_inv run])
  have enc: "\<forall>r\<in>set (backlog d). \<exists>x. row_blob sample_cf r = Inr x"
    by (simp add: b sample_blob row_event_id_def)
  from passes_catch_up[OF r enc, of 1] show ?thesis using r b by (auto simp: SWEEP_LIMIT_def)
qed

section \<open>A row that cannot be encoded\<close>

text \<open>The part of the state a pass reads.\<close>

definition same_log :: "daemon \<Rightarrow> daemon \<Rightarrow> bool" where
  "same_log d d' \<longleftrightarrow> d_table d' = d_table d \<and> d_cursor d' = d_cursor d \<and> d_swept d' = d_swept d"

lemma same_log_core: "same_core d d' \<Longrightarrow> same_log d d'"
  by (simp add: same_core_def same_log_def)

lemma same_log_refl [simp]: "same_log d d"
  by (simp add: same_log_def)

lemma same_log_put [simp]: "same_log d (subs_put fd s d') = same_log d d'"
  by (simp add: same_log_def subs_put_def)

lemma same_log_close [simp]: "same_log d (close_subscriber cf fd reason d') = same_log d d'"
  using close_subscriber_core[of d' cf fd reason d'] by (simp add: same_log_def same_core_def)

lemma same_log_metrics [simp]: "same_log d (d'\<lparr>d_metrics := m\<rparr>) = same_log d d'"
  by (simp add: same_log_def)

lemma same_log_subs [simp]: "same_log d (d'\<lparr>d_subs := m\<rparr>) = same_log d d'"
  by (simp add: same_log_def)

lemma same_log_gauges [simp]: "same_log d (update_backlog_gauges d') = same_log d d'"
  by (simp add: update_backlog_gauges_def)

lemma same_log_close_all [simp]: "same_log d (close_all cf reason fds d') = same_log d d'"
  using close_all_core[of d' cf reason fds d'] by (simp add: same_log_def same_core_def)

lemma same_log_drain: "same_log d d' \<Longrightarrow> same_log d (drain_pre_ack cf fd sub bs d')"
  by (induction bs arbitrary: sub d') (simp_all add: Let_def)

lemma same_log_replay_rows:
  "same_log d d' \<Longrightarrow> same_log d (snd (snd (replay_rows cf fd sub rows d')))"
  by (induction rows arbitrary: sub d') (auto simp: Let_def split: sum.splits)

lemma same_log_after_ack:
  assumes "same_log d d'"
  shows "same_log d (after_ack cf fd p db sub d')"
proof -
  have fin: "same_log d (finish_handshake cf fd s x)" if "same_log d x" for s x
    using same_log_drain[of d "subs_put fd (open_gate s) x"] that by (simp add: finish_handshake_def)
  have "same_log d (snd (snd (replay cf fd sub since u d')))" for since u
    unfolding replay_def Let_def
    by (rule same_log_replay_rows) (use assms in \<open>simp add: same_log_def hist_replay_def\<close>)
  then show ?thesis
    using assms fin by (auto simp: after_ack_def split: option.splits db_outcome.splits prod.splits)
      (metis snd_conv)+
qed

lemma same_log_resume: "same_log d (resume_subscribe cf fd out db d)"
proof -
  have "same_log d (d\<lparr>d_pending := filter (\<lambda>(k, v). k \<noteq> fd) (d_pending d)\<rparr>)" by (simp add: same_log_def)
  then show ?thesis
    by (auto simp: resume_subscribe_def Let_def same_log_after_ack
        split: option.splits sum.splits ack_outcome.splits)
qed

lemma same_log_heartbeat: "same_log d (heartbeat_tick cf ts up d)"
  by (simp add: heartbeat_tick_def Let_def split: sum.splits)

lemma same_log_subscribe: "same_log d (snd (read_subscribe cf fd k uid msg d))"
  by (auto simp: read_subscribe_def same_log_def Let_def split: sum.splits handshake_reject.splits option.splits prod.splits)

lemma same_log_writable: "same_log d (writable fd d)"
  by (auto simp: writable_def split: option.splits)

lemma blocked_pass: "backlog d = r # rest \<Longrightarrow> table_inv (d_table d) \<Longrightarrow> row_blob cf r = Inl e \<Longrightarrow> broadcast_pass cf d = (Inl e, d)"
  using events.above_batch[of "d_table d" "d_cursor d" SWEEP_LIMIT]
  by (simp add: broadcast_pass_def Let_def backlog_def SWEEP_LIMIT_def take_Cons')

lemma blocked_step:
  assumes "backlog d = r # rest" "table_inv (d_table d)" "row_blob cf r = Inl e" "\<forall>P. a \<noteq> APrune P"
  shows "d_cursor (step cf a d) = d_cursor d \<and> d_swept (step cf a d) = d_swept d
       \<and> (\<exists>rest'. backlog (step cf a d) = r # rest') \<and> table_inv (d_table (step cf a d))"
proof -
  have keep: ?thesis if "same_log d (step cf a d)"
    using that assms(1,2) by (simp add: same_log_def backlog_def)
  have stop: "same_log d (d\<lparr>d_pending := [], d_stopping := True\<rparr>)" by (simp add: same_log_def)
  show ?thesis
  proof (cases a)
    case (ACommit gap ev eid)
    then show ?thesis
      using assms(1,2) table_inv_insert[of "d_table d" gap ev eid]
      by (auto simp: backlog_def visible_rows_def sql_insert_or_ignore_def Let_def)
  next
    case (APrune P)
    then show ?thesis using assms(4) by blast
  next
    case APass
    show ?thesis by (rule keep) (simp add: APass run_broadcast_pass_def blocked_pass[OF assms(1-3)])
  next
    case (ASubscribe fd k uid msg)
    show ?thesis by (rule keep) (simp add: ASubscribe same_log_subscribe)
  next
    case (AResume fd out db)
    show ?thesis by (rule keep) (simp add: AResume same_log_resume)
  next
    case (AHeartbeat ts up)
    show ?thesis by (rule keep) (simp add: AHeartbeat same_log_heartbeat)
  next
    case (AWritable fd)
    show ?thesis by (rule keep) (simp add: AWritable same_log_writable)
  next
    case AStop
    have "broadcast_pass cf (d\<lparr>d_pending := [], d_stopping := True\<rparr>)
        = (Inl e, d\<lparr>d_pending := [], d_stopping := True\<rparr>)"
      by (rule blocked_pass[of _ r rest]) (use assms in \<open>simp_all add: backlog_def\<close>)
    then show ?thesis
      by (intro keep) (simp add: AStop run_finally_def shutdown_def Let_def stop same_log_def[of d "d\<lparr>d_pending := []\<rparr>"])
  qed
qed

text \<open>A row whose frame and whose truncated stub both exceed the frame limit stops the
  broadcast for good: every pass ends in the encoder's exception before the cursor moves, so as long
  as the row is in the store no action of the event loop moves the cursor past it and no later row
  reaches any live subscriber.\<close>

theorem unencodable_row_blocks:
  assumes "reach cf ok d" "backlog d = r # rest" "row_blob cf r = Inl e"
    and "run_actions cf any_schedule as d = Some d'" "\<forall>P. APrune P \<notin> set as"
  shows "d_cursor d' = d_cursor d \<and> d_swept d' = d_swept d \<and> broadcast_pass cf d' = (Inl e, d')"
proof -
  have "table_inv (d_table d)" using reach_inv[OF assms(1)] by (simp add: daemon_inv_def core_inv_def)
  from this assms(2,4,5) show ?thesis
  proof (induction as arbitrary: d rest)
    case Nil
    then show ?case using blocked_pass[OF Nil.prems(2,1) assms(3)] by simp
  next
    case (Cons a as)
    have "\<forall>P. a \<noteq> APrune P" using Cons.prems(4) by auto
    from blocked_step[OF Cons.prems(2,1) assms(3) this] Cons.IH[of "step cf a d"] Cons.prems(3,4)
    show ?case by (auto split: if_splits)
  qed
qed

text \<open>An encoder whose output is at least as long as the correlation id, wherever that stands, and
  an event with a correlation id of 70000 characters.\<close>

definition long_enc :: "json \<Rightarrow> bytes" where
  "long_enc j =
     (case as_dict j of
        None \<Rightarrow> [1]
      | Some d \<Rightarrow>
          (case dict_get d ''correlation_id'' of
             JStr c \<Rightarrow> replicate (length c) 1
           | _ \<Rightarrow> (case as_dict (dict_get d ''fields'') of
                     None \<Rightarrow> [1]
                   | Some f \<Rightarrow> (case dict_get f ''msg_correlation_id'' of
                                   JStr c \<Rightarrow> replicate (length c) 1
                                 | _ \<Rightarrow> [1]))))"

definition long_cf :: config where
  "long_cf = sample_cf\<lparr>cf_enc := long_enc\<rparr>"

definition long_event :: event_insert where
  "long_event = (sample_event ''p'')\<lparr>ev_msg_correlation_id := Some (replicate 70000 CHR ''x'')\<rparr>"

lemma dict_get_map: "dict_get (map (\<lambda>c. (c, f c)) cs) k = (if k \<in> set cs then f k else JNull)"
  by (induction cs) (auto simp: dict_get_def)

lemma long_fields: "dict_get (frame_fields (new_row long_event eid n)) ''msg_correlation_id'' = JStr (replicate 70000 CHR ''x'')"
proof -
  have c: "''msg_correlation_id'' \<in> set EVENT_COLUMNS" by (simp add: EVENT_COLUMNS_def)
  have "ev_msg_correlation_id (new_row long_event eid n) = Some (replicate 70000 CHR ''x'')"
    by (simp add: new_row_def event_insert.defs long_event_def)
  then have "row_get (new_row long_event eid n) ''msg_correlation_id'' = JStr (replicate 70000 CHR ''x'')"
    by (simp add: row_get_column[OF c]) (simp add: col_to_value_def dict_get_def)
  then show ?thesis using c by (simp add: frame_fields_def dict_get_map)
qed

lemma long_blob: "\<exists>e. row_blob long_cf (new_row long_event eid n) = Inl e"
  using long_fields[of eid n]
  by (simp add: row_blob_def serialize_def row_to_frame_def truncated_frame_def encode_struct_frame_def
      encode_frame_def long_cf_def long_enc_def dict_get_def[of "_ # _"] MAX_FRAME_BYTES_def)

theorem unencodable_row_blocks_witness:
  "\<exists>d d'. reach long_cf any_schedule d
     \<and> run_actions long_cf any_schedule [ACommit 0 (sample_event ''q'') ''Q'', APass, APass] d = Some d'
     \<and> d_cursor d' = 5 \<and> d_swept d' = [] \<and> length (backlog d') = 2"
proof -
  let ?r = "new_row long_event ''P'' 8"
  obtain e where e: "row_blob long_cf ?r = Inl e" using long_blob by blast
  have "\<exists>d d'. run_actions long_cf any_schedule [ACommit 0 long_event ''P''] (seed_cursor (init_daemon sample_table)) = Some d
      \<and> backlog d = [?r] \<and> d_swept d = [] \<and> d_cursor d = 5
      \<and> run_actions long_cf any_schedule [ACommit 0 (sample_event ''q'') ''Q'', APass, APass] d = Some d'
      \<and> length (backlog d') = 2"
    by (simp add: run_eval sample_table_def backlog_def visible_rows_def e long_event_def[THEN arg_cong[where f = ev_delivery_id]])
  then obtain d d' where run:
    "run_actions long_cf any_schedule [ACommit 0 long_event ''P''] (seed_cursor (init_daemon sample_table)) = Some d"
    and f: "backlog d = [?r]" "d_swept d = []" "d_cursor d = 5"
      "run_actions long_cf any_schedule [ACommit 0 (sample_event ''q'') ''Q'', APass, APass] d = Some d'"
      "length (backlog d') = 2" by blast
  have r: "reach long_cf any_schedule d" by (rule run_reach[OF sample_table_inv run])
  have "d_cursor d' = 5 \<and> d_swept d' = []"
    using unencodable_row_blocks[OF r f(1) e f(4)] f(2,3) by simp
  then show ?thesis using r f(4,5) by blast
qed

section \<open>Bookkeeping of connections\<close>

text \<open>The gauges and counters the daemon reports, against the connections it really has.\<close>

definition gauge_inv :: "daemon \<Rightarrow> bool" where
  "gauge_inv d \<longleftrightarrow> distinct (map fst (d_subs d))
     \<and> m_subscriber_count (d_metrics d) = int (length (d_subs d))
     \<and> m_opened (d_metrics d) = m_closed (d_metrics d) + length (d_subs d)
     \<and> m_closed (d_metrics d) = length (d_closed d)
     \<and> m_evicted (d_metrics d) = map (\<lambda>(fd, s, reason). reason) (d_closed d)"

definition same_gauges :: "metrics \<Rightarrow> metrics \<Rightarrow> bool" where
  "same_gauges m m' \<longleftrightarrow> m_subscriber_count m' = m_subscriber_count m \<and> m_opened m' = m_opened m
     \<and> m_closed m' = m_closed m \<and> m_evicted m' = m_evicted m"

lemma gauge_inv_cong:
  assumes "gauge_inv d" "map fst (d_subs d') = map fst (d_subs d)" "d_closed d' = d_closed d"
    and "same_gauges (d_metrics d) (d_metrics d')"
  shows "gauge_inv d'"
proof -
  have "length (d_subs d') = length (d_subs d)" using arg_cong[OF assms(2), of length] by simp
  then show ?thesis using assms by (simp add: gauge_inv_def same_gauges_def)
qed

lemma length_filter_key:
  "distinct (map fst xs) \<Longrightarrow> map_of xs fd = Some s \<Longrightarrow> Suc (length (filter (\<lambda>(k, v). k \<noteq> fd) xs)) = length xs"
proof (induction xs)
  case (Cons x xs)
  show ?case
  proof (cases "fst x = fd")
    case True
    then have "filter (\<lambda>(k, v). k \<noteq> fd) xs = xs"
      using Cons.prems(1) by (intro filter_all_id) (force simp: image_iff)
    then show ?thesis using True by (cases x) simp
  next
    case False
    then show ?thesis using Cons by (cases x) auto
  qed
qed simp

lemma gauge_close: "gauge_inv d \<Longrightarrow> gauge_inv (close_subscriber cf fd reason d)"
proof (cases "map_of (d_subs d) fd")
  case (Some s)
  assume g: "gauge_inv d"
  obtain s' rej where c: "close_sub cf reason s = (s', rej)" by (cases "close_sub cf reason s")
  have "Suc (length (filter (\<lambda>(k, v). k \<noteq> fd) (d_subs d))) = length (d_subs d)"
    by (rule length_filter_key[OF _ Some]) (use g in \<open>simp add: gauge_inv_def\<close>)
  then show ?thesis
    using g map_fst_filter_distinct[of "d_subs d"] Some c
    by (auto simp: gauge_inv_def close_subscriber_def subs_pop_def Let_def)
qed (simp add: close_subscriber_def)

lemma gauge_close_all: "gauge_inv d \<Longrightarrow> gauge_inv (close_all cf reason fds d)"
  unfolding close_all_def by (induction fds arbitrary: d) (simp_all add: gauge_close)

lemma gauge_put: "gauge_inv d \<Longrightarrow> gauge_inv (subs_put fd s d)"
  by (erule gauge_inv_cong) (simp_all add: same_gauges_def, simp_all add: subs_put_def)

lemma gauge_plain:
  "gauge_inv (d\<lparr>d_table := t\<rparr>) = gauge_inv d" "gauge_inv (d\<lparr>d_cursor := c\<rparr>) = gauge_inv d"
  "gauge_inv (d\<lparr>d_swept := w\<rparr>) = gauge_inv d" "gauge_inv (d\<lparr>d_pending := p\<rparr>) = gauge_inv d"
  "gauge_inv (d\<lparr>d_stopping := b\<rparr>) = gauge_inv d" "gauge_inv (d\<lparr>d_hist := h\<rparr>) = gauge_inv d"
  by (simp_all add: gauge_inv_def)

lemma gauge_backlog [simp]: "gauge_inv (update_backlog_gauges d) = gauge_inv d"
  by (simp add: update_backlog_gauges_def gauge_inv_def)

lemma gauge_fan_out: "gauge_inv d \<Longrightarrow> gauge_inv (fan_out cf s ow re et b d)"
  unfolding fan_out_def Let_def
  by (rule gauge_close_all, simp, erule gauge_inv_cong)
     (simp_all add: same_gauges_def o_def case_prod_unfold)

lemma gauge_emitted: "gauge_inv d \<Longrightarrow> gauge_inv (d\<lparr>d_metrics := m_emitted_update f (d_metrics d)\<rparr>)"
  "gauge_inv d \<Longrightarrow> gauge_inv (d\<lparr>d_metrics := m_replay_events_update f (d_metrics d)\<rparr>)"
  "gauge_inv d \<Longrightarrow> gauge_inv (d\<lparr>d_metrics := m_rejected_update g (d_metrics d)\<rparr>)"
  by (simp_all add: gauge_inv_def)

lemma gauge_pass_rows: "gauge_inv d \<Longrightarrow> gauge_inv (snd (pass_rows cf rows d))"
  by (induction rows arbitrary: d)
     (simp_all add: pass_rows_Cons swept_one_def Let_def gauge_plain gauge_fan_out gauge_emitted
        del: pass_rows.simps(2) split: sum.split)

lemma gauge_pass: "gauge_inv d \<Longrightarrow> gauge_inv (snd (broadcast_pass cf d))"
  by (simp add: broadcast_pass_def Let_def gauge_pass_rows)

lemma gauge_drain_pre_ack: "gauge_inv d \<Longrightarrow> gauge_inv (drain_pre_ack cf fd sub bs d)"
  by (induction bs arbitrary: sub d) (simp_all add: Let_def gauge_close gauge_put)

lemma gauge_replay_rows: "gauge_inv d \<Longrightarrow> gauge_inv (snd (snd (replay_rows cf fd sub rows d)))"
  by (induction rows arbitrary: sub d)
     (auto simp: Let_def gauge_close gauge_put gauge_emitted split: sum.split)

lemma gauge_finish: "gauge_inv d \<Longrightarrow> gauge_inv (finish_handshake cf fd sub d)"
  by (simp add: finish_handshake_def gauge_drain_pre_ack gauge_put)

lemma gauge_after_ack:
  assumes "gauge_inv d"
  shows "gauge_inv (after_ack cf fd p db sub d)"
proof -
  have "gauge_inv (snd (snd (replay cf fd sub since u d)))" for since u
    unfolding replay_def Let_def hist_replay_def by (rule gauge_replay_rows) (simp add: gauge_plain assms)
  then show ?thesis
    using assms by (auto simp: after_ack_def gauge_finish gauge_close split: option.splits db_outcome.splits prod.splits)
      (metis gauge_finish snd_conv)+
qed

lemma gauge_resume: "gauge_inv d \<Longrightarrow> gauge_inv (resume_subscribe cf fd out db d)"
  by (auto simp: resume_subscribe_def Let_def gauge_after_ack gauge_put gauge_close gauge_plain
      split: option.splits sum.splits ack_outcome.splits)

lemma gauge_heartbeat: "gauge_inv d \<Longrightarrow> gauge_inv (heartbeat_tick cf ts up d)"
  unfolding heartbeat_tick_def Let_def
  by (auto intro!: gauge_close_all elim!: gauge_inv_cong split: sum.splits
      simp: same_gauges_def o_def case_prod_unfold)

lemma gauge_subscribe:
  assumes "gauge_inv d" "fd \<notin> fst ` set (d_subs d)"
  shows "gauge_inv (snd (read_subscribe cf fd k uid msg d))"
  using assms
  by (auto simp: read_subscribe_def Let_def gauge_inv_def split: sum.splits handshake_reject.splits option.splits prod.splits)

lemma gauge_stop: "gauge_inv d \<Longrightarrow> gauge_inv (run_finally cf d)"
  by (simp add: run_finally_def shutdown_def Let_def gauge_plain gauge_close_all gauge_pass)

lemma gauge_step:
  assumes "gauge_inv d" "enabled cf d a"
  shows "gauge_inv (step cf a d)"
  using assms
  by (cases a) (simp_all add: gauge_plain run_broadcast_pass_def gauge_pass gauge_subscribe gauge_resume
      gauge_heartbeat gauge_stop, simp add: writable_def gauge_put split: option.split)

lemma reach_gauge: "reach cf ok d \<Longrightarrow> gauge_inv d"
proof (induction rule: reach.induct)
  case (reach_start t)
  then show ?case by (simp add: gauge_inv_def seed_cursor_def init_daemon_def metrics0_def)
next
  case (reach_step d a)
  then show ?case using gauge_step by blast
qed

lemma close_gone: "map_of (d_subs d) fd = None \<Longrightarrow> close_subscriber cf fd reason d = d"
  by (simp add: close_subscriber_def)

lemma closed_gone: "map_of (d_subs (close_subscriber cf fd reason d)) fd = None"
  by (simp add: map_of_eq_None_iff) auto

text \<open>Connections are accounted for exactly once. In every reachable state the subscriber
  gauge is the number of registered connections, every connection ever opened is either registered
  or closed, one eviction reason was counted per close, and closing a connection a second time,
  whatever the reason, changes nothing.\<close>

theorem connections_accounted:
  assumes "reach cf ok d"
  shows "m_subscriber_count (d_metrics d) = int (length (d_subs d))
       \<and> m_opened (d_metrics d) = length (d_subs d) + length (d_closed d)
       \<and> m_evicted (d_metrics d) = map (\<lambda>(fd, s, reason). reason) (d_closed d)
       \<and> distinct (map fst (d_subs d))
       \<and> close_subscriber cf fd reason2 (close_subscriber cf fd reason d) = close_subscriber cf fd reason d"
  using reach_gauge[OF assms] 
  by (simp add: gauge_inv_def close_gone[OF closed_gone])

theorem connections_accounted_witness:
  "\<exists>d. reach sample_cf quiet_handshake d \<and> length (d_subs d) = 1 \<and> m_subscriber_count (d_metrics d) = 1"
proof -
  obtain d s h where run:
    "run_actions sample_cf quiet_handshake sample_run (seed_cursor (init_daemon sample_table)) = Some d"
    and f: "d_subs d = [(3, s)]"
    using sample_run_result by blast
  have r: "reach sample_cf quiet_handshake d" by (rule run_reach[OF sample_table_inv run])
  from connections_accounted[OF r] show ?thesis using r f by auto
qed

text \<open>Eviction never corrupts a stream. Closing a live subscriber writes at most one
  reject frame, only for the lag reasons and only when nothing is pending, so it starts exactly at
  the end of the last whole frame; otherwise the wire is left as it is. The subscriber is disarmed,
  its queue dropped and its socket closed in every case.\<close>

theorem close_at_frame_boundary:
  assumes "sub_inv s" "\<not> sk_dead (sub_sock s)" "close_sub cf reason s = (s', rejected)"
  shows "(rejected \<longrightarrow> reason \<in> fst ` set (TERMINAL_REJECT_FRAMES cf)
            \<and> (\<exists>n. sk_wire (sub_sock s') = concat (map fst (sub_sent s))
                     @ take n (SUBSCRIBE_REJECT_LAG_LIMIT_FRAME cf)))
       \<and> (\<not> rejected \<longrightarrow> sk_wire (sub_sock s') = sk_wire (sub_sock s))
       \<and> sk_dead (sub_sock s') \<and> sub_tx_queue s' = [] \<and> \<not> sub_draining s'"
proof -
  have sent: "\<exists>n. sk_wire (snd (sock_send b k)) = sk_wire k @ take n b" for b k
  proof -
    obtain r k' where k: "sock_send b k = (r, k')" by (cases "sock_send b k")
    have "\<exists>n. sk_wire k' = sk_wire k @ take n b"
      by (rule sock_send_cases[OF k]) (auto intro: exI[of _ 0])
    then show ?thesis by (simp add: k)
  qed
  have whole: "sub_tx_queue s = [] \<Longrightarrow> sk_wire (sub_sock s) = concat (map fst (sub_sent s))"
    using sub_tx.alive_wire[OF assms(1,2)] by (simp add: tx_pending_def)
  have frame: "map_of (TERMINAL_REJECT_FRAMES cf) reason = Some b \<Longrightarrow>
      b = SUBSCRIBE_REJECT_LAG_LIMIT_FRAME cf \<and> reason \<in> fst ` set (TERMINAL_REJECT_FRAMES cf)" for b
    by (auto simp: TERMINAL_REJECT_FRAMES_def split: if_splits)
  have stop: "stop_draining s = s\<lparr>sub_draining := False\<rparr>" by (simp add: stop_draining_def)
  show ?thesis
    using assms(3) frame whole sent[of "SUBSCRIBE_REJECT_LAG_LIMIT_FRAME cf" "sub_sock s"]
    by (auto simp: close_sub_def Let_def stop close_socket_def split: option.splits if_splits)
qed

theorem close_at_frame_boundary_witness:
  "let s = fst (close_sub sample_cf ''lag_limit_exceeded'' (sub_run [TxSend [1, 2, 3] True] (sample_sub [Accepts 1])))
   in sk_wire (sub_sock s) = [1] \<and> sub_tx_queue s = [] \<and> sk_dead (sub_sock s)"
proof -
  let ?s = "sub_run [TxSend [1, 2, 3] True] (sample_sub [Accepts 1])"
  have inv: "sub_inv ?s"
    unfolding sample_sub_def
    by (rule sub_tx.run_inv[OF new_subscriber_inv]) (simp_all add: sample_sock_def)
  have f: "\<not> sk_dead (sub_sock ?s)" "sk_wire (sub_sock ?s) = [1]" "sub_tx_queue ?s \<noteq> []" by (simp_all add: tx_eval)
  obtain s' rej where c: "close_sub sample_cf ''lag_limit_exceeded'' ?s = (s', rej)"
    by (cases "close_sub sample_cf ''lag_limit_exceeded'' ?s")
  then have "\<not> rej"
    using f(3) by (auto simp: close_sub_def Let_def stop_draining_def split: option.splits if_splits)
  then show ?thesis using close_at_frame_boundary[OF inv f(1) c] f(2) c by (simp add: Let_def)
qed

text \<open>A dead peer is evicted by the next heartbeat. On quiet schedules, a subscriber whose
  socket has failed is no longer registered after a heartbeat tick, and the tick keeps every
  subscriber whose lag stays below the limit.\<close>

theorem heartbeat_evicts_dead:
  assumes "reach cf quiet_handshake d" "\<not> d_stopping d" "heartbeat_blob cf ts up = Inr blob"
    and "(fd, s) \<in> set (d_subs d)"
  shows "(sk_dead (sub_sock s) \<longrightarrow> fd \<notin> fst ` set (d_subs (heartbeat_tick cf ts up d)))
       \<and> (sub_lag_count (snd (enqueue blob False s)) < LAG_LIMIT
            \<longrightarrow> (fd, snd (enqueue blob False s)) \<in> set (d_subs (heartbeat_tick cf ts up d)))"
proof -
  have dist: "distinct (map fst (d_subs d))" using reach_inv[OF assms(1)] by simp
  have uniq: "v = s" if "(fd, v) \<in> set (d_subs d)" for v
    using distinct_assoc[OF dist that assms(4)] .
  let ?drop = "\<lambda>k. \<exists>v. (k, v) \<in> set (d_subs d) \<and> LAG_LIMIT \<le> sub_lag_count (snd (enqueue blob False v))"
  have drop: "k \<in> fst ` {x \<in> (\<lambda>(fd, sub). (fd, snd (enqueue blob False sub))) ` set (d_subs d).
        case x of (fd, sub) \<Rightarrow> LAG_LIMIT \<le> sub_lag_count sub} \<longleftrightarrow> ?drop k" for k
    by force
  have subs: "set (d_subs (heartbeat_tick cf ts up d))
      = {(k, snd (enqueue blob False v)) |k v. (k, v) \<in> set (d_subs d) \<and> \<not> ?drop k}"
    using assms(2,3) by (auto simp: heartbeat_tick_def Let_def drop)
  have dead: "LAG_LIMIT \<le> sub_lag_count (snd (enqueue blob False s))" if "sk_dead (sub_sock s)"
  proof -
    have "sub_inv s" using wire_invD(1)[OF reach_wire[OF assms(1)] assms(4)] by (simp add: wire_ok_def)
    then have "sub_tx_queue s = []" using that by (auto simp: sub_inv_def sub_split_def)
    then show ?thesis using that by (simp add: enqueue_def Let_def record_sent_def sock_send_def)
  qed
  have key: "?drop fd \<longleftrightarrow> LAG_LIMIT \<le> sub_lag_count (snd (enqueue blob False s))"
    using uniq assms(4) by blast
  show ?thesis
    unfolding subs using dead key assms(4) by force
qed

definition dead_run :: "action list" where
  "dead_run = [ASubscribe 3 (sample_sock [WouldBlock, Broken]) 1000 [], AResume 3 AckSent DbOk,
     ACommit 0 (sample_event ''d'') ''DDDD'', APass, AWritable 3]"

lemma dead_run_result:
  "\<exists>d s. run_actions sample_cf quiet_handshake dead_run (seed_cursor (init_daemon sample_table)) = Some d
     \<and> d_subs d = [(3, s)] \<and> sk_dead (sub_sock s) \<and> \<not> d_stopping d"
  by (simp add: dead_run_def run_eval sample_table_def writable_def start_draining_def drain_def stop_draining_def)

theorem heartbeat_evicts_dead_witness:
  "\<exists>d. reach sample_cf quiet_handshake d \<and> map fst (d_subs d) = [3]
     \<and> 3 \<notin> fst ` set (d_subs (heartbeat_tick sample_cf 1 2 d))"
proof -
  obtain d s where run:
    "run_actions sample_cf quiet_handshake dead_run (seed_cursor (init_daemon sample_table)) = Some d"
    and f: "d_subs d = [(3, s)]" "sk_dead (sub_sock s)" "\<not> d_stopping d"
    using dead_run_result by blast
  have r: "reach sample_cf quiet_handshake d" by (rule run_reach[OF sample_table_inv run])
  have mem: "(3, s) \<in> set (d_subs d)" by (simp add: f(1))
  from heartbeat_evicts_dead[OF r f(3) sample_heartbeat mem] f(2) have
    "3 \<notin> fst ` set (d_subs (heartbeat_tick sample_cf 1 2 d))" by blast
  then show ?thesis using r f(1) by auto
qed

lemma pass_rows_flags: "d_stopping (snd (pass_rows cf rows d)) = d_stopping d \<and> d_pending (snd (pass_rows cf rows d)) = d_pending d"
  by (induction rows arbitrary: d)
     (simp_all add: pass_rows_Cons swept_one_core del: pass_rows.simps(2) split: sum.split)

lemma pass_keeps_flags:
  "d_stopping (snd (broadcast_pass cf d)) = d_stopping d \<and> d_pending (snd (broadcast_pass cf d)) = d_pending d"
  by (simp add: broadcast_pass_def Let_def pass_rows_flags)

text \<open>Shutdown drains and closes. Leaving \<open>run\<close> sweeps the rows that were committed after the
  last pass (up to one batch, when they can be encoded), closes every connection with reason
  \<open>shutdown\<close> and a balanced gauge, and a second call changes nothing.\<close>

theorem shutdown_drains_and_closes:
  assumes "reach cf ok d" "\<not> d_stopping d" "\<forall>r\<in>set (backlog d). \<exists>b. row_blob cf r = Inr b"
  shows "d_subs (run_finally cf d) = [] \<and> d_pending (run_finally cf d) = []
       \<and> m_subscriber_count (d_metrics (run_finally cf d)) = 0
       \<and> d_swept (run_finally cf d) = d_swept d @ take SWEEP_LIMIT (backlog d)
       \<and> run_finally cf (run_finally cf d) = run_finally cf d"
proof -
  let ?d1 = "d\<lparr>d_pending := [], d_stopping := True\<rparr>"
  let ?d2 = "snd (broadcast_pass cf ?d1)"
  have t: "table_inv (d_table ?d1)" using reach_inv[OF assms(1)] by (simp add: daemon_inv_def core_inv_def)
  have b: "backlog ?d1 = backlog d" by (simp add: backlog_def)
  have enc: "\<forall>r\<in>set (backlog ?d1). row_blob cf r = Inr (blob_of cf r)"
    using assms(3) unfolding b by (fastforce simp: blob_of_def)
  have inv1: "daemon_inv cf ?d1" using inv_stopping[OF inv_no_pending[OF reach_inv[OF assms(1)]]] by simp
  have st: "d_stopping ?d2 \<and> d_pending ?d2 = []"
    using pass_keeps_flags[of cf ?d1] by simp
  have eq: "run_finally cf d = close_all cf ''shutdown'' (map fst (d_subs ?d2)) ?d2"
    using assms(2) by (simp add: run_finally_def shutdown_def Let_def)
  have subs: "d_subs (run_finally cf d) = []"
    unfolding eq by (force simp: filter_empty_conv)
  have core: "same_core ?d2 (run_finally cf d)" unfolding eq by simp
  have "d_swept ?d2 = d_swept d @ take SWEEP_LIMIT (backlog d)"
    using one_pass(2)[OF t enc] by (simp add: run_broadcast_pass_def b)
  moreover have "m_subscriber_count (d_metrics (run_finally cf d)) = 0"
    using gauge_stop[OF reach_gauge[OF assms(1)], of cf] subs by (simp add: gauge_inv_def)
  moreover have "run_finally cf (run_finally cf d) = run_finally cf d"
    using core st by (simp add: run_finally_def[of cf "run_finally cf d"] shutdown_def same_core_def)
  ultimately show ?thesis using subs core st by (simp add: same_core_def)
qed

theorem shutdown_drains_and_closes_witness:
  "\<exists>d. reach sample_cf quiet_handshake d \<and> map fst (d_subs d) = [3]
     \<and> d_subs (run_finally sample_cf d) = [] \<and> m_subscriber_count (d_metrics (run_finally sample_cf d)) = 0"
proof -
  obtain d s where run:
    "run_actions sample_cf quiet_handshake sample_run (seed_cursor (init_daemon sample_table)) = Some d"
    and d: "d_subs d = [(3, s)]" "\<not> d_stopping d" "map ev_seq (visible_rows (d_table d)) = [1, 4, 5, 8]" "d_cursor d = 8"
    using sample_run_result by (elim exE conjE) (rule that, assumption+)
  have "\<forall>n\<in>set (map ev_seq (visible_rows (d_table d))). n \<le> 8" unfolding d(3) by simp
  then have "backlog d = []" by (auto simp: backlog_def d(4) filter_empty_conv)
  note f = d(1,2) this
  have r: "reach sample_cf quiet_handshake d" by (rule run_reach[OF sample_table_inv run])
  from shutdown_drains_and_closes[OF r f(2)] f(3) have
    "d_subs (run_finally sample_cf d) = [] \<and> m_subscriber_count (d_metrics (run_finally sample_cf d)) = 0" by simp
  then show ?thesis using r f(1) by auto
qed

end
