(* ===== verification/WB_Sub.thy ===== *)
theory WB_Sub
  imports WB_Frame
begin

text \<open>
  The client side of the broadcast wire, \<open>waitbus/_broadcast_sub.py\<close>: bookmarks, the subscribe
  envelope, the acknowledgement barrier and the shared read engine \<open>await_predicate\<close>.

  The environment of the engine is the list of what arrives on its socket. An \<open>arrival\<close> becomes
  readable at \<open>ar_ready\<close>; reading it off ends at \<open>ar_done\<close> (later when the peer stalls in
  the middle of a frame) and yields a payload, EOF, a framing error, or SIGINT. Clock readings are
  rational seconds. \<open>decide\<close> is the caller's callback, a function on the caller's state;
  \<open>loads\<close> is UTF-8 decoding and \<open>json.loads\<close>. The text of exceptions is left out, and so
  are failures of the local file system.
\<close>

section \<open>Bookmarks\<close>

record bookmark =
  bk_name :: string
  bk_file :: "string option"
  bk_last :: "string option"

datatype bookmark_error = EmptyName | BadNameChars string

definition bookmark_name_body :: "string \<Rightarrow> bool" where
  "bookmark_name_body s \<longleftrightarrow> s \<noteq> [] \<and> list_all (\<lambda>c. is_ascii_upper c \<or> is_ascii_lower c \<or> is_ascii_digit c
     \<or> c \<in> {CHR ''_'', CHR ''.'', CHR ''-''}) s"

definition BOOKMARK_ID_RE :: "string \<Rightarrow> bool" where
  "BOOKMARK_ID_RE = dollar_match bookmark_name_body"

definition validate_name :: "string \<Rightarrow> bookmark_error + unit" where
  "validate_name name =
     (if name = [] then Inl EmptyName
      else if \<not> BOOKMARK_ID_RE name then Inl (BadNameChars name)
      else Inr ())"

text \<open>Binding a name to its file, whose content \<open>stored\<close> is what earlier sessions left.\<close>

definition new_bookmark :: "string \<Rightarrow> string option \<Rightarrow> bookmark_error + bookmark" where
  "new_bookmark name stored =
     res_bind (validate_name name) (\<lambda>_. Inr \<lparr>bk_name = name, bk_file = stored, bk_last = None\<rparr>)"

definition bookmark_load :: "bookmark \<Rightarrow> string option \<times> bookmark" where
  "bookmark_load b =
     (let cursor = (case bk_file b of
                      None \<Rightarrow> None
                    | Some t \<Rightarrow> if strip t = [] then None else Some (strip t))
      in (cursor, b\<lparr>bk_last := cursor\<rparr>))"

definition resolve_since ::
    "string option \<Rightarrow> string option \<Rightarrow> (string \<Rightarrow> string option)
       \<Rightarrow> bookmark_error + string option \<times> bookmark option" where
  "resolve_since explicit name files =
     (case explicit of
        Some e \<Rightarrow> Inr (Some e, None)
      | None \<Rightarrow>
          (case name of
             None \<Rightarrow> Inr (None, None)
           | Some n \<Rightarrow> res_bind (new_bookmark n (files n))
                        (\<lambda>h. case bookmark_load h of (c, h') \<Rightarrow> Inr (c, Some h'))))"

definition bookmark_advance :: "dict \<Rightarrow> bookmark \<Rightarrow> bookmark" where
  "bookmark_advance frame b =
     (if dict_get frame ''kind'' = JStr ''daemon_heartbeat'' then b
      else (case dict_get frame ''event_id'' of
              JStr event_id \<Rightarrow>
                (if event_id = [] then b else b\<lparr>bk_file := Some event_id, bk_last := Some event_id\<rparr>)
            | _ \<Rightarrow> b))"

definition bookmark_current :: "bookmark \<Rightarrow> string option" where
  "bookmark_current b = bk_last b"

section \<open>The handshake\<close>

datatype sub_error =
    BroadcastConnectionError string
  | ProtocolVersionError
  | SubscriberLaggedError
  | AttributeError
  | UnhashableKind

definition REJECT_REASON_EXCEPTIONS :: "(string \<times> sub_error) list" where
  "REJECT_REASON_EXCEPTIONS =
     [(''version'', ProtocolVersionError), (''lag_limit_exceeded'', SubscriberLaggedError)]"

definition raise_for_reject :: "dict \<Rightarrow> sub_error" where
  "raise_for_reject frame =
     (let reason = (case dict_get frame ''reason'' of JStr r \<Rightarrow> r | _ \<Rightarrow> ''<non-string>'')
      in (case map_of REJECT_REASON_EXCEPTIONS reason of
            Some e \<Rightarrow> e | None \<Rightarrow> BroadcastConnectionError ''rejected''))"

text \<open>The envelope \<open>open_subscriber\<close> sends once it is connected.\<close>

definition subscribe_envelope :: "string list option \<Rightarrow> string list option \<Rightarrow> string option \<Rightarrow> dict" where
  "subscribe_envelope filters event_types since =
     [(''proto'', JInt FRAME_PROTO_VERSION)]
     @ (case filters of Some fs \<Rightarrow> [(''filters'', JArr (map JStr fs))] | None \<Rightarrow> [])
     @ (case event_types of Some ts \<Rightarrow> [(''event_types'', JArr (map JStr ts))] | None \<Rightarrow> [])
     @ (case since of Some s \<Rightarrow> [(''since'', JStr s)] | None \<Rightarrow> [])"

datatype connect_result = Connected | NotReachable | SendFails

datatype open_error = OpenBookmark bookmark_error | OpenConnection | OpenFrameTooLarge frame_error

definition open_subscriber ::
    "(json \<Rightarrow> bytes) \<Rightarrow> (string \<Rightarrow> string option) \<Rightarrow> string list option \<Rightarrow> string list option
       \<Rightarrow> string option \<Rightarrow> string option \<Rightarrow> connect_result \<Rightarrow> open_error + bytes" where
  "open_subscriber dumps files filters event_types since bookmark_id conn =
     (case resolve_since since bookmark_id files of
        Inl e \<Rightarrow> Inl (OpenBookmark e)
      | Inr (effective_since, _) \<Rightarrow>
          (if conn = NotReachable then Inl OpenConnection
           else (case encode_frame (dumps (JObj (subscribe_envelope filters event_types effective_since))) of
                   Inl e \<Rightarrow> Inl (OpenFrameTooLarge e)
                 | Inr w \<Rightarrow> if conn = SendFails then Inl OpenConnection else Inr w)))"

datatype first_read = ReadTimeout | ReadFraming | ReadEof | ReadPayload bytes

definition read_subscribe_ack :: "(bytes \<Rightarrow> json option) \<Rightarrow> first_read \<Rightarrow> sub_error + unit" where
  "read_subscribe_ack loads r =
     (case r of
        ReadTimeout \<Rightarrow> Inl (BroadcastConnectionError ''timeout'')
      | ReadFraming \<Rightarrow> Inl (BroadcastConnectionError ''framing'')
      | ReadEof \<Rightarrow> Inl (BroadcastConnectionError ''eof'')
      | ReadPayload b \<Rightarrow>
          (case loads b of
             None \<Rightarrow> Inl (BroadcastConnectionError ''undecodable'')
           | Some j \<Rightarrow>
               (case as_dict j of
                  None \<Rightarrow> Inl (BroadcastConnectionError ''not an object'')
                | Some frame \<Rightarrow>
                    (if dict_get frame ''kind'' = JStr ''subscribe_ack'' then Inr ()
                     else if dict_get frame ''kind'' = JStr ''subscribe_rejected'' then Inl (raise_for_reject frame)
                     else Inl (BroadcastConnectionError ''unexpected kind'')))))"

section \<open>The read engine\<close>

datatype frame_decision = CONTINUE | MATCHED

record wait_outcome =
  wo_matched :: bool
  wo_timed_out :: bool
  wo_cancelled :: bool
  wo_peer_closed :: bool
  wo_framing_error :: bool

definition OUTCOME_TIMED_OUT :: wait_outcome where
  "OUTCOME_TIMED_OUT = \<lparr>wo_matched = False, wo_timed_out = True, wo_cancelled = False,
     wo_peer_closed = False, wo_framing_error = False\<rparr>"

definition OUTCOME_CANCELLED :: wait_outcome where
  "OUTCOME_CANCELLED = \<lparr>wo_matched = False, wo_timed_out = False, wo_cancelled = True,
     wo_peer_closed = False, wo_framing_error = False\<rparr>"

definition OUTCOME_MATCHED :: wait_outcome where
  "OUTCOME_MATCHED = \<lparr>wo_matched = True, wo_timed_out = False, wo_cancelled = False,
     wo_peer_closed = False, wo_framing_error = False\<rparr>"

definition OUTCOME_CLEAN_EOF :: wait_outcome where
  "OUTCOME_CLEAN_EOF = \<lparr>wo_matched = False, wo_timed_out = False, wo_cancelled = False,
     wo_peer_closed = True, wo_framing_error = False\<rparr>"

definition OUTCOME_FRAMING_EOF :: wait_outcome where
  "OUTCOME_FRAMING_EOF = \<lparr>wo_matched = False, wo_timed_out = False, wo_cancelled = False,
     wo_peer_closed = True, wo_framing_error = True\<rparr>"

lemmas OUTCOME_defs = OUTCOME_TIMED_OUT_def OUTCOME_CANCELLED_def OUTCOME_MATCHED_def
  OUTCOME_CLEAN_EOF_def OUTCOME_FRAMING_EOF_def

datatype read_item = GotPayload bytes | GotEof | GotBadFraming | Interrupted

record arrival =
  ar_ready :: rat
  ar_done :: rat
  ar_item :: read_item

text \<open>How a call ends: it returns, raises, or (without a deadline) still waits when the
  arrivals are used up.\<close>

datatype await_end = Returned wait_outcome | Raised sub_error | StillWaiting

record 's await_state =
  aw_now :: rat
  aw_anchor :: rat
  aw_cursor :: "bookmark option"
  aw_unread :: "arrival list"
  aw_caller :: 's

text \<open>What becomes of one frame that was read: control frames are drained, a reject raises, any
  other frame advances the bookmark, then resets the idle anchor, then goes to \<open>decide\<close>.
  \<open>kind in DRAINABLE_CONTROL_KINDS\<close> raises for a list or an object.\<close>

definition await_frame ::
    "(bytes \<Rightarrow> json option) \<Rightarrow> (dict \<Rightarrow> 's \<Rightarrow> frame_decision \<times> 's) \<Rightarrow> bool \<Rightarrow> bytes
       \<Rightarrow> 's await_state \<Rightarrow> await_end option \<times> 's await_state" where
  "await_frame loads decide idle_reset data st =
     (case loads data of
        None \<Rightarrow> (None, st)
      | Some j \<Rightarrow>
          (case as_dict j of
             None \<Rightarrow> (Some (Raised AttributeError), st)
           | Some frame \<Rightarrow>
               (case dict_get frame ''kind'' of
                  JArr _ \<Rightarrow> (Some (Raised UnhashableKind), st)
                | JObj _ \<Rightarrow> (Some (Raised UnhashableKind), st)
                | kind \<Rightarrow>
                    (if kind \<in> JStr ` set DRAINABLE_CONTROL_KINDS then (None, st)
                     else if kind = JStr ''subscribe_rejected'' then (Some (Raised (raise_for_reject frame)), st)
                     else
                       (let st1 = st\<lparr>aw_cursor := map_option (bookmark_advance frame) (aw_cursor st)\<rparr>;
                            st2 = (if idle_reset then st1\<lparr>aw_anchor := aw_now st1\<rparr> else st1)
                        in (case decide frame (aw_caller st2) of
                              (MATCHED, s) \<Rightarrow> (Some (Returned OUTCOME_MATCHED), st2\<lparr>aw_caller := s\<rparr>)
                            | (CONTINUE, s) \<Rightarrow> (None, st2\<lparr>aw_caller := s\<rparr>)))))))"

text \<open>The loop. \<open>select\<close> returns when the next arrival is readable or the budget is used up;
  what is not read stays on the socket.\<close>

fun await_loop ::
    "(bytes \<Rightarrow> json option) \<Rightarrow> (dict \<Rightarrow> 's \<Rightarrow> frame_decision \<times> 's) \<Rightarrow> rat option \<Rightarrow> bool
       \<Rightarrow> arrival list \<Rightarrow> 's await_state \<Rightarrow> await_end \<times> 's await_state" where
  "await_loop loads decide dl idle_reset [] st =
     (case dl of
        None \<Rightarrow> (StillWaiting, st)
      | Some d \<Rightarrow> (Returned OUTCOME_TIMED_OUT, st\<lparr>aw_now := max (aw_now st) (aw_anchor st + d)\<rparr>))"
| "await_loop loads decide dl idle_reset (a # as) st =
     (if (case dl of None \<Rightarrow> False
                   | Some d \<Rightarrow> d - (aw_now st - aw_anchor st) \<le> 0
                             \<or> aw_anchor st + d < max (aw_now st) (ar_ready a))
      then (Returned OUTCOME_TIMED_OUT, st\<lparr>aw_now := max (aw_now st) (aw_anchor st + the dl)\<rparr>)
      else
        (let st1 = st\<lparr>aw_now := max (max (aw_now st) (ar_ready a)) (ar_done a), aw_unread := as\<rparr> in
         case ar_item a of
           Interrupted \<Rightarrow> (Returned OUTCOME_CANCELLED, st1)
         | GotBadFraming \<Rightarrow> (Returned OUTCOME_FRAMING_EOF, st1)
         | GotEof \<Rightarrow> (Returned OUTCOME_CLEAN_EOF, st1)
         | GotPayload data \<Rightarrow>
             (case await_frame loads decide idle_reset data st1 of
                (Some e, st2) \<Rightarrow> (e, st2)
              | (None, st2) \<Rightarrow> await_loop loads decide dl idle_reset as st2)))"

definition await_predicate ::
    "(bytes \<Rightarrow> json option) \<Rightarrow> (dict \<Rightarrow> 's \<Rightarrow> frame_decision \<times> 's) \<Rightarrow> rat option \<Rightarrow> bool
       \<Rightarrow> arrival list \<Rightarrow> rat \<Rightarrow> bookmark option \<Rightarrow> 's \<Rightarrow> await_end \<times> 's await_state" where
  "await_predicate loads decide dl idle_reset as now cursor s =
     (let st = \<lparr>aw_now = now, aw_anchor = now, aw_cursor = cursor,
                aw_unread = as, aw_caller = s\<rparr> in
      if (case dl of None \<Rightarrow> False | Some d \<Rightarrow> d \<le> 0) then (Returned OUTCOME_TIMED_OUT, st)
      else await_loop loads decide dl idle_reset as st)"

definition always_continue :: "dict \<Rightarrow> 's \<Rightarrow> frame_decision \<times> 's" where
  "always_continue frame s = (CONTINUE, s)"

text \<open>\<open>_emit_predicate\<close>: the caller's state is the list of emitted frames with the count so far.\<close>

definition emit_predicate :: "nat option \<Rightarrow> dict \<Rightarrow> dict list \<times> nat \<Rightarrow> frame_decision \<times> dict list \<times> nat" where
  "emit_predicate cnt frame s =
     (case s of (out, seen) \<Rightarrow>
        (if (case cnt of None \<Rightarrow> False | Some c \<Rightarrow> seen + 1 \<ge> c)
         then (MATCHED, out @ [frame], seen + 1) else (CONTINUE, out @ [frame], seen + 1)))"

end
