(* ===== verification/WB_SubProps.thy ===== *)
theory WB_SubProps
  imports WB_Sub
begin

text \<open>
  Facts on the client side of the wire: what the read engine hands to its caller and where it
  leaves the bookmark, when it stops, and how a bookmark carries one session into the next. A
  frame read off the wire is classified once (\<open>classify\<close>): dropped, fatal, or delivered; the
  engine is then a fold of the caller's callback over the delivered frames.
\<close>

section \<open>The engine as a fold over the delivered frames\<close>

datatype verdict = Drained | Fatal sub_error | Delivered dict

definition classify :: "(bytes \<Rightarrow> json option) \<Rightarrow> bytes \<Rightarrow> verdict" where
  "classify loads data =
     (case loads data of
        None \<Rightarrow> Drained
      | Some (JObj frame) \<Rightarrow>
          (case dict_get frame ''kind'' of
             JArr _ \<Rightarrow> Fatal UnhashableKind
           | JObj _ \<Rightarrow> Fatal UnhashableKind
           | kind \<Rightarrow> if kind = JStr ''daemon_heartbeat'' \<or> kind = JStr ''subscribe_ack'' then Drained
                     else if kind = JStr ''subscribe_rejected'' then Fatal (raise_for_reject frame)
                     else Delivered frame)
      | Some _ \<Rightarrow> Fatal AttributeError)"

definition deliver ::
    "(dict \<Rightarrow> 's \<Rightarrow> frame_decision \<times> 's) \<Rightarrow> bool \<Rightarrow> dict \<Rightarrow> 's await_state \<Rightarrow> frame_decision \<times> 's await_state" where
  "deliver decide idle_reset frame st =
     (let st1 = st\<lparr>aw_cursor := map_option (bookmark_advance frame) (aw_cursor st),
                   aw_anchor := (if idle_reset then aw_now st else aw_anchor st)\<rparr>
      in (fst (decide frame (aw_caller st)), st1\<lparr>aw_caller := snd (decide frame (aw_caller st))\<rparr>))"

lemma drainable_kinds:
  "x \<in> JStr ` set DRAINABLE_CONTROL_KINDS \<longleftrightarrow> x = JStr ''daemon_heartbeat'' \<or> x = JStr ''subscribe_ack''"
  by (auto simp: DRAINABLE_CONTROL_KINDS_def KIND_defs)

lemma await_frame_classify:
  "await_frame loads decide idle_reset data st =
     (case classify loads data of
        Drained \<Rightarrow> (None, st)
      | Fatal e \<Rightarrow> (Some (Raised e), st)
      | Delivered frame \<Rightarrow>
          (case deliver decide idle_reset frame st of
             (MATCHED, st') \<Rightarrow> (Some (Returned OUTCOME_MATCHED), st')
           | (CONTINUE, st') \<Rightarrow> (None, st')))"
proof (cases "loads data")
  case (Some j)
  show ?thesis
  proof (cases j)
    case (JObj frame)
    show ?thesis
      by (cases "dict_get frame ''kind''"; cases "decide frame (aw_caller st)")
        (simp_all add: await_frame_def classify_def deliver_def Some JObj drainable_kinds Let_def
          split: frame_decision.split)
  qed (simp_all add: await_frame_def classify_def Some)
qed (simp add: await_frame_def classify_def)

text \<open>The frames a run of arrivals delivers, and the callback run over them.\<close>

fun delivered_of :: "(bytes \<Rightarrow> json option) \<Rightarrow> arrival list \<Rightarrow> dict list" where
  "delivered_of loads [] = []"
| "delivered_of loads (a # as) =
     (case ar_item a of
        GotPayload data \<Rightarrow>
          (case classify loads data of Delivered f \<Rightarrow> f # delivered_of loads as | _ \<Rightarrow> delivered_of loads as)
      | _ \<Rightarrow> delivered_of loads as)"

lemma delivered_append: "delivered_of loads (xs @ ys) = delivered_of loads xs @ delivered_of loads ys"
  by (induction xs) (auto split: read_item.splits verdict.splits)

fun run_decide :: "(dict \<Rightarrow> 's \<Rightarrow> frame_decision \<times> 's) \<Rightarrow> dict list \<Rightarrow> 's \<Rightarrow> frame_decision list \<times> 's" where
  "run_decide decide [] s = ([], s)"
| "run_decide decide (f # fs) s =
     (case decide f s of (v, s') \<Rightarrow> (case run_decide decide fs s' of (vs, s'') \<Rightarrow> (v # vs, s'')))"

definition advance_all :: "dict list \<Rightarrow> bookmark \<Rightarrow> bookmark" where
  "advance_all fs b = foldl (\<lambda>b f. bookmark_advance f b) b fs"

lemma advance_all_simps [simp]:
  "advance_all [] b = b" "advance_all (f # fs) b = advance_all fs (bookmark_advance f b)"
  by (simp_all add: advance_all_def)

lemma advance_all_none [simp]: "map_option (advance_all []) c = c"
  by (cases c) simp_all

text \<open>What an ending says of the arrival it ended on (the last one read), if it ended on one.\<close>

definition ends_on :: "(bytes \<Rightarrow> json option) \<Rightarrow> await_end \<Rightarrow> read_item \<Rightarrow> bool" where
  "ends_on loads e i \<longleftrightarrow>
     (case i of
        Interrupted \<Rightarrow> e = Returned OUTCOME_CANCELLED
      | GotEof \<Rightarrow> e = Returned OUTCOME_CLEAN_EOF
      | GotBadFraming \<Rightarrow> e = Returned OUTCOME_FRAMING_EOF
      | GotPayload data \<Rightarrow>
          (case classify loads data of
             Drained \<Rightarrow> False
           | Fatal x \<Rightarrow> e = Raised x
           | Delivered _ \<Rightarrow> e = Returned OUTCOME_MATCHED))"

definition passes_over :: "(bytes \<Rightarrow> json option) \<Rightarrow> read_item \<Rightarrow> bool" where
  "passes_over loads i \<longleftrightarrow>
     (case i of GotPayload data \<Rightarrow> (\<forall>x. classify loads data \<noteq> Fatal x) | _ \<Rightarrow> False)"

definition open_ended :: "rat option \<Rightarrow> await_end \<Rightarrow> bool" where
  "open_ended dl e \<longleftrightarrow> e = (if dl = None then StillWaiting else Returned OUTCOME_TIMED_OUT)"

definition await_trace ::
    "(bytes \<Rightarrow> json option) \<Rightarrow> (dict \<Rightarrow> 's \<Rightarrow> frame_decision \<times> 's) \<Rightarrow> rat option \<Rightarrow> arrival list
       \<Rightarrow> 's await_state \<Rightarrow> nat \<Rightarrow> await_end \<times> 's await_state \<Rightarrow> bool" where
  "await_trace loads decide dl as st n r \<longleftrightarrow>
     n \<le> length as \<and> aw_unread (snd r) = drop n as
     \<and> aw_cursor (snd r) = map_option (advance_all (delivered_of loads (take n as))) (aw_cursor st)
     \<and> aw_caller (snd r) = snd (run_decide decide (delivered_of loads (take n as)) (aw_caller st))
     \<and> (let vs = fst (run_decide decide (delivered_of loads (take n as)) (aw_caller st)) in
        if fst r = Returned OUTCOME_MATCHED
        then vs \<noteq> [] \<and> last vs = MATCHED \<and> list_all (\<lambda>v. v = CONTINUE) (butlast vs)
        else list_all (\<lambda>v. v = CONTINUE) vs)
     \<and> (if open_ended dl (fst r) then list_all (\<lambda>a. passes_over loads (ar_item a)) (take n as)
        else n > 0 \<and> list_all (\<lambda>a. passes_over loads (ar_item a)) (take (n - 1) as)
             \<and> ends_on loads (fst r) (ar_item (as ! (n - 1))))"

lemma outcome_distinct [simp]:
  "OUTCOME_TIMED_OUT \<noteq> OUTCOME_MATCHED" "OUTCOME_CANCELLED \<noteq> OUTCOME_MATCHED"
  "OUTCOME_CLEAN_EOF \<noteq> OUTCOME_MATCHED" "OUTCOME_FRAMING_EOF \<noteq> OUTCOME_MATCHED"
  "OUTCOME_MATCHED \<noteq> OUTCOME_TIMED_OUT" "OUTCOME_CANCELLED \<noteq> OUTCOME_TIMED_OUT"
  "OUTCOME_CLEAN_EOF \<noteq> OUTCOME_TIMED_OUT" "OUTCOME_FRAMING_EOF \<noteq> OUTCOME_TIMED_OUT"
  by (simp_all add: OUTCOME_defs)

lemma await_trace_stop:
  assumes "open_ended dl e" "aw_unread st' = as" "aw_cursor st' = aw_cursor st" "aw_caller st' = aw_caller st"
  shows "await_trace loads decide dl as st 0 (e, st')"
proof -
  have "e \<noteq> Returned OUTCOME_MATCHED" using assms(1) by (auto simp: open_ended_def split: if_splits)
  then show ?thesis using assms by (simp add: await_trace_def)
qed

lemma await_trace_end:
  assumes "aw_unread st' = as" "aw_cursor st' = aw_cursor st" "aw_caller st' = aw_caller st"
    and "ends_on loads e (ar_item a)" "\<not> (\<exists>f. delivered_of loads [a] = [f])"
  shows "await_trace loads decide dl (a # as) st (Suc 0) (e, st')"
proof -
  have none: "delivered_of loads [a] = []"
    using assms(5) by (auto split: read_item.splits verdict.splits)
  have "e \<noteq> Returned OUTCOME_MATCHED \<and> \<not> open_ended dl e"
    using assms(4,5)
    by (auto simp: ends_on_def open_ended_def split: read_item.splits verdict.splits)
  then show ?thesis using assms none by (simp add: await_trace_def)
qed

lemma await_trace_Cons:
  assumes r: "await_trace loads decide dl as st1 n r"
    and pass: "passes_over loads (ar_item a)"
    and st1: "delivered_of loads [a] = fs"
      "aw_cursor st1 = map_option (advance_all fs) (aw_cursor st)"
      "run_decide decide fs (aw_caller st) = (map (\<lambda>_. CONTINUE) fs, aw_caller st1)"
  shows "await_trace loads decide dl (a # as) st (Suc n) r"
proof -
  let ?rest = "delivered_of loads (take n as)"
  have del: "delivered_of loads (take (Suc n) (a # as)) = fs @ ?rest" and one: "length fs \<le> 1"
    using st1(1) by (auto split: read_item.splits verdict.splits)
  have run: "run_decide decide (fs @ ?rest) (aw_caller st)
      = (map (\<lambda>_. CONTINUE) fs @ fst (run_decide decide ?rest (aw_caller st1)),
         snd (run_decide decide ?rest (aw_caller st1)))"
    using st1(3) one by (cases fs) (auto split: prod.splits)
  have "map_option (advance_all (fs @ ?rest)) c = map_option (advance_all ?rest) (map_option (advance_all fs) c)" for c
    by (cases c) (simp_all add: advance_all_def)
  then show ?thesis
    using r pass st1(2) unfolding await_trace_def del run
    by (cases n) (auto simp: Let_def butlast_append open_ended_def list_all_iff)
qed


lemma deliver_simps [simp]:
  "aw_cursor (snd (deliver decide ir f st)) = map_option (bookmark_advance f) (aw_cursor st)"
  "aw_caller (snd (deliver decide ir f st)) = snd (decide f (aw_caller st))"
  "fst (deliver decide ir f st) = fst (decide f (aw_caller st))"
  "aw_now (snd (deliver decide ir f st)) = aw_now st"
  "aw_unread (snd (deliver decide ir f st)) = aw_unread st"
  "aw_anchor (snd (deliver decide ir f st)) = (if ir then aw_now st else aw_anchor st)"
  by (simp_all add: deliver_def Let_def)

lemma advance_all_Some: "map_option (advance_all [f]) c = map_option (bookmark_advance f) c"
  by (cases c) simp_all

lemma await_loop_trace:
  "aw_unread st = as \<Longrightarrow> \<exists>n. await_trace loads decide dl as st n (await_loop loads decide dl ir as st)"
proof (induction as arbitrary: st)
  case Nil
  have "await_trace loads decide dl [] st 0 (await_loop loads decide dl ir [] st)"
    using Nil by (cases dl) (auto intro!: await_trace_stop simp: open_ended_def)
  then show ?case ..
next
  case (Cons a as)
  let ?st1 = "st\<lparr>aw_now := max (max (aw_now st) (ar_ready a)) (ar_done a), aw_unread := as\<rparr>"
  let ?out = "case dl of None \<Rightarrow> False
     | Some d \<Rightarrow> d - (aw_now st - aw_anchor st) \<le> 0 \<or> aw_anchor st + d < max (aw_now st) (ar_ready a)"
  let ?r = "await_loop loads decide dl ir (a # as) st"
  show ?case
  proof (cases ?out)
    case True
    then have "await_trace loads decide dl (a # as) st 0 ?r"
      using Cons.prems by (auto intro!: await_trace_stop simp: open_ended_def split: option.splits)
    then show ?thesis ..
  next
    case False
    show ?thesis
    proof (cases "ar_item a")
      case (GotPayload data)
      have r: "?r = (case await_frame loads decide ir data ?st1 of
           (Some e, st2) \<Rightarrow> (e, st2) | (None, st2) \<Rightarrow> await_loop loads decide dl ir as st2)"
        using False GotPayload by (simp add: Let_def)
      show ?thesis
      proof (cases "classify loads data")
        case Drained
        obtain n where "await_trace loads decide dl as ?st1 n ?r"
          using Cons.IH[of ?st1] unfolding r await_frame_classify Drained by auto
        then have "await_trace loads decide dl (a # as) st (Suc n) ?r"
          by (rule await_trace_Cons[where fs = "[]"])
            (use GotPayload Drained in \<open>auto simp: passes_over_def option.map_ident advance_all_def\<close>)
        then show ?thesis ..
      next
        case (Fatal e)
        have "await_trace loads decide dl (a # as) st (Suc 0) ?r"
          unfolding r await_frame_classify Fatal
          by (auto simp: Fatal ends_on_def GotPayload intro!: await_trace_end)
        then show ?thesis ..
      next
        case (Delivered f)
        show ?thesis
        proof (cases "decide f (aw_caller st)")
          case (Pair v s')
          show ?thesis
          proof (cases v)
            case CONTINUE
            let ?st2 = "snd (deliver decide ir f ?st1)"
            obtain n where "await_trace loads decide dl as ?st2 n ?r"
              using Cons.IH[of ?st2] unfolding r await_frame_classify Delivered
              by (auto simp: deliver_def Let_def Pair CONTINUE)
            then have "await_trace loads decide dl (a # as) st (Suc n) ?r"
              by (rule await_trace_Cons[where fs = "[f]"])
                (use GotPayload Delivered Pair CONTINUE in \<open>auto simp: passes_over_def advance_all_Some\<close>)
            then show ?thesis ..
          next
            case MATCHED
            have "?r = (Returned OUTCOME_MATCHED, snd (deliver decide ir f ?st1))"
              unfolding r await_frame_classify Delivered by (simp add: deliver_def Let_def Pair MATCHED)
            then have "await_trace loads decide dl (a # as) st (Suc 0) ?r"
              by (simp add: await_trace_def GotPayload Delivered Pair MATCHED ends_on_def open_ended_def
                  advance_all_Some del: advance_all_simps)
            then show ?thesis ..
          qed
        qed
      qed
    qed (use False in \<open>auto intro!: exI[of _ "Suc 0"] await_trace_end simp: ends_on_def Let_def\<close>)
  qed
qed

lemma await_predicate_trace:
  "\<exists>n. await_trace loads decide dl as
     \<lparr>aw_now = now, aw_anchor = now, aw_cursor = cursor, aw_unread = as, aw_caller = s\<rparr> n
     (await_predicate loads decide dl ir as now cursor s)"
proof -
  let ?st = "\<lparr>aw_now = now, aw_anchor = now, aw_cursor = cursor, aw_unread = as, aw_caller = s\<rparr>"
  let ?r = "await_predicate loads decide dl ir as now cursor s"
  show ?thesis
  proof (cases "case dl of None \<Rightarrow> False | Some d \<Rightarrow> d \<le> 0")
    case True
    then have "await_trace loads decide dl as ?st 0 ?r"
      by (auto simp: await_predicate_def open_ended_def intro!: await_trace_stop split: option.splits)
    then show ?thesis ..
  next
    case False
    then have "?r = await_loop loads decide dl ir as ?st" unfolding await_predicate_def Let_def by simp
    then show ?thesis using await_loop_trace[of ?st as loads decide dl ir] by simp
  qed
qed

text \<open>C8: The engine hands its caller exactly the data frames, in the order of the wire. Some prefix
  of the arrivals is read; heartbeats, acknowledgements and undecodable frames of it are dropped,
  and the caller's state is the callback run over the remaining frames. A call that reports a match
  stopped at the first frame the callback answered \<open>MATCHED\<close>; in every other ending the callback
  answered \<open>CONTINUE\<close> throughout. The bookmark has been advanced by exactly those frames. A call
  that does not run out of time ended on the last arrival it read, and every arrival before it was a
  frame.\<close>

theorem await_delivers_in_order:
  "\<exists>n \<le> length as. \<exists>vs e st.
     await_predicate loads decide dl ir as now cursor s = (e, st)
     \<and> run_decide decide (delivered_of loads (take n as)) s = (vs, aw_caller st)
     \<and> (if e = Returned OUTCOME_MATCHED
        then vs \<noteq> [] \<and> last vs = MATCHED \<and> list_all (\<lambda>v. v = CONTINUE) (butlast vs)
        else list_all (\<lambda>v. v = CONTINUE) vs)
     \<and> aw_cursor st = map_option (advance_all (delivered_of loads (take n as))) cursor \<and> aw_unread st = drop n as
     \<and> (if e = (if dl = None then StillWaiting else Returned OUTCOME_TIMED_OUT)
        then list_all (\<lambda>a. passes_over loads (ar_item a)) (take n as)
        else n > 0 \<and> list_all (\<lambda>a. passes_over loads (ar_item a)) (take (n - 1) as)
             \<and> ends_on loads e (ar_item (as ! (n - 1))))"
proof -
  obtain n where n: "await_trace loads decide dl as
     \<lparr>aw_now = now, aw_anchor = now, aw_cursor = cursor, aw_unread = as, aw_caller = s\<rparr> n
     (await_predicate loads decide dl ir as now cursor s)" using await_predicate_trace ..
  obtain e st where r: "await_predicate loads decide dl ir as now cursor s = (e, st)" by fastforce
  show ?thesis
    using n unfolding await_trace_def r open_ended_def Let_def
    by (intro exI[of _ n]) (simp add: prod_eq_iff cong: if_cong split del: if_split)
qed

section \<open>The deadline\<close>

lemma await_frame_now [simp]: "aw_now (snd (await_frame loads decide ir data st)) = aw_now st"
  by (auto simp: await_frame_classify split: verdict.split prod.splits frame_decision.splits)
    (metis deliver_simps(4) snd_conv)+

lemma await_frame_anchor: "aw_anchor (snd (await_frame loads decide False data st)) = aw_anchor st"
  by (auto simp: await_frame_classify split: verdict.split prod.splits frame_decision.splits)
    (metis deliver_simps(6) snd_conv)+

lemma await_frame_verdict: "fst (await_frame loads decide ir data st) \<noteq> Some StillWaiting"
  by (auto simp: await_frame_classify split: verdict.split prod.splits frame_decision.splits)

definition overrun_by :: "arrival list \<Rightarrow> rat \<Rightarrow> rat \<Rightarrow> bool" where
  "overrun_by as cutoff t \<longleftrightarrow> (\<exists>a\<in>set as. ar_ready a \<le> cutoff \<and> cutoff < ar_done a \<and> t = ar_done a)"

lemma await_loop_deadline:
  assumes "aw_now st \<le> aw_anchor st + d \<or> overrun_by pre (aw_anchor st + d) (aw_now st)"
    and "set pre \<union> set as \<subseteq> set all"
  shows "fst (await_loop loads decide (Some d) False as st) \<noteq> StillWaiting
       \<and> (aw_now (snd (await_loop loads decide (Some d) False as st)) \<le> aw_anchor st + d
          \<or> overrun_by all (aw_anchor st + d) (aw_now (snd (await_loop loads decide (Some d) False as st))))"
  using assms
proof (induction as arbitrary: st pre)
  case Nil
  then show ?case by (auto simp: overrun_by_def max_def)
next
  case (Cons a as)
  let ?st1 = "st\<lparr>aw_now := max (max (aw_now st) (ar_ready a)) (ar_done a), aw_unread := as\<rparr>"
  show ?case
  proof (cases "d - (aw_now st - aw_anchor st) \<le> 0 \<or> aw_anchor st + d < max (aw_now st) (ar_ready a)")
    case True
    then show ?thesis using Cons.prems by (auto simp: overrun_by_def max_def)
  next
    case False
    have over: "aw_now ?st1 \<le> aw_anchor ?st1 + d \<or> overrun_by all (aw_anchor ?st1 + d) (aw_now ?st1)"
    proof (cases "aw_anchor st + d < ar_done a")
      case True
      then have "aw_now ?st1 = ar_done a" using False by (simp add: max_def)
      then show ?thesis using True False Cons.prems(2) by (auto simp: overrun_by_def intro!: bexI[of _ a])
    qed (use False in \<open>simp add: not_less\<close>)
    show ?thesis
    proof (cases "ar_item a")
      case (GotPayload data)
      let ?p = "await_frame loads decide False data ?st1"
      have r: "await_loop loads decide (Some d) False (a # as) st
          = (case fst ?p of Some e \<Rightarrow> (e, snd ?p) | None \<Rightarrow> await_loop loads decide (Some d) False as (snd ?p))"
        using False GotPayload by (auto simp: Let_def split: prod.splits option.splits)
      have now: "aw_now (snd ?p) = aw_now ?st1" "aw_anchor (snd ?p) = aw_anchor ?st1"
        by (simp_all add: await_frame_anchor)
      show ?thesis
      proof (cases "fst ?p")
        case None
        then show ?thesis
          using Cons.IH[of "snd ?p" all] over Cons.prems(2) unfolding r now by simp
      next
        case (Some e)
        then show ?thesis using await_frame_verdict[of loads decide False data ?st1] over now unfolding r by auto
      qed
    qed (use False over in \<open>auto simp: Let_def\<close>)
  qed
qed


text \<open>The budget does not bound a call whose peer stalls inside a frame: once the first byte is
  readable the blocking read waits for the rest. For every budget and every delay there is an arrival
  that keeps the call past its cutoff by that delay.\<close>

theorem stalled_frame_overruns_deadline:
  assumes "d > 0" "k \<ge> 0"
  shows "\<exists>a. ar_ready a = now
           \<and> aw_now (snd (await_predicate loads decide (Some d) False [a] now cursor s)) = now + d + k"
  by (rule exI[of _ "\<lparr>ar_ready = now, ar_done = now + d + k, ar_item = GotEof\<rparr>"])
    (use assms in \<open>simp add: await_predicate_def Let_def\<close>)


definition sample_arrivals :: "arrival list" where
  "sample_arrivals = [\<lparr>ar_ready = 2, ar_done = 2, ar_item = GotPayload [1]\<rparr>,
                      \<lparr>ar_ready = 4, ar_done = 9, ar_item = GotPayload [2]\<rparr>]"

definition sample_frames :: "bytes \<Rightarrow> json option" where
  "sample_frames b = map_of [([1], JObj [(''kind'', JStr ''daemon_heartbeat'')]),
     ([2], JObj [(''kind'', JStr ''event''), (''event_id'', JStr ''E1'')])] b"

lemma sample_engine_run:
  "await_predicate sample_frames always_continue (Some 5) False sample_arrivals 0 None ()
     = (Returned OUTCOME_TIMED_OUT, \<lparr>aw_now = 9, aw_anchor = 0, aw_cursor = None, aw_unread = [], aw_caller = ()\<rparr>)"
  by (simp add: await_predicate_def sample_arrivals_def await_frame_def sample_frames_def dict_get_def
      drainable_kinds always_continue_def Let_def)


theorem stalled_frame_overruns_deadline_witness:
  "\<exists>a. ar_ready a = 0 \<and> aw_now (snd (await_predicate sample_frames always_continue (Some 5) False [a] 0 None ())) = 3605"
  using stalled_frame_overruns_deadline[of 5 3600 0] by simp

section \<open>Bookmarks across sessions\<close>

definition frame_cursor :: "dict \<Rightarrow> string option" where
  "frame_cursor f =
     (if dict_get f ''kind'' = JStr ''daemon_heartbeat'' then None
      else (case dict_get f ''event_id'' of JStr e \<Rightarrow> if e = [] then None else Some e | _ \<Rightarrow> None))"

lemma bookmark_advance_cursor:
  "bookmark_advance f b = (case frame_cursor f of None \<Rightarrow> b | Some e \<Rightarrow> b\<lparr>bk_file := Some e, bk_last := Some e\<rparr>)"
  by (auto simp: bookmark_advance_def frame_cursor_def split: json.split)

lemma advance_all_last:
  "advance_all fs b =
     (case List.map_filter frame_cursor fs of [] \<Rightarrow> b
      | cs \<Rightarrow> b\<lparr>bk_file := Some (last cs), bk_last := Some (last cs)\<rparr>)"
proof (induction fs arbitrary: b)
  case (Cons f fs)
  then show ?case
    by (cases "frame_cursor f"; cases "List.map_filter frame_cursor fs")
      (simp_all add: bookmark_advance_cursor map_filter_simps)
qed (simp add: map_filter_simps)

text \<open>A bookmark carries the last event-bearing frame of one session into the next. A session
  that opened the name \<open>n\<close> and advanced over frames, of which some bear an identifier, leaves a file
  from which the next session resumes after exactly the last of them; without any such frame it resumes where
  the earlier session did. An explicit \<open>since\<close> wins over the file.\<close>

theorem bookmark_resume_roundtrip:
  assumes "resolve_since None (Some n) files = Inr (c0, Some b)"
    and "\<forall>e\<in>set (List.map_filter frame_cursor fs). strip e = e"
  shows "(\<exists>b'. resolve_since None (Some n) (files(n := bk_file (advance_all fs b)))
            = Inr (if List.map_filter frame_cursor fs = [] then c0
                   else Some (last (List.map_filter frame_cursor fs)), Some b'))
       \<and> bookmark_current (advance_all fs b)
           = (if List.map_filter frame_cursor fs = [] then c0 else Some (last (List.map_filter frame_cursor fs)))
       \<and> resolve_since (Some x) (Some n) (files(n := bk_file (advance_all fs b))) = Inr (Some x, None)"
proof -
  let ?cs = "List.map_filter frame_cursor fs"
  have valid: "validate_name n = Inr ()" and b: "bookmark_load \<lparr>bk_name = n, bk_file = files n, bk_last = None\<rparr> = (c0, b)"
    using assms(1) by (auto simp: resolve_since_def new_bookmark_def split: prod.splits)
  have load: "bk_file b = files n" "bk_last b = c0"
    using b by (auto simp: bookmark_load_def Let_def)
  have "e \<noteq> []" if "e \<in> set ?cs" for e
    using that by (auto simp: map_filter_def frame_cursor_def split: if_splits json.splits)
  then have last: "?cs \<noteq> [] \<Longrightarrow> last ?cs \<noteq> [] \<and> strip (last ?cs) = last ?cs"
    using assms(2) by simp
  show ?thesis
  proof (cases "?cs = []")
    case True
    then have "advance_all fs b = b" by (simp add: advance_all_last)
    then show ?thesis
      using True b load valid by (simp add: resolve_since_def new_bookmark_def bookmark_current_def)
  next
    case False
    then have "advance_all fs b = b\<lparr>bk_file := Some (last ?cs), bk_last := Some (last ?cs)\<rparr>"
      by (auto simp: advance_all_last split: list.split)
    then show ?thesis
      using False last valid
      by (simp add: resolve_since_def new_bookmark_def bookmark_current_def bookmark_load_def Let_def)
  qed
qed

theorem bookmark_resume_roundtrip_witness:
  "\<exists>b'. resolve_since None (Some ''ci'')
       ((\<lambda>_. None)(''ci'' := bk_file (advance_all [[(''kind'', JStr ''event''), (''event_id'', JStr ''E7'')],
                                               [(''kind'', JStr ''daemon_heartbeat'')]]
          \<lparr>bk_name = ''ci'', bk_file = None, bk_last = None\<rparr>)))
     = Inr (Some ''E7'', Some b')"
proof -
  have "resolve_since None (Some ''ci'') (\<lambda>_. None) = Inr (None, Some \<lparr>bk_name = ''ci'', bk_file = None, bk_last = None\<rparr>)"
    by (simp add: resolve_since_def new_bookmark_def validate_name_def BOOKMARK_ID_RE_def dollar_match_def
        bookmark_name_body_def is_ascii_lower_def chr_in_def bookmark_load_def)
  from bookmark_resume_roundtrip[OF this, of "[[(''kind'', JStr ''event''), (''event_id'', JStr ''E7'')],
                                               [(''kind'', JStr ''daemon_heartbeat'')]]"]
  show ?thesis
    by (simp add: map_filter_simps frame_cursor_def dict_get_def strip_id is_space_def chr_in_def)
qed

end
