(* ===== verification/WB_Session.thy ===== *)
theory WB_Session
  imports WB_Broadcast WB_SubProps
begin

text \<open>
  Client and daemon together: the subscribe envelope of \<open>_broadcast_sub.open_subscriber\<close> as the
  daemon of \<open>broadcast.py\<close> reads it off the socket and validates it.
\<close>

lemma read_frame_sock_encoded:
  assumes "live_segs s" "encode_frame p = Inr w" "p \<noteq> []" "concat s = w"
  shows "fst (read_frame_sock s) = Inr (Some p)"
proof -
  have "read_frame_sock s = sync_read_frame s"
    by (simp only: read_frame_sock_def sync_read_frame_def sock_recv_exactly_def[abs_def] read_exactly_def[abs_def])
  then show ?thesis using sync_read_frame_encoded[of s p w "[]"] assms by auto
qed

lemma envelope_get:
  "dict_get (subscribe_envelope fs ts since) ''proto'' = JInt FRAME_PROTO_VERSION"
  "dict_get (subscribe_envelope fs ts since) ''filters'' = (case fs of None \<Rightarrow> JNull | Some x \<Rightarrow> JArr (map JStr x))"
  "dict_get (subscribe_envelope fs ts since) ''event_types'' = (case ts of None \<Rightarrow> JNull | Some x \<Rightarrow> JArr (map JStr x))"
  "dict_get (subscribe_envelope fs ts since) ''since'' = (case since of None \<Rightarrow> JNull | Some x \<Rightarrow> JStr x)"
  "dict_get (subscribe_envelope fs ts since) ''envelope'' = JNull"
  by (simp_all add: dict_get_def subscribe_envelope_def split: option.splits)

definition filters_ok :: "string list option \<Rightarrow> bool" where
  "filters_ok fs \<longleftrightarrow> (case fs of None \<Rightarrow> True
     | Some x \<Rightarrow> length x \<le> MAX_FILTERS_PER_SUBSCRIBER \<and> list_all FILTER_RE x)"

definition types_ok :: "string list \<Rightarrow> string list option \<Rightarrow> bool" where
  "types_ok supported ts \<longleftrightarrow> (case ts of None \<Rightarrow> True | Some x \<Rightarrow> \<exists>t\<in>set x. t \<in> set supported)"

definition since_ok :: "string option \<Rightarrow> bool" where
  "since_ok since \<longleftrightarrow> (case since of None \<Rightarrow> True | Some s \<Rightarrow> ULID_RE s)"

lemma check_filters_strings:
  "res_map_list check_filter (map JStr x) = Inr out \<longleftrightarrow> list_all FILTER_RE x \<and> out = x"
  by (induction x arbitrary: out) auto

lemma set_accepted_types: "set (accepted_types supported (map JStr x)) = set x \<inter> set supported"
  by (induction x) auto

lemma validate_filters_envelope:
  "validate_subscribe_filters (case fs of None \<Rightarrow> JNull | Some x \<Rightarrow> JArr (map JStr x)) = Inr out
     \<longleftrightarrow> filters_ok fs \<and> out = (case fs of None \<Rightarrow> [''*''] | Some [] \<Rightarrow> [''*''] | Some x \<Rightarrow> x)"
  by (cases fs) (auto simp: filters_ok_def check_filters_strings split: list.splits)

lemma validate_types_envelope:
  "validate_subscribe_event_types supported (case ts of None \<Rightarrow> JNull | Some x \<Rightarrow> JArr (map JStr x)) = Inr out
     \<longleftrightarrow> types_ok supported ts \<and> out = (case ts of None \<Rightarrow> supported | Some x \<Rightarrow> accepted_types supported (map JStr x))"
proof (cases ts)
  case (Some x)
  have "accepted_types supported (map JStr x) = [] \<longleftrightarrow> set x \<inter> set supported = {}"
    by (metis set_accepted_types set_empty)
  then show ?thesis using Some by (auto simp: types_ok_def Let_def)
qed (auto simp: types_ok_def)

lemma validate_since_envelope:
  "validate_since_cursor (case since of None \<Rightarrow> JNull | Some x \<Rightarrow> JStr x) = Inr out
     \<longleftrightarrow> since_ok since \<and> out = since"
  by (cases since) (auto simp: since_ok_def)

lemma validate_envelope:
  "validate_subscribe cf (subscribe_envelope fs ts since) = Inr (f, t, s) \<longleftrightarrow>
     filters_ok fs \<and> types_ok (cf_event_types cf) ts \<and> since_ok since
     \<and> f = (case fs of None \<Rightarrow> [''*''] | Some [] \<Rightarrow> [''*''] | Some x \<Rightarrow> x)
     \<and> t = (case ts of None \<Rightarrow> cf_event_types cf | Some x \<Rightarrow> accepted_types (cf_event_types cf) (map JStr x))
     \<and> s = since"
proof -
  have "validate_subscribe cf (subscribe_envelope fs ts since) = Inr (f, t, s) \<longleftrightarrow>
      validate_subscribe_filters (case fs of None \<Rightarrow> JNull | Some x \<Rightarrow> JArr (map JStr x)) = Inr f
      \<and> validate_subscribe_event_types (cf_event_types cf) (case ts of None \<Rightarrow> JNull | Some x \<Rightarrow> JArr (map JStr x)) = Inr t
      \<and> validate_since_cursor (case since of None \<Rightarrow> JNull | Some x \<Rightarrow> JStr x) = Inr s"
    unfolding validate_subscribe_def envelope_get by (auto simp: proto_supported_def split: sum.splits)
  then show ?thesis
    unfolding validate_filters_envelope validate_types_envelope validate_since_envelope by blast
qed

text \<open>C13: The daemon reads what the client subscribed to. Whatever way the stream is cut, the daemon's
  reader gets the client's envelope back, with the cursor \<open>resolve_since\<close> chose; the daemon accepts
  it exactly when the filters are at most 64 admissible patterns, some requested event type is
  supported and the cursor is an identifier, and then the accepted types are the requested ones that
  are supported, an absent or empty filter list means every repository and absent types every type.\<close>

theorem subscribe_wire_agreement:
  assumes "resolve_since since bm files = Inr (eff, h)"
    and "loads (dumps (JObj (subscribe_envelope fs ts eff))) = Some (JObj (subscribe_envelope fs ts eff))"
    and "dumps (JObj (subscribe_envelope fs ts eff)) \<noteq> []"
    and "open_subscriber dumps files fs ts since bm Connected = Inr w"
    and "live_segs s" "concat s = w"
  shows "\<exists>msg. recv_subscribe_frame loads False s = Some msg
       \<and> (case validate_subscribe cf msg of
            Inl _ \<Rightarrow> \<not> (filters_ok fs \<and> types_ok (cf_event_types cf) ts \<and> since_ok eff)
          | Inr (f, t, c) \<Rightarrow>
              filters_ok fs \<and> types_ok (cf_event_types cf) ts \<and> since_ok eff
              \<and> f = (case fs of None \<Rightarrow> [''*''] | Some [] \<Rightarrow> [''*''] | Some x \<Rightarrow> x)
              \<and> set t = (case ts of None \<Rightarrow> set (cf_event_types cf) | Some x \<Rightarrow> set x \<inter> set (cf_event_types cf))
              \<and> c = eff)"
proof -
  have enc: "encode_frame (dumps (JObj (subscribe_envelope fs ts eff))) = Inr w"
    using assms(1,4) by (auto simp: open_subscriber_def split: sum.splits prod.splits)
  have "recv_subscribe_frame loads False s = Some (subscribe_envelope fs ts eff)"
    using read_frame_sock_encoded[OF assms(5) enc assms(3,6)] by (simp add: recv_subscribe_frame_def assms(2))
  moreover have "case validate_subscribe cf (subscribe_envelope fs ts eff) of
        Inl _ \<Rightarrow> \<not> (filters_ok fs \<and> types_ok (cf_event_types cf) ts \<and> since_ok eff)
      | Inr (f, t, c) \<Rightarrow>
          filters_ok fs \<and> types_ok (cf_event_types cf) ts \<and> since_ok eff
          \<and> f = (case fs of None \<Rightarrow> [''*''] | Some [] \<Rightarrow> [''*''] | Some x \<Rightarrow> x)
          \<and> set t = (case ts of None \<Rightarrow> set (cf_event_types cf) | Some x \<Rightarrow> set x \<inter> set (cf_event_types cf))
          \<and> c = eff"
  proof (cases "validate_subscribe cf (subscribe_envelope fs ts eff)")
    case (Inl e)
    then have "validate_subscribe cf (subscribe_envelope fs ts eff) \<noteq> Inr (f, t, c)" for f t c by simp
    then have "\<not> (filters_ok fs \<and> types_ok (cf_event_types cf) ts \<and> since_ok eff)"
      unfolding validate_envelope by blast
    then show ?thesis unfolding Inl by simp
  next
    case (Inr r)
    obtain f t c where "r = (f, t, c)" by (cases r) auto
    then have "validate_subscribe cf (subscribe_envelope fs ts eff) = Inr (f, t, c)" using Inr by simp
    then show ?thesis using \<open>r = _\<close> Inr unfolding validate_envelope
      by (auto simp: set_accepted_types split: option.split)
  qed
  ultimately show ?thesis by blast
qed

theorem subscribe_wire_agreement_witness:
  "\<exists>msg. recv_subscribe_frame (\<lambda>_. Some (JObj (subscribe_envelope None (Some [''fs_change'']) None))) False [[0, 0, 0], [1, 7]]
       = Some msg
     \<and> (\<exists>t. validate_subscribe \<lparr>cf_enc = (\<lambda>_. []), cf_format_text = (\<lambda>_. None), cf_heartbeat_sec = 30,
             cf_event_types = [''fs_change'', ''message''], cf_uid = 0\<rparr> msg = Inr ([''*''], t, None)
          \<and> set t = {''fs_change''})"
proof -
  let ?cf = "\<lparr>cf_enc = (\<lambda>_. []), cf_format_text = (\<lambda>_. None), cf_heartbeat_sec = 30,
    cf_event_types = [''fs_change'', ''message''], cf_uid = 0\<rparr>"
  let ?env = "JObj (subscribe_envelope None (Some [''fs_change'']) None)"
  have w: "open_subscriber (\<lambda>_. [7]) (\<lambda>_. None) None (Some [''fs_change'']) None None Connected = Inr [0, 0, 0, 1, 7]"
    by (simp add: open_subscriber_def resolve_since_def encode_frame_def MAX_FRAME_BYTES_def pack_be32_def)
  have "\<exists>msg. recv_subscribe_frame (\<lambda>_. Some ?env) False [[0, 0, 0], [1, 7]] = Some msg
    \<and> (case validate_subscribe ?cf msg of
        Inl _ \<Rightarrow> \<not> (filters_ok None \<and> types_ok (cf_event_types ?cf) (Some [''fs_change'']) \<and> since_ok None)
      | Inr (f, t, c) \<Rightarrow>
          filters_ok None \<and> types_ok (cf_event_types ?cf) (Some [''fs_change'']) \<and> since_ok None
          \<and> f = (case None of None \<Rightarrow> [''*''] | Some [] \<Rightarrow> [''*''] | Some x \<Rightarrow> x)
          \<and> set t = (case Some [''fs_change''] of None \<Rightarrow> set (cf_event_types ?cf) | Some x \<Rightarrow> set x \<inter> set (cf_event_types ?cf))
          \<and> c = None)"
    by (rule subscribe_wire_agreement[of None None "\<lambda>_. None" None None _ "\<lambda>_. [7]", OF _ _ _ w])
      (simp_all add: resolve_since_def)
  moreover have "filters_ok None" "types_ok (cf_event_types ?cf) (Some [''fs_change''])" "since_ok None"
    by (simp_all add: filters_ok_def types_ok_def since_ok_def)
  ultimately show ?thesis by (fastforce split: sum.splits)
qed

end
