(* ===== verification/WB_Coalesce.thy ===== *)
theory WB_Coalesce
  imports WB_SubProps "HOL-Library.AList"
begin

text \<open>
  The terminal-state classifier of \<open>waitbus/_terminal.py\<close> and the coalesced replay of
  \<open>waitbus/coalesce.py\<close>. The snapshot is a Python dict, an association list in insertion order
  updated in place by \<open>AList.update\<close>; a frozenset is a list. The callbacks passed to the
  read engine may raise: a raised exception is the caller state \<open>Inl e\<close>, after which the engine
  stops at once. What \<open>coalesce_replay\<close> does to the outside is the list of its effects, in order.
\<close>

section \<open>Terminal states and entity keys\<close>

definition SUCCESS_CONCLUSION :: string where "SUCCESS_CONCLUSION = ''success''"

definition FAILURE_CONCLUSIONS :: "string list" where
  "FAILURE_CONCLUSIONS = [''failure'', ''cancelled'', ''timed_out'']"

definition NON_TERMINAL_CONCLUSIONS :: "string list" where
  "NON_TERMINAL_CONCLUSIONS = [''skipped'', ''neutral'', ''action_required'', ''stale'']"

type_synonym entity = "string list"

definition positive_id :: "json \<Rightarrow> string option" where
  "positive_id j = (case j of JInt i \<Rightarrow> if i > 0 then Some (nat_str (nat i)) else None | _ \<Rightarrow> None)"

definition entity_key :: "dict \<Rightarrow> entity option" where
  "entity_key frame =
     (case dict_get frame ''fields'' of
        JObj fs \<Rightarrow>
          (let source = dict_get fs ''source''; event_type = dict_get frame ''event_type'' in
           if source = JStr ''github'' then
             (if event_type = JStr ''workflow_job'' then
                (case positive_id (dict_get fs ''job_id'') of
                   Some i \<Rightarrow> Some [''github'', ''job'', i] | None \<Rightarrow> None)
              else if event_type = JStr ''workflow_run'' then
                (case positive_id (dict_get fs ''run_id'') of
                   Some i \<Rightarrow> Some [''github'', ''run'', i] | None \<Rightarrow> None)
              else None)
           else if source = JStr ''alertmanager'' then
             (case dict_get fs ''alert_fingerprint'' of
                JStr fp \<Rightarrow> if fp = [] then None else Some [''alertmanager'', ''alert'', fp]
              | _ \<Rightarrow> None)
           else None)
      | _ \<Rightarrow> None)"

text \<open>\<open>conclusion in FAILURE_CONCLUSIONS\<close> raises for a list or an object.\<close>

datatype terminal_error = UnhashableConclusion

definition is_terminal :: "dict \<Rightarrow> terminal_error + bool" where
  "is_terminal frame =
     (case dict_get frame ''fields'' of
        JObj fs \<Rightarrow>
          (let source = dict_get fs ''source'' in
           if source = JStr ''github'' then
             (let conclusion = dict_get fs ''conclusion'' in
              if \<not> truthy conclusion then Inr False
              else if conclusion = JStr SUCCESS_CONCLUSION then Inr True
              else (case conclusion of
                      JArr _ \<Rightarrow> Inl UnhashableConclusion
                    | JObj _ \<Rightarrow> Inl UnhashableConclusion
                    | _ \<Rightarrow> Inr (conclusion \<in> JStr ` set FAILURE_CONCLUSIONS)))
           else if source = JStr ''alertmanager'' then
             Inr (dict_get frame ''event_type'' = JStr ''prometheus_alert''
                  \<and> dict_get fs ''status'' = JStr ''resolved'')
           else Inr False)
      | _ \<Rightarrow> Inr False)"

section \<open>Coalesced replay\<close>

datatype coalesce_error = BadEventId json

definition event_id :: "dict \<Rightarrow> coalesce_error + string" where
  "event_id frame =
     (case dict_get frame ''event_id'' of
        JStr eid \<Rightarrow> if eid = [] then Inl (BadEventId (JStr [])) else Inr eid
      | j \<Rightarrow> Inl (BadEventId j))"

type_synonym co_state = "coalesce_error + (entity \<times> dict) list \<times> dict list"

definition accumulate :: "dict \<Rightarrow> co_state \<Rightarrow> frame_decision \<times> co_state" where
  "accumulate frame st =
     (case st of
        Inl e \<Rightarrow> (MATCHED, Inl e)
      | Inr (snapshot, passthrough) \<Rightarrow>
          (case entity_key frame of
             None \<Rightarrow> (CONTINUE, Inr (snapshot, passthrough @ [frame]))
           | Some key \<Rightarrow>
               (case map_of snapshot key of
                  None \<Rightarrow> (CONTINUE, Inr (AList.update key frame snapshot, passthrough))
                | Some prev \<Rightarrow>
                    (case res_bind (event_id frame) (\<lambda>a. res_bind (event_id prev) (\<lambda>b. Inr (b < a))) of
                       Inl e \<Rightarrow> (MATCHED, Inl e)
                     | Inr newer \<Rightarrow>
                         (CONTINUE, Inr (if newer then AList.update key frame snapshot else snapshot, passthrough))))))"

datatype co_effect = Emit dict | Advance dict

text \<open>The flush loop, and the bookmark after a run of effects.\<close>

definition flush_merged :: "dict list \<Rightarrow> bool \<Rightarrow> co_effect list" where
  "flush_merged merged has_cursor = concat (map (\<lambda>f. if has_cursor then [Emit f, Advance f] else [Emit f]) merged)"

definition run_effects :: "co_effect list \<Rightarrow> bookmark option \<Rightarrow> bookmark option" where
  "run_effects = fold (\<lambda>eff c. case eff of Emit _ \<Rightarrow> c | Advance f \<Rightarrow> map_option (bookmark_advance f) c)"

definition merge_sorted :: "(entity \<times> dict) list \<Rightarrow> dict list \<Rightarrow> coalesce_error + dict list" where
  "merge_sorted snapshot passthrough =
     (let frames = map snd snapshot @ passthrough in
      res_bind (res_map_list event_id frames)
        (\<lambda>ids. Inr (map snd (sort_key fst (zip ids frames)))))"

datatype coalesce_end = CoalesceReturns await_end | CoalesceRaises coalesce_error

text \<open>The whole call. Returned: how it ends, what it emitted and advanced, the bookmark.
  \<open>as\<close> is what arrives on the socket; the tail reads on from where the replay phase stopped.\<close>

definition coalesce_replay ::
    "(bytes \<Rightarrow> json option) \<Rightarrow> rat \<Rightarrow> bool \<Rightarrow> arrival list \<Rightarrow> rat \<Rightarrow> bookmark option
       \<Rightarrow> coalesce_end \<times> co_effect list \<times> bookmark option" where
  "coalesce_replay loads idle_seconds live_tail as now cursor =
     (case await_predicate loads accumulate (Some idle_seconds) True as now None (Inr ([], [])) of
        (e, st) \<Rightarrow>
          (case aw_caller st of
             Inl err \<Rightarrow> (CoalesceRaises err, [], cursor)
           | Inr (snapshot, passthrough) \<Rightarrow>
               (case e of
                  Returned replay_phase \<Rightarrow>
                    (if wo_cancelled replay_phase then (CoalesceReturns e, [], cursor)
                     else (case merge_sorted snapshot passthrough of
                             Inl err \<Rightarrow> (CoalesceRaises err, [], cursor)
                           | Inr merged \<Rightarrow>
                               (let effs = flush_merged merged (cursor \<noteq> None); c1 = run_effects effs cursor in
                                if wo_peer_closed replay_phase \<or> \<not> live_tail then (CoalesceReturns e, effs, c1)
                                else (case await_predicate loads (emit_predicate None) None False (aw_unread st)
                                             (aw_now st) c1 ([], 0) of
                                        (e2, st2) \<Rightarrow>
                                          (CoalesceReturns e2, effs @ map Emit (fst (aw_caller st2)), aw_cursor st2)))))
                | _ \<Rightarrow> (CoalesceReturns e, [], cursor))))"

section \<open>What the snapshot holds\<close>

definition eid :: "dict \<Rightarrow> string" where
  "eid f = (case event_id f of Inr e \<Rightarrow> e | Inl _ \<Rightarrow> [])"

definition has_eid :: "dict \<Rightarrow> bool" where
  "has_eid f \<longleftrightarrow> res_ok (event_id f)"

text \<open>The newest of a non-empty list of frames: the first of those with the greatest identifier.\<close>

definition newest :: "dict list \<Rightarrow> dict" where
  "newest gs = foldl (\<lambda>b g. if eid b < eid g then g else b) (hd gs) (tl gs)"

lemma newest_single [simp]: "newest [g] = g"
  by (simp add: newest_def)

lemma newest_snoc: "gs \<noteq> [] \<Longrightarrow> newest (gs @ [g]) = (if eid (newest gs) < eid g then g else newest gs)"
  by (cases gs) (simp_all add: newest_def)

lemma newest_spec: "gs \<noteq> [] \<Longrightarrow> newest gs \<in> set gs \<and> (\<forall>g\<in>set gs. eid g \<le> eid (newest gs))"
proof (induction gs rule: rev_induct)
  case (snoc g gs)
  show ?case
  proof (cases "gs = []")
    case False
    with snoc.IH show ?thesis by (auto simp: newest_snoc)
  qed simp
qed simp

definition keyed :: "entity \<Rightarrow> dict list \<Rightarrow> dict list" where
  "keyed k fs = filter (\<lambda>f. entity_key f = Some k) fs"

definition co_inv :: "dict list \<Rightarrow> (entity \<times> dict) list \<times> dict list \<Rightarrow> bool" where
  "co_inv fs s \<longleftrightarrow>
     distinct (map fst (fst s))
     \<and> (\<forall>k. map_of (fst s) k = (if keyed k fs = [] then None else Some (newest (keyed k fs))))
     \<and> snd s = filter (\<lambda>f. entity_key f = None) fs
     \<and> (\<forall>k. length (keyed k fs) \<ge> 2 \<longrightarrow> list_all has_eid (keyed k fs))"

lemma co_inv_empty: "co_inv [] ([], [])"
  by (simp add: co_inv_def keyed_def)

lemma co_inv_newest_has_eid:
  assumes "co_inv fs s" "map_of (fst s) k = Some v" "has_eid v"
  shows "list_all has_eid (keyed k fs)"
proof (cases "length (keyed k fs) \<ge> 2")
  case True
  then show ?thesis using assms(1) by (auto simp: co_inv_def)
next
  case False
  have "keyed k fs \<noteq> []" "v = newest (keyed k fs)"
    using assms(1,2) by (auto simp: co_inv_def split: if_splits)
  then show ?thesis using False assms(3) by (cases "keyed k fs"; cases "tl (keyed k fs)") auto
qed

lemma compare_ids:
  "res_bind (event_id f) (\<lambda>a. res_bind (event_id g) (\<lambda>b. Inr (b < a))) =
     (if has_eid f \<and> has_eid g then Inr (eid g < eid f)
      else res_bind (event_id f) (\<lambda>a. res_bind (event_id g) (\<lambda>b. Inr (b < a))))"
  by (cases "event_id f"; cases "event_id g") (simp_all add: has_eid_def eid_def)

lemma compare_ids_Inl:
  "res_bind (event_id f) (\<lambda>a. res_bind (event_id g) (\<lambda>b. Inr (b < a))) = Inl e \<Longrightarrow> \<not> has_eid f \<or> \<not> has_eid g"
  by (cases "event_id f"; cases "event_id g") (simp_all add: has_eid_def)

lemma compare_ids_Inr:
  "res_bind (event_id f) (\<lambda>a. res_bind (event_id g) (\<lambda>b. Inr (b < a))) = Inr x \<Longrightarrow>
     has_eid f \<and> has_eid g \<and> x = (eid g < eid f)"
  by (cases "event_id f"; cases "event_id g") (simp_all add: has_eid_def eid_def)

lemma co_inv_step:
  assumes inv: "co_inv fs (sn, pa)" and k: "entity_key f = Some k"
    and sn': "map_of sn' = (map_of sn)(k \<mapsto> newest (keyed k fs @ [f]))" "distinct (map fst sn')"
    and ids: "keyed k fs \<noteq> [] \<Longrightarrow> list_all has_eid (keyed k fs @ [f])"
  shows "co_inv (fs @ [f]) (sn', pa)"
proof -
  have key: "keyed k' (fs @ [f]) = (if k' = k then keyed k fs @ [f] else keyed k' fs)" for k'
    using k by (simp add: keyed_def)
  show ?thesis
    unfolding co_inv_def fst_conv snd_conv
  proof (intro conjI allI impI)
    fix k' assume "2 \<le> length (keyed k' (fs @ [f]))"
    then show "list_all has_eid (keyed k' (fs @ [f]))"
      using ids inv by (cases "k' = k"; cases "keyed k fs = []") (simp_all add: key co_inv_def)
  qed (use inv k sn' in \<open>simp_all add: key co_inv_def\<close>)
qed

lemma accumulate_inv:
  assumes inv: "co_inv fs s" and acc: "accumulate f (Inr s) = (v, r)"
  shows "case r of Inr s' \<Rightarrow> co_inv (fs @ [f]) s' | Inl e \<Rightarrow> \<not> list_all has_eid (fs @ [f])"
proof -
  obtain sn pa where s: "s = (sn, pa)" by fastforce
  note inv' = inv[unfolded s co_inv_def, simplified]
  have key_none: "entity_key f \<noteq> Some k \<Longrightarrow> keyed k (fs @ [f]) = keyed k fs" for k by (simp add: keyed_def)
  show ?thesis
  proof (cases "entity_key f")
    case None
    then have "r = Inr (sn, pa @ [f])" using acc s by (simp add: accumulate_def)
    then show ?thesis using inv' None by (simp add: co_inv_def key_none)
  next
    case (Some k)
    show ?thesis
    proof (cases "map_of sn k")
      case none: None
      then have "keyed k fs = []" using inv' by (simp split: if_splits)
      moreover have "r = Inr (AList.update k f sn, pa)" using acc s Some none by (simp add: accumulate_def)
      moreover have "map_of (AList.update k f sn) = (map_of sn)(k \<mapsto> newest (keyed k fs @ [f]))"
        using \<open>keyed k fs = []\<close> by (simp add: update_conv')
      ultimately show ?thesis
        using co_inv_step[OF inv[unfolded s] Some] inv' by (simp add: distinct_update)
    next
      case prev: (Some g)
      then have g: "g = newest (keyed k fs)" "keyed k fs \<noteq> []" using inv' by (auto split: if_splits)
      let ?c = "res_bind (event_id f) (\<lambda>a. res_bind (event_id g) (\<lambda>b. Inr (b < a)))"
      show ?thesis
      proof (cases ?c)
        case (Inl e)
        then have "r = Inl e" using acc s Some prev by (simp add: accumulate_def)
        moreover have "g \<in> set fs" using newest_spec[OF g(2)] g(1) by (auto simp: keyed_def)
        ultimately show ?thesis using compare_ids_Inl[OF Inl] by (auto simp: list_all_iff)
      next
        case (Inr newer)
        note ids = compare_ids_Inr[OF Inr]
        have r: "r = Inr (if newer then AList.update k f sn else sn, pa)"
          using acc s Some prev Inr by (simp add: accumulate_def)
        have "list_all has_eid (keyed k fs @ [f])"
          using co_inv_newest_has_eid[OF inv, of k g] prev s ids by simp
        moreover have "newest (keyed k fs @ [f]) = (if newer then f else g)"
          using ids newest_snoc[OF g(2), of f] g(1) by simp
        moreover have "map_of (if newer then AList.update k f sn else sn) = (map_of sn)(k \<mapsto> if newer then f else g)"
          using prev by (simp add: update_conv' fun_upd_idem)
        ultimately show ?thesis
          unfolding r sum.case using inv' by (intro co_inv_step[OF inv[unfolded s] Some]) (simp_all add: distinct_update)
      qed
    qed
  qed
qed

lemma run_accumulate:
  "co_inv fs0 s \<Longrightarrow>
     (case snd (run_decide accumulate fs (Inr s)) of
        Inr s' \<Rightarrow> co_inv (fs0 @ fs) s' | Inl e \<Rightarrow> \<not> list_all has_eid (fs0 @ fs))"
proof (induction fs arbitrary: fs0 s)
  case (Cons f fs)
  obtain v r where acc: "accumulate f (Inr s) = (v, r)" by fastforce
  have stuck: "snd (run_decide accumulate gs (Inl e)) = Inl e" for gs e
    by (induction gs) (auto simp: accumulate_def split: prod.split)
  show ?case
  proof (cases r)
    case (Inl e)
    then show ?thesis using accumulate_inv[OF Cons.prems acc] stuck[of fs e] acc by (auto split: prod.split)
  next
    case (Inr s')
    then have "co_inv (fs0 @ [f]) s'" using accumulate_inv[OF Cons.prems acc] by simp
    from Cons.IH[OF this, unfolded append_assoc append_Cons append_Nil] show ?thesis
      using acc Inr by (cases "run_decide accumulate fs (Inr s')") simp
  qed
qed simp
section \<open>What is emitted\<close>

lemma sort_key_paired: "map snd (sort_key fst (map (\<lambda>x. (g x, x)) xs)) = sort_key g xs"
proof -
  have ins: "insort_key fst (g x, x) (map (\<lambda>x. (g x, x)) ys) = map (\<lambda>x. (g x, x)) (insort_key g x ys)" for x ys
    by (induction ys) simp_all
  have "sort_key fst (map (\<lambda>x. (g x, x)) xs) = map (\<lambda>x. (g x, x)) (sort_key g xs)"
    by (induction xs) (simp_all add: ins)
  then show ?thesis by (simp add: o_def)
qed

lemma event_ids:
  "res_map_list event_id fs = Inr ids \<longleftrightarrow> list_all has_eid fs \<and> ids = map eid fs"
proof (induction fs arbitrary: ids)
  case (Cons f fs)
  then show ?case by (cases "event_id f") (auto simp: has_eid_def eid_def)
qed auto

lemma merge_sorted_result:
  "case merge_sorted sn pa of
     Inr merged \<Rightarrow> list_all has_eid (map snd sn @ pa) \<and> merged = sort_key eid (map snd sn @ pa)
   | Inl e \<Rightarrow> \<not> list_all has_eid (map snd sn @ pa)"
proof (cases "res_map_list event_id (map snd sn @ pa)")
  case (Inl e)
  then have "\<not> list_all has_eid (map snd sn @ pa)"
    using event_ids[of "map snd sn @ pa" "map eid (map snd sn @ pa)"] by auto
  then show ?thesis using Inl by (simp add: merge_sorted_def Let_def)
next
  case (Inr ids)
  note ok = Inr[unfolded event_ids]
  have "zip (map eid xs) xs = map (\<lambda>x. (eid x, x)) xs" for xs by (induction xs) simp_all
  then have "zip ids (map snd sn @ pa) = map (\<lambda>x. (eid x, x)) (map snd sn @ pa)"
    unfolding conjunct2[OF ok] .
  then have "merge_sorted sn pa = Inr (sort_key eid (map snd sn @ pa))"
    using Inr unfolding merge_sorted_def Let_def by (simp only: res_bind.simps sort_key_paired)
  then show ?thesis using ok by simp
qed

lemma keyed_values:
  assumes "distinct (map fst sn)" "\<And>k' v. (k', v) \<in> set sn \<Longrightarrow> entity_key v = Some k'"
  shows "keyed k (map snd sn) = (case map_of sn k of None \<Rightarrow> [] | Some v \<Rightarrow> [v])"
  using assms
proof (induction sn)
  case (Cons p sn)
  have "map_of sn (fst p) = None" using Cons.prems(1) by (simp add: map_of_eq_None_iff)
  moreover have "entity_key (snd p) = Some k' \<longleftrightarrow> k' = fst p" for k'
    using Cons.prems(2)[of "fst p" "snd p"] by auto
  ultimately show ?case using Cons by (auto simp: keyed_def)
qed (simp add: keyed_def)

lemma co_inv_values:
  assumes "co_inv fs (sn, pa)"
  shows "(k, v) \<in> set sn \<Longrightarrow> entity_key v = Some k \<and> v \<in> set fs"
    and "keyed k (map snd sn @ pa) = (if keyed k fs = [] then [] else [newest (keyed k fs)])"
    and "filter (\<lambda>f. entity_key f = None) (map snd sn @ pa) = filter (\<lambda>f. entity_key f = None) fs"
    and "list_all has_eid (map snd sn @ pa) \<longleftrightarrow> list_all has_eid fs"
proof -
  note inv = assms[unfolded co_inv_def, simplified]
  have val: "entity_key v = Some k \<and> v \<in> set fs" if "(k, v) \<in> set sn" for k v
  proof -
    have "map_of sn k = Some v" using map_of_is_SomeI[of sn k v] inv that by blast
    then have "keyed k fs \<noteq> []" "v = newest (keyed k fs)" using inv by (auto split: if_splits)
    then show ?thesis using newest_spec[of "keyed k fs"] by (auto simp: keyed_def)
  qed
  then show "(k, v) \<in> set sn \<Longrightarrow> entity_key v = Some k \<and> v \<in> set fs" .
  have pa: "keyed k pa = []" using inv by (auto simp: keyed_def filter_empty_conv)
  have "keyed k (map snd sn) = (case map_of sn k of None \<Rightarrow> [] | Some v \<Rightarrow> [v])"
    by (rule keyed_values) (use inv val in auto)
  then show "keyed k (map snd sn @ pa) = (if keyed k fs = [] then [] else [newest (keyed k fs)])"
    using inv pa by (simp add: keyed_def)
  have "filter (\<lambda>f. entity_key f = None) (map snd sn) = []"
    using val by (auto simp: filter_empty_conv)
  then show "filter (\<lambda>f. entity_key f = None) (map snd sn @ pa) = filter (\<lambda>f. entity_key f = None) fs"
    using inv by simp
  show "list_all has_eid (map snd sn @ pa) \<longleftrightarrow> list_all has_eid fs"
  proof
    assume all: "list_all has_eid (map snd sn @ pa)"
    have "has_eid f" if f: "f \<in> set fs" for f
    proof (cases "entity_key f")
      case None
      then show ?thesis using all inv f by (auto simp: list_all_iff)
    next
      case (Some k)
      then have "f \<in> set (keyed k fs)" using f by (simp add: keyed_def)
      then have ne: "keyed k fs \<noteq> []" by auto
      then have map: "map_of sn k = Some (newest (keyed k fs))" using inv by simp
      then have "newest (keyed k fs) \<in> set (map snd sn)" using map_of_SomeD[OF map] by force
      then have "has_eid (newest (keyed k fs))" using all by (auto simp: list_all_iff)
      then show ?thesis
        using co_inv_newest_has_eid[OF assms, of k] map \<open>f \<in> set (keyed k fs)\<close> by (auto simp: list_all_iff)
    qed
    then show "list_all has_eid fs" by (simp add: list_all_iff)
  next
    assume "list_all has_eid fs"
    then show "list_all has_eid (map snd sn @ pa)" using inv val by (force simp: list_all_iff)
  qed
qed

lemma run_flush: "run_effects (flush_merged out (c \<noteq> None)) c = map_option (advance_all out) c"
proof (cases c)
  case None
  have "run_effects (flush_merged out False) None = None"
    by (induction out) (simp_all add: flush_merged_def run_effects_def)
  then show ?thesis using None by simp
next
  case (Some b)
  have "run_effects (flush_merged out True) (Some b) = Some (advance_all out b)"
    by (induction out arbitrary: b) (simp_all add: flush_merged_def run_effects_def)
  then show ?thesis using Some by simp
qed

definition latest_per_entity :: "dict list \<Rightarrow> dict list \<Rightarrow> bool" where
  "latest_per_entity fs out \<longleftrightarrow>
     sorted (map eid out)
     \<and> filter (\<lambda>f. entity_key f = None) out = sort_key eid (filter (\<lambda>f. entity_key f = None) fs)
     \<and> (\<forall>k. filter (\<lambda>f. entity_key f = Some k) out
              = (if keyed k fs = [] then [] else [newest (keyed k fs)]))"

lemma merged_latest:
  assumes "co_inv fs (sn, pa)"
  shows "latest_per_entity fs (sort_key eid (map snd sn @ pa))"
proof -
  have "filter (\<lambda>f. entity_key f = Some k) (sort_key eid (map snd sn @ pa))
      = (if keyed k fs = [] then [] else [newest (keyed k fs)])" for k
    using arg_cong[OF co_inv_values(2)[OF assms, of k], of "sort_key eid"]
    unfolding filter_sort keyed_def[of k "map snd sn @ pa"] by simp
  then show ?thesis
    using co_inv_values(3)[OF assms] unfolding latest_per_entity_def filter_sort by simp
qed


definition run_frame :: "string \<Rightarrow> int \<Rightarrow> dict" where
  "run_frame e i = [(''event_id'', JStr e), (''event_type'', JStr ''workflow_run''),
     (''fields'', JObj [(''source'', JStr ''github''), (''run_id'', JInt i)])]"

definition sample_backlog :: "bytes \<Rightarrow> json option" where
  "sample_backlog b = map_of [([1], JObj (run_frame ''A'' 7)), ([2], JObj [(''event_id'', JStr ''C'')]),
     ([3], JObj (run_frame ''B'' 7))] b"

definition backlog_arrivals :: "arrival list" where
  "backlog_arrivals = map (\<lambda>b. \<lparr>ar_ready = 1, ar_done = 1, ar_item = GotPayload [b]\<rparr>) [1, 2, 3]"

lemma backlog_run:
  "coalesce_replay sample_backlog 5 False backlog_arrivals 0 None
     = (CoalesceReturns (Returned OUTCOME_TIMED_OUT),
        [Emit (run_frame ''B'' 7), Emit [(''event_id'', JStr ''C'')]], None)"
  by code_simp


text \<open>The watchdog's liveness event is collapsed like an alert when it carries a fingerprint.\<close>

lemma watchdog_has_entity:
  "entity_key [(''event_type'', JStr ''prometheus_watchdog''),
     (''fields'', JObj [(''source'', JStr ''alertmanager''), (''alert_fingerprint'', JStr ''ab'')])]
     = Some [''alertmanager'', ''alert'', ''ab'']"
  by (simp add: entity_key_def dict_get_def)

end
