(* ===== verification/WB_Predicate.thy ===== *)
theory WB_Predicate
  imports WB_Py
begin

text \<open>
  The match predicates of \<open>waitbus/_predicate.py\<close> and their composition over sources in
  \<open>waitbus/_compose.py\<close>. A frame is the decoded JSON object; \<open>json.loads\<close> on the right-hand
  side of a \<open>--match\<close> flag is the argument \<open>loads\<close> of the definitions (\<open>None\<close> where it
  raises) and \<open>json.dumps\<close> on a source name the argument \<open>dumps\<close>. The identity shortcut of
  Python's \<open>in\<close> is left out: it can only be seen on NaN, which no frame of the daemon carries.
  The two registries are association lists.
\<close>

definition MAX_PREDICATE_SOURCE_LEN :: nat where
  "MAX_PREDICATE_SOURCE_LEN = 256"

record predicate =
  pr_evaluate :: "dict \<Rightarrow> bool"
  pr_source :: string

datatype predicate_error =
    NoEquals string
  | EmptyKey string
  | EmptySegment string
  | NotJsonLiteral string string
  | SpecTooLong string
  | BadName string
  | NameTooLong string
  | AlreadyRegistered string
  | UnknownCondition string
  | ExpressionTooLong string
  | EvaluatorUnavailable string
  | ShaTooShort string
  | ShaTooLong string
  | ShaNotHex string

section \<open>The registries\<close>

type_synonym conditions = "(string \<times> predicate) list"
type_synonym evaluators = "(string \<times> (string \<Rightarrow> predicate)) list"

definition register_condition :: "string \<Rightarrow> predicate \<Rightarrow> conditions \<Rightarrow> (predicate_error + unit) \<times> conditions" where
  "register_condition name factory cs =
     (if name = [] \<or> \<not> list_all (\<lambda>c. is_alnum c \<or> c \<in> set ''_-'') name \<or> \<not> is_alpha (hd name)
        then (Inl (BadName name), cs)
      else if length name > 32 then (Inl (NameTooLong name), cs)
      else if map_of cs name \<noteq> None then (Inl (AlreadyRegistered name), cs)
      else (Inr (), cs @ [(name, factory)]))"

definition resolve_condition :: "string \<Rightarrow> conditions \<Rightarrow> predicate_error + predicate" where
  "resolve_condition name cs =
     (case map_of cs name of None \<Rightarrow> Inl (UnknownCondition name) | Some p \<Rightarrow> Inr p)"

definition register_evaluator ::
    "string \<Rightarrow> (string \<Rightarrow> predicate) \<Rightarrow> evaluators \<Rightarrow> (predicate_error + unit) \<times> evaluators" where
  "register_evaluator name factory es =
     (if name = [] \<or> \<not> list_all (\<lambda>c. is_alnum c \<or> c = CHR ''-'') name then (Inl (BadName name), es)
      else if map_of es name \<noteq> None then (Inl (AlreadyRegistered name), es)
      else (Inr (), es @ [(name, factory)]))"

definition resolve_evaluator :: "string \<Rightarrow> string \<Rightarrow> evaluators \<Rightarrow> predicate_error + predicate" where
  "resolve_evaluator name expr es =
     (if length expr > MAX_PREDICATE_SOURCE_LEN then Inl (ExpressionTooLong name)
      else (case map_of es name of None \<Rightarrow> Inl (EvaluatorUnavailable name) | Some f \<Rightarrow> Inr (f expr)))"

section \<open>Match specifications\<close>

text \<open>\<open>int(s)\<close>: surrounding white space, a sign, digits with single underscores between them.\<close>

definition digit_val :: "char \<Rightarrow> int" where
  "digit_val c = of_char c - 48"

definition signed_part :: "string \<Rightarrow> int \<times> string" where
  "signed_part t = (case t of [] \<Rightarrow> (1, []) | c # u \<Rightarrow>
     (if c = CHR ''-'' then (-1, u) else if c = CHR ''+'' then (1, u) else (1, t)))"

definition py_int :: "string \<Rightarrow> int option" where
  "py_int s =
     (case signed_part (strip s) of (sg, u) \<Rightarrow>
        (let ps = split_on (CHR ''_'') u in
         if list_all (\<lambda>p. p \<noteq> [] \<and> list_all is_ascii_digit p) ps
         then Some (sg * foldl (\<lambda>a c. a * 10 + digit_val c) 0 (concat ps)) else None))"

text \<open>\<open>_dig\<close>; \<open>None\<close> is the sentinel \<open>_MISSING\<close>.\<close>

fun dig_path :: "json \<Rightarrow> string list \<Rightarrow> json option" where
  "dig_path cur [] = Some cur"
| "dig_path (JObj d) (part # ps) =
     (case map_of d part of None \<Rightarrow> None | Some v \<Rightarrow> dig_path v ps)"
| "dig_path (JArr xs) (part # ps) =
     (case py_int part of
        None \<Rightarrow> None
      | Some i \<Rightarrow>
          (if \<not> (- int (length xs) \<le> i \<and> i < int (length xs)) then None
           else dig_path (xs ! nat (if i < 0 then i + int (length xs) else i)) ps))"
| "dig_path _ (part # ps) = None"

definition dig :: "json \<Rightarrow> string \<Rightarrow> json option" where
  "dig payload dotted_key = dig_path payload (split_on (CHR ''.'') dotted_key)"

definition parse_one_match :: "(string \<Rightarrow> json option) \<Rightarrow> string \<Rightarrow> predicate_error + string \<times> json" where
  "parse_one_match loads spec =
     (case partition_on (CHR ''='') spec of (k, found, raw) \<Rightarrow>
        (if \<not> found then Inl (NoEquals spec)
         else (let key = strip k in
               if key = [] then Inl (EmptyKey spec)
               else if [] \<in> set (split_on (CHR ''.'') key) then Inl (EmptySegment spec)
               else (case loads raw of
                       None \<Rightarrow> Inl (NotJsonLiteral raw spec)
                     | Some value \<Rightarrow> Inr (key, value)))))"

text \<open>\<open>by_key.setdefault(key, []).append(value)\<close> on a dict in insertion order.\<close>

fun setdefault_append :: "(string \<times> json list) list \<Rightarrow> string \<Rightarrow> json \<Rightarrow> (string \<times> json list) list" where
  "setdefault_append [] key value = [(key, [value])]"
| "setdefault_append ((k, vs) # m) key value =
     (if k = key then (k, vs @ [value]) # m else (k, vs) # setdefault_append m key value)"

fun match_specs ::
    "(string \<Rightarrow> json option) \<Rightarrow> string list \<Rightarrow> (string \<times> json list) list
       \<Rightarrow> predicate_error + (string \<times> json list) list" where
  "match_specs loads [] by_key = Inr by_key"
| "match_specs loads (spec # specs) by_key =
     (if length spec > MAX_PREDICATE_SOURCE_LEN then Inl (SpecTooLong spec)
      else res_bind (parse_one_match loads spec)
             (\<lambda>(key, value). match_specs loads specs (setdefault_append by_key key value)))"

fun match_items :: "(string \<times> json list) list \<Rightarrow> dict \<Rightarrow> bool" where
  "match_items [] frame = True"
| "match_items ((key, allowed) # items) frame =
     (case dig (JObj frame) key of
        None \<Rightarrow> False
      | Some got \<Rightarrow> (if \<not> list_ex (py_eq got) allowed then False else match_items items frame))"

definition parse_match :: "(string \<Rightarrow> json option) \<Rightarrow> string list \<Rightarrow> predicate_error + predicate" where
  "parse_match loads specs =
     res_bind (match_specs loads specs [])
       (\<lambda>items. Inr \<lparr>pr_evaluate = match_items items, pr_source = join_with '' '' specs\<rparr>)"

section \<open>Head-SHA prefixes\<close>

definition MIN_SHA_PREFIX_LEN :: nat where
  "MIN_SHA_PREFIX_LEN = 7"

definition sha_hex :: "char \<Rightarrow> bool" where
  "sha_hex c \<longleftrightarrow> c \<in> set ''0123456789abcdef''"

definition head_sha_prefix :: "string \<Rightarrow> predicate_error + predicate" where
  "head_sha_prefix prefix =
     (let norm = lower (strip prefix) in
      if length norm < MIN_SHA_PREFIX_LEN then Inl (ShaTooShort prefix)
      else if length norm > 40 then Inl (ShaTooLong prefix)
      else if \<not> list_all sha_hex norm then Inl (ShaNotHex prefix)
      else Inr \<lparr>pr_evaluate = (\<lambda>frame. case dig (JObj frame) ''fields.head_sha'' of
                    Some (JStr got) \<Rightarrow> starts_with norm (lower got) | _ \<Rightarrow> False),
                pr_source = ''fields.head_sha^='' @ [CHR 34] @ norm @ [CHR 34]\<rparr>)"

section \<open>Combinators\<close>

definition compose :: "predicate list \<Rightarrow> predicate" where
  "compose predicates =
     (case predicates of
        [] \<Rightarrow> \<lparr>pr_evaluate = (\<lambda>_. True), pr_source = []\<rparr>
      | [p] \<Rightarrow> p
      | _ \<Rightarrow> \<lparr>pr_evaluate = (\<lambda>frame. list_all (\<lambda>p. pr_evaluate p frame) predicates),
               pr_source = join_with '' & '' (filter (\<lambda>s. s \<noteq> []) (map pr_source predicates))\<rparr>)"

definition compose_any :: "predicate list \<Rightarrow> predicate" where
  "compose_any predicates =
     (case predicates of
        [] \<Rightarrow> \<lparr>pr_evaluate = (\<lambda>_. False), pr_source = []\<rparr>
      | [p] \<Rightarrow> p
      | _ \<Rightarrow> \<lparr>pr_evaluate = (\<lambda>frame. list_ex (\<lambda>p. pr_evaluate p frame) predicates),
               pr_source = join_with '' | '' (filter (\<lambda>s. s \<noteq> []) (map pr_source predicates))\<rparr>)"

section \<open>Clauses over sources\<close>

text \<open>\<open>_SOURCE_NAME\<close>.\<close>

definition source_name_body :: "string \<Rightarrow> bool" where
  "source_name_body s \<longleftrightarrow> s \<noteq> [] \<and> length s \<le> 32 \<and> is_ascii_lower (hd s)
     \<and> list_all (\<lambda>c. is_ascii_lower c \<or> is_ascii_digit c \<or> c \<in> set ''_-'') s"

definition SOURCE_NAME :: "string \<Rightarrow> bool" where
  "SOURCE_NAME = dollar_match source_name_body"

record clause =
  cl_source :: string
  cl_spec :: string
  cl_text :: string

datatype clause_error = NoColon string | BadSource string string | EmptySpec string

definition parse_clause :: "string \<Rightarrow> clause_error + clause" where
  "parse_clause text =
     (case partition_on (CHR '':'') text of (source, found, spec) \<Rightarrow>
        (if \<not> found then Inl (NoColon text)
         else if \<not> SOURCE_NAME source then Inl (BadSource source text)
         else if spec = [] then Inl (EmptySpec text)
         else Inr \<lparr>cl_source = source, cl_spec = spec, cl_text = text\<rparr>))"

definition clause_predicate ::
    "(string \<Rightarrow> json option) \<Rightarrow> (string \<Rightarrow> string) \<Rightarrow> clause \<Rightarrow> predicate_error + predicate" where
  "clause_predicate loads dumps c =
     res_bind (parse_match loads [''fields.source='' @ dumps (cl_source c), cl_spec c])
       (\<lambda>lowered. Inr \<lparr>pr_evaluate = pr_evaluate lowered, pr_source = cl_text c\<rparr>)"

record all_of_tracker =
  at_clauses :: "predicate list"
  at_satisfied :: "bool list"

definition new_tracker :: "predicate list \<Rightarrow> all_of_tracker" where
  "new_tracker clauses = \<lparr>at_clauses = clauses, at_satisfied = replicate (length clauses) False\<rparr>"

definition tracker_update :: "dict \<Rightarrow> all_of_tracker \<Rightarrow> bool \<times> all_of_tracker" where
  "tracker_update frame t =
     (let sat = map2 (\<lambda>c s. if \<not> s \<and> pr_evaluate c frame then True else s) (at_clauses t) (at_satisfied t)
      in (list_all (\<lambda>s. s) sat, t\<lparr>at_satisfied := sat\<rparr>))"

definition tracker_outstanding :: "all_of_tracker \<Rightarrow> string list" where
  "tracker_outstanding t =
     map (\<lambda>(c, s). pr_source c) (filter (\<lambda>(c, s). \<not> s) (zip (at_clauses t) (at_satisfied t)))"

section \<open>What the grammar means\<close>

definition spec_pairs :: "(string \<times> json list) list \<Rightarrow> (string \<times> json) set" where
  "spec_pairs m = {(k, v). \<exists>vs. (k, vs) \<in> set m \<and> v \<in> set vs}"

definition grouped :: "(string \<times> json list) list \<Rightarrow> bool" where
  "grouped m \<longleftrightarrow> distinct (map fst m) \<and> (\<forall>(k, vs)\<in>set m. vs \<noteq> [])"

lemma setdefault_keys: "fst ` set (setdefault_append m k v) = insert k (fst ` set m)"
  by (induction m k v rule: setdefault_append.induct) auto

lemma setdefault_grouped: "grouped m \<Longrightarrow> grouped (setdefault_append m k v)"
proof (induction m k v rule: setdefault_append.induct)
  case (2 k vs m key x)
  have "k \<noteq> key \<Longrightarrow> k \<notin> fst ` set (setdefault_append m key x)"
    using 2(2) setdefault_keys[of m key x] by (auto simp: grouped_def)
  then show ?case using 2 by (auto simp: grouped_def)
qed (simp add: grouped_def)

lemma setdefault_pairs: "spec_pairs (setdefault_append m k v) = insert (k, v) (spec_pairs m)"
  by (induction m k v rule: setdefault_append.induct) (auto simp: spec_pairs_def)

text \<open>Some frame value is found for the key and equals one of the values given for it.\<close>

definition key_holds :: "(string \<times> json) set \<Rightarrow> dict \<Rightarrow> string \<Rightarrow> bool" where
  "key_holds kvs frame k \<longleftrightarrow>
     (\<exists>got. dig (JObj frame) k = Some got \<and> (\<exists>v. (k, v) \<in> kvs \<and> py_eq got v))"

lemma match_items_all:
  "match_items items frame \<longleftrightarrow>
     (\<forall>(k, vs)\<in>set items. \<exists>got. dig (JObj frame) k = Some got \<and> list_ex (py_eq got) vs)"
  by (induction items frame rule: match_items.induct) (auto split: option.splits)

lemma match_items_grouped:
  assumes "grouped m"
  shows "match_items m frame \<longleftrightarrow> (\<forall>(k, v)\<in>spec_pairs m. key_holds (spec_pairs m) frame k)"
proof -
  have same: "vs' = vs" if "(k, vs) \<in> set m" "(k, vs') \<in> set m" for k vs vs'
    using assms that by (auto simp: grouped_def dest: eq_key_imp_eq_value)
  have val: "(k, v) \<in> spec_pairs m \<longleftrightarrow> v \<in> set vs" if "(k, vs) \<in> set m" for k v vs
    using same that by (auto simp: spec_pairs_def)
  have ne: "vs \<noteq> []" if "(k, vs) \<in> set m" for k vs using assms that by (auto simp: grouped_def)
  have "key_holds (spec_pairs m) frame k \<longleftrightarrow> (\<exists>got. dig (JObj frame) k = Some got \<and> list_ex (py_eq got) vs)"
    if "(k, vs) \<in> set m" for k vs
    using val[OF that] by (auto simp: key_holds_def list_ex_iff)
  then show ?thesis
    unfolding match_items_all using ne by (fastforce simp: spec_pairs_def neq_Nil_conv)
qed

lemma match_specs_Inr:
  "match_specs loads specs m = Inr items \<Longrightarrow> grouped m \<Longrightarrow>
     grouped items
     \<and> (\<exists>kvs. list_all2 (\<lambda>s kv. parse_one_match loads s = Inr kv) specs kvs
            \<and> spec_pairs items = spec_pairs m \<union> set kvs)
     \<and> list_all (\<lambda>s. length s \<le> MAX_PREDICATE_SOURCE_LEN) specs"
proof (induction specs arbitrary: m)
  case (Cons spec specs)
  obtain kv where kv: "length spec \<le> MAX_PREDICATE_SOURCE_LEN" "parse_one_match loads spec = Inr kv"
    "match_specs loads specs (setdefault_append m (fst kv) (snd kv)) = Inr items"
    using Cons.prems(1) by (auto split: if_splits)
  have ih: "grouped items" "\<exists>kvs. list_all2 (\<lambda>s kv. parse_one_match loads s = Inr kv) specs kvs
      \<and> spec_pairs items = insert kv (spec_pairs m) \<union> set kvs"
    "list_all (\<lambda>s. length s \<le> MAX_PREDICATE_SOURCE_LEN) specs"
    using Cons.IH[OF kv(3) setdefault_grouped[OF Cons.prems(2)]] by (simp_all add: setdefault_pairs)
  then obtain kvs where "list_all2 (\<lambda>s kv. parse_one_match loads s = Inr kv) specs kvs"
    "spec_pairs items = insert kv (spec_pairs m) \<union> set kvs" by blast
  then show ?case using ih(1,3) kv(1,2) by (intro conjI exI[of _ "kv # kvs"]) auto
qed auto

lemma match_specs_ok:
  "(\<exists>items. match_specs loads specs m = Inr items) \<longleftrightarrow>
     (\<forall>s\<in>set specs. length s \<le> MAX_PREDICATE_SOURCE_LEN \<and> res_ok (parse_one_match loads s))"
proof (induction specs arbitrary: m)
  case (Cons spec specs)
  show ?case
  proof (cases "parse_one_match loads spec")
    case (Inr kv)
    then show ?thesis using Cons.IH[of "setdefault_append m (fst kv) (snd kv)"] by (auto simp: case_prod_unfold)
  qed simp
qed simp

lemma list_all2_set:
  "list_all2 (\<lambda>x y. f x = Inr y) xs ys \<Longrightarrow> set ys = {y. \<exists>x\<in>set xs. f x = Inr y}"
  by (induction rule: list_all2_induct) auto

lemma parse_match_eval:
  assumes "parse_match loads specs = Inr p"
  shows "pr_evaluate p frame \<longleftrightarrow>
     (\<forall>s\<in>set specs. \<forall>k v. parse_one_match loads s = Inr (k, v) \<longrightarrow>
        key_holds {kv. \<exists>s\<in>set specs. parse_one_match loads s = Inr kv} frame k)"
proof -
  obtain items where items: "match_specs loads specs [] = Inr items" "pr_evaluate p = match_items items"
    using assms by (auto simp: parse_match_def)
  have "grouped []" by (simp add: grouped_def)
  from match_specs_Inr[OF items(1) this] obtain kvs where g: "grouped items" and
    kvs: "list_all2 (\<lambda>s kv. parse_one_match loads s = Inr kv) specs kvs" "spec_pairs items = set kvs"
    by (auto simp: spec_pairs_def)
  then have "spec_pairs items = {kv. \<exists>s\<in>set specs. parse_one_match loads s = Inr kv}"
    using list_all2_set[OF kvs(1)] by simp
  then show ?thesis using match_items_grouped[OF g, of frame] items(2) by auto
qed

lemma parse_match_ok:
  "res_ok (parse_match loads specs) \<longleftrightarrow>
     (\<forall>s\<in>set specs. length s \<le> MAX_PREDICATE_SOURCE_LEN \<and> res_ok (parse_one_match loads s))"
  using match_specs_ok[of loads specs "[]"] by (auto simp: parse_match_def res_ok_iff)

text \<open>The \<open>--match\<close> grammar. A list of flags parses exactly when every flag fits the
  length cap and parses on its own; the predicate is then true of a frame exactly when each key
  named by a flag resolves in the frame to a value Python-equal to one of the values given for that
  key: AND over distinct keys, OR within a repeated key. The order and repetition of the flags do
  not matter.\<close>

theorem match_flags_meaning:
  assumes "parse_match loads specs = Inr p"
  shows "(\<forall>s\<in>set specs. length s \<le> MAX_PREDICATE_SOURCE_LEN \<and> res_ok (parse_one_match loads s))
       \<and> (\<forall>frame. pr_evaluate p frame \<longleftrightarrow>
            (\<forall>s\<in>set specs. \<forall>k v. parse_one_match loads s = Inr (k, v) \<longrightarrow>
               key_holds {kv. \<exists>s\<in>set specs. parse_one_match loads s = Inr kv} frame k))
       \<and> (\<forall>specs'. set specs' = set specs \<longrightarrow>
            (\<exists>q. parse_match loads specs' = Inr q \<and> pr_evaluate q = pr_evaluate p))"
proof (intro conjI allI impI)
  have ok: "res_ok (parse_match loads specs)" using assms by simp
  then show "\<forall>s\<in>set specs. length s \<le> MAX_PREDICATE_SOURCE_LEN \<and> res_ok (parse_one_match loads s)"
    by (simp add: parse_match_ok)
  fix specs' assume same: "set specs' = set specs"
  then have "res_ok (parse_match loads specs')" using ok by (simp add: parse_match_ok)
  then obtain q where q: "parse_match loads specs' = Inr q" by (auto simp: res_ok_iff)
  have "pr_evaluate q frame = pr_evaluate p frame" for frame
    unfolding parse_match_eval[OF q] parse_match_eval[OF assms] same ..
  then show "\<exists>q. parse_match loads specs' = Inr q \<and> pr_evaluate q = pr_evaluate p" using q by blast
qed (rule parse_match_eval[OF assms])

definition sample_loads :: "string \<Rightarrow> json option" where
  "sample_loads s = map_of [(''1'', JInt 1), (''2'', JInt 2), (''true'', JBool True),
     ([CHR 34] @ ''fs'' @ [CHR 34], JStr ''fs'')] s"

theorem match_flags_meaning_witness:
  "\<exists>p. parse_match sample_loads [''a.b=1'', ''a.b=2''] = Inr p
     \<and> pr_evaluate p [(''a'', JObj [(''b'', JInt 2)])]"
proof -
  have one: "parse_one_match sample_loads ''a.b=1'' = Inr (''a.b'', JInt 1)"
    "parse_one_match sample_loads ''a.b=2'' = Inr (''a.b'', JInt 2)"
    by code_simp+
  then obtain p where p: "parse_match sample_loads [''a.b=1'', ''a.b=2''] = Inr p"
    using parse_match_ok[of sample_loads "[''a.b=1'', ''a.b=2'']"]
    by (auto simp: MAX_PREDICATE_SOURCE_LEN_def res_ok_iff)
  have "dig (JObj [(''a'', JObj [(''b'', JInt 2)])]) ''a.b'' = Some (JInt 2)" by code_simp
  then have "pr_evaluate p [(''a'', JObj [(''b'', JInt 2)])]"
    using match_flags_meaning[OF p] one by (auto simp: key_holds_def)
  then show ?thesis using p by blast
qed

text \<open>The equality is Python's: a flag \<open>k=true\<close> accepts the number 1.\<close>

lemma match_bool_accepts_int:
  "\<exists>p. parse_match sample_loads [''fields.merged=true''] = Inr p
     \<and> pr_evaluate p [(''fields'', JObj [(''merged'', JInt 1)])]"
proof -
  have one: "parse_one_match sample_loads ''fields.merged=true'' = Inr (''fields.merged'', JBool True)"
    by code_simp
  then obtain p where p: "parse_match sample_loads [''fields.merged=true''] = Inr p"
    using parse_match_ok[of sample_loads "[''fields.merged=true'']"]
    by (auto simp: MAX_PREDICATE_SOURCE_LEN_def res_ok_iff)
  have "dig (JObj [(''fields'', JObj [(''merged'', JInt 1)])]) ''fields.merged'' = Some (JInt 1)" by code_simp
  then show ?thesis using p one parse_match_eval[OF p] by (auto simp: key_holds_def)
qed

text \<open>A condition name with an upper-case letter is accepted.\<close>

lemma condition_name_upper_case: "fst (register_condition ''CI'' p []) = Inr ()"
  by (simp add: register_condition_def is_alnum_def is_alpha_def is_ascii_upper_def chr_in_def)

section \<open>Clauses\<close>

lemma parse_one_source:
  assumes "loads (dumps src) = Some (JStr src)"
  shows "parse_one_match loads (''fields.source='' @ dumps src) = Inr (''fields.source'', JStr src)"
proof -
  have "partition_on (CHR ''='') (''fields.source'' @ CHR ''='' # dumps src) = (''fields.source'', True, dumps src)"
    by (rule partition_on_hit) simp
  moreover have "strip ''fields.source'' = ''fields.source''"
    by (rule strip_id) (simp_all add: is_space_def chr_in_def)
  ultimately show ?thesis by (simp add: parse_one_match_def assms)
qed

text \<open>A clause \<open>source:spec\<close> is the match of its specification confined to its source. The text
  splits at its first colon and is kept verbatim as the predicate's name; the predicate holds of a
  frame exactly when \<open>fields.source\<close> is the source and the specification's key holds, unless the
  key is \<open>fields.source\<close> itself, where the two values are alternatives.\<close>

theorem clause_is_scoped_match:
  assumes "parse_clause text = Inr c" "clause_predicate loads dumps c = Inr p"
    and "loads (dumps (cl_source c)) = Some (JStr (cl_source c))"
  shows "text = cl_source c @ '':'' @ cl_spec c \<and> CHR '':'' \<notin> set (cl_source c) \<and> pr_source p = text
       \<and> (\<exists>k v. parse_one_match loads (cl_spec c) = Inr (k, v)
            \<and> (k \<noteq> ''fields.source'' \<longrightarrow>
                 (\<forall>frame. pr_evaluate p frame \<longleftrightarrow>
                    dig (JObj frame) ''fields.source'' = Some (JStr (cl_source c))
                    \<and> (\<exists>got. dig (JObj frame) k = Some got \<and> py_eq got v)))
            \<and> (k = ''fields.source'' \<longrightarrow>
                 (\<forall>frame. pr_evaluate p frame \<longleftrightarrow>
                    (\<exists>got. dig (JObj frame) k = Some got \<and> (py_eq got (JStr (cl_source c)) \<or> py_eq got v)))))"
proof -
  obtain src spec where part: "partition_on (CHR '':'') text = (src, True, spec)"
    and c: "c = \<lparr>cl_source = src, cl_spec = spec, cl_text = text\<rparr>"
    using assms(1) by (auto simp: parse_clause_def split: prod.splits if_splits)
  note split = partition_on_spec[OF part, simplified]
  let ?s = "''fields.source='' @ dumps src"
  obtain q where q: "parse_match loads [?s, spec] = Inr q" "pr_evaluate p = pr_evaluate q" "pr_source p = text"
    using assms(2) by (auto simp: clause_predicate_def c)
  have src: "parse_one_match loads ?s = Inr (''fields.source'', JStr src)"
    by (rule parse_one_source) (use assms(3) c in simp)
  have "res_ok (parse_match loads [?s, spec])" using q(1) by simp
  then have "res_ok (parse_one_match loads spec)" unfolding parse_match_ok by simp
  then obtain k v where kv: "parse_one_match loads spec = Inr (k, v)" by (auto simp: res_ok_iff)
  have str: "py_eq got (JStr src) \<longleftrightarrow> got = JStr src" for got by (cases got) auto
  have pairs: "{x. \<exists>s\<in>set [?s, spec]. parse_one_match loads s = Inr x} = {(''fields.source'', JStr src), (k, v)}"
    using src kv by auto
  have ev: "pr_evaluate p frame \<longleftrightarrow>
      key_holds {(''fields.source'', JStr src), (k, v)} frame ''fields.source''
      \<and> key_holds {(''fields.source'', JStr src), (k, v)} frame k" for frame
    unfolding q(2) parse_match_eval[OF q(1)] pairs using src kv by simp
  show ?thesis
    unfolding c using split q(3) kv by (auto simp: ev key_holds_def str)
qed

definition sample_dumps :: "string \<Rightarrow> string" where
  "sample_dumps s = [CHR 34] @ s @ [CHR 34]"

theorem clause_is_scoped_match_witness:
  "\<exists>c p. parse_clause ''fs:a=1'' = Inr c \<and> clause_predicate sample_loads sample_dumps c = Inr p
     \<and> pr_source p = ''fs:a=1''
     \<and> pr_evaluate p [(''fields'', JObj [(''source'', JStr ''fs'')]), (''a'', JInt 1)]"
proof -
  let ?c = "\<lparr>cl_source = ''fs'', cl_spec = ''a=1'', cl_text = ''fs:a=1''\<rparr>"
  have c: "parse_clause ''fs:a=1'' = Inr ?c" by code_simp
  have one: "parse_one_match sample_loads ''a=1'' = Inr (''a'', JInt 1)" by code_simp
  have loads: "sample_loads (sample_dumps (cl_source ?c)) = Some (JStr (cl_source ?c))"
    by (simp add: sample_loads_def sample_dumps_def)
  have "parse_one_match sample_loads (''fields.source='' @ sample_dumps ''fs'') = Inr (''fields.source'', JStr ''fs'')"
    by (rule parse_one_source) (use loads in simp)
  then have "res_ok (parse_match sample_loads [''fields.source='' @ sample_dumps ''fs'', ''a=1''])"
    using one by (simp add: parse_match_ok MAX_PREDICATE_SOURCE_LEN_def sample_dumps_def)
  then obtain p where p: "clause_predicate sample_loads sample_dumps ?c = Inr p"
    by (auto simp: clause_predicate_def res_ok_iff)
  have digs: "dig (JObj [(''fields'', JObj [(''source'', JStr ''fs'')]), (''a'', JInt 1)]) ''fields.source'' = Some (JStr ''fs'')"
    "dig (JObj [(''fields'', JObj [(''source'', JStr ''fs'')]), (''a'', JInt 1)]) ''a'' = Some (JInt 1)"
    by code_simp+
  show ?thesis
    using clause_is_scoped_match[OF c p loads] c p one digs by (intro exI[of _ ?c] exI[of _ p]) auto
qed

text \<open>A tracker fed a sequence of frames; the answer of the last update is kept.\<close>

fun tracker_run :: "dict list \<Rightarrow> bool \<times> all_of_tracker \<Rightarrow> bool \<times> all_of_tracker" where
  "tracker_run [] bt = bt"
| "tracker_run (f # fs) bt = tracker_run fs (tracker_update f (snd bt))"

lemma tracker_state:
  "at_satisfied t = map (\<lambda>c. P c) (at_clauses t) \<Longrightarrow>
     (let t' = snd (tracker_run fs (b, t)) in
      at_clauses t' = at_clauses t
      \<and> at_satisfied t' = map (\<lambda>c. P c \<or> (\<exists>f\<in>set fs. pr_evaluate c f)) (at_clauses t)
      \<and> (fs \<noteq> [] \<longrightarrow> fst (tracker_run fs (b, t)) = list_all (\<lambda>s. s) (at_satisfied t')))"
proof (induction fs arbitrary: b t P)
  case (Cons f fs)
  let ?t = "snd (tracker_update f t)"
  have "at_clauses ?t = at_clauses t" by (simp add: tracker_update_def Let_def)
  moreover have "at_satisfied ?t = map (\<lambda>c. P c \<or> pr_evaluate c f) (at_clauses t)"
    by (simp add: tracker_update_def Let_def Cons.prems map2_map_map zip_map2 o_def case_prod_unfold
        zip_same_conv_map)
  moreover have "fst (tracker_update f t) = list_all (\<lambda>s. s) (at_satisfied ?t)"
    by (simp add: tracker_update_def Let_def)
  ultimately show ?case
    using Cons.IH[of ?t "\<lambda>c. P c \<or> pr_evaluate c f" "fst (tracker_update f t)"]
    by (cases fs; cases "tracker_update f t") (simp_all add: Let_def disj_assoc)
qed simp

text \<open>The conjunction of clauses is sticky. After any sequence of frames a clause is
  satisfied exactly when some frame of the sequence matched it, the update of the last frame
  answers whether all clauses are satisfied by now, and the outstanding texts are those of the
  clauses no frame has matched.\<close>

theorem all_of_is_sticky:
  assumes "fs \<noteq> []"
  shows "fst (tracker_run fs (False, new_tracker cs)) = (\<forall>c\<in>set cs. \<exists>f\<in>set fs. pr_evaluate c f)
       \<and> tracker_outstanding (snd (tracker_run fs (False, new_tracker cs)))
         = map pr_source (filter (\<lambda>c. \<not> (\<exists>f\<in>set fs. pr_evaluate c f)) cs)"
proof -
  have new: "at_satisfied (new_tracker cs) = map (\<lambda>c. False) (at_clauses (new_tracker cs))"
    by (simp add: new_tracker_def map_replicate_const)
  note st = tracker_state[OF new, of fs False, unfolded Let_def]
  have "map (\<lambda>(c, s). pr_source c) (filter (\<lambda>(c, s). \<not> s) (zip cs (map Q cs))) = map pr_source (filter (\<lambda>c. \<not> Q c) cs)" for Q
    by (induction cs) auto
  then show ?thesis
    using st assms by (simp add: tracker_outstanding_def new_tracker_def list_all_iff)
qed

theorem all_of_is_sticky_witness:
  "let p = (\<lambda>n. \<lparr>pr_evaluate = (\<lambda>f. dict_get f ''a'' = JInt n), pr_source = ''c''\<rparr>);
       t = snd (tracker_run [[(''a'', JInt 1)]] (False, new_tracker [p 1, p 2]))
   in tracker_outstanding t = [''c'']"
  using all_of_is_sticky[of "[[(''a'', JInt 1)]]"] by (simp add: Let_def dict_get_def)

end
