(* ===== verification/WB_Wait.thy ===== *)
theory WB_Wait
  imports WB_Coalesce WB_Predicate
begin

text \<open>
  The blocking verb \<open>waitbus wait\<close> (\<open>waitbus/wait.py\<close>) and the durations of
  \<open>waitbus/_duration.py\<close>. A run of the verb is a function of its flags and its environment to the
  way it ends: \<open>typer.Exit(code)\<close>, or an exception nothing catches. \<open>_exit_with_error\<close>
  is an exit with its code; what is printed is left out. A callback of the read engine that raises
  leaves \<open>Inl\<close> in the caller's state and stops the engine at once.
\<close>

section \<open>Durations\<close>

text \<open>\<open>float(s)\<close>. A decimal literal stands for its exact value: rounding to 53 bits and the
  overflow of huge literals to infinity are left out.\<close>

definition digit_groups :: "string \<Rightarrow> nat option" where
  "digit_groups s =
     (if s = [] then Some 0
      else if list_all (\<lambda>p. p \<noteq> [] \<and> list_all is_ascii_digit p) (split_on (CHR ''_'') s)
      then Some (foldl (\<lambda>a c. a * 10 + (of_char c - 48)) 0 (concat (split_on (CHR ''_'') s))) else None)"

definition digit_count :: "string \<Rightarrow> nat" where
  "digit_count s = length (filter is_ascii_digit s)"

definition parse_mantissa :: "string \<Rightarrow> rat option" where
  "parse_mantissa s =
     (case partition_on (CHR ''.'') s of (a, _, b) \<Rightarrow>
        (if a = [] \<and> b = [] then None
         else (case (digit_groups a, digit_groups b) of
                 (Some x, Some y) \<Rightarrow> Some (of_nat x + of_nat y / 10 ^ digit_count b)
               | _ \<Rightarrow> None)))"

definition parse_exponent :: "string \<Rightarrow> rat option" where
  "parse_exponent s =
     (case signed_part s of (sg, u) \<Rightarrow>
        (if u = [] then None
         else map_option (\<lambda>n. if sg < 0 then 1 / 10 ^ n else 10 ^ n) (digit_groups u)))"

definition parse_unsigned :: "string \<Rightarrow> pyfloat option" where
  "parse_unsigned u =
     (if u = ''inf'' \<or> u = ''infinity'' then Some PInf
      else if u = ''nan'' then Some NaN
      else (case partition_on (CHR ''e'') u of (m, has_exp, x) \<Rightarrow>
              (case (parse_mantissa m, if has_exp then parse_exponent x else Some 1) of
                 (Some q, Some e) \<Rightarrow> Some (Fin (q * e))
               | _ \<Rightarrow> None)))"

fun float_neg :: "pyfloat \<Rightarrow> pyfloat" where
  "float_neg (Fin q) = Fin (- q)"
| "float_neg PInf = NInf"
| "float_neg NInf = PInf"
| "float_neg NaN = NaN"

fun float_scale :: "pyfloat \<Rightarrow> rat \<Rightarrow> pyfloat" where
  "float_scale (Fin q) u = Fin (q * u)"
| "float_scale f u = f"

fun float_nonpos :: "pyfloat \<Rightarrow> bool" where
  "float_nonpos (Fin q) = (q \<le> 0)"
| "float_nonpos PInf = False"
| "float_nonpos NInf = True"
| "float_nonpos NaN = False"

definition py_float :: "string \<Rightarrow> pyfloat option" where
  "py_float s =
     (case signed_part (lower (strip s)) of (sg, u) \<Rightarrow>
        map_option (\<lambda>f. if sg < 0 then float_neg f else f) (parse_unsigned u))"

definition UNITS :: "(char \<times> rat) list" where
  "UNITS = [(CHR ''s'', 1), (CHR ''m'', 60), (CHR ''h'', 3600), (CHR ''d'', 86400)]"

datatype duration_error = EmptyDuration | NotANumber string | NonPositive string

definition parse_duration :: "string \<Rightarrow> duration_error + pyfloat" where
  "parse_duration raw =
     (let text = lower (strip raw) in
      if text = [] then Inl EmptyDuration
      else (case (case map_of UNITS (last text) of
                    Some u \<Rightarrow> map_option (\<lambda>f. float_scale f u) (py_float (butlast text))
                  | None \<Rightarrow> py_float text) of
              None \<Rightarrow> Inl (NotANumber raw)
            | Some f \<Rightarrow> if float_nonpos f then Inl (NonPositive raw) else Inr f))"

section \<open>Exit codes and flags\<close>

definition EXIT_SUCCESS :: int where "EXIT_SUCCESS = 0"
definition EXIT_FAILURE :: int where "EXIT_FAILURE = 1"
definition EXIT_STARTUP :: int where "EXIT_STARTUP = 2"
definition EXIT_TIMEOUT :: int where "EXIT_TIMEOUT = 124"
definition EXIT_SIGINT :: int where "EXIT_SIGINT = 130"

lemmas EXIT_defs = EXIT_SUCCESS_def EXIT_FAILURE_def EXIT_STARTUP_def EXIT_TIMEOUT_def EXIT_SIGINT_def

datatype wait_error =
    WaitSub sub_error
  | WaitTerminal terminal_error
  | WaitFrame frame_error
  | WaitSelect pyfloat

datatype wait_exit = Exit int | Uncaught wait_error

text \<open>A repeatable flag that is absent is the empty list: the code only asks for its truth value.\<close>

record wait_flags =
  fl_sha :: "string option"
  fl_match :: "string list"
  fl_cond :: "string list"
  fl_match_cel :: "string option"
  fl_match_jmespath :: "string option"
  fl_repo :: "string option"
  fl_source :: "string option"
  fl_all_of :: "string list"
  fl_first_of :: "string list"
  fl_timeout :: string
  fl_since :: "string option"
  fl_exit_status :: bool

text \<open>What the run depends on: \<open>json.loads\<close> on frames and on literals, \<open>json.dumps\<close> on
  the envelope and on a name, the two registries, the git origin, the daemon and what arrives.\<close>

record wait_env =
  we_loads :: "bytes \<Rightarrow> json option"
  we_literal :: "string \<Rightarrow> json option"
  we_dumps :: "json \<Rightarrow> bytes"
  we_quote :: "string \<Rightarrow> string"
  we_conditions :: conditions
  we_evaluators :: evaluators
  we_detect_repo :: "(string \<times> string) option"
  we_connect :: connect_result
  we_arrivals :: "arrival list"
  we_now :: rat

definition exit_code_if_terminal :: "json \<Rightarrow> terminal_error + int option" where
  "exit_code_if_terminal conclusion =
     (if \<not> truthy conclusion then Inr None
      else if conclusion = JStr SUCCESS_CONCLUSION then Inr (Some EXIT_SUCCESS)
      else (case conclusion of
              JArr _ \<Rightarrow> Inl UnhashableConclusion
            | JObj _ \<Rightarrow> Inl UnhashableConclusion
            | _ \<Rightarrow> Inr (if conclusion \<in> JStr ` set FAILURE_CONCLUSIONS then Some EXIT_FAILURE else None)))"

text \<open>\<open>Inl c\<close> below is \<open>typer.Exit(c)\<close> raised at startup.\<close>

definition effective_source_of :: "wait_flags \<Rightarrow> int + string option" where
  "effective_source_of fl =
     (case fl_sha fl of
        None \<Rightarrow> Inr (fl_source fl)
      | Some sha \<Rightarrow>
          (if strip sha = [] then Inl EXIT_STARTUP
           else (case fl_source fl of
                   None \<Rightarrow> Inr (Some ''github'')
                 | Some s \<Rightarrow> if s \<noteq> ''github'' then Inl EXIT_STARTUP else Inr (Some s))))"

fun resolve_conditions :: "string list \<Rightarrow> conditions \<Rightarrow> predicate_error + predicate list" where
  "resolve_conditions names cs = res_map_list (\<lambda>n. resolve_condition n cs) names"

definition opt_evaluator ::
    "string \<Rightarrow> string option \<Rightarrow> evaluators \<Rightarrow> predicate_error + predicate list" where
  "opt_evaluator name expr es =
     (case expr of None \<Rightarrow> Inr [] | Some x \<Rightarrow> res_bind (resolve_evaluator name x es) (\<lambda>p. Inr [p]))"

definition build_predicates :: "wait_env \<Rightarrow> wait_flags \<Rightarrow> string list \<Rightarrow> predicate_error + predicate list" where
  "build_predicates env fl specs =
     res_bind (parse_match (we_literal env) specs) (\<lambda>m.
     res_bind (case fl_sha fl of None \<Rightarrow> Inr [] | Some sha \<Rightarrow> res_bind (head_sha_prefix sha) (\<lambda>p. Inr [p])) (\<lambda>sha.
     res_bind (resolve_conditions (fl_cond fl) (we_conditions env)) (\<lambda>conds.
     res_bind (opt_evaluator ''cel'' (fl_match_cel fl) (we_evaluators env)) (\<lambda>cel.
     res_bind (opt_evaluator ''jmespath'' (fl_match_jmespath fl) (we_evaluators env)) (\<lambda>jmes.
       Inr (m # sha @ conds @ cel @ jmes))))))"

definition build_predicate :: "wait_env \<Rightarrow> wait_flags \<Rightarrow> int + predicate \<times> string option" where
  "build_predicate env fl =
     res_bind (effective_source_of fl) (\<lambda>effective_source.
       (let specs = fl_match fl
              @ (case effective_source of None \<Rightarrow> [] | Some s \<Rightarrow> [''fields.source='' @ we_quote env s])
        in if fl_sha fl = None \<and> specs = [] \<and> fl_cond fl = [] \<and> fl_match_cel fl = None
              \<and> fl_match_jmespath fl = None then Inl EXIT_STARTUP
           else (case build_predicates env fl specs of
                   Inl _ \<Rightarrow> Inl EXIT_STARTUP
                 | Inr ps \<Rightarrow> Inr (compose ps, effective_source))))"

definition resolve_repo :: "wait_env \<Rightarrow> wait_flags \<Rightarrow> string option \<Rightarrow> int + string option" where
  "resolve_repo env fl effective_source =
     (let is_github_path = (effective_source = None \<or> effective_source = Some ''github'') in
      case fl_repo fl of
        Some repo \<Rightarrow>
          (if \<not> is_github_path then Inr None
           else if count_list repo (CHR ''/'') \<noteq> 1 \<or> [] \<in> set (split_on (CHR ''/'') repo) then Inl EXIT_STARTUP
           else Inr (Some repo))
      | None \<Rightarrow>
          (if is_github_path \<and> (fl_sha fl \<noteq> None \<or> effective_source = Some ''github'') then
             (case we_detect_repo env of
                None \<Rightarrow> Inl EXIT_STARTUP
              | Some (owner, name) \<Rightarrow> Inr (Some (owner @ ''/'' @ name)))
           else Inr None))"

section \<open>One predicate\<close>

text \<open>What the closure of \<open>_build_decide\<close> captures: the exit code and the source of the match.\<close>

type_synonym captured = "wait_error + int option \<times> string option"

definition source_of :: "json \<Rightarrow> string option" where
  "source_of j = (case j of JStr s \<Rightarrow> Some s | _ \<Rightarrow> None)"

definition build_decide :: "predicate \<Rightarrow> dict \<Rightarrow> captured \<Rightarrow> frame_decision \<times> captured" where
  "build_decide composed frame st =
     (case dict_get frame ''fields'' of
        JObj fs \<Rightarrow>
          (if \<not> pr_evaluate composed frame then (CONTINUE, st)
           else (let frame_source = dict_get fs ''source'' in
                 if frame_source = JStr ''github'' then
                   (case exit_code_if_terminal (dict_get fs ''conclusion'') of
                      Inl e \<Rightarrow> (MATCHED, Inl (WaitTerminal e))
                    | Inr None \<Rightarrow> (CONTINUE, st)
                    | Inr (Some code) \<Rightarrow> (MATCHED, Inr (Some code, source_of frame_source)))
                 else (MATCHED, Inr (Some EXIT_SUCCESS, source_of frame_source))))
      | _ \<Rightarrow> (CONTINUE, st))"

definition dispatch_outcome :: "wait_outcome \<Rightarrow> int option \<Rightarrow> bool \<Rightarrow> wait_exit" where
  "dispatch_outcome outcome matched_exit exit_status =
     (if wo_cancelled outcome then Exit EXIT_SIGINT
      else if wo_timed_out outcome then Exit EXIT_TIMEOUT
      else if wo_matched outcome then Exit (if exit_status then the matched_exit else EXIT_SUCCESS)
      else Exit EXIT_STARTUP)"

text \<open>The engine's part of a run: \<open>select\<close> refuses a budget that is not finite, and what the
  engine or the callback raises is not caught.\<close>

definition run_engine ::
    "wait_env \<Rightarrow> (dict \<Rightarrow> 's \<Rightarrow> frame_decision \<times> 's) \<Rightarrow> pyfloat \<Rightarrow> 's \<Rightarrow> wait_error + wait_outcome \<times> 's" where
  "run_engine env decide deadline_seconds s =
     (case deadline_seconds of
        Fin d \<Rightarrow>
          (case await_predicate (we_loads env) decide (Some d) False (we_arrivals env) (we_now env) None s of
             (Returned w, st) \<Rightarrow> Inr (w, aw_caller st)
           | (Raised e, st) \<Rightarrow> Inl (WaitSub e)
           | (StillWaiting, st) \<Rightarrow> Inl (WaitSelect deadline_seconds))
      | _ \<Rightarrow> Inl (WaitSelect deadline_seconds))"

definition open_for_wait :: "wait_env \<Rightarrow> string list option \<Rightarrow> string option \<Rightarrow> wait_exit option" where
  "open_for_wait env filters since =
     (case open_subscriber (we_dumps env) (\<lambda>_. None) filters None since None (we_connect env) of
        Inl (OpenFrameTooLarge e) \<Rightarrow> Some (Uncaught (WaitFrame e))
      | Inl _ \<Rightarrow> Some (Exit EXIT_STARTUP)
      | Inr _ \<Rightarrow> None)"

definition wait_single :: "wait_env \<Rightarrow> wait_flags \<Rightarrow> pyfloat \<Rightarrow> wait_exit" where
  "wait_single env fl deadline_seconds =
     (case build_predicate env fl of
        Inl c \<Rightarrow> Exit c
      | Inr (composed, effective_source) \<Rightarrow>
          (case resolve_repo env fl effective_source of
             Inl c \<Rightarrow> Exit c
           | Inr repo \<Rightarrow>
               (case open_for_wait env (map_option (\<lambda>r. [r]) repo) (fl_since fl) of
                  Some x \<Rightarrow> x
                | None \<Rightarrow>
                    (case run_engine env (build_decide composed) deadline_seconds (Inr (None, None)) of
                       Inl e \<Rightarrow> Uncaught e
                     | Inr (w, Inl e) \<Rightarrow> Uncaught e
                     | Inr (w, Inr (code, _)) \<Rightarrow> dispatch_outcome w code (fl_exit_status fl)))))"

section \<open>Composition over sources\<close>

definition check_compose_exclusive :: "wait_flags \<Rightarrow> bool" where
  "check_compose_exclusive fl \<longleftrightarrow>
     \<not> (fl_all_of fl \<noteq> [] \<and> fl_first_of fl \<noteq> [])
     \<and> \<not> list_ex (\<lambda>x. x) [fl_sha fl \<noteq> None \<and> fl_sha fl \<noteq> Some [], fl_match fl \<noteq> [], fl_cond fl \<noteq> [],
          fl_match_cel fl \<noteq> None \<and> fl_match_cel fl \<noteq> Some [],
          fl_match_jmespath fl \<noteq> None \<and> fl_match_jmespath fl \<noteq> Some [],
          fl_source fl \<noteq> None \<and> fl_source fl \<noteq> Some [], fl_repo fl \<noteq> None \<and> fl_repo fl \<noteq> Some []]"

fun parse_compose_clauses :: "wait_env \<Rightarrow> string list \<Rightarrow> int + predicate list" where
  "parse_compose_clauses env [] = Inr []"
| "parse_compose_clauses env (spec # specs) =
     (case parse_clause spec of
        Inl _ \<Rightarrow> Inl EXIT_STARTUP
      | Inr c \<Rightarrow>
          (case clause_predicate (we_literal env) (we_quote env) c of
             Inl _ \<Rightarrow> Inl EXIT_STARTUP
           | Inr p \<Rightarrow> res_bind (parse_compose_clauses env specs) (\<lambda>ps. Inr (p # ps))))"

definition build_composed_decide ::
    "predicate list \<Rightarrow> bool \<Rightarrow> dict \<Rightarrow> all_of_tracker \<times> string option
       \<Rightarrow> frame_decision \<times> all_of_tracker \<times> string option" where
  "build_composed_decide clauses conjunction frame st =
     (case st of (tracker, matched_source) \<Rightarrow>
        (case dict_get frame ''fields'' of
           JObj fs \<Rightarrow>
             (let (finished, tracker1) =
                    (if conjunction then tracker_update frame tracker
                     else (pr_evaluate (compose_any clauses) frame, tracker))
              in if \<not> finished then (CONTINUE, tracker1, matched_source)
                 else (MATCHED, tracker1, source_of (dict_get fs ''source'')))
         | _ \<Rightarrow> (CONTINUE, tracker, matched_source)))"

definition dispatch_composed_outcome :: "wait_outcome \<Rightarrow> wait_exit" where
  "dispatch_composed_outcome outcome =
     (if wo_cancelled outcome then Exit EXIT_SIGINT
      else if wo_timed_out outcome then Exit EXIT_TIMEOUT
      else if wo_matched outcome then Exit EXIT_SUCCESS
      else Exit EXIT_STARTUP)"

definition wait_composed :: "wait_env \<Rightarrow> predicate list \<Rightarrow> bool \<Rightarrow> pyfloat \<Rightarrow> string option \<Rightarrow> wait_exit" where
  "wait_composed env clauses conjunction deadline_seconds since =
     (case open_for_wait env None since of
        Some x \<Rightarrow> x
      | None \<Rightarrow>
          (case run_engine env (build_composed_decide clauses conjunction) deadline_seconds
                  (new_tracker clauses, None) of
             Inl e \<Rightarrow> Uncaught e
           | Inr (w, _) \<Rightarrow> dispatch_composed_outcome w))"

definition wait :: "wait_env \<Rightarrow> wait_flags \<Rightarrow> wait_exit" where
  "wait env fl =
     (case parse_duration (fl_timeout fl) of
        Inl _ \<Rightarrow> Exit EXIT_STARTUP
      | Inr deadline_seconds \<Rightarrow>
          (if fl_all_of fl \<noteq> [] \<or> fl_first_of fl \<noteq> [] then
             (if \<not> check_compose_exclusive fl then Exit EXIT_STARTUP
              else (case parse_compose_clauses env (if fl_all_of fl \<noteq> [] then fl_all_of fl else fl_first_of fl) of
                      Inl c \<Rightarrow> Exit c
                    | Inr clauses \<Rightarrow>
                        wait_composed env clauses (fl_all_of fl \<noteq> []) deadline_seconds (fl_since fl)))
           else wait_single env fl deadline_seconds))"

end
