(* ===== verification/WB_WaitProps.thy ===== *)
theory WB_WaitProps
  imports WB_Wait
begin

text \<open>
  What \<open>waitbus wait\<close> promises: its exit code is the meaning of the frames it read. The locale
  \<open>waiter\<close> is the contract between a callback and the read engine: a set of frame sequences that
  satisfy the wait, which the callback answers \<open>MATCHED\<close> on first entering. It is interpreted on
  the callbacks of the single-predicate form and of the two composed forms.
\<close>

section \<open>The engine under a callback with a goal\<close>

lemma run_decide_Cons:
  "fst (run_decide decide (f # fs) s) = fst (decide f s) # fst (run_decide decide fs (snd (decide f s)))"
  "snd (run_decide decide (f # fs) s) = snd (run_decide decide fs (snd (decide f s)))"
  by (simp_all split: prod.split)

lemma run_decide_append:
  "run_decide decide (fs @ [f]) s =
     (fst (run_decide decide fs s) @ [fst (decide f (snd (run_decide decide fs s)))],
      snd (decide f (snd (run_decide decide fs s))))"
  by (induction fs arbitrary: s) (auto split: prod.splits)

lemma run_decide_length [simp]: "length (fst (run_decide decide fs s)) = length fs"
  by (induction fs arbitrary: s) (simp_all add: run_decide_Cons del: run_decide.simps(2))

lemma run_decide_butlast: "fst (run_decide decide (butlast fs) s) = butlast (fst (run_decide decide fs s))"
  by (cases fs rule: rev_cases) (simp_all add: run_decide_append)

definition all_continue :: "frame_decision list \<Rightarrow> bool" where
  "all_continue vs \<longleftrightarrow> list_all (\<lambda>v. v = CONTINUE) vs"

text \<open>The last arrival read explains an ending that is not the deadline.\<close>

definition stopped_by :: "(bytes \<Rightarrow> json option) \<Rightarrow> arrival list \<Rightarrow> await_end \<Rightarrow> bool" where
  "stopped_by loads as e \<longleftrightarrow>
     (if e = Returned OUTCOME_TIMED_OUT then list_all (\<lambda>a. passes_over loads (ar_item a)) as
      else as \<noteq> [] \<and> ends_on loads e (ar_item (last as)))"

lemma ends_on_not_waiting: "\<not> ends_on loads StillWaiting i"
  by (auto simp: ends_on_def split: read_item.splits verdict.splits)

lemma await_trace_stopped:
  assumes "await_trace loads decide (Some d) as st n (e, st')"
  shows "e \<noteq> StillWaiting \<and> stopped_by loads (take n as) e"
proof (cases "e = Returned OUTCOME_TIMED_OUT")
  case True
  then show ?thesis using assms by (simp add: await_trace_def open_ended_def stopped_by_def)
next
  case False
  then have "n > 0" "n \<le> length as" "ends_on loads e (ar_item (as ! (n - 1)))"
    using assms by (simp_all add: await_trace_def open_ended_def)
  moreover from this have "last (take n as) = as ! (n - 1)" by (cases n) (simp_all add: take_Suc_conv_app_nth)
  ultimately show ?thesis using False ends_on_not_waiting by (auto simp: stopped_by_def)
qed

locale waiter =
  fixes decide :: "dict \<Rightarrow> 's \<Rightarrow> frame_decision \<times> 's"
    and start :: 's
    and satisfied :: "dict list \<Rightarrow> bool"
  assumes verdicts: "all_continue (fst (run_decide decide fs start)) \<longleftrightarrow> \<not> satisfied fs"
begin

lemma engine:
  "\<exists>n \<le> length as. \<exists>e st fs.
     await_predicate loads decide (Some d) ir as now c start = (e, st)
     \<and> fs = delivered_of loads (take n as)
     \<and> aw_caller st = snd (run_decide decide fs start)
     \<and> e \<noteq> StillWaiting
     \<and> stopped_by loads (take n as) e
     \<and> (if e = Returned OUTCOME_MATCHED then fs \<noteq> [] \<and> satisfied fs \<and> \<not> satisfied (butlast fs)
        else \<not> satisfied fs)
     \<and> aw_unread st = drop n as"
proof -
  obtain e st where r: "await_predicate loads decide (Some d) ir as now c start = (e, st)" by fastforce
  obtain n where n: "await_trace loads decide (Some d) as
      \<lparr>aw_now = now, aw_anchor = now, aw_cursor = c, aw_unread = as, aw_caller = start\<rparr> n (e, st)"
    using await_predicate_trace[of loads decide "Some d" as now c start ir] r by auto
  let ?fs = "delivered_of loads (take n as)"
  let ?vs = "fst (run_decide decide ?fs start)"
  note stopped = await_trace_stopped[OF n]
  note n = n[unfolded await_trace_def Let_def, simplified, folded all_continue_def]
  have sat: "if e = Returned OUTCOME_MATCHED then ?fs \<noteq> [] \<and> satisfied ?fs \<and> \<not> satisfied (butlast ?fs)
      else \<not> satisfied ?fs"
  proof (cases "e = Returned OUTCOME_MATCHED")
    case True
    then have vs: "?vs \<noteq> []" "last ?vs = MATCHED" "all_continue (butlast ?vs)" using n by simp_all
    have "last ?vs \<in> set ?vs" using vs(1) by (rule last_in_set)
    then have "\<not> all_continue ?vs" using vs(2) by (auto simp: all_continue_def list_all_iff)
    then have "satisfied ?fs" using verdicts by blast
    moreover have "\<not> satisfied (butlast ?fs)"
      using vs(3) verdicts[of "butlast ?fs"] unfolding run_decide_butlast by simp
    moreover have "?fs \<noteq> []" using vs(1) run_decide_length[of decide ?fs start] by auto
    ultimately show ?thesis using True by simp
  next
    case False
    then show ?thesis using n verdicts by simp
  qed
  show ?thesis using r n sat stopped by blast
qed

end

section \<open>The single-predicate form\<close>

text \<open>What a frame means for the wait: nothing, a code, or an exception.\<close>

definition frame_code :: "predicate \<Rightarrow> dict \<Rightarrow> (wait_error + int) option" where
  "frame_code p f =
     (case dict_get f ''fields'' of
        JObj fs \<Rightarrow>
          (if \<not> pr_evaluate p f then None
           else if dict_get fs ''source'' \<noteq> JStr ''github'' then Some (Inr 0)
           else (let c = dict_get fs ''conclusion'' in
                 if c = JStr ''success'' then Some (Inr 0)
                 else if c \<in> {JStr ''failure'', JStr ''cancelled'', JStr ''timed_out''} then Some (Inr 1)
                 else if truthy c \<and> (\<exists>xs. c = JArr xs) \<or> truthy c \<and> (\<exists>d. c = JObj d)
                 then Some (Inl (WaitTerminal UnhashableConclusion)) else None))
      | _ \<Rightarrow> None)"

lemma exit_code_cases:
  "exit_code_if_terminal c =
     (if c = JStr ''success'' then Inr (Some 0)
      else if c \<in> {JStr ''failure'', JStr ''cancelled'', JStr ''timed_out''} then Inr (Some 1)
      else if truthy c \<and> (\<exists>xs. c = JArr xs) \<or> truthy c \<and> (\<exists>d. c = JObj d) then Inl UnhashableConclusion
      else Inr None)"
  by (cases c) (auto simp: exit_code_if_terminal_def SUCCESS_CONCLUSION_def FAILURE_CONCLUSIONS_def EXIT_defs)

lemma build_decide_code:
  "build_decide p f st =
     (case frame_code p f of
        None \<Rightarrow> (CONTINUE, st)
      | Some (Inl e) \<Rightarrow> (MATCHED, Inl e)
      | Some (Inr k) \<Rightarrow>
          (MATCHED, Inr (Some k, case dict_get f ''fields'' of JObj fs \<Rightarrow> source_of (dict_get fs ''source'') | _ \<Rightarrow> None)))"
  by (cases "dict_get f ''fields''")
    (auto simp: build_decide_def frame_code_def exit_code_cases Let_def EXIT_defs)

lemma frame_code_range: "frame_code p f = Some (Inr k) \<Longrightarrow> k = 0 \<or> k = 1"
  by (auto simp: frame_code_def Let_def split: json.splits if_splits)

interpretation single: waiter "build_decide p" "Inr (None, None)" "\<lambda>fs. \<exists>f\<in>set fs. frame_code p f \<noteq> None" for p
proof
  have "all_continue (fst (run_decide (build_decide p) fs s)) \<longleftrightarrow> \<not> (\<exists>f\<in>set fs. frame_code p f \<noteq> None)" for fs s
    by (induction fs arbitrary: s)
      (auto simp: all_continue_def build_decide_code run_decide_Cons simp del: run_decide.simps(2)
        split: option.splits sum.splits)
  then show "all_continue (fst (run_decide (build_decide p) fs (Inr (None, None))))
      \<longleftrightarrow> \<not> (\<exists>f\<in>set fs. frame_code p f \<noteq> None)" for fs .
qed

lemma run_build_decide_state:
  "\<forall>f\<in>set fs. frame_code p f = None \<Longrightarrow> snd (run_decide (build_decide p) fs s) = s"
  by (induction fs arbitrary: s) (simp_all add: build_decide_code run_decide_Cons del: run_decide.simps(2))

lemma run_build_decide_match:
  assumes "fs \<noteq> []" "\<exists>f\<in>set fs. frame_code p f \<noteq> None" "\<not> (\<exists>f\<in>set (butlast fs). frame_code p f \<noteq> None)"
  shows "\<exists>x. frame_code p (last fs) = Some x
     \<and> (case x of Inl e \<Rightarrow> snd (run_decide (build_decide p) fs s) = Inl e
        | Inr k \<Rightarrow> \<exists>src. snd (run_decide (build_decide p) fs s) = Inr (Some k, src))"
proof -
  obtain pre f where fs: "fs = pre @ [f]" using assms(1) by (cases fs rule: rev_cases) auto
  have pre: "\<forall>g\<in>set pre. frame_code p g = None" using assms(3) fs by auto
  then have "frame_code p f \<noteq> None" using assms(2) fs by auto
  then obtain x where "frame_code p f = Some x" by auto
  then show ?thesis
    using run_build_decide_state[OF pre, of s] by (auto simp: fs run_decide_append build_decide_code split: sum.split)
qed

lemma stopped_endings:
  assumes "stopped_by loads as e" "e \<noteq> StillWaiting"
  shows "e = Returned OUTCOME_TIMED_OUT \<or> e = Returned OUTCOME_MATCHED \<or> (\<exists>x. e = Raised x)
       \<or> as \<noteq> [] \<and> (e = Returned OUTCOME_CANCELLED \<and> ar_item (last as) = Interrupted
                   \<or> e = Returned OUTCOME_CLEAN_EOF \<and> ar_item (last as) = GotEof
                   \<or> e = Returned OUTCOME_FRAMING_EOF \<and> ar_item (last as) = GotBadFraming)"
  using assms by (auto simp: stopped_by_def ends_on_def split: if_splits read_item.splits verdict.splits)

text \<open>C9: The exit code of a single-predicate wait is the meaning of the frames it read. With
  well-formed flags and a daemon that answers, some prefix of the arrivals is read. Exit 0 or 1 means
  that the last data frame is the first one with a verdict (it satisfies the predicate, and is not
  a github frame without a terminal conclusion), 1 exactly when that verdict is a terminal github
  failure and \<open>--exit-status\<close> is on. In every other exit no data frame has a verdict: 124 when every
  arrival read is a frame, 130 on SIGINT, 2 when the daemon went away. An exception is a reject,
  or a frame the code cannot classify.\<close>

theorem wait_exit_code_spec:
  assumes "fl_all_of fl = []" "fl_first_of fl = []"
    and "parse_duration (fl_timeout fl) = Inr (Fin d)"
    and "build_predicate env fl = Inr (p, src)" "resolve_repo env fl src = Inr repo"
    and "open_for_wait env (map_option (\<lambda>r. [r]) repo) (fl_since fl) = None"
  shows "\<exists>n \<le> length (we_arrivals env). \<exists>fs.
     fs = delivered_of (we_loads env) (take n (we_arrivals env))
     \<and> (let verdict = (\<lambda>f. frame_code p f); quiet = (\<lambda>gs. \<forall>f\<in>set gs. verdict f = None);
            last_item = ar_item (last (take n (we_arrivals env))) in
        case wait env fl of
          Exit c \<Rightarrow>
            (c \<in> {0, 1} \<and> fs \<noteq> [] \<and> quiet (butlast fs)
               \<and> (\<exists>k. verdict (last fs) = Some (Inr k) \<and> c = (if fl_exit_status fl then k else 0)))
            \<or> (quiet fs
               \<and> (c = 124 \<and> list_all (\<lambda>a. passes_over (we_loads env) (ar_item a)) (take n (we_arrivals env))
                  \<or> n > 0 \<and> (c = 130 \<and> last_item = Interrupted
                             \<or> c = 2 \<and> last_item \<in> {GotEof, GotBadFraming})))
        | Uncaught x \<Rightarrow>
            (fs \<noteq> [] \<and> quiet (butlast fs) \<and> verdict (last fs) = Some (Inl x))
            \<or> (quiet fs \<and> (\<exists>y. x = WaitSub y)))"
proof -
  obtain n e st fs where n: "n \<le> length (we_arrivals env)"
    and ap: "await_predicate (we_loads env) (build_decide p) (Some d) False (we_arrivals env) (we_now env) None
        (Inr (None, None)) = (e, st)"
    and fs: "fs = delivered_of (we_loads env) (take n (we_arrivals env))"
    and st: "aw_caller st = snd (run_decide (build_decide p) fs (Inr (None, None)))"
    and e: "e \<noteq> StillWaiting" "stopped_by (we_loads env) (take n (we_arrivals env)) e"
    and sat: "if e = Returned OUTCOME_MATCHED
       then fs \<noteq> [] \<and> (\<exists>f\<in>set fs. frame_code p f \<noteq> None) \<and> \<not> (\<exists>f\<in>set (butlast fs). frame_code p f \<noteq> None)
       else \<not> (\<exists>f\<in>set fs. frame_code p f \<noteq> None)"
    using single.engine[where p = p, of "we_arrivals env" "we_loads env" d False "we_now env" None] by blast
  have run: "wait env fl =
      (case run_engine env (build_decide p) (Fin d) (Inr (None, None)) of
         Inl x \<Rightarrow> Uncaught x | Inr (w, Inl x) \<Rightarrow> Uncaught x
       | Inr (w, Inr (code, _)) \<Rightarrow> dispatch_outcome w code (fl_exit_status fl))"
    using assms by (simp add: wait_def wait_single_def)
  show ?thesis
  proof (cases "e = Returned OUTCOME_MATCHED")
    case True
    then have m: "fs \<noteq> []" "\<exists>f\<in>set fs. frame_code p f \<noteq> None" "\<not> (\<exists>f\<in>set (butlast fs). frame_code p f \<noteq> None)"
      using sat by auto
    obtain x where x: "frame_code p (last fs) = Some x"
      "case x of Inl y \<Rightarrow> aw_caller st = Inl y | Inr k \<Rightarrow> \<exists>s. aw_caller st = Inr (Some k, s)"
      using run_build_decide_match[OF m, of "Inr (None, None)"] unfolding st[symmetric] by blast
    have "wait env fl = (case x of Inl y \<Rightarrow> Uncaught y | Inr k \<Rightarrow> Exit (if fl_exit_status fl then k else 0))"
      using x(2) by (auto simp: run run_engine_def ap True dispatch_outcome_def OUTCOME_MATCHED_def EXIT_defs
          split: sum.splits)
    then show ?thesis
      using n fs m x(1) frame_code_range
      by (intro exI[of _ n] conjI exI[of _ fs]) (auto simp: Let_def split: sum.split)
  next
    case False
    then have quiet: "\<forall>f\<in>set fs. frame_code p f = None" using sat by auto
    then have st0: "aw_caller st = Inr (None, None)" using run_build_decide_state[OF quiet] by (simp only: st)
    have run_e: "wait env fl =
        (case e of Returned w \<Rightarrow> dispatch_outcome w None (fl_exit_status fl) | Raised x \<Rightarrow> Uncaught (WaitSub x)
         | StillWaiting \<Rightarrow> Uncaught (WaitSelect (Fin d)))"
      by (simp add: run run_engine_def ap st0 split: await_end.split)
    show ?thesis
      using stopped_endings[OF e(2,1)]
    proof (elim disjE exE conjE)
      assume "e = Returned OUTCOME_TIMED_OUT"
      then have "wait env fl = Exit 124 \<and> list_all (\<lambda>a. passes_over (we_loads env) (ar_item a)) (take n (we_arrivals env))"
        using e(2) by (simp add: run_e dispatch_outcome_def OUTCOME_TIMED_OUT_def EXIT_defs stopped_by_def)
      then show ?thesis using quiet n fs by (intro exI[of _ n] conjI exI[of _ fs]) (simp_all add: Let_def)
    qed (use False quiet n fs in \<open>(intro exI[of _ n] conjI exI[of _ fs];
        simp add: run_e dispatch_outcome_def OUTCOME_defs EXIT_defs Let_def)+\<close>)
  qed
qed

section \<open>The composed forms\<close>

definition has_fields :: "dict \<Rightarrow> bool" where
  "has_fields f \<longleftrightarrow> as_dict (dict_get f ''fields'') \<noteq> None"

text \<open>When a sequence of frames satisfies the clauses: for \<open>--all-of\<close> every clause has been
  matched by some frame, for \<open>--first-of\<close> some clause by some frame.\<close>

definition clauses_met :: "bool \<Rightarrow> predicate list \<Rightarrow> dict list \<Rightarrow> bool" where
  "clauses_met conjunction cls fs \<longleftrightarrow>
     (let gs = filter has_fields fs in
      if conjunction then gs \<noteq> [] \<and> (\<forall>c\<in>set cls. \<exists>f\<in>set gs. pr_evaluate c f)
      else \<exists>c\<in>set cls. \<exists>f\<in>set gs. pr_evaluate c f)"

lemma compose_any_evaluates: "pr_evaluate (compose_any cls) f \<longleftrightarrow> (\<exists>c\<in>set cls. pr_evaluate c f)"
  by (auto simp: compose_any_def list_ex_iff split: list.split)

lemma composed_decide_cases:
  "build_composed_decide cls conjunction f (t, m) =
     (if \<not> has_fields f then (CONTINUE, t, m)
      else if conjunction then
        (if fst (tracker_update f t) then (MATCHED, snd (tracker_update f t), source_of (dict_get (the (as_dict (dict_get f ''fields''))) ''source''))
         else (CONTINUE, snd (tracker_update f t), m))
      else if \<exists>c\<in>set cls. pr_evaluate c f then (MATCHED, t, source_of (dict_get (the (as_dict (dict_get f ''fields''))) ''source''))
      else (CONTINUE, t, m))"
  by (cases "dict_get f ''fields''")
    (auto simp: build_composed_decide_def has_fields_def compose_any_evaluates Let_def case_prod_unfold)

lemma composed_run:
  "at_clauses (fst (snd (run_decide (build_composed_decide cls True) fs (new_tracker cls, None)))) = cls
   \<and> at_satisfied (fst (snd (run_decide (build_composed_decide cls True) fs (new_tracker cls, None))))
       = map (\<lambda>c. \<exists>f\<in>set (filter has_fields fs). pr_evaluate c f) cls
   \<and> (all_continue (fst (run_decide (build_composed_decide cls True) fs (new_tracker cls, None)))
        \<longleftrightarrow> \<not> clauses_met True cls fs)"
proof (induction fs rule: rev_induct)
  case Nil
  show ?case by (simp add: new_tracker_def all_continue_def clauses_met_def map_replicate_const)
next
  case (snoc f fs)
  obtain vs t m where r: "run_decide (build_composed_decide cls True) fs (new_tracker cls, None) = (vs, t, m)"
    by (cases "run_decide (build_composed_decide cls True) fs (new_tracker cls, None)") auto
  note ih = snoc.IH[unfolded r, simplified]
  show ?case
  proof (cases "has_fields f")
    case False
    then show ?thesis using ih by (simp add: run_decide_append r composed_decide_cases all_continue_def clauses_met_def)
  next
    case True
    have upd: "at_clauses (snd (tracker_update f t)) = cls"
      "at_satisfied (snd (tracker_update f t)) = map (\<lambda>c. \<exists>g\<in>set (filter has_fields (fs @ [f])). pr_evaluate c g) cls"
      "fst (tracker_update f t) \<longleftrightarrow> (\<forall>c\<in>set cls. \<exists>g\<in>set (filter has_fields (fs @ [f])). pr_evaluate c g)"
      using ih True
      by (auto simp: tracker_update_def Let_def map2_map_map zip_map2 o_def case_prod_unfold zip_same_conv_map list_all_iff)
    have mono: "clauses_met True cls fs \<Longrightarrow> clauses_met True cls (fs @ [f])"
      by (auto simp: clauses_met_def Let_def)
    have met: "clauses_met True cls (fs @ [f]) \<longleftrightarrow> (\<forall>c\<in>set cls. \<exists>g\<in>set (filter has_fields (fs @ [f])). pr_evaluate c g)"
      using True by (simp add: clauses_met_def Let_def)
    show ?thesis
      using ih True mono upd unfolding met[symmetric]
      by (simp add: run_decide_append r composed_decide_cases all_continue_def) blast
  qed
qed

lemma composed_any_run:
  "all_continue (fst (run_decide (build_composed_decide cls False) fs (t, m))) \<longleftrightarrow> \<not> clauses_met False cls fs"
  by (induction fs arbitrary: t m)
    (auto simp: all_continue_def clauses_met_def run_decide_Cons composed_decide_cases simp del: run_decide.simps(2))

interpretation composed: waiter "build_composed_decide cls conjunction" "(new_tracker cls, None)" "clauses_met conjunction cls"
  for cls conjunction
  by unfold_locales (cases conjunction; simp add: composed_run composed_any_run)

text \<open>C10: The composed wait ends with exit 0 at the first frame that completes its clauses. With
  well-formed clauses and a daemon that answers, some prefix of the arrivals is read; exit 0 means
  that the data frames of the prefix meet the clauses and those before the last one do not:
  \<open>--all-of\<close> collects matches over the stream, \<open>--first-of\<close> needs one. In every other exit
  the clauses are not met: 124 when every arrival read is a frame, 130 on SIGINT, 2 when the daemon
  went away; the only exceptions are rejects.\<close>

theorem composed_wait_spec:
  assumes "specs = (if fl_all_of fl \<noteq> [] then fl_all_of fl else fl_first_of fl)" "specs \<noteq> []"
    and "check_compose_exclusive fl" "parse_compose_clauses env specs = Inr cls"
    and "parse_duration (fl_timeout fl) = Inr (Fin d)"
    and "open_for_wait env None (fl_since fl) = None"
  shows "\<exists>n \<le> length (we_arrivals env). \<exists>fs.
     fs = delivered_of (we_loads env) (take n (we_arrivals env))
     \<and> (let met = clauses_met (fl_all_of fl \<noteq> []) cls; last_item = ar_item (last (take n (we_arrivals env))) in
        case wait env fl of
          Exit c \<Rightarrow>
            (c = 0 \<and> fs \<noteq> [] \<and> met fs \<and> \<not> met (butlast fs))
            \<or> (\<not> met fs
               \<and> (c = 124 \<and> list_all (\<lambda>a. passes_over (we_loads env) (ar_item a)) (take n (we_arrivals env))
                  \<or> n > 0 \<and> (c = 130 \<and> last_item = Interrupted
                             \<or> c = 2 \<and> last_item \<in> {GotEof, GotBadFraming})))
        | Uncaught x \<Rightarrow> \<not> met fs \<and> (\<exists>y. x = WaitSub y))"
proof -
  let ?D = "build_composed_decide cls (fl_all_of fl \<noteq> [])"
  obtain n e st fs where n: "n \<le> length (we_arrivals env)"
    and ap: "await_predicate (we_loads env) ?D (Some d) False (we_arrivals env) (we_now env) None
        (new_tracker cls, None) = (e, st)"
    and fs: "fs = delivered_of (we_loads env) (take n (we_arrivals env))"
    and e: "e \<noteq> StillWaiting" "stopped_by (we_loads env) (take n (we_arrivals env)) e"
    and sat: "if e = Returned OUTCOME_MATCHED
       then fs \<noteq> [] \<and> clauses_met (fl_all_of fl \<noteq> []) cls fs \<and> \<not> clauses_met (fl_all_of fl \<noteq> []) cls (butlast fs)
       else \<not> clauses_met (fl_all_of fl \<noteq> []) cls fs"
    using composed.engine[where cls = cls and conjunction = "fl_all_of fl \<noteq> []",
        of "we_arrivals env" "we_loads env" d False "we_now env" None] by blast
  have run: "wait env fl =
      (case e of Returned w \<Rightarrow> dispatch_composed_outcome w | Raised x \<Rightarrow> Uncaught (WaitSub x)
       | StillWaiting \<Rightarrow> Uncaught (WaitSelect (Fin d)))"
    using assms by (auto simp: wait_def wait_composed_def run_engine_def ap split: await_end.split)
  show ?thesis
    using stopped_endings[OF e(2,1)]
  proof (elim disjE exE conjE)
    assume "e = Returned OUTCOME_TIMED_OUT"
    then have "wait env fl = Exit 124 \<and> list_all (\<lambda>a. passes_over (we_loads env) (ar_item a)) (take n (we_arrivals env))"
      using e(2) by (simp add: run dispatch_composed_outcome_def OUTCOME_TIMED_OUT_def EXIT_defs stopped_by_def)
    then show ?thesis
      using sat n fs \<open>e = _\<close> by (intro exI[of _ n] conjI exI[of _ fs]) (simp_all add: Let_def)
  next
    assume "e = Returned OUTCOME_MATCHED"
    then have "wait env fl = Exit 0" by (simp add: run dispatch_composed_outcome_def OUTCOME_MATCHED_def EXIT_defs)
    then show ?thesis
      using sat n fs \<open>e = _\<close> by (intro exI[of _ n] conjI exI[of _ fs]) (simp_all add: Let_def)
  qed (use sat n fs in \<open>(intro exI[of _ n] conjI exI[of _ fs];
      simp add: run dispatch_composed_outcome_def OUTCOME_defs EXIT_defs Let_def)+\<close>)
qed

section \<open>Flags are refused before the daemon is contacted\<close>

definition flags_ok :: "wait_env \<Rightarrow> wait_flags \<Rightarrow> bool" where
  "flags_ok env fl \<longleftrightarrow>
     res_ok (parse_duration (fl_timeout fl))
     \<and> (if fl_all_of fl \<noteq> [] \<or> fl_first_of fl \<noteq> []
        then check_compose_exclusive fl
             \<and> res_ok (parse_compose_clauses env (if fl_all_of fl \<noteq> [] then fl_all_of fl else fl_first_of fl))
        else (case build_predicate env fl of
                Inl _ \<Rightarrow> False | Inr (p, src) \<Rightarrow> res_ok (resolve_repo env fl src)))"

lemma build_predicate_code: "build_predicate env fl = Inl c \<Longrightarrow> c = 2"
  by (auto simp: build_predicate_def effective_source_of_def EXIT_defs Let_def
      split: option.splits if_splits sum.splits)

lemma resolve_repo_code: "resolve_repo env fl src = Inl c \<Longrightarrow> c = 2"
  by (auto simp: resolve_repo_def EXIT_defs Let_def split: option.splits if_splits)

lemma parse_compose_clauses_code: "parse_compose_clauses env specs = Inl c \<Longrightarrow> c = 2"
proof (induction specs)
  case (Cons a specs)
  then show ?case by (cases "parse_compose_clauses env specs") (auto simp: EXIT_defs split: sum.splits)
qed simp

lemma parse_compose_clauses_env [simp]:
  "parse_compose_clauses (env\<lparr>we_connect := c, we_arrivals := as\<rparr>) specs = parse_compose_clauses env specs"
  by (induction specs) (simp_all split: sum.split)

lemma build_predicate_env [simp]:
  "build_predicate (env\<lparr>we_connect := c, we_arrivals := as\<rparr>) fl = build_predicate env fl"
  by (cases env) (simp only: build_predicate_def build_predicates_def wait_env.simps)

lemma resolve_repo_env [simp]:
  "resolve_repo (env\<lparr>we_connect := c, we_arrivals := as\<rparr>) fl src = resolve_repo env fl src"
  by (cases env) (simp only: resolve_repo_def wait_env.simps)

lemma flags_ok_env [simp]:
  "flags_ok (env\<lparr>we_connect := c, we_arrivals := as\<rparr>) fl = flags_ok env fl"
  unfolding flags_ok_def build_predicate_env resolve_repo_env parse_compose_clauses_env ..

lemma open_connected: "we_connect env = Connected \<Longrightarrow> open_for_wait env fs since \<noteq> Some (Exit 2)"
  by (auto simp: open_for_wait_def open_subscriber_def resolve_since_def
      split: sum.splits option.splits prod.splits open_error.splits)

lemma silent_engine:
  "we_arrivals env = [] \<Longrightarrow>
     (\<exists>x. run_engine env decide f s = Inl x) \<or> run_engine env decide f s = Inr (OUTCOME_TIMED_OUT, s)"
  by (cases f) (auto simp: run_engine_def await_predicate_def Let_def)

lemma wait_of_bad_flags: "\<not> flags_ok env fl \<Longrightarrow> wait env fl = Exit 2"
  by (auto simp: flags_ok_def wait_def wait_single_def res_ok_iff EXIT_STARTUP_def
      dest: build_predicate_code resolve_repo_code parse_compose_clauses_code split: sum.splits)

lemma wait_of_silent_daemon:
  assumes "flags_ok env fl" "we_connect env = Connected" "we_arrivals env = []"
  shows "wait env fl \<noteq> Exit 2"
proof -
  obtain d where d: "parse_duration (fl_timeout fl) = Inr d"
    using assms(1) by (auto simp: flags_ok_def res_ok_iff)
  note quiet = silent_engine[OF assms(3)]
  show ?thesis
  proof (cases "fl_all_of fl \<noteq> [] \<or> fl_first_of fl \<noteq> []")
    case True
    then obtain cls where cls: "check_compose_exclusive fl"
      "parse_compose_clauses env (if fl_all_of fl \<noteq> [] then fl_all_of fl else fl_first_of fl) = Inr cls"
      using assms(1) by (auto simp: flags_ok_def res_ok_iff)
    have "wait env fl = wait_composed env cls (fl_all_of fl \<noteq> []) d (fl_since fl)"
      using d True cls by (simp add: wait_def)
    then show ?thesis
      using quiet[of "build_composed_decide cls (fl_all_of fl \<noteq> [])" d "(new_tracker cls, None)"]
        open_connected[OF assms(2), of None "fl_since fl"]
      by (auto simp: wait_composed_def dispatch_composed_outcome_def OUTCOME_TIMED_OUT_def EXIT_defs split: option.split)
  next
    case False
    then obtain p src repo where p: "build_predicate env fl = Inr (p, src)" "resolve_repo env fl src = Inr repo"
      using assms(1) by (auto simp: flags_ok_def res_ok_iff split: sum.splits)
    have "wait env fl = wait_single env fl d" using d False by (simp add: wait_def)
    then show ?thesis
      using quiet[of "build_decide p" d "Inr (None, None)"]
        open_connected[OF assms(2), of "map_option (\<lambda>r. [r]) repo" "fl_since fl"] p
      by (auto simp: wait_single_def dispatch_outcome_def OUTCOME_TIMED_OUT_def EXIT_defs split: option.split)
  qed
qed


section \<open>Durations\<close>

lemma digit_char: "n < 10 \<Longrightarrow> is_ascii_digit (char_of (48 + n :: nat))"
  by (simp add: is_ascii_digit_def chr_in_def)

lemma nat_str_digits: "list_all is_ascii_digit (nat_str n) \<and> nat_str n \<noteq> []"
  by (induction n rule: nat_str.induct) (subst (1 2) nat_str.simps, simp add: digit_char)

lemma nat_str_value: "foldl (\<lambda>a c. a * 10 + (of_char c - 48)) 0 (nat_str n) = (n :: nat)"
proof (induction n rule: nat_str.induct)
  case (1 n)
  then show ?case by (subst nat_str.simps) simp
qed

lemma digit_not_space: "is_ascii_digit c \<Longrightarrow> \<not> is_space c \<and> to_lower c = c \<and> c \<notin> set ''+-_.ean''"
  by (auto simp: is_ascii_digit_def is_space_def chr_in_def to_lower_def is_ascii_upper_def)

lemma digits_facts:
  assumes "list_all is_ascii_digit s" "s \<noteq> []"
  shows "strip s = s" "lower s = s" "signed_part s = (1, s)"
    "partition_on (CHR ''e'') s = (s, False, [])" "partition_on (CHR ''.'') s = (s, False, [])"
    "split_on (CHR ''_'') s = [s]" "s \<noteq> ''inf'' \<and> s \<noteq> ''infinity'' \<and> s \<noteq> ''nan''"
proof -
  have d: "c \<in> set s \<Longrightarrow> \<not> is_space c \<and> to_lower c = c \<and> c \<notin> set ''+-_.ean''" for c
    using assms(1) digit_not_space by (auto simp: list_all_iff)
  show "strip s = s" using d assms(2) by (intro strip_id) auto
  show "lower s = s" using d by (simp add: lower_def map_idI)
  show "signed_part s = (1, s)" using d assms(2) by (cases s) (auto simp: signed_part_def)
  have part: "x \<notin> set t \<Longrightarrow> partition_on x t = (t, False, [])" for x and t :: string by (induction t) auto
  show "partition_on (CHR ''e'') s = (s, False, [])" "partition_on (CHR ''.'') s = (s, False, [])"
    using d by (auto intro!: part)
  have split: "x \<notin> set t \<Longrightarrow> split_on x t = [t]" for x and t :: string by (induction t) auto
  show "split_on (CHR ''_'') s = [s]" using d by (auto intro!: split)
  have "CHR ''n'' \<notin> set s" using d[of "CHR ''n''"] by auto
  then show "s \<noteq> ''inf'' \<and> s \<noteq> ''infinity'' \<and> s \<noteq> ''nan''" by auto
qed

lemma py_float_nat: "py_float (nat_str n) = Some (Fin (of_nat n))"
proof -
  note d = digits_facts[OF conjunct1[OF nat_str_digits] conjunct2[OF nat_str_digits], of n]
  have "digit_groups (nat_str n) = Some n"
    using nat_str_digits[of n] by (simp add: digit_groups_def d nat_str_value)
  then have "parse_mantissa (nat_str n) = Some (of_nat n)"
    using nat_str_digits[of n] by (simp add: parse_mantissa_def d digit_groups_def)
  then show ?thesis using d(7) by (simp add: py_float_def d parse_unsigned_def)
qed

text \<open>A duration written as a positive integer, bare or with one of the four suffixes, is read
  as that many units of 1, 60, 3600 or 86400 seconds.\<close>

theorem duration_roundtrip:
  assumes "0 < n"
  shows "parse_duration (nat_str n) = Inr (Fin (of_nat n))
       \<and> (\<forall>(c, u)\<in>set UNITS. parse_duration (nat_str n @ [c]) = Inr (Fin (of_nat n * u)))"
proof -
  note d = digits_facts[OF conjunct1[OF nat_str_digits] conjunct2[OF nat_str_digits], of n]
  have "last (nat_str n) \<in> set (nat_str n)" using nat_str_digits by simp
  then have "is_ascii_digit (last (nat_str n))" using nat_str_digits[of n] by (auto simp: list_all_iff)
  then have "map_of UNITS (last (nat_str n)) = None"
    by (auto simp: UNITS_def is_ascii_digit_def chr_in_def)
  then have "parse_duration (nat_str n) = Inr (Fin (of_nat n))"
    using assms nat_str_digits[of n] by (simp add: parse_duration_def d py_float_nat Let_def)
  moreover have "parse_duration (nat_str n @ [c]) = Inr (Fin (of_nat n * u))" if cu: "(c, u) \<in> set UNITS" for c u
  proof -
    have c: "\<not> is_space c" "to_lower c = c" "u > 0" "map_of UNITS c = Some u"
      using cu by (auto simp: UNITS_def is_space_def chr_in_def to_lower_def is_ascii_upper_def)
    have "hd (nat_str n) \<in> set (nat_str n)" using nat_str_digits[of n] by simp
    then have "\<not> is_space (hd (nat_str n @ [c]))"
      using nat_str_digits[of n] digit_not_space by (auto simp: list_all_iff)
    then have "strip (nat_str n @ [c]) = nat_str n @ [c]" using c by (intro strip_id) auto
    moreover have "lower (nat_str n @ [c]) = nat_str n @ [c]" using d(2) c by (simp add: lower_def)
    ultimately show ?thesis using c assms by (simp add: parse_duration_def py_float_nat Let_def mult_le_0_iff)
  qed
  ultimately show ?thesis by blast
qed

theorem duration_roundtrip_witness: "parse_duration ''90m'' = Inr (Fin 5400)"
proof -
  have "nat_str 90 = ''90''" by code_simp
  then show ?thesis using duration_roundtrip[of 90] by (simp add: UNITS_def)
qed

text \<open>A timeout of \<open>nan\<close> or \<open>inf\<close> parses and is no positive number of seconds.\<close>

lemma duration_not_finite: "parse_duration ''nan'' = Inr NaN" "parse_duration ''inf'' = Inr PInf"
  by code_simp+

section \<open>Witnesses\<close>

definition sample_flags :: wait_flags where
  "sample_flags = \<lparr>fl_sha = None, fl_match = [''a=1''], fl_cond = [], fl_match_cel = None, fl_match_jmespath = None,
     fl_repo = None, fl_source = None, fl_all_of = [], fl_first_of = [], fl_timeout = ''30s'', fl_since = None,
     fl_exit_status = True\<rparr>"

definition sample_frames_wait :: "bytes \<Rightarrow> json option" where
  "sample_frames_wait b = map_of [([1], JObj [(''a'', JInt 2), (''fields'', JObj [(''source'', JStr ''fs'')])]),
     ([2], JObj [(''a'', JInt 1), (''fields'', JObj [(''source'', JStr ''github''), (''conclusion'', JStr ''failure'')])])] b"

definition sample_env_wait :: wait_env where
  "sample_env_wait = \<lparr>we_loads = sample_frames_wait, we_literal = sample_loads, we_dumps = (\<lambda>_. [7]), we_quote = sample_dumps,
     we_conditions = [], we_evaluators = [], we_detect_repo = None, we_connect = Connected,
     we_arrivals = map (\<lambda>b. \<lparr>ar_ready = 1, ar_done = 1, ar_item = GotPayload [b]\<rparr>) [1, 2], we_now = 0\<rparr>"

lemma open_for_wait_small:
  "we_connect env = Connected \<Longrightarrow> (\<And>j. length (we_dumps env j) \<le> MAX_FRAME_BYTES)
     \<Longrightarrow> open_for_wait env fs since = None"
  by (cases since) (simp_all add: open_for_wait_def open_subscriber_def resolve_since_def encode_frame_def not_less)

lemma sample_open [simp]: "open_for_wait sample_env_wait fs since = None"
  by (rule open_for_wait_small) (simp_all add: sample_env_wait_def MAX_FRAME_BYTES_def)

abbreviation sample_predicate :: predicate where
  "sample_predicate \<equiv> \<lparr>pr_evaluate = match_items [(''a'', [JInt 1])], pr_source = ''a=1''\<rparr>"

lemma sample_pieces:
  "parse_duration (fl_timeout sample_flags) = Inr (Fin 30)"
  "build_predicate sample_env_wait sample_flags = Inr (sample_predicate, None)"
  "resolve_repo sample_env_wait sample_flags None = Inr None"
proof -
  show "parse_duration (fl_timeout sample_flags) = Inr (Fin 30)" by code_simp
  have "match_specs sample_loads [''a=1''] [] = Inr [(''a'', [JInt 1])]" by code_simp
  then have "parse_match sample_loads [''a=1''] = Inr sample_predicate"
    by (simp add: parse_match_def del: match_specs.simps)
  then show "build_predicate sample_env_wait sample_flags = Inr (sample_predicate, None)"
    by (simp add: build_predicate_def effective_source_of_def build_predicates_def sample_flags_def
        sample_env_wait_def opt_evaluator_def compose_def Let_def)
  show "resolve_repo sample_env_wait sample_flags None = Inr None" by code_simp
qed

lemma sample_engine: "run_engine sample_env_wait (build_decide sample_predicate) (Fin 30) (Inr (None, None))
    = Inr (OUTCOME_MATCHED, Inr (Some 1, Some ''github''))"
  by code_simp

lemma sample_wait: "wait sample_env_wait sample_flags = Exit 1"
  using sample_pieces sample_engine
  by (simp add: wait_def wait_single_def dispatch_outcome_def OUTCOME_MATCHED_def) (simp add: sample_flags_def)

theorem wait_exit_code_spec_witness:
  "\<exists>n \<le> 2. \<exists>fs. fs = delivered_of sample_frames_wait (take n (we_arrivals sample_env_wait))
     \<and> fs \<noteq> [] \<and> frame_code sample_predicate (last fs) = Some (Inr 1)"
proof -
  have "fl_all_of sample_flags = []" "fl_first_of sample_flags = []" by (simp_all add: sample_flags_def)
  from wait_exit_code_spec[OF this sample_pieces sample_open] obtain n fs where
    "n \<le> length (we_arrivals sample_env_wait)"
    "fs = delivered_of sample_frames_wait (take n (we_arrivals sample_env_wait))"
    "fs \<noteq> []" "frame_code sample_predicate (last fs) = Some (Inr 1)"
    unfolding sample_wait by (auto simp: Let_def sample_flags_def sample_env_wait_def)
  moreover have "length (we_arrivals sample_env_wait) = 2" by (simp add: sample_env_wait_def)
  ultimately show ?thesis by auto
qed

definition composed_flags :: wait_flags where
  "composed_flags = sample_flags\<lparr>fl_match := [], fl_first_of := [''fs:a=2'']\<rparr>"

abbreviation sample_clause :: predicate where
  "sample_clause \<equiv> \<lparr>pr_evaluate = match_items [(''fields.source'', [JStr ''fs'']), (''a'', [JInt 2])], pr_source = ''fs:a=2''\<rparr>"

lemma composed_pieces:
  "check_compose_exclusive composed_flags"
  "parse_compose_clauses sample_env_wait [''fs:a=2''] = Inr [sample_clause]"
  "parse_duration (fl_timeout composed_flags) = Inr (Fin 30)"
  "fl_all_of composed_flags = []" "fl_first_of composed_flags = [''fs:a=2'']"
proof -
  show "check_compose_exclusive composed_flags" by code_simp
  show "parse_duration (fl_timeout composed_flags) = Inr (Fin 30)" by code_simp
  show "fl_all_of composed_flags = []" "fl_first_of composed_flags = [''fs:a=2'']"
    by (simp_all add: composed_flags_def sample_flags_def)
  have "match_specs sample_loads [''fields.source='' @ sample_dumps ''fs'', ''a=2''] []
      = Inr [(''fields.source'', [JStr ''fs'']), (''a'', [JInt 2])]" by code_simp
  then have "parse_match sample_loads [''fields.source='' @ sample_dumps ''fs'', ''a=2'']
      = Inr \<lparr>pr_evaluate = match_items [(''fields.source'', [JStr ''fs'']), (''a'', [JInt 2])],
             pr_source = join_with '' '' [''fields.source='' @ sample_dumps ''fs'', ''a=2'']\<rparr>"
    by (simp add: parse_match_def del: match_specs.simps append.simps)
  moreover have "parse_clause ''fs:a=2'' = Inr \<lparr>cl_source = ''fs'', cl_spec = ''a=2'', cl_text = ''fs:a=2''\<rparr>" by code_simp
  ultimately show "parse_compose_clauses sample_env_wait [''fs:a=2''] = Inr [sample_clause]"
    by (simp add: clause_predicate_def sample_env_wait_def del: append.simps)
qed

lemma composed_engine:
  "case run_engine sample_env_wait (build_composed_decide [sample_clause] False) (Fin 30) (new_tracker [sample_clause], None)
     of Inr (w, _) \<Rightarrow> w = OUTCOME_MATCHED | _ \<Rightarrow> False"
  by code_simp

lemma composed_wait: "wait sample_env_wait composed_flags = Exit 0"
  using composed_pieces composed_engine
  by (auto simp: wait_def wait_composed_def dispatch_composed_outcome_def OUTCOME_MATCHED_def EXIT_defs split: sum.splits)

theorem composed_wait_spec_witness:
  "\<exists>n \<le> 2. clauses_met False [sample_clause] (delivered_of sample_frames_wait (take n (we_arrivals sample_env_wait)))"
proof -
  have "[''fs:a=2''] = (if fl_all_of composed_flags \<noteq> [] then fl_all_of composed_flags else fl_first_of composed_flags)"
    by (simp add: composed_pieces)
  from composed_wait_spec[OF this _ composed_pieces(1,2,3) sample_open] obtain n where
    "n \<le> length (we_arrivals sample_env_wait)"
    "clauses_met False [sample_clause] (delivered_of (we_loads sample_env_wait) (take n (we_arrivals sample_env_wait)))"
    unfolding composed_wait by (auto simp: Let_def composed_pieces)
  moreover have "length (we_arrivals sample_env_wait) = 2" "we_loads sample_env_wait = sample_frames_wait"
    by (simp_all add: sample_env_wait_def)
  ultimately show ?thesis by auto
qed

end
