(* ===== verification/WB_Allowlist.thy ===== *)
theory WB_Allowlist
  imports WB_Py "HOL-Library.AList"
begin

text \<open>
  Operator policy and publisher pins, \<open>waitbus/sources/_config.py\<close>: the plugin policy of
  \<open>config.toml\<close> with its environment overrides, and the trust-on-first-use allowlist
  \<open>plugins.allowlist.toml\<close> with its writer. A file is missing, unreadable or a text. A call that
  writes takes the outcome of the write recipe as an argument: it can fail before \<open>os.replace\<close>
  (the old file stays) or after it (the new file is there, the call raises all the same). The
  advisory lock makes each load-modify-write one step. \<open>tomllib.loads\<close> and \<open>str\<close> of a
  TOML value that is no string are functions of the environment; \<open>toml_fragment\<close> is what TOML
  says of the documents the writer produces.
\<close>

datatype disk_file = Missing | Unreadable | Content string

record toml_env =
  te_loads :: "string \<Rightarrow> dict option"
  te_str :: "json \<Rightarrow> string"

definition toml_str :: "toml_env \<Rightarrow> json \<Rightarrow> string" where
  "toml_str env j = (case j of JStr s \<Rightarrow> s | _ \<Rightarrow> te_str env j)"

text \<open>\<open>d.get(k, default)\<close>.\<close>

definition get_default :: "dict \<Rightarrow> string \<Rightarrow> json \<Rightarrow> json" where
  "get_default d k x = (case map_of d k of None \<Rightarrow> x | Some v \<Rightarrow> v)"

section \<open>Plugin policy\<close>

record plugin_policy =
  pp_autoload :: bool
  pp_allow :: "string list"
  pp_deny :: "string list"

text \<open>The list under a key of the \<open>[plugins]\<close> table.\<close>

definition policy_names :: "toml_env \<Rightarrow> dict \<Rightarrow> string \<Rightarrow> string list" where
  "policy_names env section k =
     (case get_default section k (JArr []) of JArr xs \<Rightarrow> map (toml_str env) xs | _ \<Rightarrow> [])"

text \<open>\<open>None\<close> is the \<open>RuntimeError\<close> of an unreadable or malformed \<open>config.toml\<close>;
  \<open>disable\<close> and \<open>plugins\<close> are the two environment variables.\<close>

definition load_plugin_policy ::
    "toml_env \<Rightarrow> disk_file \<Rightarrow> string option \<Rightarrow> string option \<Rightarrow> plugin_policy option" where
  "load_plugin_policy env file disable plugins =
     map_option
       (\<lambda>p. p\<lparr>pp_autoload := (case disable of Some (_ # _) \<Rightarrow> False | _ \<Rightarrow> pp_autoload p),
             pp_allow := (case plugins of
                            None \<Rightarrow> pp_allow p
                          | Some s \<Rightarrow> filter (\<lambda>n. n \<noteq> []) (map strip (split_on (CHR '','') s)))\<rparr>)
       (case file of
          Missing \<Rightarrow> Some \<lparr>pp_autoload = True, pp_allow = [], pp_deny = []\<rparr>
        | Unreadable \<Rightarrow> None
        | Content text \<Rightarrow>
            (case te_loads env text of
               None \<Rightarrow> None
             | Some data \<Rightarrow>
                 (case get_default data ''plugins'' (JObj []) of
                    JObj section \<Rightarrow>
                      Some \<lparr>pp_autoload = truthy (get_default section ''autoload'' (JBool True)),
                            pp_allow = policy_names env section ''allow'',
                            pp_deny = policy_names env section ''deny''\<rparr>
                  | _ \<Rightarrow> Some \<lparr>pp_autoload = True, pp_allow = [], pp_deny = []\<rparr>)))"

section \<open>Publisher pins\<close>

record publisher_pin =
  pin_name :: string
  pin_kind :: string
  pin_identity :: string
  pin_first_at :: string

type_synonym allowlist = "(string \<times> publisher_pin) list"

definition for_source :: "allowlist \<Rightarrow> string \<Rightarrow> publisher_pin option" where
  "for_source al name = map_of al name"

text \<open>The loop of \<open>load_allowlist\<close> over the \<open>[[source]]\<close> tables.\<close>

fun load_pins :: "toml_env \<Rightarrow> json list \<Rightarrow> allowlist \<Rightarrow> allowlist" where
  "load_pins env [] pins = pins"
| "load_pins env (JObj raw # rest) pins =
     (let name = toml_str env (get_default raw ''name'' (JStr []))
      in if name = [] then load_pins env rest pins
         else load_pins env rest
                (AList.update name
                   \<lparr>pin_name = name,
                    pin_kind = toml_str env (get_default raw ''publisher_kind'' (JStr ''unknown'')),
                    pin_identity = toml_str env (get_default raw ''publisher_identity'' (JStr ''unknown'')),
                    pin_first_at = toml_str env (get_default raw ''first_pinned_at'' (JStr []))\<rparr> pins))"
| "load_pins env (_ # rest) pins = load_pins env rest pins"

text \<open>\<open>None\<close> is \<open>AllowlistCorruptError\<close>.\<close>

definition load_allowlist :: "toml_env \<Rightarrow> disk_file \<Rightarrow> allowlist option" where
  "load_allowlist env file =
     (case file of
        Missing \<Rightarrow> Some []
      | Unreadable \<Rightarrow> None
      | Content text \<Rightarrow>
          (case te_loads env text of
             None \<Rightarrow> None
           | Some data \<Rightarrow>
               (case get_default data ''source'' (JArr []) of
                  JArr raw_sources \<Rightarrow> Some (load_pins env raw_sources [])
                | _ \<Rightarrow> None)))"

text \<open>\<open>s.replace(c, r)\<close> for one character.\<close>

definition replace_char :: "char \<Rightarrow> string \<Rightarrow> string \<Rightarrow> string" where
  "replace_char c r s = concat (map (\<lambda>x. if x = c then r else [x]) s)"

definition escape :: "string \<Rightarrow> string" where
  "escape s = replace_char (CHR 34) [CHR 92, CHR 34] (replace_char (CHR 92) [CHR 92, CHR 92] s)"

definition toml_line :: "string \<Rightarrow> string \<Rightarrow> string" where
  "toml_line key v = key @ '' = '' @ [CHR 34] @ escape v @ [CHR 34, CHR 10]"

definition render_pin :: "publisher_pin \<Rightarrow> string" where
  "render_pin pin = ''[[source]]'' @ [CHR 10] @ toml_line ''name'' (pin_name pin)
     @ toml_line ''publisher_kind'' (pin_kind pin)
     @ toml_line ''publisher_identity'' (pin_identity pin)
     @ toml_line ''first_pinned_at'' (pin_first_at pin) @ [CHR 10]"

definition allowlist_header :: string where
  "allowlist_header = ''# waitbus plugin publisher allowlist (TOFU-pinned).'' @ [CHR 10]
     @ ''# Managed by `waitbus allowlist add|remove|list`. Operators MAY'' @ [CHR 10]
     @ ''# edit by hand; the format is stable.'' @ [CHR 10, CHR 10]"

definition render_allowlist :: "allowlist \<Rightarrow> string" where
  "render_allowlist al =
     allowlist_header @ concat (map (\<lambda>name. render_pin (the (map_of al name))) (sort (map fst al)))"

datatype write_outcome = Written | FailsBefore | FailsAfterReplace

datatype pin_error = AllowlistCorrupt | PinOverwrite | WriteFailed

definition write_allowlist :: "write_outcome \<Rightarrow> allowlist \<Rightarrow> disk_file \<Rightarrow> (pin_error + unit) \<times> disk_file" where
  "write_allowlist io al file =
     (case io of
        Written \<Rightarrow> (Inr (), Content (render_allowlist al))
      | FailsBefore \<Rightarrow> (Inl WriteFailed, file)
      | FailsAfterReplace \<Rightarrow> (Inl WriteFailed, Content (render_allowlist al)))"

definition append_publisher_pin ::
    "toml_env \<Rightarrow> write_outcome \<Rightarrow> string \<Rightarrow> string \<Rightarrow> string \<Rightarrow> string \<Rightarrow> disk_file
       \<Rightarrow> (pin_error + publisher_pin) \<times> disk_file" where
  "append_publisher_pin env io now name kind identity file =
     (case load_allowlist env file of
        None \<Rightarrow> (Inl AllowlistCorrupt, file)
      | Some existing \<Rightarrow>
          (case for_source existing name of
             Some prior \<Rightarrow>
               (if pin_kind prior = kind \<and> pin_identity prior = identity then (Inr prior, file)
                else (Inl PinOverwrite, file))
           | None \<Rightarrow>
               (let new_pin = \<lparr>pin_name = name, pin_kind = kind, pin_identity = identity, pin_first_at = now\<rparr>
                in (case write_allowlist io (AList.update name new_pin existing) file of
                      (Inl e, file') \<Rightarrow> (Inl e, file')
                    | (Inr _, file') \<Rightarrow> (Inr new_pin, file')))))"

definition remove_publisher_pin ::
    "toml_env \<Rightarrow> write_outcome \<Rightarrow> string \<Rightarrow> disk_file \<Rightarrow> (pin_error + bool) \<times> disk_file" where
  "remove_publisher_pin env io name file =
     (case load_allowlist env file of
        None \<Rightarrow> (Inl AllowlistCorrupt, file)
      | Some existing \<Rightarrow>
          (if for_source existing name = None then (Inr False, file)
           else (case write_allowlist io (filter (\<lambda>p. fst p \<noteq> name) existing) file of
                   (Inl e, file') \<Rightarrow> (Inl e, file')
                 | (Inr _, file') \<Rightarrow> (Inr True, file'))))"

section \<open>The documents the writer produces, as TOML reads them\<close>

text \<open>A character that may stand unescaped in a basic string: no ASCII control but the tab.\<close>

definition toml_plain :: "char \<Rightarrow> bool" where
  "toml_plain c \<longleftrightarrow> c = CHR 9 \<or> 32 \<le> (of_char c :: nat) \<and> c \<noteq> CHR 127"

text \<open>A basic string behind its opening quote: its content and what follows its closing quote.\<close>

fun toml_basic :: "string \<Rightarrow> (string \<times> string) option" where
  "toml_basic [] = None"
| "toml_basic (c # cs) =
     (if c = CHR 34 then Some ([], cs)
      else if c = CHR 92 then
        (case cs of
           d # ds \<Rightarrow> if d = CHR 34 \<or> d = CHR 92
                     then map_option (\<lambda>(v, r). (d # v, r)) (toml_basic ds) else None
         | [] \<Rightarrow> None)
      else if toml_plain c then map_option (\<lambda>(v, r). (c # v, r)) (toml_basic cs) else None)"

datatype toml_item = Blank | Table | KeyVal string string

definition bare_key_char :: "char \<Rightarrow> bool" where
  "bare_key_char c \<longleftrightarrow> is_ascii_upper c \<or> is_ascii_lower c \<or> is_ascii_digit c \<or> c = CHR ''_'' \<or> c = CHR ''-''"

definition toml_item_of :: "string \<Rightarrow> toml_item option" where
  "toml_item_of l =
     (if l = [] then Some Blank
      else if hd l = CHR ''#'' then (if list_all toml_plain l then Some Blank else None)
      else if l = ''[[source]]'' then Some Table
      else (let key = takeWhile bare_key_char l; rest = dropWhile bare_key_char l in
            if key = [] \<or> \<not> starts_with ('' = '' @ [CHR 34]) rest then None
            else (case toml_basic (drop 4 rest) of
                    Some (v, []) \<Rightarrow> Some (KeyVal key v) | _ \<Rightarrow> None)))"

fun toml_run :: "string list \<Rightarrow> dict list \<Rightarrow> dict list option" where
  "toml_run [] acc = Some acc"
| "toml_run (l # ls) acc =
     (case toml_item_of l of
        None \<Rightarrow> None
      | Some Blank \<Rightarrow> toml_run ls acc
      | Some Table \<Rightarrow> toml_run ls ([] # acc)
      | Some (KeyVal k v) \<Rightarrow>
          (case acc of
             [] \<Rightarrow> None
           | t # ts \<Rightarrow> if k \<in> fst ` set t then None else toml_run ls ((t @ [(k, JStr v)]) # ts)))"

definition toml_fragment :: "string \<Rightarrow> dict option" where
  "toml_fragment text =
     map_option (\<lambda>ts. if ts = [] then [] else [(''source'', JArr (map JObj (rev ts)))])
       (toml_run (split_on (CHR 10) text) [])"

lemma split_on_line: "sep \<notin> set a \<Longrightarrow> split_on sep (a @ sep # b) = a # split_on sep b"
  by (induction a) auto

lemma escape_simps [simp]:
  "escape [] = []"
  "escape (c # cs) = (if c = CHR 34 then [CHR 92, CHR 34] else if c = CHR 92 then [CHR 92, CHR 92] else [c]) @ escape cs"
  by (simp_all add: escape_def replace_char_def)

lemma escape_lines: "list_all toml_plain v \<Longrightarrow> CHR 10 \<notin> set (escape v)"
  by (induction v) (auto simp: toml_plain_def)

lemma toml_basic_escape: "list_all toml_plain v \<Longrightarrow> toml_basic (escape v @ CHR 34 # r) = Some (v, r)"
  by (induction v) auto

text \<open>One line of the writer is one item.\<close>

lemma toml_line_item:
  assumes "key \<noteq> []" "list_all bare_key_char key" "list_all toml_plain v"
  shows "toml_run (split_on (CHR 10) (toml_line key v @ rest)) (t # ts)
       = (if key \<in> fst ` set t then None
          else toml_run (split_on (CHR 10) rest) ((t @ [(key, JStr v)]) # ts))"
proof -
  let ?l = "key @ '' = '' @ [CHR 34] @ escape v @ [CHR 34]"
  have chars: "\<not> bare_key_char (CHR '' '')" "\<not> bare_key_char (CHR ''#'')" "\<not> bare_key_char (CHR ''['')"
    "\<not> bare_key_char (CHR 10)" by code_simp+
  have nl: "CHR 10 \<notin> set ?l"
    using assms(2) escape_lines[OF assms(3)] chars(4) by (auto simp: list_all_iff)
  have line: "toml_line key v @ rest = ?l @ CHR 10 # rest" by (simp add: toml_line_def)
  obtain c cs where key: "key = c # cs" "bare_key_char c" using assms(1,2) by (cases key) auto
  have not_special: "hd ?l \<noteq> CHR ''#''" "?l \<noteq> ''[[source]]''" "?l \<noteq> []"
    using key chars by (auto simp: append_eq_Cons_conv)
  have key_part: "takeWhile bare_key_char ?l = key" "dropWhile bare_key_char ?l = '' = '' @ [CHR 34] @ escape v @ [CHR 34]"
    using assms(2) chars(1) by (simp_all add: list_all_iff takeWhile_append2 dropWhile_append2)
  have "toml_item_of ?l = Some (KeyVal key v)"
    unfolding toml_item_of_def Let_def key_part
    using not_special assms(1) toml_basic_escape[OF assms(3), of "[]"] by (simp add: starts_with_def)
  then show ?thesis using split_on_line[OF nl, of rest] by (simp add: line)
qed

definition pin_table :: "publisher_pin \<Rightarrow> dict" where
  "pin_table pin = [(''name'', JStr (pin_name pin)), (''publisher_kind'', JStr (pin_kind pin)),
     (''publisher_identity'', JStr (pin_identity pin)), (''first_pinned_at'', JStr (pin_first_at pin))]"

definition pin_plain :: "publisher_pin \<Rightarrow> bool" where
  "pin_plain pin \<longleftrightarrow> pin_name pin \<noteq> [] \<and> list_all toml_plain (pin_name pin) \<and> list_all toml_plain (pin_kind pin)
     \<and> list_all toml_plain (pin_identity pin) \<and> list_all toml_plain (pin_first_at pin)"

lemma render_pin_run:
  assumes "pin_plain pin"
  shows "toml_run (split_on (CHR 10) (render_pin pin @ rest)) ts
       = toml_run (split_on (CHR 10) rest) (pin_table pin # ts)"
proof -
  have keys: "list_all bare_key_char ''name''" "list_all bare_key_char ''publisher_kind''"
    "list_all bare_key_char ''publisher_identity''" "list_all bare_key_char ''first_pinned_at''" by code_simp+
  have table: "toml_item_of ''[[source]]'' = Some Table" by (simp add: toml_item_of_def)
  have blank: "toml_item_of [] = Some Blank" by (simp add: toml_item_of_def)
  have head: "toml_run (split_on (CHR 10) (''[[source]]'' @ CHR 10 # r)) ts = toml_run (split_on (CHR 10) r) ([] # ts)" for r
    using split_on_line[of "CHR 10" "''[[source]]''" r] table by simp
  show ?thesis
    unfolding render_pin_def using assms keys blank
    by (simp add: head[simplified] toml_line_item pin_plain_def pin_table_def)
qed

lemma header_run: "toml_run (split_on (CHR 10) (allowlist_header @ rest)) ts = toml_run (split_on (CHR 10) rest) ts"
proof -
  have items: "toml_item_of ''# waitbus plugin publisher allowlist (TOFU-pinned).'' = Some Blank"
    "toml_item_of ''# Managed by `waitbus allowlist add|remove|list`. Operators MAY'' = Some Blank"
    "toml_item_of ''# edit by hand; the format is stable.'' = Some Blank" "toml_item_of [] = Some Blank"
    by code_simp+
  show ?thesis by (simp add: allowlist_header_def items)
qed

lemma render_run:
  "list_all pin_plain pins \<Longrightarrow>
     toml_run (split_on (CHR 10) (concat (map render_pin pins))) ts = Some (rev (map pin_table pins) @ ts)"
proof (induction pins arbitrary: ts)
  case Nil
  show ?case by (simp add: toml_item_of_def)
next
  case (Cons pin pins)
  then show ?case by (simp add: render_pin_run)
qed

text \<open>The named assumption on \<open>tomllib\<close>: on these documents it says what TOML says.\<close>

definition toml_reads :: "toml_env \<Rightarrow> bool" where
  "toml_reads env \<longleftrightarrow> (\<forall>text d. toml_fragment text = Some d \<longrightarrow> te_loads env text = Some d)"

definition allowlist_ok :: "allowlist \<Rightarrow> bool" where
  "allowlist_ok al \<longleftrightarrow> distinct (map fst al) \<and> (\<forall>(n, p)\<in>set al. n = pin_name p \<and> pin_plain p)"

lemma load_pins_tables:
  assumes "list_all pin_plain pins" "distinct (map fst acc @ map pin_name pins)"
  shows "load_pins env (map (\<lambda>p. JObj (pin_table p)) pins) acc = acc @ map (\<lambda>p. (pin_name p, p)) pins"
  using assms
proof (induction pins arbitrary: acc)
  case (Cons pin pins)
  have "AList.update (pin_name pin) pin acc = acc @ [(pin_name pin, pin)]"
    if "pin_name pin \<notin> fst ` set acc" using that by (induction acc) auto
  moreover have "pin_name pin \<noteq> []" using Cons.prems(1) by (simp add: pin_plain_def)
  ultimately show ?case
    using Cons.IH[of "acc @ [(pin_name pin, pin)]"] Cons.prems
    by (cases pin) (auto simp: pin_table_def get_default_def toml_str_def Let_def)
qed simp

lemma load_rendered:
  assumes "toml_reads env" "allowlist_ok al"
  shows "\<exists>al'. load_allowlist env (Content (render_allowlist al)) = Some al' \<and> allowlist_ok al' \<and> map_of al' = map_of al"
proof -
  let ?names = "sort (map fst al)"
  let ?pins = "map (\<lambda>n. the (map_of al n)) ?names"
  let ?al = "map (\<lambda>p. (pin_name p, p)) ?pins"
  have named: "map_of al n = Some (the (map_of al n))" "pin_name (the (map_of al n)) = n"
    "pin_plain (the (map_of al n))" if "n \<in> set ?names" for n
    using that assms(2) by (auto simp: allowlist_ok_def case_prod_beta)
  have plain: "list_all pin_plain ?pins" using named(3) by (simp add: list_all_iff)
  have names: "map pin_name ?pins = ?names"
    unfolding map_map comp_def by (rule map_idI) (rule named(2))
  have dist: "distinct ?names" using assms(2) by (simp add: allowlist_ok_def)
  have "render_allowlist al = allowlist_header @ concat (map render_pin ?pins)"
    by (simp add: render_allowlist_def comp_def)
  then have "toml_fragment (render_allowlist al) =
      Some (if ?pins = [] then [] else [(''source'', JArr (map (\<lambda>p. JObj (pin_table p)) ?pins))])"
    using render_run[OF plain, of "[]"] by (simp add: toml_fragment_def header_run rev_map comp_def)
  then have "load_allowlist env (Content (render_allowlist al)) = Some ?al"
    using assms(1) load_pins_tables[OF plain, of "[]" env] dist names
    by (auto simp: toml_reads_def load_allowlist_def get_default_def)
  moreover have "allowlist_ok ?al"
    using plain dist names by (auto simp: allowlist_ok_def list_all_iff comp_def)
  moreover have "map_of ?al = map_of al"
  proof
    fix n
    have "?al = map (\<lambda>n. (n, the (map_of al n))) ?names" using named(2) by simp
    then have "map_of ?al n = ((Some \<circ> (\<lambda>n. the (map_of al n))) |` set ?names) n"
      unfolding map_of_map_restrict[symmetric] by (rule arg_cong)
    then show "map_of ?al n = map_of al n"
      using named(1)[of n] by (cases "n \<in> fst ` set al") (auto simp: restrict_map_def map_of_eq_None_iff[THEN iffD2])
  qed
  ultimately show ?thesis by blast
qed

section \<open>The contract of a pin store\<close>

text \<open>What the trust-on-first-use policy relies on: a pin is recorded once, an append for another
  publisher changes nothing, and only a removal takes a pin away.\<close>

locale pin_store =
  fixes inv :: "'f \<Rightarrow> bool"
    and pins :: "'f \<Rightarrow> string \<Rightarrow> publisher_pin option"
    and append :: "write_outcome \<Rightarrow> publisher_pin \<Rightarrow> 'f \<Rightarrow> (pin_error + publisher_pin) \<times> 'f"
    and remove :: "write_outcome \<Rightarrow> string \<Rightarrow> 'f \<Rightarrow> (pin_error + bool) \<times> 'f"
  assumes append_inv: "inv f \<Longrightarrow> pin_plain p \<Longrightarrow> inv (snd (append io p f))"
    and append_bound: "inv f \<Longrightarrow> pins f (pin_name p) = Some q \<Longrightarrow> snd (append io p f) = f"
    and append_free: "inv f \<Longrightarrow> pin_plain p \<Longrightarrow> pins f (pin_name p) = None \<Longrightarrow>
          pins (snd (append io p f)) = pins f \<and> fst (append io p f) = Inl WriteFailed
          \<or> pins (snd (append io p f)) = (pins f)(pin_name p \<mapsto> p)"
    and remove_inv: "inv f \<Longrightarrow> inv (snd (remove io n f))"
    and remove_pins: "inv f \<Longrightarrow> pins (snd (remove io n f)) = pins f \<or> pins (snd (remove io n f)) = (pins f)(n := None)"
begin

lemma append_keeps: "inv f \<Longrightarrow> pin_plain p \<Longrightarrow> pins f n = Some q \<Longrightarrow> pins (snd (append io p f)) n = Some q"
  using append_bound[of f p _ io] append_free[of f p io] by (cases "pins f (pin_name p)") auto

lemma remove_keeps: "inv f \<Longrightarrow> n \<noteq> m \<Longrightarrow> pins f n = Some q \<Longrightarrow> pins (snd (remove io m f)) n = Some q"
  using remove_pins[of f io m] by auto

text \<open>Any sequence of appends and of removals of other names keeps a pin.\<close>

lemma ops_keep:
  assumes "inv f" "pins f n = Some q"
    and "list_all (\<lambda>op. case op of Inl (io, p) \<Rightarrow> pin_plain p | Inr (io, m) \<Rightarrow> m \<noteq> n) ops"
  shows "let f' = fold (\<lambda>op f. case op of Inl (io, p) \<Rightarrow> snd (append io p f) | Inr (io, m) \<Rightarrow> snd (remove io m f)) ops f
     in inv f' \<and> pins f' n = Some q"
  using assms
proof (induction ops arbitrary: f)
  case (Cons op ops)
  obtain io x where "op = Inl (io, x) \<or> (\<exists>m. op = Inr (io, m))" by (cases op) auto
  then show ?case
    using Cons append_inv append_keeps remove_inv remove_keeps by (auto simp: Let_def)
qed simp

end

text \<open>The file is a pin store.\<close>

definition pins_inv :: "toml_env \<Rightarrow> disk_file \<Rightarrow> bool" where
  "pins_inv env file \<longleftrightarrow> toml_reads env \<and> (\<exists>al. load_allowlist env file = Some al \<and> allowlist_ok al)"

definition pins_of :: "toml_env \<Rightarrow> disk_file \<Rightarrow> string \<Rightarrow> publisher_pin option" where
  "pins_of env file n = (case load_allowlist env file of None \<Rightarrow> None | Some al \<Rightarrow> for_source al n)"

definition append_pin :: "toml_env \<Rightarrow> write_outcome \<Rightarrow> publisher_pin \<Rightarrow> disk_file \<Rightarrow> (pin_error + publisher_pin) \<times> disk_file" where
  "append_pin env io p = append_publisher_pin env io (pin_first_at p) (pin_name p) (pin_kind p) (pin_identity p)"

lemma written_file:
  assumes "toml_reads env" "allowlist_ok al"
  shows "pins_inv env (Content (render_allowlist al))" "pins_of env (Content (render_allowlist al)) = map_of al"
  using load_rendered[OF assms] assms(1) by (auto simp: pins_inv_def pins_of_def for_source_def)

lemma allowlist_ok_update: "allowlist_ok al \<Longrightarrow> pin_plain p \<Longrightarrow> allowlist_ok (AList.update (pin_name p) p al)"
proof -
  assume ok: "allowlist_ok al" "pin_plain p"
  have "set (AList.update (pin_name p) p al) \<subseteq> insert (pin_name p, p) (set al)"
    by (induction al) auto
  then show ?thesis using ok distinct_update[of al "pin_name p" p] by (auto simp: allowlist_ok_def)
qed

lemma allowlist_ok_filter: "allowlist_ok al \<Longrightarrow> allowlist_ok (filter P al)"
  by (auto simp: allowlist_ok_def distinct_map_filter)

text \<open>The two writers on a file that loads.\<close>

lemma append_pin_loaded:
  assumes "load_allowlist env f = Some al"
  shows "append_pin env io p f =
     (case map_of al (pin_name p) of
        Some q \<Rightarrow> (if pin_kind q = pin_kind p \<and> pin_identity q = pin_identity p then Inr q else Inl PinOverwrite, f)
      | None \<Rightarrow> (if io = Written then Inr p else Inl WriteFailed,
                 if io = FailsBefore then f else Content (render_allowlist (AList.update (pin_name p) p al))))"
proof -
  have pin: "\<lparr>pin_name = pin_name p, pin_kind = pin_kind p, pin_identity = pin_identity p, pin_first_at = pin_first_at p\<rparr> = p"
    by simp
  show ?thesis
    unfolding append_pin_def append_publisher_pin_def assms option.case Let_def pin for_source_def write_allowlist_def
    by (cases io) (simp_all split: option.split)
qed

lemma remove_pin_loaded:
  assumes "load_allowlist env f = Some al"
  shows "remove_publisher_pin env io n f =
     (if map_of al n = None then (Inr False, f)
      else (if io = Written then Inr True else Inl WriteFailed,
            if io = FailsBefore then f else Content (render_allowlist (filter (\<lambda>p. fst p \<noteq> n) al))))"
  unfolding remove_publisher_pin_def assms option.case for_source_def write_allowlist_def by (cases io) simp_all

lemma map_of_filter_neq: "map_of (filter (\<lambda>p. fst p \<noteq> n) al) = (map_of al)(n := None)"
  by (induction al) (auto simp: fun_eq_iff)

interpretation pin_file: pin_store "pins_inv env" "pins_of env" "append_pin env" "remove_publisher_pin env" for env
proof
  fix f p q io n
  assume inv: "pins_inv env f"
  then obtain al where al: "load_allowlist env f = Some al" "allowlist_ok al" and toml: "toml_reads env"
    by (auto simp: pins_inv_def)
  have old: "pins_of env f = map_of al" by (simp add: al(1) pins_of_def for_source_def[abs_def] fun_eq_iff)
  let ?up = "Content (render_allowlist (AList.update (pin_name p) p al))"
  let ?down = "Content (render_allowlist (filter (\<lambda>p. fst p \<noteq> n) al))"
  show "pins_of env f (pin_name p) = Some q \<Longrightarrow> snd (append_pin env io p f) = f"
    by (simp add: append_pin_loaded[OF al(1)] old)
  show "pins_inv env (snd (append_pin env io p f))" if "pin_plain p"
    using written_file(1)[OF toml allowlist_ok_update[OF al(2) that]] inv
    by (simp add: append_pin_loaded[OF al(1)] split: option.split)
  show "pins_of env (snd (append_pin env io p f)) = pins_of env f \<and> fst (append_pin env io p f) = Inl WriteFailed
      \<or> pins_of env (snd (append_pin env io p f)) = (pins_of env f)(pin_name p \<mapsto> p)"
    if "pin_plain p" "pins_of env f (pin_name p) = None"
  proof -
    have "pins_of env ?up = (map_of al)(pin_name p \<mapsto> p)"
      unfolding written_file(2)[OF toml allowlist_ok_update[OF al(2) that(1)]] by (rule update_conv')
    then show ?thesis using that(2) old unfolding append_pin_loaded[OF al(1)] by (simp add: old)
  qed
  have down: "pins_inv env ?down" "pins_of env ?down = (map_of al)(n := None)"
    using written_file[OF toml allowlist_ok_filter[OF al(2)]] by (simp_all add: map_of_filter_neq)
  show "pins_inv env (snd (remove_publisher_pin env io n f))"
    using down(1) inv by (simp add: remove_pin_loaded[OF al(1)])
  show "pins_of env (snd (remove_publisher_pin env io n f)) = pins_of env f
      \<or> pins_of env (snd (remove_publisher_pin env io n f)) = (pins_of env f)(n := None)"
    using down(2) old unfolding remove_pin_loaded[OF al(1)] by (simp add: old)
qed



end
