(* ===== verification/WB_Registry.thy ===== *)
theory WB_Registry
  imports WB_Allowlist WB_Types
begin

text \<open>
  Event sources and their plugins: \<open>waitbus/sources/_protocol.py\<close> (the \<open>SourceSpec\<close> a
  source registers with), \<open>_attestation.py\<close> (the publisher a wheel's attestation proves) and
  \<open>_registry.py\<close> (the built-in sources, registration, discovery). The state is the process's
  registry with the allowlist file. An entry point is given by what loading it yields; a plugin by
  its \<open>spec\<close> method as \<open>inspect\<close> sees it and what calling it does. The attestation library
  is a record of functions. Log lines and the texts of exceptions are left out.
\<close>

section \<open>Source specifications\<close>

definition SOURCE_PLUGIN_API_VERSION :: int where "SOURCE_PLUGIN_API_VERSION = 1"

definition FORBIDDEN_FIELD_PREFIXES :: "string list" where
  "FORBIDDEN_FIELD_PREFIXES = [''relay_'', ''auth_'', ''account_'', ''oidc_'', ''tenant_'', ''cluster_'', ''endpoint_'']"

definition spec_name_body :: "string \<Rightarrow> bool" where
  "spec_name_body s \<longleftrightarrow> s \<noteq> [] \<and> is_ascii_lower (hd s)
     \<and> list_all (\<lambda>c. is_ascii_lower c \<or> is_ascii_digit c \<or> c = CHR ''_'') s"

definition SOURCE_NAME_RE :: "string \<Rightarrow> bool" where
  "SOURCE_NAME_RE = dollar_match spec_name_body"

datatype payload_schema = NoSchema | StructClass string | OtherSchema

record source_spec =
  ss_name :: string
  ss_event_types :: "string list"
  ss_payload_schema :: payload_schema
  ss_api_version :: int

datatype spec_error = BadSpecName | NoEventTypes | BadEventType | BadPayloadSchema | BadApiVersion

text \<open>\<open>SourceSpec.__post_init__\<close> on the arguments of the constructor.\<close>

fun name_shaped :: "json \<Rightarrow> bool" where
  "name_shaped (JStr s) = SOURCE_NAME_RE s"
| "name_shaped _ = False"

fun str_of :: "json \<Rightarrow> string" where
  "str_of (JStr s) = s"
| "str_of _ = []"

definition make_source_spec ::
    "json \<Rightarrow> json list \<Rightarrow> payload_schema \<Rightarrow> json \<Rightarrow> spec_error + source_spec" where
  "make_source_spec name event_types schema api_version =
     (if \<not> name_shaped name then Inl BadSpecName
      else if event_types = [] then Inl NoEventTypes
      else if \<not> list_all name_shaped event_types then Inl BadEventType
      else if schema = OtherSchema then Inl BadPayloadSchema
      else (case api_version of
              JInt v \<Rightarrow>
                (if v \<le> 0 then Inl BadApiVersion
                 else Inr \<lparr>ss_name = str_of name, ss_event_types = map str_of event_types,
                           ss_payload_schema = schema, ss_api_version = v\<rparr>)
            | _ \<Rightarrow> Inl BadApiVersion))"

text \<open>\<open>__init_subclass__\<close> raises unless this holds of the subclass's own annotations.\<close>

definition init_subclass :: "string list \<Rightarrow> bool" where
  "init_subclass own_annotations \<longleftrightarrow>
     (\<forall>field_name\<in>set own_annotations. \<forall>p\<in>set FORBIDDEN_FIELD_PREFIXES. \<not> starts_with p field_name)"

section \<open>Attestations\<close>

datatype publisher =
    GitHub string string
  | GitLab string string
  | Google string
  | CircleCI string string
  | OtherPublisher string

fun publisher_kind :: "publisher \<Rightarrow> string" where
  "publisher_kind (GitHub _ _) = ''GitHub''"
| "publisher_kind (GitLab _ _) = ''GitLab''"
| "publisher_kind (Google _) = ''Google''"
| "publisher_kind (CircleCI _ _) = ''CircleCI''"
| "publisher_kind (OtherPublisher k) = k"

datatype attest_error = ToolingMissing | VerificationFailed | BadMetadata

fun format_publisher_identity :: "publisher \<Rightarrow> attest_error + string" where
  "format_publisher_identity (GitHub repository workflow) = Inr (repository @ '' @ '' @ workflow)"
| "format_publisher_identity (GitLab repository path) = Inr (''gitlab:'' @ repository @ '' @ '' @ path)"
| "format_publisher_identity (Google email) = Inr (''google:'' @ email)"
| "format_publisher_identity (CircleCI project pipeline) = Inr (''circleci:'' @ project @ ''/'' @ pipeline)"
| "format_publisher_identity (OtherPublisher _) = Inl VerificationFailed"

record verified_publisher =
  vp_kind :: string
  vp_identity :: string
  vp_predicate_type :: string

datatype verify_result = VerifyOk string | VerifyFails | AttestationFails

record attest_lib =
  al_installed :: bool
  al_json :: "string \<Rightarrow> json option"
  al_provenance :: "string \<Rightarrow> (publisher \<times> string list) list option"
  al_verify :: "publisher \<Rightarrow> string \<times> string \<Rightarrow> string \<Rightarrow> verify_result"

text \<open>An installed distribution: whether its dist-info is found, the provenance files there in
  sorted order, \<open>direct_url.json\<close>.\<close>

record distribution =
  di_info_dir :: bool
  di_provenance :: "disk_file list"
  di_direct_url :: disk_file

text \<open>\<open>json.loads\<close> may give a value that is no object, on which \<open>get\<close> raises.\<close>

definition read_wheel_descriptor :: "attest_lib \<Rightarrow> disk_file \<Rightarrow> attest_error + (string \<times> string) option" where
  "read_wheel_descriptor lib direct_url =
     (case direct_url of
        Missing \<Rightarrow> Inr None
      | Unreadable \<Rightarrow> Inr None
      | Content text \<Rightarrow>
          (case al_json lib text of
             None \<Rightarrow> Inr None
           | Some (JObj payload) \<Rightarrow>
               (let info = dict_get payload ''archive_info'' in
                if truthy info \<and> as_dict info = None then Inl BadMetadata
                else (case (dict_get payload ''url'',
                            if truthy info then dict_get (the (as_dict info)) ''hash'' else JNull) of
                        (JStr url, JStr raw_hash) \<Rightarrow>
                          (if \<not> starts_with ''sha256='' raw_hash then Inr None
                           else (let wheel_filename = last (split_on (CHR ''/'') url) in
                                 if \<not> ends_with ''.whl'' wheel_filename \<and> \<not> ends_with ''.tar.gz'' wheel_filename
                                 then Inr None else Inr (Some (wheel_filename, drop 7 raw_hash))))
                      | _ \<Rightarrow> Inr None))
           | Some _ \<Rightarrow> Inl BadMetadata))"

text \<open>The nested loops return at the first attestation of the first file that has one.\<close>

fun first_attestation :: "(publisher \<times> string list) list \<Rightarrow> (publisher \<times> string) option" where
  "first_attestation [] = None"
| "first_attestation ((p, []) # bundles) = first_attestation bundles"
| "first_attestation ((p, a # _) # bundles) = Some (p, a)"

fun verify_files ::
    "attest_lib \<Rightarrow> string \<times> string \<Rightarrow> disk_file list \<Rightarrow> attest_error + verified_publisher option" where
  "verify_files lib wheel [] = Inr None"
| "verify_files lib wheel (Content text # files) =
     (case al_provenance lib text of
        None \<Rightarrow> Inl VerificationFailed
      | Some bundles \<Rightarrow>
          (case first_attestation bundles of
             None \<Rightarrow> verify_files lib wheel files
           | Some (p, attestation) \<Rightarrow>
               (case al_verify lib p wheel attestation of
                  VerifyOk predicate_type \<Rightarrow>
                    res_bind (format_publisher_identity p)
                      (\<lambda>identity. Inr (Some \<lparr>vp_kind = publisher_kind p, vp_identity = identity,
                                            vp_predicate_type = predicate_type\<rparr>))
                | _ \<Rightarrow> Inl VerificationFailed)))"
| "verify_files lib wheel (_ # files) = verify_files lib wheel files"

definition verify_distribution :: "attest_lib \<Rightarrow> distribution \<Rightarrow> attest_error + verified_publisher option" where
  "verify_distribution lib d =
     (if \<not> al_installed lib then Inl ToolingMissing
      else if \<not> di_info_dir d then Inr None
      else if di_provenance d = [] then Inr None
      else res_bind (read_wheel_descriptor lib (di_direct_url d))
             (\<lambda>descriptor. case descriptor of
                None \<Rightarrow> Inr None
              | Some wheel \<Rightarrow> verify_files lib wheel (di_provenance d)))"

section \<open>The registry\<close>

definition BUILTIN_SOURCES :: "(string \<times> source_spec) list" where
  "BUILTIN_SOURCES =
     map (\<lambda>(n, ts). (n, \<lparr>ss_name = n, ss_event_types = ts, ss_payload_schema = NoSchema,
                        ss_api_version = SOURCE_PLUGIN_API_VERSION\<rparr>))
       [(''github'', [''workflow_run'', ''workflow_job'']),
        (''alertmanager'', [''prometheus_alert'', ''prometheus_watchdog'']),
        (''pytest'', [''pytest_session'']),
        (''docker'', [''docker_container'']),
        (''fs'', [''fs_change'']),
        (''agent'', [''agent_message'', ''agent_claim'', ''agent_task_failed''])]"

record registry =
  rg_plugins :: "(string \<times> source_spec) list"
  rg_publishers :: "(string \<times> verified_publisher option) list"
  rg_discovered :: bool
  rg_allowlist :: disk_file

definition known_sources :: "registry \<Rightarrow> (string \<times> source_spec) list" where
  "known_sources reg = BUILTIN_SOURCES @ rg_plugins reg"

definition registered_name :: "registry \<Rightarrow> string \<Rightarrow> bool" where
  "registered_name reg name \<longleftrightarrow> is_known_source (map fst (known_sources reg)) name"

definition event_types_supported :: "registry \<Rightarrow> string set" where
  "event_types_supported reg = set (concat (map (ss_event_types \<circ> snd) (known_sources reg)))"

datatype plugin_error =
    PluginContractError
  | PluginVersionMismatchError
  | PluginShadowError
  | PluginDuplicateRegistrationError
  | PinError pin_error
  | MetadataError
  | SpecFails

text \<open>A plugin object: whether \<open>spec\<close> is callable, the number of its required positional
  parameters (\<open>None\<close> when \<open>inspect.signature\<close> raises), and what a call does.\<close>

datatype spec_call = ReturnsSpec source_spec | ReturnsOther | SpecRaises

record plugin =
  pl_spec_callable :: bool
  pl_required :: "nat option"
  pl_spec :: spec_call

record entry_point =
  ep_name :: string
  ep_plugin :: "plugin option"
  ep_dist :: "distribution option"

definition validate_plugin_callable :: "plugin \<Rightarrow> plugin_error + unit" where
  "validate_plugin_callable p =
     (if \<not> pl_spec_callable p then Inl PluginContractError
      else (case pl_required p of
              None \<Rightarrow> Inl PluginContractError
            | Some n \<Rightarrow> if n > 1 then Inl PluginContractError else Inr ()))"

definition validate_spec :: "spec_call \<Rightarrow> plugin_error + source_spec" where
  "validate_spec c = (case c of ReturnsSpec s \<Rightarrow> Inr s | ReturnsOther \<Rightarrow> Inl PluginContractError | SpecRaises \<Rightarrow> Inl SpecFails)"

definition verify_publisher :: "attest_lib \<Rightarrow> entry_point \<Rightarrow> plugin_error + verified_publisher option" where
  "verify_publisher lib ep =
     (case ep_dist ep of
        None \<Rightarrow> Inr None
      | Some d \<Rightarrow>
          (case verify_distribution lib d of
             Inr v \<Rightarrow> Inr v
           | Inl VerificationFailed \<Rightarrow> Inr None
           | Inl ToolingMissing \<Rightarrow> Inr None
           | Inl BadMetadata \<Rightarrow> Inl MetadataError))"

record registry_env =
  rv_toml :: toml_env
  rv_lib :: attest_lib
  rv_now :: string
  rv_io :: "string \<Rightarrow> write_outcome"

definition enforce_tofu ::
    "registry_env \<Rightarrow> string \<Rightarrow> verified_publisher option \<Rightarrow> disk_file \<Rightarrow> (plugin_error + unit) \<times> disk_file" where
  "enforce_tofu env source_name verified file =
     (let pins = (case load_allowlist (rv_toml env) file of None \<Rightarrow> [] | Some al \<Rightarrow> al) in
      case for_source pins source_name of
        None \<Rightarrow>
          (case verified of
             None \<Rightarrow> (Inr (), file)
           | Some v \<Rightarrow>
               (case append_publisher_pin (rv_toml env) (rv_io env source_name) (rv_now env) source_name
                       (vp_kind v) (vp_identity v) file of
                  (Inl e, file') \<Rightarrow> (Inl (PinError e), file')
                | (Inr _, file') \<Rightarrow> (Inr (), file')))
      | Some prior \<Rightarrow>
          (case verified of
             None \<Rightarrow> (Inl PluginShadowError, file)
           | Some v \<Rightarrow>
               (if pin_kind prior \<noteq> vp_kind v \<or> pin_identity prior \<noteq> vp_identity v
                then (Inl PluginShadowError, file) else (Inr (), file))))"

definition event_type_collisions :: "registry \<Rightarrow> source_spec \<Rightarrow> string set" where
  "event_type_collisions reg spec =
     set (ss_event_types spec)
       \<inter> set (concat (map (ss_event_types \<circ> snd) (filter (\<lambda>s. fst s \<noteq> ss_name spec) (known_sources reg))))"

definition validate_common :: "registry \<Rightarrow> source_spec \<Rightarrow> plugin_error + unit" where
  "validate_common reg spec =
     (if ss_api_version spec \<noteq> SOURCE_PLUGIN_API_VERSION then Inl PluginVersionMismatchError
      else if ss_name spec \<in> fst ` set BUILTIN_SOURCES then Inl PluginShadowError
      else if ss_name spec \<in> fst ` set (rg_plugins reg) then Inl PluginDuplicateRegistrationError
      else if event_type_collisions reg spec \<noteq> {} then Inl PluginContractError
      else Inr ())"

definition record_source :: "source_spec \<Rightarrow> verified_publisher option \<Rightarrow> registry \<Rightarrow> registry" where
  "record_source spec verified reg =
     reg\<lparr>rg_plugins := AList.update (ss_name spec) spec (rg_plugins reg),
         rg_publishers := AList.update (ss_name spec) verified (rg_publishers reg)\<rparr>"

definition register_plugin ::
    "registry_env \<Rightarrow> entry_point \<Rightarrow> plugin \<Rightarrow> registry \<Rightarrow> (plugin_error + source_spec) \<times> registry" where
  "register_plugin env ep p reg =
     (case res_bind (validate_plugin_callable p) (\<lambda>_. validate_spec (pl_spec p)) of
        Inl e \<Rightarrow> (Inl e, reg)
      | Inr spec \<Rightarrow>
          (if ep_name ep \<noteq> ss_name spec then (Inl PluginContractError, reg)
           else (case res_bind (validate_common reg spec) (\<lambda>_. verify_publisher (rv_lib env) ep) of
                   Inl e \<Rightarrow> (Inl e, reg)
                 | Inr verified \<Rightarrow>
                     (case enforce_tofu env (ss_name spec) verified (rg_allowlist reg) of
                        (Inl e, file') \<Rightarrow> (Inl e, reg\<lparr>rg_allowlist := file'\<rparr>)
                      | (Inr _, file') \<Rightarrow> (Inr spec, record_source spec verified (reg\<lparr>rg_allowlist := file'\<rparr>))))))"

definition register_source :: "spec_call \<Rightarrow> registry \<Rightarrow> (plugin_error + source_spec) \<times> registry" where
  "register_source c reg =
     (case c of
        ReturnsSpec spec \<Rightarrow>
          (case validate_common reg spec of
             Inl e \<Rightarrow> (Inl e, reg)
           | Inr _ \<Rightarrow> (Inr spec, record_source spec None reg))
      | _ \<Rightarrow> (Inl PluginContractError, reg))"

definition select_entry_points :: "plugin_policy \<Rightarrow> entry_point list \<Rightarrow> entry_point list" where
  "select_entry_points policy discovered =
     (if \<not> pp_autoload policy then
        (if pp_allow policy = [] then [] else filter (\<lambda>ep. ep_name ep \<in> set (pp_allow policy)) discovered)
      else if pp_deny policy \<noteq> [] then filter (\<lambda>ep. ep_name ep \<notin> set (pp_deny policy)) discovered
      else discovered)"

fun is_policy_failure :: "plugin_error \<Rightarrow> bool" where
  "is_policy_failure PluginContractError = True"
| "is_policy_failure PluginVersionMismatchError = True"
| "is_policy_failure PluginShadowError = True"
| "is_policy_failure PluginDuplicateRegistrationError = True"
| "is_policy_failure _ = False"

text \<open>The loop of \<open>discover_plugins\<close>: what was registered, the policy failures, the state.\<close>

fun discover_loop ::
    "registry_env \<Rightarrow> entry_point list \<Rightarrow> source_spec list \<Rightarrow> plugin_error list \<Rightarrow> registry
       \<Rightarrow> source_spec list \<times> plugin_error list \<times> registry" where
  "discover_loop env [] registered failures reg = (registered, failures, reg)"
| "discover_loop env (ep # eps) registered failures reg =
     (case ep_plugin ep of
        None \<Rightarrow> discover_loop env eps registered failures reg
      | Some p \<Rightarrow>
          (case register_plugin env ep p reg of
             (Inl e, reg') \<Rightarrow>
               discover_loop env eps registered (if is_policy_failure e then failures @ [e] else failures) reg'
           | (Inr spec, reg') \<Rightarrow> discover_loop env eps (registered @ [spec]) failures reg'))"

text \<open>\<open>Inl\<close> is the \<open>ExceptionGroup\<close> raised at the end.\<close>

definition discover_plugins ::
    "registry_env \<Rightarrow> plugin_policy \<Rightarrow> entry_point list \<Rightarrow> registry \<Rightarrow> (plugin_error list + source_spec list) \<times> registry" where
  "discover_plugins env policy discovered reg =
     (case discover_loop env (select_entry_points policy discovered) [] [] reg of
        (registered, failures, reg') \<Rightarrow> (if failures \<noteq> [] then Inl failures else Inr registered, reg'))"

definition discover_plugins_once ::
    "registry_env \<Rightarrow> plugin_policy \<Rightarrow> entry_point list \<Rightarrow> registry \<Rightarrow> (plugin_error list + source_spec list) \<times> registry" where
  "discover_plugins_once env policy discovered reg =
     (if rg_discovered reg then (Inr [], reg)
      else discover_plugins env policy discovered (reg\<lparr>rg_discovered := True\<rparr>))"

definition clear_for_test_isolation :: "registry \<Rightarrow> registry" where
  "clear_for_test_isolation reg = reg\<lparr>rg_plugins := [], rg_publishers := [], rg_discovered := False\<rparr>"

end
