(* ===== verification/WB_RegistryProps.thy ===== *)
theory WB_RegistryProps
  imports WB_Registry
begin

text \<open>
  What the source registry guarantees: no two known sources share a name or an event type, whatever
  is discovered, registered or written to the allowlist; a pinned source is only registered by its
  pinned publisher and discovery never rebinds a pin; with a corrupt allowlist exactly the plugins
  that prove their publisher are lost.
\<close>

section \<open>Unique owners\<close>

definition registry_inv :: "registry \<Rightarrow> bool" where
  "registry_inv reg \<longleftrightarrow>
     distinct (map fst (known_sources reg))
     \<and> (\<forall>(n, s)\<in>set (known_sources reg). n = ss_name s \<and> ss_api_version s = SOURCE_PLUGIN_API_VERSION)
     \<and> (\<forall>(n, s)\<in>set (known_sources reg). \<forall>(m, t)\<in>set (known_sources reg).
          n \<noteq> m \<longrightarrow> set (ss_event_types s) \<inter> set (ss_event_types t) = {})
     \<and> map fst (rg_publishers reg) = map fst (rg_plugins reg)"

lemma update_fresh: "k \<notin> fst ` set xs \<Longrightarrow> AList.update k v xs = xs @ [(k, v)]"
  by (induction xs) auto

lemma fst_set_eq: "map fst xs = map fst ys \<Longrightarrow> fst ` set xs = fst ` set ys"
  by (metis list.set_map)

lemma validate_common_ok:
  "validate_common reg spec = Inr x \<longleftrightarrow>
     ss_api_version spec = SOURCE_PLUGIN_API_VERSION \<and> ss_name spec \<notin> fst ` set BUILTIN_SOURCES
     \<and> ss_name spec \<notin> fst ` set (rg_plugins reg) \<and> event_type_collisions reg spec = {}"
  by (auto simp: validate_common_def)

lemma record_source_inv:
  assumes "registry_inv reg" "validate_common reg spec = Inr x"
  shows "registry_inv (record_source spec v reg)"
proof -
  have ok: "ss_api_version spec = SOURCE_PLUGIN_API_VERSION" "ss_name spec \<notin> fst ` set BUILTIN_SOURCES"
    "ss_name spec \<notin> fst ` set (rg_plugins reg)" "event_type_collisions reg spec = {}"
    using assms(2) by (simp_all add: validate_common_ok)
  have pubs: "map fst (rg_publishers reg) = map fst (rg_plugins reg)" using assms(1) by (simp add: registry_inv_def)
  then have fresh: "ss_name spec \<notin> fst ` set (rg_publishers reg)" using ok(3) fst_set_eq by metis
  have ks: "known_sources (record_source spec v reg) = known_sources reg @ [(ss_name spec, spec)]"
    using ok(3) by (simp add: known_sources_def record_source_def update_fresh)
  have named: "m = ss_name t" if "(m, t) \<in> set (known_sources reg)" for m t
    using assms(1) that by (auto simp: registry_inv_def)
  have apart: False if "(m, t) \<in> set (known_sources reg)" "ss_name t \<noteq> ss_name spec"
    "e \<in> set (ss_event_types spec)" "e \<in> set (ss_event_types t)" for m t e
    using ok(4) that named[OF that(1)] by (fastforce simp: event_type_collisions_def)
  have new: "ss_name spec \<notin> fst ` set (known_sources reg)" using ok(2,3) by (auto simp: known_sources_def)
  have "map fst (rg_publishers (record_source spec v reg)) = map fst (rg_plugins (record_source spec v reg))"
    using pubs fresh ok(3) by (simp add: record_source_def update_fresh)
  then show ?thesis
    using assms(1) new ok(1) unfolding registry_inv_def ks
    by (auto simp: case_prod_beta dest: apart)
qed

lemma registry_inv_file [simp]:
  "registry_inv (reg\<lparr>rg_allowlist := f\<rparr>) = registry_inv reg" "registry_inv (reg\<lparr>rg_discovered := b\<rparr>) = registry_inv reg"
  by (simp_all add: registry_inv_def known_sources_def)

text \<open>Registering one plugin: nothing but the allowlist file changes unless it succeeds.\<close>

lemma register_plugin_cases:
  assumes "register_plugin env ep p reg = (r, reg')"
  obtains (refused) e where "r = Inl e" "reg' = reg"
  | (tofu) verified file' e where "verify_publisher (rv_lib env) ep = Inr verified"
      "enforce_tofu env (ep_name ep) verified (rg_allowlist reg) = (Inl e, file')"
      "r = Inl e" "reg' = reg\<lparr>rg_allowlist := file'\<rparr>"
  | (registered) spec verified file' where "ep_name ep = ss_name spec" "validate_common reg spec = Inr ()"
      "verify_publisher (rv_lib env) ep = Inr verified"
      "enforce_tofu env (ep_name ep) verified (rg_allowlist reg) = (Inr (), file')"
      "r = Inr spec" "reg' = record_source spec verified (reg\<lparr>rg_allowlist := file'\<rparr>)"
proof -
  consider (bad) e where "res_bind (validate_plugin_callable p) (\<lambda>_. validate_spec (pl_spec p)) = Inl e"
    | (spec) spec where "res_bind (validate_plugin_callable p) (\<lambda>_. validate_spec (pl_spec p)) = Inr spec"
    by (meson obj_sumE)
  then show thesis
  proof cases
    case bad
    then have "(r, reg') = (Inl e, reg)" using assms by (simp add: register_plugin_def)
    then show thesis using refused by simp
  next
    case spec
    show thesis
    proof (cases "ep_name ep = ss_name spec")
      case False
      then have "(r, reg') = (Inl PluginContractError, reg)"
        using assms spec by (simp add: register_plugin_def del: res_bind_Inr_iff)
      then show thesis using refused by simp
    next
      case True
      let ?v = "res_bind (validate_common reg spec) (\<lambda>_. verify_publisher (rv_lib env) ep)"
      show thesis
      proof (cases ?v)
        case (Inl e)
        then have "(r, reg') = (Inl e, reg)"
          using assms spec True by (simp add: register_plugin_def del: res_bind_Inr_iff)
        then show thesis using refused by simp
      next
        case (Inr verified)
        obtain t file' where t: "enforce_tofu env (ss_name spec) verified (rg_allowlist reg) = (t, file')" by fastforce
        have v: "validate_common reg spec = Inr ()" "verify_publisher (rv_lib env) ep = Inr verified"
          using Inr by auto
        have "(r, reg') = (case t of Inl e \<Rightarrow> (Inl e, reg\<lparr>rg_allowlist := file'\<rparr>)
            | Inr _ \<Rightarrow> (Inr spec, record_source spec verified (reg\<lparr>rg_allowlist := file'\<rparr>)))"
          using assms spec True Inr t by (simp add: register_plugin_def del: res_bind_Inr_iff)
        moreover have "enforce_tofu env (ep_name ep) verified (rg_allowlist reg) = (t, file')" using t True by simp
        ultimately show thesis
          using tofu[OF v(2), of _ file'] registered[OF True v, of file'] by (cases t) auto
      qed
    qed
  qed
qed

text \<open>What every registration keeps, discovery keeps.\<close>

lemma discover_loop_keeps:
  assumes "\<And>ep p reg r reg'. ep \<in> set eps \<Longrightarrow> I reg \<Longrightarrow> register_plugin env ep p reg = (r, reg') \<Longrightarrow> I reg'"
    and "I reg" "discover_loop env eps registered failures reg = (registered', failures', reg')"
  shows "I reg'"
  using assms
proof (induction eps arbitrary: registered failures reg)
  case (Cons ep eps)
  note IH = Cons.IH[OF Cons.prems(1)[OF list.set_intros(2)]]
  show ?case
  proof (cases "ep_plugin ep")
    case None
    then show ?thesis using IH Cons.prems(2,3) by simp
  next
    case (Some p)
    obtain r reg1 where r: "register_plugin env ep p reg = (r, reg1)" by fastforce
    have "I reg1" using Cons.prems(1)[OF list.set_intros(1) Cons.prems(2) r] .
    from IH[OF _ _ _ this] show ?thesis using Cons.prems(3) Some r by (cases r) auto
  qed
qed simp

lemma discover_plugins_keeps:
  assumes "\<And>ep p reg r reg'. ep \<in> set eps \<Longrightarrow> I reg \<Longrightarrow> register_plugin env ep p reg = (r, reg') \<Longrightarrow> I reg'"
    and "I reg" "discover_plugins env policy eps reg = (r, reg')"
  shows "I reg'"
proof -
  obtain a b where "discover_loop env (select_entry_points policy eps) [] [] reg = (a, b, reg')"
    using assms(3) by (auto simp: discover_plugins_def split: prod.splits)
  moreover have "set (select_entry_points policy eps) \<subseteq> set eps" by (auto simp: select_entry_points_def)
  ultimately show ?thesis
    using discover_loop_keeps[of "select_entry_points policy eps" I env reg] assms(1,2) by (metis subset_iff)
qed

lemma register_plugin_inv: "registry_inv reg \<Longrightarrow> register_plugin env ep p reg = (r, reg') \<Longrightarrow> registry_inv reg'"
  by (erule register_plugin_cases) (auto simp: validate_common_def event_type_collisions_def known_sources_def
      intro!: record_source_inv split: if_splits)

section \<open>A process of registrations\<close>

inductive registry_step :: "registry \<Rightarrow> registry \<Rightarrow> bool" where
  discover: "registry_step reg (snd (discover_plugins_once env policy eps reg))"
| register: "registry_step reg (snd (register_source c reg))"
| allowlist: "registry_step reg (reg\<lparr>rg_allowlist := file\<rparr>)"

inductive_cases registry_stepE: "registry_step reg reg'"

inductive registry_reach :: "registry \<Rightarrow> bool" where
  start: "registry_reach \<lparr>rg_plugins = [], rg_publishers = [], rg_discovered = False, rg_allowlist = file\<rparr>"
| step: "registry_reach reg \<Longrightarrow> registry_step reg reg' \<Longrightarrow> registry_reach reg'"

lemma registry_inv_start:
  "registry_inv \<lparr>rg_plugins = [], rg_publishers = [], rg_discovered = False, rg_allowlist = file\<rparr>"
  by (simp add: registry_inv_def known_sources_def BUILTIN_SOURCES_def)

lemma registry_inv_step: "registry_step reg reg' \<Longrightarrow> registry_inv reg \<Longrightarrow> registry_inv reg'"
proof (elim registry_stepE)
  fix env policy eps assume r: "reg' = snd (discover_plugins_once env policy eps reg)" "registry_inv reg"
  obtain x reg1 where d: "discover_plugins env policy eps (reg\<lparr>rg_discovered := True\<rparr>) = (x, reg1)" by fastforce
  have "registry_inv reg1"
    by (rule discover_plugins_keeps[OF _ _ d]) (use r(2) register_plugin_inv in auto)
  then show "registry_inv reg'" using r d by (simp add: discover_plugins_once_def)
next
  fix c assume r: "reg' = snd (register_source c reg)" "registry_inv reg"
  then show "registry_inv reg'"
    using record_source_inv[OF r(2)] by (auto simp: register_source_def split: spec_call.split sum.split)
qed simp

text \<open>C19: Whatever is discovered, registered in-process or written to the allowlist, in any order, the
  known sources have distinct names and disjoint event types, the built-in ones keep their
  specification, and every supported event type has exactly one owner.\<close>

theorem sources_never_clash:
  assumes "registry_reach reg"
  shows "distinct (map fst (known_sources reg))
     \<and> (\<forall>(n, s)\<in>set (known_sources reg). n = ss_name s \<and> map_of (known_sources reg) n = Some s)
     \<and> (\<forall>(n, s)\<in>set BUILTIN_SOURCES. map_of (known_sources reg) n = Some s)
     \<and> (\<forall>t\<in>event_types_supported reg. \<exists>!n. \<exists>s. map_of (known_sources reg) n = Some s \<and> t \<in> set (ss_event_types s))"
proof -
  have inv: "registry_inv reg"
    using assms by induction (auto intro: registry_inv_start registry_inv_step)
  then have dist: "distinct (map fst (known_sources reg))" by (simp add: registry_inv_def)
  have mem: "map_of (known_sources reg) n = Some s \<longleftrightarrow> (n, s) \<in> set (known_sources reg)" for n s
    using dist by (simp add: map_of_eq_Some_iff)
  have owner: "\<exists>!n. \<exists>s. map_of (known_sources reg) n = Some s \<and> t \<in> set (ss_event_types s)"
    if t: "t \<in> event_types_supported reg" for t
  proof -
    obtain n s where n: "(n, s) \<in> set (known_sources reg)" "t \<in> set (ss_event_types s)"
      using t by (auto simp: event_types_supported_def)
    show ?thesis unfolding mem
    proof (rule ex1I)
      show "\<exists>s. (n, s) \<in> set (known_sources reg) \<and> t \<in> set (ss_event_types s)" using n by blast
      fix m assume "\<exists>s. (m, s) \<in> set (known_sources reg) \<and> t \<in> set (ss_event_types s)"
      then show "m = n" using n inv unfolding registry_inv_def by blast
    qed
  qed
  have named: "n = ss_name s" if "(n, s) \<in> set (known_sources reg)" for n s
    using inv that by (auto simp: registry_inv_def)
  have builtin: "(n, s) \<in> set (known_sources reg)" if "(n, s) \<in> set BUILTIN_SOURCES" for n s
    using that by (simp add: known_sources_def)
  show ?thesis
    using dist named builtin owner mem by (intro conjI ballI) auto
qed

section \<open>Trust on first use\<close>

definition pin_matches :: "publisher_pin \<Rightarrow> verified_publisher \<Rightarrow> bool" where
  "pin_matches q v \<longleftrightarrow> pin_kind q = vp_kind v \<and> pin_identity q = vp_identity v"

definition pin_for :: "registry_env \<Rightarrow> string \<Rightarrow> verified_publisher \<Rightarrow> publisher_pin" where
  "pin_for env n v = \<lparr>pin_name = n, pin_kind = vp_kind v, pin_identity = vp_identity v, pin_first_at = rv_now env\<rparr>"

lemma enforce_tofu_loaded:
  assumes "pins_inv (rv_toml env) file"
  shows "enforce_tofu env n verified file =
     (case (pins_of (rv_toml env) file n, verified) of
        (None, None) \<Rightarrow> (Inr (), file)
      | (None, Some v) \<Rightarrow>
          (case append_pin (rv_toml env) (rv_io env n) (pin_for env n v) file of
             (Inl e, file') \<Rightarrow> (Inl (PinError e), file') | (Inr _, file') \<Rightarrow> (Inr (), file'))
      | (Some q, Some v) \<Rightarrow> ((if pin_matches q v then Inr () else Inl PluginShadowError), file)
      | (Some q, None) \<Rightarrow> (Inl PluginShadowError, file))"
proof -
  obtain al where "load_allowlist (rv_toml env) file = Some al" using assms by (auto simp: pins_inv_def)
  then show ?thesis
    by (auto simp: enforce_tofu_def pins_of_def pin_matches_def append_pin_def pin_for_def split: option.split)
qed

lemma enforce_tofu_pins:
  assumes "pins_inv (rv_toml env) file" "enforce_tofu env n verified file = (r, file')"
    and "\<And>v. verified = Some v \<Longrightarrow> pin_plain (pin_for env n v)"
  shows "pins_inv (rv_toml env) file'"
    and "pins_of (rv_toml env) file m = Some q \<Longrightarrow> pins_of (rv_toml env) file' m = Some q"
    and "r = Inr () \<Longrightarrow> pins_of (rv_toml env) file n = Some q \<Longrightarrow> \<exists>v. verified = Some v \<and> pin_matches q v"
proof -
  let ?up = "\<lambda>v. snd (append_pin (rv_toml env) (rv_io env n) (pin_for env n v) file)"
  have file': "file' = file \<or> (\<exists>v. verified = Some v \<and> file' = ?up v)"
    using assms(2) unfolding enforce_tofu_loaded[OF assms(1)]
    by (auto split: option.splits prod.splits sum.splits)
  show "pins_inv (rv_toml env) file'"
    using file' assms(1) pin_file.append_inv[OF assms(1) assms(3)] by auto
  show "pins_of (rv_toml env) file m = Some q \<Longrightarrow> pins_of (rv_toml env) file' m = Some q"
    using file' pin_file.append_keeps[OF assms(1) assms(3)] by auto
  show "r = Inr () \<Longrightarrow> pins_of (rv_toml env) file n = Some q \<Longrightarrow> \<exists>v. verified = Some v \<and> pin_matches q v"
    using assms(2) unfolding enforce_tofu_loaded[OF assms(1)] by (auto split: option.splits if_splits)
qed

text \<open>The publishers the attestations prove can be written to the file unescaped.\<close>

definition publishers_plain :: "registry_env \<Rightarrow> entry_point list \<Rightarrow> bool" where
  "publishers_plain env eps \<longleftrightarrow>
     (\<forall>ep\<in>set eps. \<forall>v. verify_publisher (rv_lib env) ep = Inr (Some v) \<longrightarrow> pin_plain (pin_for env (ep_name ep) v))"

text \<open>C20: Trust on first use. With a readable allowlist, discovery over any entry points keeps every
  pin and the file readable; and a source with a pin that discovery registers was loaded from an
  entry point of that name whose attestation proves the pinned publisher, which is the publisher on
  record.\<close>

theorem discovery_respects_pins:
  assumes "discover_plugins env policy eps reg = (r, reg')"
    and "pins_inv (rv_toml env) (rg_allowlist reg)" "publishers_plain env eps"
    and "pins_of (rv_toml env) (rg_allowlist reg) n = Some q"
    and "map_of (rg_publishers reg) n = None"
  shows "pins_inv (rv_toml env) (rg_allowlist reg')
     \<and> pins_of (rv_toml env) (rg_allowlist reg') n = Some q
     \<and> (\<forall>x. map_of (rg_publishers reg') n = Some x \<longrightarrow>
          (\<exists>v. x = Some v \<and> pin_matches q v
             \<and> (\<exists>ep\<in>set eps. ep_name ep = n \<and> verify_publisher (rv_lib env) ep = Inr (Some v))))"
proof (rule discover_plugins_keeps[OF _ _ assms(1)])
  fix ep p and reg :: registry and r reg'
  assume ep: "ep \<in> set eps" and I: "pins_inv (rv_toml env) (rg_allowlist reg)
     \<and> pins_of (rv_toml env) (rg_allowlist reg) n = Some q
     \<and> (\<forall>x. map_of (rg_publishers reg) n = Some x \<longrightarrow>
          (\<exists>v. x = Some v \<and> pin_matches q v
             \<and> (\<exists>ep\<in>set eps. ep_name ep = n \<and> verify_publisher (rv_lib env) ep = Inr (Some v))))"
    and reg: "register_plugin env ep p reg = (r, reg')"
  have plain: "pin_plain (pin_for env (ep_name ep) v)" if "verify_publisher (rv_lib env) ep = Inr (Some v)" for v
    using assms(3) ep that by (simp add: publishers_plain_def)
  from reg show "pins_inv (rv_toml env) (rg_allowlist reg')
     \<and> pins_of (rv_toml env) (rg_allowlist reg') n = Some q
     \<and> (\<forall>x. map_of (rg_publishers reg') n = Some x \<longrightarrow>
          (\<exists>v. x = Some v \<and> pin_matches q v
             \<and> (\<exists>ep\<in>set eps. ep_name ep = n \<and> verify_publisher (rv_lib env) ep = Inr (Some v))))"
  proof (cases rule: register_plugin_cases)
    case refused
    then show ?thesis using I by simp
  next
    case (tofu verified file' e)
    then show ?thesis
      using enforce_tofu_pins[OF _ tofu(2)] plain I by auto
  next
    case (registered spec verified file')
    have file': "pins_inv (rv_toml env) file'" "pins_of (rv_toml env) file' n = Some q"
      using enforce_tofu_pins[OF _ registered(4)] plain registered(3) I by auto
    have "\<exists>v. verified = Some v \<and> pin_matches q v" if "ep_name ep = n"
      using enforce_tofu_pins(3)[OF _ registered(4) _ refl, of q] plain registered(3) I that by auto
    then show ?thesis
      using file' I ep registered(1,3) unfolding registered(6) record_source_def
      by (auto simp: update_conv')
  qed
qed (use assms in simp)

text \<open>With a corrupt allowlist, discovery registers no plugin whose attestation proves a
  publisher, whatever the policy; what it registers is on record without a publisher, and the file
  stays as it is. The code means to register such plugins without a pin.\<close>

theorem corrupt_allowlist_drops_verified:
  assumes "discover_plugins env policy eps reg = (r, reg')"
    and "load_allowlist (rv_toml env) (rg_allowlist reg) = None"
  shows "rg_allowlist reg' = rg_allowlist reg
     \<and> (\<forall>n x. map_of (rg_publishers reg) n = None \<and> map_of (rg_publishers reg') n = Some x \<longrightarrow>
          x = None \<and> (\<exists>ep\<in>set eps. ep_name ep = n \<and> verify_publisher (rv_lib env) ep = Inr None))"
proof (rule discover_plugins_keeps[OF _ _ assms(1)])
  let ?I = "\<lambda>reg'. rg_allowlist reg' = rg_allowlist reg
     \<and> (\<forall>n x. map_of (rg_publishers reg) n = None \<and> map_of (rg_publishers reg') n = Some x \<longrightarrow>
          x = None \<and> (\<exists>ep\<in>set eps. ep_name ep = n \<and> verify_publisher (rv_lib env) ep = Inr None))"
  show "?I reg" by auto
  fix ep p reg1 r reg2
  assume ep: "ep \<in> set eps" and I: "?I reg1" and r: "register_plugin env ep p reg1 = (r, reg2)"
  have corrupt: "enforce_tofu env m verified (rg_allowlist reg) =
      ((case verified of None \<Rightarrow> Inr () | Some v \<Rightarrow> Inl (PinError AllowlistCorrupt)), rg_allowlist reg)" for m verified
    using assms(2) by (simp add: enforce_tofu_def for_source_def append_publisher_pin_def split: option.split)
  from r show "?I reg2"
  proof (cases rule: register_plugin_cases)
    case refused
    then show ?thesis using I by simp
  next
    case (tofu verified file' e)
    then show ?thesis using I by (simp add: corrupt)
  next
    case (registered spec verified file')
    then have "verified = None" "file' = rg_allowlist reg" using I by (auto simp: corrupt split: option.splits)
    then show ?thesis
      using I ep registered(1,3) unfolding registered(6) record_source_def
      by (auto simp: update_conv' split: if_splits)
  qed
qed

text \<open>A name on the deny list is loaded all the same when autoload is off and it is allowed.\<close>

lemma deny_ignored_without_autoload:
  "select_entry_points \<lparr>pp_autoload = False, pp_allow = [''circleci''], pp_deny = [''circleci'']\<rparr>
     [\<lparr>ep_name = ''circleci'', ep_plugin = p, ep_dist = d\<rparr>] = [\<lparr>ep_name = ''circleci'', ep_plugin = p, ep_dist = d\<rparr>]"
  by (simp add: select_entry_points_def)

text \<open>A source name may end in a newline.\<close>

lemma source_name_newline: "SOURCE_NAME_RE (''circleci'' @ [CHR 10])"
  by code_simp

section \<open>Witnesses\<close>

definition sample_toml :: toml_env where
  "sample_toml = \<lparr>te_loads = toml_fragment, te_str = (\<lambda>_. [])\<rparr>"

definition sample_publisher :: publisher where
  "sample_publisher = GitHub ''acme/circleci'' ''release.yml''"

definition sample_registry_env :: registry_env where
  "sample_registry_env = \<lparr>rv_toml = sample_toml,
     rv_lib = \<lparr>al_installed = True,
       al_json = (\<lambda>_. Some (JObj [(''url'', JStr ''https://x/circleci.whl''),
                                   (''archive_info'', JObj [(''hash'', JStr ''sha256=00'')])])),
       al_provenance = (\<lambda>_. Some [(sample_publisher, [''a''])]),
       al_verify = (\<lambda>_ _ _. VerifyOk ''publish'')\<rparr>,
     rv_now = ''2026-05-20T09:42:11+00:00'', rv_io = (\<lambda>_. Written)\<rparr>"

definition sample_plugin :: "string \<Rightarrow> plugin" where
  "sample_plugin n = \<lparr>pl_spec_callable = True, pl_required = Some 0,
     pl_spec = ReturnsSpec \<lparr>ss_name = n, ss_event_types = [n @ ''_done''], ss_payload_schema = NoSchema, ss_api_version = 1\<rparr>\<rparr>"

text \<open>One plugin with an attestation, one without.\<close>

definition sample_eps :: "entry_point list" where
  "sample_eps = [\<lparr>ep_name = ''circleci'', ep_plugin = Some (sample_plugin ''circleci''),
       ep_dist = Some \<lparr>di_info_dir = True, di_provenance = [Content ''{}''], di_direct_url = Content ''{}''\<rparr>\<rparr>,
     \<lparr>ep_name = ''jenkins'', ep_plugin = Some (sample_plugin ''jenkins''), ep_dist = None\<rparr>]"

definition sample_policy :: plugin_policy where
  "sample_policy = \<lparr>pp_autoload = True, pp_allow = [], pp_deny = []\<rparr>"

definition sample_registry :: "disk_file \<Rightarrow> registry" where
  "sample_registry file = \<lparr>rg_plugins = [], rg_publishers = [], rg_discovered = False, rg_allowlist = file\<rparr>"

definition sample_pin :: publisher_pin where
  "sample_pin = \<lparr>pin_name = ''circleci'', pin_kind = ''GitHub'', pin_identity = ''acme/circleci @ release.yml'',
     pin_first_at = ''2026-01-01T00:00:00+00:00''\<rparr>"

definition sample_pins_file :: disk_file where
  "sample_pins_file = Content (render_allowlist [(''circleci'', sample_pin)])"

lemma sample_pins:
  "pins_inv sample_toml sample_pins_file" "pins_of sample_toml sample_pins_file ''circleci'' = Some sample_pin"
proof -
  have "pin_plain sample_pin" by code_simp
  then have ok: "allowlist_ok [(''circleci'', sample_pin)]" by (simp add: allowlist_ok_def sample_pin_def)
  have "toml_reads sample_toml" by (simp add: toml_reads_def sample_toml_def)
  from written_file[OF this ok] show "pins_inv sample_toml sample_pins_file"
    "pins_of sample_toml sample_pins_file ''circleci'' = Some sample_pin"
    by (simp_all add: sample_pins_file_def)
qed

lemma sample_verified_publisher:
  "verify_publisher (rv_lib sample_registry_env) (sample_eps ! 0) =
     Inr (Some \<lparr>vp_kind = ''GitHub'', vp_identity = ''acme/circleci @ release.yml'', vp_predicate_type = ''publish''\<rparr>)"
  "verify_publisher (rv_lib sample_registry_env) (sample_eps ! Suc 0) = Inr None"
  by code_simp+

theorem sources_never_clash_witness:
  "distinct (map fst (known_sources (snd (discover_plugins_once sample_registry_env sample_policy sample_eps (sample_registry Missing)))))"
proof -
  have "registry_reach (sample_registry Missing)" unfolding sample_registry_def by (rule registry_reach.start)
  then have "registry_reach (snd (discover_plugins_once sample_registry_env sample_policy sample_eps (sample_registry Missing)))"
    by (rule registry_reach.step) (rule registry_step.discover)
  from sources_never_clash[OF this] show ?thesis by blast
qed

lemma sample_discovery:
  "map fst (rg_publishers (snd (discover_plugins sample_registry_env sample_policy sample_eps (sample_registry sample_pins_file))))
     = [''circleci'', ''jenkins'']"
  by code_simp

text \<open>Both plugins of the example are registered; the pinned one proves its publisher.\<close>

theorem discovery_respects_pins_witness:
  "\<exists>r reg' x. discover_plugins sample_registry_env sample_policy sample_eps (sample_registry sample_pins_file) = (r, reg')
     \<and> pins_of sample_toml (rg_allowlist reg') ''circleci'' = Some sample_pin
     \<and> map_of (rg_publishers reg') ''circleci'' = Some (Some x) \<and> pin_matches sample_pin x"
proof -
  obtain r reg' where d: "discover_plugins sample_registry_env sample_policy sample_eps (sample_registry sample_pins_file) = (r, reg')"
    by fastforce
  have env: "rv_toml sample_registry_env = sample_toml" by (simp add: sample_registry_env_def)
  have "pin_plain (pin_for sample_registry_env ''circleci''
      \<lparr>vp_kind = ''GitHub'', vp_identity = ''acme/circleci @ release.yml'', vp_predicate_type = ''publish''\<rparr>)"
    by code_simp
  moreover have "ep_name (sample_eps ! 0) = ''circleci''" "set sample_eps = {sample_eps ! 0, sample_eps ! Suc 0}"
    by (simp_all add: sample_eps_def)
  ultimately have plain: "publishers_plain sample_registry_env sample_eps"
    unfolding publishers_plain_def by (simp add: sample_verified_publisher)
  have "map fst (rg_publishers reg') = [''circleci'', ''jenkins'']" using sample_discovery d by simp
  then have "''circleci'' \<in> fst ` set (rg_publishers reg')" by (metis list.set_intros(1) list.set_map)
  then obtain x where "map_of (rg_publishers reg') ''circleci'' = Some x" by (metis map_of_eq_None_iff not_None_eq)
  with discovery_respects_pins[OF d _ plain, of "''circleci''" sample_pin] sample_pins d show ?thesis
    by (auto simp: env sample_registry_def)
qed

text \<open>With a corrupt file only the plugin without an attestation is registered, and nothing is
  reported.\<close>

lemma corrupt_discovery:
  "let (r, reg') = discover_plugins sample_registry_env sample_policy sample_eps (sample_registry (Content ''='')) in
   map fst (rg_plugins reg') = [''jenkins''] \<and> (case r of Inl _ \<Rightarrow> False | Inr specs \<Rightarrow> map ss_name specs = [''jenkins''])"
  by code_simp

theorem corrupt_allowlist_drops_verified_witness:
  "\<exists>r reg'. discover_plugins sample_registry_env sample_policy sample_eps (sample_registry (Content ''='')) = (Inr r, reg')
     \<and> map fst (rg_plugins reg') = [''jenkins''] \<and> map_of (rg_publishers reg') ''circleci'' = None"
proof -
  obtain r reg' where d: "discover_plugins sample_registry_env sample_policy sample_eps (sample_registry (Content ''='')) = (r, reg')"
    by fastforce
  have "load_allowlist (rv_toml sample_registry_env) (Content ''='') = None" by code_simp
  then have none: "load_allowlist (rv_toml sample_registry_env) (rg_allowlist (sample_registry (Content ''=''))) = None"
    by (simp add: sample_registry_def)
  have eps: "\<not> (\<exists>ep\<in>set sample_eps. ep_name ep = ''circleci'' \<and> verify_publisher (rv_lib sample_registry_env) ep = Inr None)"
    using sample_verified_publisher by (auto simp: sample_eps_def)
  have "map_of (rg_publishers reg') ''circleci'' = None"
    using corrupt_allowlist_drops_verified[OF d none] eps
    by (cases "map_of (rg_publishers reg') ''circleci''") (auto simp: sample_registry_def)
  then show ?thesis using d corrupt_discovery by (cases r) auto
qed

end
