(* ===== verification/WB_Sql.thy ===== *)
theory WB_Sql
  imports WB_Py
begin

text \<open>
  The SQL text handling of \<open>waitbus/_db.py\<close> and its schema bootstrap: statements of a script, the
  columns \<open>schema.sql\<close> declares for \<open>events\<close>, and \<open>ensure_schema\<close> as a process that
  other openers of the same database interleave with. The engine is a parameter: what a statement
  does to the schema and which columns \<open>events\<close> has. A transaction between
  \<open>BEGIN IMMEDIATE\<close> and \<open>COMMIT\<close> is one step, since it holds the write lock; reading the
  columns, waiting and beginning are steps of their own.
\<close>

section \<open>Statements of a script\<close>

definition line_break :: "char \<Rightarrow> bool" where
  "line_break c \<longleftrightarrow> chr_in 10 13 c \<or> chr_in 28 30 c \<or> of_char c = (133::nat)"

text \<open>\<open>str.splitlines()\<close>; a carriage return and a line feed are one break.\<close>

fun splitlines :: "string \<Rightarrow> string list" where
  "splitlines [] = []"
| "splitlines [c] = (if line_break c then [[]] else [[c]])"
| "splitlines (c # d # cs) =
     (if c = CHR 13 \<and> d = CHR 10 then [] # splitlines cs
      else if line_break c then [] # splitlines (d # cs)
      else (case splitlines (d # cs) of [] \<Rightarrow> [[c]] | l # ls \<Rightarrow> (c # l) # ls))"

text \<open>A line up to its first \<open>--\<close>.\<close>

fun cut_comment :: "string \<Rightarrow> string" where
  "cut_comment [] = []"
| "cut_comment (c # cs) = (if c = CHR ''-'' \<and> starts_with ''-'' cs then [] else c # cut_comment cs)"

definition split_sql_statements :: "string \<Rightarrow> string list" where
  "split_sql_statements sql =
     filter (\<lambda>s. s \<noteq> []) (map strip (split_on (CHR '';'')
       (join_with [CHR 10] (map cut_comment (splitlines sql)))))"

section \<open>Declared columns\<close>

text \<open>\<open>_SQL_LINE_COMMENT_RE.sub("", sql)\<close>.\<close>

function drop_comments :: "string \<Rightarrow> string" where
  "drop_comments [] = []"
| "drop_comments (c # cs) =
     (if c = CHR ''-'' \<and> starts_with ''-'' cs then drop_comments (dropWhile (\<lambda>x. x \<noteq> CHR 10) cs)
      else c # drop_comments cs)"
  by pat_completeness auto
termination
  by (relation "measure length") (auto simp: le_imp_less_Suc length_dropWhile_le)

text \<open>Keywords in any case with white space between them.\<close>

fun match_words :: "string list \<Rightarrow> string \<Rightarrow> string option" where
  "match_words [] s = Some s"
| "match_words (w # ws) s =
     (if lower (take (length w) s) \<noteq> w then None
      else (let r = drop (length w) s in
            if ws = [] then Some r
            else if r \<noteq> [] \<and> is_space (hd r) then match_words ws (dropWhile is_space r)
            else None))"

fun upto_close :: "string \<Rightarrow> string option" where
  "upto_close [] = None"
| "upto_close (c # cs) =
     (if c = CHR '')'' \<and> starts_with '';'' cs then Some [] else map_option (\<lambda>b. c # b) (upto_close cs))"

definition create_table_here :: "string \<Rightarrow> string option" where
  "create_table_here s =
     (case match_words [''create'', ''table'', ''if'', ''not'', ''exists'', ''events''] s of
        None \<Rightarrow> None
      | Some r \<Rightarrow> (case dropWhile is_space r of
                    [] \<Rightarrow> None
                  | c # cs \<Rightarrow> if c = CHR ''('' then upto_close cs else None))"

text \<open>\<open>_CREATE_TABLE_RE.search\<close>: the body of the first match.\<close>

fun create_table_body :: "string \<Rightarrow> string option" where
  "create_table_body [] = create_table_here []"
| "create_table_body (c # cs) =
     (case create_table_here (c # cs) of Some b \<Rightarrow> Some b | None \<Rightarrow> create_table_body cs)"

definition TABLE_CONSTRAINT_KEYWORDS :: "string list" where
  "TABLE_CONSTRAINT_KEYWORDS = [''CHECK'', ''FOREIGN'', ''PRIMARY'', ''UNIQUE'', ''CONSTRAINT'']"

definition ident_start :: "char \<Rightarrow> bool" where
  "ident_start c \<longleftrightarrow> is_ascii_upper c \<or> is_ascii_lower c \<or> c = CHR ''_''"

definition IDENTIFIER_RE :: "string \<Rightarrow> bool" where
  "IDENTIFIER_RE s = dollar_match
     (\<lambda>b. b \<noteq> [] \<and> ident_start (hd b) \<and> list_all (\<lambda>c. ident_start c \<or> is_ascii_digit c) (tl b)) s"

fun contains_str :: "string \<Rightarrow> string \<Rightarrow> bool" where
  "contains_str p [] = (p = [])"
| "contains_str p (c # cs) = (starts_with p (c # cs) \<or> contains_str p cs)"

datatype schema_error = NoCreateTable | NoColumns | BadColumnLine

definition parse_column_line :: "string \<Rightarrow> schema_error + (string \<times> string) option" where
  "parse_column_line raw =
     (let line = rstrip_chars (CHR '','') (strip (cut_comment raw)) in
      if line = [] then Inr None
      else if \<exists>kw\<in>set TABLE_CONSTRAINT_KEYWORDS. starts_with kw (map to_upper_ascii line) then Inr None
      else (case partition_on (CHR '' '') line of
              (h, _, t) \<Rightarrow>
                (let head = strip h; decl = strip t in
                 if \<not> IDENTIFIER_RE head \<or> decl = [] then Inl BadColumnLine
                 else if contains_str ''AUTOINCREMENT'' (map to_upper_ascii decl) then Inr None
                 else Inr (Some (head, decl)))))"

definition expected_event_columns :: "string \<Rightarrow> schema_error + (string \<times> string) list" where
  "expected_event_columns sql =
     (case create_table_body (drop_comments sql) of
        None \<Rightarrow> Inl NoCreateTable
      | Some body \<Rightarrow>
          res_bind (res_map_list parse_column_line (splitlines body))
            (\<lambda>parsed. let columns = concat (map (\<lambda>p. case p of None \<Rightarrow> [] | Some c \<Rightarrow> [c]) parsed) in
                      if columns = [] then Inl NoColumns else Inr columns))"

section \<open>Schema bootstrap\<close>

text \<open>A failing statement is busy or locked, or any other error.\<close>

datatype sql_error = SqlBusy | SqlFails

record 's engine =
  en_exec :: "string \<Rightarrow> 's \<Rightarrow> sql_error + 's"
  en_columns :: "'s \<Rightarrow> string list"

fun exec_all :: "(string \<Rightarrow> 's \<Rightarrow> sql_error + 's) \<Rightarrow> string list \<Rightarrow> 's \<Rightarrow> sql_error + 's" where
  "exec_all ex [] s = Inr s"
| "exec_all ex (q # qs) s = res_bind (ex q s) (exec_all ex qs)"

definition PENDING_RENAMES :: "(string \<times> string) list" where
  "PENDING_RENAMES = []"

definition ENSURE_SCHEMA_RETRIES :: nat where
  "ENSURE_SCHEMA_RETRIES = 15"

definition rename_column_sql :: "string \<Rightarrow> string \<Rightarrow> string" where
  "rename_column_sql old new = ''ALTER TABLE events RENAME COLUMN '' @ old @ '' TO '' @ new"

definition add_column_sql :: "string \<Rightarrow> string \<Rightarrow> string" where
  "add_column_sql c decl = ''ALTER TABLE events ADD COLUMN '' @ c @ '' '' @ decl"

text \<open>The rename loop with its \<open>existing\<close> set.\<close>

fun apply_renames ::
    "'s engine \<Rightarrow> (string \<times> string) list \<Rightarrow> string list \<Rightarrow> 's \<Rightarrow> sql_error + string list \<times> 's" where
  "apply_renames en [] existing s = Inr (existing, s)"
| "apply_renames en ((old, new) # rs) existing s =
     (if old \<in> set existing \<and> new \<notin> set existing then
        res_bind (en_exec en (rename_column_sql old new) s)
          (apply_renames en rs (new # filter (\<lambda>c. c \<noteq> old) existing))
      else apply_renames en rs existing s)"

fun add_missing :: "'s engine \<Rightarrow> (string \<times> string) list \<Rightarrow> string list \<Rightarrow> 's \<Rightarrow> sql_error + 's" where
  "add_missing en [] existing s = Inr s"
| "add_missing en ((c, decl) # cs) existing s =
     (if c \<in> set existing then add_missing en cs existing s
      else res_bind (en_exec en (add_column_sql c decl) s)
             (add_missing en cs existing))"

text \<open>What the migration transaction executes after \<open>BEGIN IMMEDIATE\<close>. A schema file that
  does not parse raises, which is no busy error.\<close>

definition migration_body :: "'s engine \<Rightarrow> string \<Rightarrow> string list \<Rightarrow> 's \<Rightarrow> sql_error + 's" where
  "migration_body en schema_sql existing s =
     res_bind (apply_renames en PENDING_RENAMES existing s)
       (\<lambda>(existing', s1). case expected_event_columns schema_sql of
            Inl _ \<Rightarrow> Inl SqlFails
          | Inr cols \<Rightarrow> res_bind (add_missing en cols existing' s1)
                          (exec_all (en_exec en) (split_sql_statements schema_sql)))"

text \<open>One opener: before the column read, at an attempt of either transaction (with the columns it
  has read), waiting to read the columns again, or finished.\<close>

datatype opener =
    ReadColumns
  | SchemaAttempt nat
  | MigrateAttempt nat "string list"
  | MigrateRefresh nat
  | Opened
  | OpenFailed

text \<open>Whether the lock is free when the step needs it, or the read fails.\<close>

datatype lock_state = Locked | Free

text \<open>A busy error at an attempt: the next one, or the error after the last.\<close>

definition busy_next :: "nat \<Rightarrow> (nat \<Rightarrow> opener) \<Rightarrow> opener" where
  "busy_next n again = (if n = ENSURE_SCHEMA_RETRIES - 1 then OpenFailed else again (Suc n))"

fun run_transaction ::
    "('s \<Rightarrow> sql_error + 's) \<Rightarrow> lock_state \<Rightarrow> nat \<Rightarrow> (nat \<Rightarrow> opener) \<Rightarrow> 's \<Rightarrow> opener \<times> 's" where
  "run_transaction body Locked n again s = (busy_next n again, s)"
| "run_transaction body Free n again s =
     (case body s of
        Inr s' \<Rightarrow> (Opened, s')
      | Inl SqlBusy \<Rightarrow> (busy_next n again, s)
      | Inl SqlFails \<Rightarrow> (OpenFailed, s))"

fun opener_step :: "'s engine \<Rightarrow> string \<Rightarrow> lock_state \<Rightarrow> opener \<Rightarrow> 's \<Rightarrow> opener \<times> 's" where
  "opener_step en sql lock ReadColumns s =
     ((case lock of
         Locked \<Rightarrow> OpenFailed
       | Free \<Rightarrow> if en_columns en s \<noteq> [] then MigrateAttempt 0 (en_columns en s) else SchemaAttempt 0), s)"
| "opener_step en sql lock (SchemaAttempt n) s =
     run_transaction (exec_all (en_exec en) (split_sql_statements sql)) lock n SchemaAttempt s"
| "opener_step en sql lock (MigrateAttempt n existing) s =
     run_transaction (migration_body en sql existing) lock n MigrateRefresh s"
| "opener_step en sql lock (MigrateRefresh n) s =
     ((case lock of Locked \<Rightarrow> OpenFailed | Free \<Rightarrow> MigrateAttempt n (en_columns en s)), s)"
| "opener_step en sql lock p s = (p, s)"

text \<open>Any number of openers of one database, in the order of a schedule.\<close>

fun run_openers ::
    "'s engine \<Rightarrow> string \<Rightarrow> (nat \<times> lock_state) list \<Rightarrow> opener list \<times> 's \<Rightarrow> opener list \<times> 's" where
  "run_openers en sql [] st = st"
| "run_openers en sql ((i, lock) # sched) (ps, s) =
     (if i < length ps then
        (case opener_step en sql lock (ps ! i) s of (p, s') \<Rightarrow> run_openers en sql sched (ps[i := p], s'))
      else run_openers en sql sched (ps, s))"

end
