(* ===== verification/WB_SqlProps.thy ===== *)
theory WB_SqlProps
  imports WB_Sql
begin

text \<open>
  Schema bootstrap under concurrency: whatever the interleaving of openers, one that finishes leaves
  every declared column in place; but the column snapshot is taken outside the transaction, so on a
  database that needs a new column the second of two simultaneous openers fails.
\<close>

text \<open>What the code relies on of SQLite: an added column is there and nothing else is lost, the
  statements of the schema drop no column of \<open>events\<close>, and on a database without the table they
  create it with the declared columns.\<close>

definition engine_ok :: "'s engine \<Rightarrow> string \<Rightarrow> (string \<times> string) list \<Rightarrow> bool" where
  "engine_ok en sql cols \<longleftrightarrow>
     expected_event_columns sql = Inr cols
     \<and> (\<forall>(c, decl)\<in>set cols. \<forall>s s'. en_exec en (add_column_sql c decl) s = Inr s' \<longrightarrow>
          set (en_columns en s') = insert c (set (en_columns en s)))
     \<and> (\<forall>q\<in>set (split_sql_statements sql). \<forall>s s'. en_exec en q s = Inr s' \<longrightarrow>
          set (en_columns en s) \<subseteq> set (en_columns en s'))
     \<and> (\<forall>s s'. en_columns en s = [] \<and> exec_all (en_exec en) (split_sql_statements sql) s = Inr s' \<longrightarrow>
          fst ` set cols \<subseteq> set (en_columns en s'))"

lemma engine_okD:
  assumes "engine_ok en sql cols"
  shows "expected_event_columns sql = Inr cols"
    and "(c, decl) \<in> set cols \<Longrightarrow> en_exec en (add_column_sql c decl) s = Inr s' \<Longrightarrow>
         set (en_columns en s') = insert c (set (en_columns en s))"
    and "q \<in> set (split_sql_statements sql) \<Longrightarrow> en_exec en q s = Inr s' \<Longrightarrow>
         set (en_columns en s) \<subseteq> set (en_columns en s')"
    and "en_columns en s = [] \<Longrightarrow> exec_all (en_exec en) (split_sql_statements sql) s = Inr s' \<Longrightarrow>
         fst ` set cols \<subseteq> set (en_columns en s')"
  using assms unfolding engine_ok_def by blast+

lemma exec_all_mono:
  assumes "\<And>q s s'. q \<in> set qs \<Longrightarrow> en_exec en q s = Inr s' \<Longrightarrow> set (en_columns en s) \<subseteq> set (en_columns en s')"
    and "exec_all (en_exec en) qs s = Inr s'"
  shows "set (en_columns en s) \<subseteq> set (en_columns en s')"
  using assms
proof (induction qs arbitrary: s)
  case (Cons q qs)
  then obtain s1 where s1: "en_exec en q s = Inr s1" "exec_all (en_exec en) qs s1 = Inr s'" by auto
  have "set (en_columns en s) \<subseteq> set (en_columns en s1)" using Cons.prems(1)[OF _ s1(1)] by simp
  moreover have "set (en_columns en s1) \<subseteq> set (en_columns en s')"
    using Cons.IH[OF _ s1(2)] Cons.prems(1) by (meson list.set_intros(2))
  ultimately show ?case by blast
qed simp

lemma add_missing_columns:
  assumes "\<And>c decl s s'. (c, decl) \<in> set cs \<Longrightarrow> en_exec en (add_column_sql c decl) s = Inr s' \<Longrightarrow>
      set (en_columns en s') = insert c (set (en_columns en s))"
    and "add_missing en cs existing s = Inr s'"
  shows "set (en_columns en s') = set (en_columns en s) \<union> (fst ` set cs - set existing)"
  using assms
proof (induction cs arbitrary: s)
  case (Cons c cs)
  obtain n d where c: "c = (n, d)" by force
  show ?case
  proof (cases "n \<in> set existing")
    case True
    then have "add_missing en cs existing s = Inr s'" using Cons.prems(2) c by simp
    then have "set (en_columns en s') = set (en_columns en s) \<union> (fst ` set cs - set existing)"
      using Cons.IH Cons.prems(1) by (meson list.set_intros(2))
    then show ?thesis using True c by auto
  next
    case False
    then obtain s1 where s1: "en_exec en (add_column_sql n d) s = Inr s1"
      "add_missing en cs existing s1 = Inr s'" using Cons.prems(2) c by auto
    then have "set (en_columns en s1) = insert n (set (en_columns en s))" using Cons.prems(1)[OF _ s1(1)] c by simp
    moreover have "set (en_columns en s') = set (en_columns en s1) \<union> (fst ` set cs - set existing)"
      using Cons.IH[OF _ s1(2)] Cons.prems(1) by (meson list.set_intros(2))
    ultimately show ?thesis using False c by auto
  qed
qed simp

lemma migration_body_eq:
  "expected_event_columns sql = Inr cols \<Longrightarrow>
     migration_body en sql existing s =
       res_bind (add_missing en cols existing s) (exec_all (en_exec en) (split_sql_statements sql))"
  by (simp add: migration_body_def PENDING_RENAMES_def)

lemma migration_body_columns:
  assumes "engine_ok en sql cols" "migration_body en sql existing s = Inr s'"
    and "set existing \<subseteq> set (en_columns en s)"
  shows "set (en_columns en s) \<union> fst ` set cols \<subseteq> set (en_columns en s')"
proof -
  obtain s1 where s1: "add_missing en cols existing s = Inr s1"
    "exec_all (en_exec en) (split_sql_statements sql) s1 = Inr s'"
    using assms(2) by (auto simp: migration_body_eq[OF engine_okD(1)[OF assms(1)]])
  have "set (en_columns en s1) = set (en_columns en s) \<union> (fst ` set cols - set existing)"
    by (rule add_missing_columns[OF engine_okD(2)[OF assms(1)] s1(1)])
  moreover have "set (en_columns en s1) \<subseteq> set (en_columns en s')"
    by (rule exec_all_mono[OF engine_okD(3)[OF assms(1)] s1(2)])
  ultimately show ?thesis using assms(3) by blast
qed

text \<open>What an opener knows of the columns.\<close>

fun opener_ok :: "string set \<Rightarrow> string set \<Rightarrow> opener \<Rightarrow> bool" where
  "opener_ok declared now (SchemaAttempt n) \<longleftrightarrow> n < ENSURE_SCHEMA_RETRIES \<and> (now = {} \<or> declared \<subseteq> now)"
| "opener_ok declared now (MigrateAttempt n existing) \<longleftrightarrow> n < ENSURE_SCHEMA_RETRIES \<and> set existing \<subseteq> now \<and> now \<noteq> {}"
| "opener_ok declared now (MigrateRefresh n) \<longleftrightarrow> n < ENSURE_SCHEMA_RETRIES \<and> now \<noteq> {}"
| "opener_ok declared now Opened \<longleftrightarrow> declared \<subseteq> now"
| "opener_ok declared now _ \<longleftrightarrow> True"

lemma opener_ok_mono:
  "opener_ok declared now p \<Longrightarrow> now \<subseteq> later \<Longrightarrow> later = now \<or> declared \<subseteq> later \<Longrightarrow> opener_ok declared later p"
  by (cases p) auto

lemma busy_next_ok:
  "n < ENSURE_SCHEMA_RETRIES \<Longrightarrow> now = {} \<or> declared \<subseteq> now \<Longrightarrow> opener_ok declared now (busy_next n SchemaAttempt)"
  "n < ENSURE_SCHEMA_RETRIES \<Longrightarrow> now \<noteq> {} \<Longrightarrow> opener_ok declared now (busy_next n MigrateRefresh)"
  by (auto simp: busy_next_def)

lemma run_transaction_cases:
  assumes "run_transaction body lock n again s = (p, s')"
  obtains "p = busy_next n again" "s' = s" | "p = Opened" "body s = Inr s'" | "p = OpenFailed" "s' = s"
  using assms by (cases lock; cases "body s"; cases "projl (body s)") (auto split: sql_error.splits)

lemma opener_step_ok:
  assumes "engine_ok en sql cols" "opener_ok (fst ` set cols) (set (en_columns en s)) p"
    and "opener_step en sql lock p s = (p', s')"
  shows "opener_ok (fst ` set cols) (set (en_columns en s')) p'
       \<and> set (en_columns en s) \<subseteq> set (en_columns en s')
       \<and> (set (en_columns en s') = set (en_columns en s) \<or> fst ` set cols \<subseteq> set (en_columns en s'))"
proof (cases p)
  case ReadColumns
  then show ?thesis
    using assms(3) by (auto simp: ENSURE_SCHEMA_RETRIES_def split: lock_state.splits if_splits)
next
  case (SchemaAttempt n)
  have run: "run_transaction (exec_all (en_exec en) (split_sql_statements sql)) lock n SchemaAttempt s = (p', s')"
    using assms(3) SchemaAttempt by simp
  from run show ?thesis
  proof (cases rule: run_transaction_cases)
    case 1
    then show ?thesis using assms(2) SchemaAttempt busy_next_ok(1) by auto
  next
    case 2
    have "set (en_columns en s) \<subseteq> set (en_columns en s')"
      by (rule exec_all_mono[OF engine_okD(3)[OF assms(1)] 2(2)])
    moreover from this have "fst ` set cols \<subseteq> set (en_columns en s')"
      using engine_okD(4)[OF assms(1) _ 2(2)] assms(2) SchemaAttempt by auto
    ultimately show ?thesis using 2 by simp
  qed simp
next
  case (MigrateAttempt n existing)
  then have now: "set existing \<subseteq> set (en_columns en s)" "n < ENSURE_SCHEMA_RETRIES" "en_columns en s \<noteq> []"
    using assms(2) by auto
  have run: "run_transaction (migration_body en sql existing) lock n MigrateRefresh s = (p', s')"
    using assms(3) MigrateAttempt by simp
  from run show ?thesis
  proof (cases rule: run_transaction_cases)
    case 1
    then show ?thesis using now busy_next_ok(2) by auto
  next
    case 2
    then show ?thesis using migration_body_columns[OF assms(1) 2(2) now(1)] by simp
  qed simp
next
  case (MigrateRefresh n)
  then show ?thesis using assms(2,3) by (auto split: lock_state.splits)
qed (use assms in auto)

lemma run_openers_ok:
  assumes "engine_ok en sql cols" "run_openers en sql sched (ps, s) = (ps', s')"
    and "\<forall>p\<in>set ps. opener_ok (fst ` set cols) (set (en_columns en s)) p"
  shows "(\<forall>p\<in>set ps'. opener_ok (fst ` set cols) (set (en_columns en s')) p)
       \<and> set (en_columns en s) \<subseteq> set (en_columns en s')"
  using assms(2,3)
proof (induction sched arbitrary: ps s)
  case (Cons e sched)
  obtain i lock where e: "e = (i, lock)" by force
  show ?case
  proof (cases "i < length ps")
    case True
    obtain p s1 where step: "opener_step en sql lock (ps ! i) s = (p, s1)" by force
    have ok: "opener_ok (fst ` set cols) (set (en_columns en s1)) p" "set (en_columns en s) \<subseteq> set (en_columns en s1)"
      "set (en_columns en s1) = set (en_columns en s) \<or> fst ` set cols \<subseteq> set (en_columns en s1)"
      using opener_step_ok[OF assms(1) _ step] Cons.prems(2) True by auto
    have "\<forall>q\<in>set (ps[i := p]). opener_ok (fst ` set cols) (set (en_columns en s1)) q"
    proof
      fix q assume "q \<in> set (ps[i := p])"
      then consider "q = p" | "q \<in> set ps" using set_update_subset_insert[of ps i p] by blast
      then show "opener_ok (fst ` set cols) (set (en_columns en s1)) q"
      proof cases
        case 2
        then show ?thesis using Cons.prems(2) opener_ok_mono[OF _ ok(2,3)] by blast
      qed (simp add: ok(1))
    qed
    moreover have "run_openers en sql sched (ps[i := p], s1) = (ps', s')"
      using Cons.prems(1) True step by (simp add: e)
    ultimately have "(\<forall>p\<in>set ps'. opener_ok (fst ` set cols) (set (en_columns en s')) p)
        \<and> set (en_columns en s1) \<subseteq> set (en_columns en s')" by (intro Cons.IH)
    then show ?thesis using ok(2) by blast
  next
    case False
    then show ?thesis using Cons.IH[of ps s] Cons.prems by (simp add: e)
  qed
qed simp

text \<open>C23: However many openers of one database run \<open>ensure_schema\<close> in whatever interleaving, with
  locks lost at any point: no column is ever lost, every opener that returned has left all columns of
  \<open>schema.sql\<close> in place, and none makes more than fifteen attempts.\<close>

theorem ensure_schema_completes:
  assumes "engine_ok en sql cols" "set ps = {ReadColumns}"
    and "run_openers en sql sched (ps, s) = (ps', s')"
  shows "set (en_columns en s) \<subseteq> set (en_columns en s')
     \<and> (Opened \<in> set ps' \<longrightarrow> fst ` set cols \<subseteq> set (en_columns en s'))
     \<and> (\<forall>n. SchemaAttempt n \<in> set ps' \<or> MigrateRefresh n \<in> set ps' \<or> (\<exists>ex. MigrateAttempt n ex \<in> set ps') \<longrightarrow>
          n < ENSURE_SCHEMA_RETRIES)"
proof -
  have ok: "(\<forall>p\<in>set ps'. opener_ok (fst ` set cols) (set (en_columns en s')) p)
      \<and> set (en_columns en s) \<subseteq> set (en_columns en s')"
    using run_openers_ok[OF assms(1,3)] assms(2) by simp
  then have "opener_ok (fst ` set cols) (set (en_columns en s')) p" if "p \<in> set ps'" for p
    using that by blast
  from this[of Opened] this[of "SchemaAttempt _"] this[of "MigrateRefresh _"] this[of "MigrateAttempt _ _"]
  show ?thesis using ok by auto
qed

section \<open>The stale snapshot\<close>

text \<open>SQLite rejects a column that is there already, and no statement of a transaction that holds
  the write lock is busy.\<close>

definition rejects_duplicates :: "'s engine \<Rightarrow> (string \<times> string) list \<Rightarrow> bool" where
  "rejects_duplicates en cols \<longleftrightarrow>
     (\<forall>(c, decl)\<in>set cols. \<forall>s. c \<in> set (en_columns en s) \<longrightarrow> en_exec en (add_column_sql c decl) s = Inl SqlFails)
     \<and> (\<forall>q s. en_exec en q s \<noteq> Inl SqlBusy)"

lemma add_missing_stale:
  assumes "rejects_duplicates en cols"
    and law: "\<And>c decl s s'. (c, decl) \<in> set cols \<Longrightarrow> en_exec en (add_column_sql c decl) s = Inr s' \<Longrightarrow>
      set (en_columns en s') = insert c (set (en_columns en s))"
    and "c \<notin> set existing"
    and "set cs \<subseteq> set cols" "(c, d) \<in> set cs" "c \<in> set (en_columns en s)"
  shows "add_missing en cs existing s = Inl SqlFails"
  using assms(4-6)
proof (induction cs arbitrary: s)
  case (Cons a cs)
  obtain n e where a: "a = (n, e)" by force
  let ?q = "add_column_sql n e"
  have col: "(n, e) \<in> set cols" "set cs \<subseteq> set cols" using Cons.prems(1) a by auto
  have busy: "en_exec en ?q s \<noteq> Inl SqlBusy" using assms(1) by (simp add: rejects_duplicates_def)
  show ?case
  proof (cases "n \<in> set existing")
    case True
    then have "(c, d) \<in> set cs" using Cons.prems(2) a assms(3) by auto
    then show ?thesis using True a Cons.IH[OF col(2) _ Cons.prems(3)] by simp
  next
    case missing: False
    show ?thesis
    proof (cases "en_exec en ?q s")
      case (Inl x)
      then show ?thesis using busy missing a by (cases x) auto
    next
      case (Inr s1)
      then have "n \<notin> set (en_columns en s)" using assms(1) col(1) by (auto simp: rejects_duplicates_def)
      then have "(c, d) \<in> set cs" using Cons.prems(2,3) a by auto
      moreover have "c \<in> set (en_columns en s1)" using law[OF col(1) Inr] Cons.prems(3) by simp
      ultimately show ?thesis using Cons.IH[OF col(2)] Inr missing a by simp
    qed
  qed
qed simp

text \<open>On a database whose events table lacks a declared column, an opener that reads the
  columns while another is about to add them fails for good once the other has committed: its
  transaction adds the column again, and that error is not retried. The code means every simultaneous
  opener to find the committed columns.\<close>

theorem stale_columns_fail_startup:
  assumes "engine_ok en sql cols" "rejects_duplicates en cols"
    and "en_columns en s \<noteq> []" "(c, d) \<in> set cols" "c \<notin> set (en_columns en s)"
    and "migration_body en sql (en_columns en s) s = Inr s'"
  shows "run_openers en sql [(0, Free), (1, Free), (0, Free), (1, Free)] ([ReadColumns, ReadColumns], s)
       = ([Opened, OpenFailed], s')"
proof -
  have "c \<in> set (en_columns en s')"
    using migration_body_columns[OF assms(1,6)] assms(4) by force
  then have "add_missing en cols (en_columns en s) s' = Inl SqlFails"
    by (intro add_missing_stale[OF assms(2) engine_okD(2)[OF assms(1)] assms(5) subset_refl assms(4)])
  then have "migration_body en sql (en_columns en s) s' = Inl SqlFails"
    by (simp add: migration_body_eq[OF engine_okD(1)[OF assms(1)]])
  then show ?thesis using assms(3,6) by simp
qed

section \<open>Witnesses\<close>

definition sample_schema :: string where
  "sample_schema = ''CREATE TABLE IF NOT EXISTS events ('' @ [CHR 10]
     @ ''  seq INTEGER PRIMARY KEY AUTOINCREMENT,  -- the order (internal);'' @ [CHR 10]
     @ ''  event_id TEXT,'' @ [CHR 10] @ ''  status TEXT'' @ [CHR 10] @ '');'' @ [CHR 10]"

definition sample_cols :: "(string \<times> string) list" where
  "sample_cols = [(''event_id'', ''TEXT''), (''status'', ''TEXT'')]"

text \<open>A database that is the list of the columns of \<open>events\<close>.\<close>

definition sample_engine :: "string list engine" where
  "sample_engine = \<lparr>en_exec = (\<lambda>q s.
       if starts_with ''ALTER'' q then
         (let c = takeWhile (\<lambda>x. x \<noteq> CHR '' '') (drop 30 q) in if c \<in> set s then Inl SqlFails else Inr (s @ [c]))
       else Inr (if s = [] then [''seq'', ''event_id'', ''status''] else s)),
     en_columns = (\<lambda>s. s)\<rparr>"

lemma sample_expected: "expected_event_columns sample_schema = Inr sample_cols"
  by code_simp

lemma sample_statements:
  "split_sql_statements sample_schema =
     [''CREATE TABLE IF NOT EXISTS events ('' @ [CHR 10]
      @ ''  seq INTEGER PRIMARY KEY AUTOINCREMENT,  '' @ [CHR 10]
      @ ''  event_id TEXT,'' @ [CHR 10] @ ''  status TEXT'' @ [CHR 10] @ '')'']"
  by code_simp

lemma sample_add:
  assumes "(c, decl) \<in> set sample_cols"
  shows "en_exec sample_engine (add_column_sql c decl) s = (if c \<in> set s then Inl SqlFails else Inr (s @ [c]))"
proof -
  have "starts_with ''ALTER'' (add_column_sql c decl)"
    "takeWhile (\<lambda>x. x \<noteq> CHR '' '') (drop 30 (add_column_sql c decl)) = c"
    using assms by (auto simp: sample_cols_def add_column_sql_def starts_with_def)
  then show ?thesis by (simp add: sample_engine_def)
qed

lemma sample_script:
  "q \<in> set (split_sql_statements sample_schema) \<Longrightarrow>
     en_exec sample_engine q s = Inr (if s = [] then [''seq'', ''event_id'', ''status''] else s)"
  unfolding sample_statements by (simp add: sample_engine_def starts_with_def)

lemma sample_engine_ok: "engine_ok sample_engine sample_schema sample_cols"
proof -
  have cols: "en_columns sample_engine s = s" for s by (simp add: sample_engine_def)
  have "exec_all (en_exec sample_engine) (split_sql_statements sample_schema) s
      = Inr (if s = [] then [''seq'', ''event_id'', ''status''] else s)" for s
    using sample_script unfolding sample_statements by simp
  then show ?thesis
    unfolding engine_ok_def cols
    by (auto simp: sample_expected sample_add sample_script split: if_splits) (auto simp: sample_cols_def split: if_splits)
qed

text \<open>Two openers of a database without the column \<open>status\<close>: the first adds it, the second
  fails; had they met at the lock, both would have finished.\<close>

theorem stale_columns_fail_startup_witness:
  "run_openers sample_engine sample_schema [(0, Free), (1, Free), (0, Free), (1, Free)]
     ([ReadColumns, ReadColumns], [''seq'', ''event_id'']) = ([Opened, OpenFailed], [''seq'', ''event_id'', ''status''])"
proof (rule stale_columns_fail_startup[OF sample_engine_ok, where c = "''status''" and d = "''TEXT''"])
  show "rejects_duplicates sample_engine sample_cols"
  proof -
    have "en_exec sample_engine q s \<noteq> Inl SqlBusy" for q s by (simp add: sample_engine_def Let_def)
    then show ?thesis unfolding rejects_duplicates_def by (auto simp: sample_add) (simp_all add: sample_engine_def)
  qed
  show "migration_body sample_engine sample_schema (en_columns sample_engine [''seq'', ''event_id'']) [''seq'', ''event_id'']
      = Inr [''seq'', ''event_id'', ''status'']" by code_simp
qed (auto simp: sample_engine_def sample_cols_def)

theorem ensure_schema_completes_witness:
  "run_openers sample_engine sample_schema [(0, Free), (1, Free), (0, Free), (1, Locked), (1, Free), (1, Free)]
     ([ReadColumns, ReadColumns], []) = ([Opened, Opened], [''seq'', ''event_id'', ''status''])
   \<and> fst ` set sample_cols \<subseteq> set [''seq'', ''event_id'', ''status'']"
proof -
  have "run_openers sample_engine sample_schema [(0, Free), (1, Free), (0, Free), (1, Locked), (1, Free), (1, Free)]
      ([ReadColumns, ReadColumns], []) = ([Opened, Opened], [''seq'', ''event_id'', ''status''])" by code_simp
  with ensure_schema_completes[OF sample_engine_ok _ this] show ?thesis by (simp add: sample_engine_def)
qed

end
