(* ===== verification/WB_Migrate.thy ===== *)
theory WB_Migrate
  imports WB_Sql
begin

text \<open>
  Numbered schema migrations, \<open>waitbus/migrations/__init__.py\<close>: discovery on disk, the tracking
  table, drift and gap checks, the plan, and \<open>apply_pending\<close> as a process of which any number run
  on one database. The schema is an abstract value on which statements and Python hooks act; the
  tracking table \<open>schema_migrations\<close> is kept beside it. A transaction under
  \<open>BEGIN IMMEDIATE\<close> is one step.
\<close>

section \<open>Discovery\<close>

record dir_entry =
  de_name :: string
  de_file :: bool
  de_text :: string

record migration =
  mg_seq :: nat
  mg_slug :: string
  mg_sql :: string
  mg_hook :: "string option"
  mg_sha :: string

definition slug_char :: "char \<Rightarrow> bool" where
  "slug_char c \<longleftrightarrow> is_ascii_lower c \<or> is_ascii_digit c \<or> c = CHR ''_''"

text \<open>The sequence number and the slug of a file name; the pattern ends in \<open>$\<close>.\<close>

definition filename_body :: "string \<Rightarrow> (string \<times> string) option" where
  "filename_body b =
     (let slug = take (length b - 9) (drop 5 b) in
      if 10 \<le> length b \<and> list_all is_ascii_digit (take 4 b) \<and> b ! 4 = CHR ''_''
         \<and> is_ascii_lower (hd slug) \<and> list_all slug_char slug \<and> ends_with ''.sql'' b
      then Some (take 4 b, slug) else None)"

definition FILENAME_RE :: "string \<Rightarrow> (string \<times> string) option" where
  "FILENAME_RE s =
     (case filename_body s of
        Some p \<Rightarrow> Some p
      | None \<Rightarrow> if s \<noteq> [] \<and> last s = CHR 10 then filename_body (butlast s) else None)"

definition digits_value :: "string \<Rightarrow> nat" where
  "digits_value ds = foldl (\<lambda>n d. 10 * n + (of_char d - 48)) 0 ds"

datatype migrate_error =
    DuplicateSequence
  | AppliedMissing
  | ChecksumDrift
  | MigrationGap
  | SqlRaised sql_error

text \<open>The loop over the sorted directory; \<open>sha\<close> is the hex SHA-256 of a text.\<close>

fun discover_entries ::
    "(string \<Rightarrow> string) \<Rightarrow> dir_entry list \<Rightarrow> dir_entry list \<Rightarrow> (nat \<times> migration) list
       \<Rightarrow> migrate_error + (nat \<times> migration) list" where
  "discover_entries sha dir [] by_seq = Inr by_seq"
| "discover_entries sha dir (e # es) by_seq =
     (if \<not> de_file e then discover_entries sha dir es by_seq
      else (case FILENAME_RE (de_name e) of
              None \<Rightarrow> discover_entries sha dir es by_seq
            | Some (digits, slug) \<Rightarrow>
                (let seq = digits_value digits; py = digits @ ''_'' @ slug @ ''.py'' in
                 if seq \<in> fst ` set by_seq then Inl DuplicateSequence
                 else discover_entries sha dir es
                        (by_seq @ [(seq, \<lparr>mg_seq = seq, mg_slug = slug, mg_sql = de_name e,
                           mg_hook = (if py \<in> de_name ` set dir then Some py else None),
                           mg_sha = sha (de_text e)\<rparr>)]))))"

definition discover_migrations :: "(string \<Rightarrow> string) \<Rightarrow> dir_entry list \<Rightarrow> migrate_error + migration list" where
  "discover_migrations sha dir =
     res_bind (discover_entries sha dir (sort_key de_name dir) []) (\<lambda>by_seq. Inr (map snd (sort_key fst by_seq)))"

section \<open>Tracking table, checks, plan\<close>

record applied_row =
  ar_seq :: nat
  ar_slug :: string
  ar_at :: int
  ar_sha :: string

record 's mig_db =
  md_schema :: 's
  md_rows :: "applied_row list option"

definition tracked :: "'s mig_db \<Rightarrow> applied_row list" where
  "tracked db = (case md_rows db of None \<Rightarrow> [] | Some rows \<Rightarrow> rows)"

definition ensure_tracking_table :: "'s mig_db \<Rightarrow> 's mig_db" where
  "ensure_tracking_table db = db\<lparr>md_rows := Some (tracked db)\<rparr>"

definition read_applied :: "'s mig_db \<Rightarrow> applied_row list" where
  "read_applied db = sort_key ar_seq (tracked db)"

fun verify_no_drift :: "applied_row list \<Rightarrow> migration list \<Rightarrow> migrate_error + unit" where
  "verify_no_drift [] discovered = Inr ()"
| "verify_no_drift (row # rows) discovered =
     (case map_of (rev (map (\<lambda>m. (mg_seq m, m)) discovered)) (ar_seq row) of
        None \<Rightarrow> Inl AppliedMissing
      | Some mig \<Rightarrow> if mg_sha mig \<noteq> ar_sha row then Inl ChecksumDrift else verify_no_drift rows discovered)"

text \<open>\<open>enumerate(discovered_seqs, start=1)\<close>; the applied set changes nothing.\<close>

fun gap_free :: "nat \<Rightarrow> nat list \<Rightarrow> bool" where
  "gap_free expected [] = True"
| "gap_free expected (actual # rest) = (expected = actual \<and> gap_free (Suc expected) rest)"

definition verify_no_gaps :: "applied_row list \<Rightarrow> migration list \<Rightarrow> migrate_error + unit" where
  "verify_no_gaps applied discovered =
     (if gap_free 1 (sort (map mg_seq discovered)) then Inr () else Inl MigrationGap)"

definition within_target :: "int option \<Rightarrow> migration \<Rightarrow> bool" where
  "within_target target m = (case target of None \<Rightarrow> True | Some t \<Rightarrow> int (mg_seq m) \<le> t)"

text \<open>The plan entries: the migration and whether it is applied.\<close>

definition plan ::
    "migrate_error + migration list \<Rightarrow> int option \<Rightarrow> applied_row list \<Rightarrow> migrate_error + (migration \<times> bool) list" where
  "plan discovery target applied =
     res_bind discovery (\<lambda>discovered.
     res_bind (verify_no_drift applied discovered) (\<lambda>_.
     res_bind (verify_no_gaps applied discovered) (\<lambda>_.
       Inr (map (\<lambda>m. (m, mg_seq m \<in> ar_seq ` set applied)) (filter (within_target target) discovered)))))"

definition pending_migrations ::
    "migrate_error + migration list \<Rightarrow> int option \<Rightarrow> applied_row list \<Rightarrow> migrate_error + migration list" where
  "pending_migrations discovery target applied =
     res_bind (plan discovery target applied) (\<lambda>entries. Inr (map fst (filter (\<lambda>e. \<not> snd e) entries)))"

section \<open>Applying\<close>

text \<open>What the database and the disk do: a statement, a hook (loading it included), the text of a
  file when it is read to be applied.\<close>

record 's mig_env =
  me_exec :: "string \<Rightarrow> 's \<Rightarrow> sql_error + 's"
  me_hook :: "string \<Rightarrow> 's \<Rightarrow> sql_error + 's"
  me_text :: "string \<Rightarrow> string"

definition migration_effect :: "'s mig_env \<Rightarrow> migration \<Rightarrow> 's \<Rightarrow> sql_error + 's" where
  "migration_effect env m s =
     res_bind (exec_all (me_exec env) (split_sql_statements (me_text env (mg_sql m))) s)
       (\<lambda>s'. case mg_hook m of None \<Rightarrow> Inr s' | Some py \<Rightarrow> me_hook env py s')"

definition applied_now :: "int \<Rightarrow> migration \<Rightarrow> applied_row" where
  "applied_now now m = \<lparr>ar_seq = mg_seq m, ar_slug = mg_slug m, ar_at = now, ar_sha = mg_sha m\<rparr>"

text \<open>The sequence number is the primary key of the tracking table.\<close>

definition insert_applied :: "applied_row \<Rightarrow> 's mig_db \<Rightarrow> sql_error + 's mig_db" where
  "insert_applied row db =
     (case md_rows db of
        None \<Rightarrow> Inl SqlFails
      | Some rows \<Rightarrow> if ar_seq row \<in> ar_seq ` set rows then Inl SqlFails
                     else Inr (db\<lparr>md_rows := Some (rows @ [row])\<rparr>))"

definition apply_one :: "'s mig_env \<Rightarrow> int \<Rightarrow> migration \<Rightarrow> 's mig_db \<Rightarrow> sql_error + 's mig_db" where
  "apply_one env now m db =
     res_bind (migration_effect env m (md_schema db))
       (\<lambda>s. insert_applied (applied_now now m) (db\<lparr>md_schema := s\<rparr>))"

text \<open>Whether the write lock is free when a step needs it, with the clock's reading.\<close>

datatype db_lock = Busy | Got int

text \<open>One attempt of \<open>_apply_one_with_retry\<close>: rolled back unless it commits.\<close>

datatype attempt = Landed | Retry | Raises sql_error

definition attempt_one ::
    "'s mig_env \<Rightarrow> nat \<Rightarrow> migration \<Rightarrow> db_lock \<Rightarrow> 's mig_db \<Rightarrow> attempt \<times> 's mig_db" where
  "attempt_one env n m lock db =
     (let retry = (if n = ENSURE_SCHEMA_RETRIES - 1 then Raises SqlBusy else Retry) in
      case lock of
        Busy \<Rightarrow> (retry, db)
      | Got now \<Rightarrow>
          (if md_rows db = None then (Raises SqlFails, db)
           else if mg_seq m \<in> ar_seq ` set (tracked db) then (Landed, db)
           else (case apply_one env now m db of
                   Inr db' \<Rightarrow> (Landed, db')
                 | Inl SqlBusy \<Rightarrow> (retry, db)
                 | Inl SqlFails \<Rightarrow> (Raises SqlFails, db))))"

text \<open>One run of \<open>apply_pending\<close>: before the tracking table, before the plan, at an attempt of the
  first remaining migration with the list it will return, finished or failed.\<close>

datatype migrator =
    MigStart
  | MigPlan
  | MigApply "migration list" nat "migration list"
  | MigDone "migration list"
  | MigFailed migrate_error

fun migrator_step ::
    "'s mig_env \<Rightarrow> migrate_error + migration list \<Rightarrow> int option \<Rightarrow> db_lock \<Rightarrow> migrator \<Rightarrow> 's mig_db
       \<Rightarrow> migrator \<times> 's mig_db" where
  "migrator_step env discovery target lock MigStart db =
     (case discovery of
        Inl e \<Rightarrow> (MigFailed e, db)
      | Inr _ \<Rightarrow> if md_rows db = None \<and> lock = Busy then (MigFailed (SqlRaised SqlBusy), db)
                 else (MigPlan, ensure_tracking_table db))"
| "migrator_step env discovery target lock MigPlan db =
     ((case pending_migrations discovery target (read_applied db) of
         Inl e \<Rightarrow> MigFailed e
       | Inr pending \<Rightarrow> MigApply pending 0 []), db)"
| "migrator_step env discovery target lock (MigApply [] n done) db = (MigDone done, db)"
| "migrator_step env discovery target lock (MigApply (m # ms) n done) db =
     (case attempt_one env n m lock db of
        (Landed, db') \<Rightarrow> (MigApply ms 0 (done @ [m]), db')
      | (Retry, db') \<Rightarrow> (MigApply (m # ms) (Suc n) done, db')
      | (Raises e, db') \<Rightarrow> (MigFailed (SqlRaised e), db'))"
| "migrator_step env discovery target lock p db = (p, db)"

text \<open>Any number of migrators, each with its target, in the order of a schedule.\<close>

fun run_migrators ::
    "'s mig_env \<Rightarrow> migrate_error + migration list \<Rightarrow> (nat \<Rightarrow> int option) \<Rightarrow> (nat \<times> db_lock) list
       \<Rightarrow> migrator list \<times> 's mig_db \<Rightarrow> migrator list \<times> 's mig_db" where
  "run_migrators env discovery target [] st = st"
| "run_migrators env discovery target ((i, lock) # sched) (ps, db) =
     (if i < length ps then
        (case migrator_step env discovery (target i) lock (ps ! i) db of
           (p, db') \<Rightarrow> run_migrators env discovery target sched (ps[i := p], db'))
      else run_migrators env discovery target sched (ps, db))"

section \<open>The baseline\<close>

text \<open>\<open>INSERT OR IGNORE\<close> of every discovered migration, none of them executed. \<open>None\<close> is the
  error of a lock that is not free: neither statement is retried.\<close>

fun ignore_insert :: "int \<Rightarrow> migration list \<Rightarrow> applied_row list \<Rightarrow> applied_row list" where
  "ignore_insert now [] rows = rows"
| "ignore_insert now (m # ms) rows =
     ignore_insert now ms (if mg_seq m \<in> ar_seq ` set rows then rows else rows @ [applied_now now m])"

definition mark_baseline_applied ::
    "migrate_error + migration list \<Rightarrow> db_lock \<Rightarrow> 's mig_db \<Rightarrow> migrate_error + 's mig_db" where
  "mark_baseline_applied discovery lock db =
     res_bind discovery (\<lambda>discovered.
       case lock of
         Busy \<Rightarrow> Inl (SqlRaised SqlBusy)
       | Got now \<Rightarrow> Inr (db\<lparr>md_rows := Some (ignore_insert now discovered (tracked db))\<rparr>))"

end
