(* ===== verification/WB_MigrateProps.thy ===== *)
theory WB_MigrateProps
  imports WB_Migrate
begin

text \<open>
  Any number of concurrent \<open>waitbus migrate\<close> runs behave as one: whatever the interleaving, lock
  losses, failures and kills, the tracking table always lists a prefix of the numbered files and the
  schema is the effect of exactly those, in order and once each.
\<close>

section \<open>Discovered lists\<close>

lemma discover_entries_keys:
  "discover_entries sha dir es acc = Inr by_seq \<Longrightarrow> \<forall>p\<in>set acc. fst p = mg_seq (snd p) \<Longrightarrow> distinct (map fst acc) \<Longrightarrow>
     (\<forall>p\<in>set by_seq. fst p = mg_seq (snd p)) \<and> distinct (map fst by_seq)"
proof (induction es arbitrary: acc)
  case (Cons e es)
  show ?case
  proof (cases "de_file e \<and> FILENAME_RE (de_name e) \<noteq> None")
    case True
    then obtain d s where re: "FILENAME_RE (de_name e) = Some (d, s)" by auto
    let ?m = "\<lparr>mg_seq = digits_value d, mg_slug = s, mg_sql = de_name e,
        mg_hook = (if d @ ''_'' @ s @ ''.py'' \<in> de_name ` set dir then Some (d @ ''_'' @ s @ ''.py'') else None),
        mg_sha = sha (de_text e)\<rparr>"
    have run: "digits_value d \<notin> fst ` set acc" "discover_entries sha dir es (acc @ [(digits_value d, ?m)]) = Inr by_seq"
      using Cons.prems(1) True re by (simp_all add: Let_def split: if_splits)
    show ?thesis
      by (rule Cons.IH[OF run(2)]) (use Cons.prems(2,3) run(1) in auto)
  next
    case False
    then have "discover_entries sha dir es acc = Inr by_seq" using Cons.prems(1) by (auto split: if_splits option.splits)
    then show ?thesis by (rule Cons.IH[OF _ Cons.prems(2,3)])
  qed
qed simp

lemma discovered_sorted:
  assumes "discover_migrations sha dir = Inr ds"
  shows "sorted (map mg_seq ds)" "distinct (map mg_seq ds)"
proof -
  obtain by_seq where b: "discover_entries sha dir (sort_key de_name dir) [] = Inr by_seq"
    "ds = map snd (sort_key fst by_seq)" using assms by (auto simp: discover_migrations_def)
  have keys: "\<forall>p\<in>set by_seq. fst p = mg_seq (snd p)" "distinct (map fst by_seq)"
    using discover_entries_keys[OF b(1)] by auto
  then have eq: "map mg_seq ds = map fst (sort_key fst by_seq)" unfolding b(2) by simp
  then show "sorted (map mg_seq ds)" by simp
  have "distinct (map fst (sort_key fst by_seq))"
    using keys(2) by (metis distinct_map distinct_sort set_sort)
  then show "distinct (map mg_seq ds)" using eq by simp
qed

lemma upt_first: "[a..<a + length (x # xs)] = a # [Suc a..<Suc a + length xs]"
  by (simp add: upt_conv_Cons del: upt_Suc)

lemma gap_free_iff: "gap_free a xs \<longleftrightarrow> xs = [a..<a + length xs]"
proof (induction xs arbitrary: a)
  case (Cons x xs)
  show ?case using Cons[of "Suc a"] unfolding upt_first by auto
qed simp

lemma filter_consecutive:
  "map f ds = [a..<a + length ds] \<Longrightarrow> filter (\<lambda>m. f m < b) ds = take (b - a) ds"
  "map f ds = [a..<a + length ds] \<Longrightarrow> filter (\<lambda>m. \<not> f m < b) ds = drop (b - a) ds"
proof (induction ds arbitrary: a)
  case (Cons m ds)
  {
    case 1
    then have m: "f m = a" "map f ds = [Suc a..<Suc a + length ds]" unfolding upt_first by simp_all
    show ?case
    proof (cases "a < b")
      case True
      then have "b - a = Suc (b - Suc a)" by simp
      then show ?thesis using Cons.IH(1)[OF m(2)] m(1) True by simp
    next
      case False
      then show ?thesis using Cons.IH(1)[OF m(2)] m(1) by simp
    qed
  next
    case 2
    then have m: "f m = a" "map f ds = [Suc a..<Suc a + length ds]" unfolding upt_first by simp_all
    show ?case
    proof (cases "a < b")
      case True
      then have "b - a = Suc (b - Suc a)" by simp
      then show ?thesis using Cons.IH(2)[OF m(2)] m(1) True by simp
    next
      case False
      then show ?thesis using Cons.IH(2)[OF m(2)] m(1) by simp
    qed
  }
qed simp_all

section \<open>The prefix invariant\<close>

fun run_migrations :: "'s mig_env \<Rightarrow> migration list \<Rightarrow> 's \<Rightarrow> sql_error + 's" where
  "run_migrations env [] s = Inr s"
| "run_migrations env (m # ms) s = res_bind (migration_effect env m s) (run_migrations env ms)"

lemma run_migrations_snoc:
  "run_migrations env ms s = Inr s1 \<Longrightarrow> run_migrations env (ms @ [m]) s = migration_effect env m s1"
  by (induction ms arbitrary: s) (cases "migration_effect env m s1"; force)+

definition row_key :: "applied_row \<Rightarrow> nat \<times> string \<times> string" where
  "row_key r = (ar_seq r, ar_slug r, ar_sha r)"

definition mig_key :: "migration \<Rightarrow> nat \<times> string \<times> string" where
  "mig_key m = (mg_seq m, mg_slug m, mg_sha m)"

text \<open>The first \<open>k\<close> migrations are recorded and their effects, in order, are the schema.\<close>

definition at_prefix :: "'s mig_env \<Rightarrow> migration list \<Rightarrow> 's \<Rightarrow> nat \<Rightarrow> 's mig_db \<Rightarrow> bool" where
  "at_prefix env ds s0 k db \<longleftrightarrow>
     k \<le> length ds \<and> map row_key (tracked db) = map mig_key (take k ds)
     \<and> run_migrations env (take k ds) s0 = Inr (md_schema db)"

text \<open>The number of files a migrator with this target takes.\<close>

definition target_bound :: "migration list \<Rightarrow> int option \<Rightarrow> nat" where
  "target_bound ds target = (case target of None \<Rightarrow> length ds | Some t \<Rightarrow> nat t)"

lemma filter_within_target:
  assumes "map mg_seq ds = [1..<1 + length ds]"
  shows "filter (within_target target) ds = take (target_bound ds target) ds"
proof (cases target)
  case None
  then show ?thesis by (simp add: within_target_def target_bound_def)
next
  case (Some t)
  have "int (mg_seq m) \<le> t \<longleftrightarrow> mg_seq m < Suc (nat t)" if "m \<in> set ds" for m
  proof -
    have "mg_seq m \<in> set (map mg_seq ds)" using that by simp
    then have "1 \<le> mg_seq m" unfolding assms by auto
    then show ?thesis by linarith
  qed
  then have "filter (within_target target) ds = filter (\<lambda>m. mg_seq m < Suc (nat t)) ds"
    using Some by (intro filter_cong) (auto simp: within_target_def)
  then show ?thesis using filter_consecutive(1)[OF assms, of "Suc (nat t)"] Some by (simp add: target_bound_def)
qed

lemma prefix_seqs:
  assumes "at_prefix env ds s0 k db" "map mg_seq ds = [1..<1 + length ds]"
  shows "ar_seq ` set (tracked db) = {1..k}"
proof -
  have "map ar_seq (tracked db) = map fst (map row_key (tracked db))" by (simp add: row_key_def)
  also have "\<dots> = map mg_seq (take k ds)" using assms(1) by (simp add: at_prefix_def mig_key_def)
  also have "\<dots> = take k [1..<1 + length ds]" using assms(2) by (metis take_map)
  also have "\<dots> = [1..<1 + k]" using assms(1) by (simp add: at_prefix_def take_upt del: upt_Suc)
  finally have "set (map ar_seq (tracked db)) = set [1..<1 + k]" by simp
  then show ?thesis by (auto simp del: upt_Suc)
qed

lemma consecutive_nth:
  "map mg_seq ds = [1..<1 + length ds] \<Longrightarrow> j < length ds \<Longrightarrow> mg_seq (ds ! j) = Suc j"
  by (metis One_nat_def add.commute nth_map nth_upt plus_1_eq_Suc add_less_cancel_left)

lemma pending_prefix:
  assumes "at_prefix env ds s0 k db" "map mg_seq ds = [1..<1 + length ds]"
    and "pending_migrations (Inr ds) target (read_applied db) = Inr pending"
  shows "pending = drop k (take (target_bound ds target) ds)"
proof -
  let ?ts = "take (target_bound ds target) ds"
  have seqs: "map mg_seq ?ts = [1..<1 + length ?ts]"
  proof -
    have "take b [1..<1 + n] = [1..<1 + min n b]" for b n :: nat
      by (rule nth_equalityI) (auto simp: nth_append simp del: upt_Suc)
    then show ?thesis using assms(2) by (simp add: take_map[symmetric] del: upt_Suc)
  qed
  have applied: "ar_seq ` set (read_applied db) = {1..k}"
    using prefix_seqs[OF assms(1,2)] by (simp add: read_applied_def)
  have "pending = filter (\<lambda>m. mg_seq m \<notin> {1..k}) ?ts"
    using assms(3) unfolding pending_migrations_def plan_def applied filter_within_target[OF assms(2)]
    by (auto simp: filter_map o_def filter_within_target[OF assms(2), symmetric] simp del: filter_filter)
  also have "\<dots> = filter (\<lambda>m. \<not> mg_seq m < Suc k) ?ts"
  proof (rule filter_cong[OF refl])
    fix m assume "m \<in> set ?ts"
    then have "mg_seq m \<in> set (map mg_seq ?ts)" by simp
    then have "1 \<le> mg_seq m" unfolding seqs by auto
    then show "(mg_seq m \<notin> {1..k}) = (\<not> mg_seq m < Suc k)" by auto
  qed
  also have "\<dots> = drop k ?ts" using filter_consecutive(2)[OF seqs, of "Suc k"] by simp
  finally show ?thesis .
qed

section \<open>One step\<close>

definition proc_ok :: "migration list \<Rightarrow> int option \<Rightarrow> 's mig_db \<Rightarrow> nat \<Rightarrow> migrator \<Rightarrow> bool" where
  "proc_ok ds target db k p = (case p of
       MigStart \<Rightarrow> True
     | MigPlan \<Rightarrow> md_rows db \<noteq> None
     | MigApply ms n done \<Rightarrow> md_rows db \<noteq> None \<and> n < ENSURE_SCHEMA_RETRIES \<and> map mg_seq ds = [1..<1 + length ds]
         \<and> (\<exists>j\<le>k. ms = drop j (take (target_bound ds target) ds))
     | MigDone done \<Rightarrow> map mg_seq ds = [1..<1 + length ds] \<and> length (take (target_bound ds target) ds) \<le> k
     | MigFailed e \<Rightarrow> True)"

lemma proc_ok_later:
  "proc_ok ds target db k p \<Longrightarrow> k \<le> k' \<Longrightarrow> md_rows db \<noteq> None \<longrightarrow> md_rows db' \<noteq> None \<Longrightarrow> proc_ok ds target db' k' p"
  unfolding proc_ok_def by (auto split: migrator.splits intro: le_trans)

lemma attempt_one_cases:
  assumes "attempt_one env n m lock db = (r, db')" "md_rows db \<noteq> None"
  obtains "r = Retry" "db' = db" "n \<noteq> ENSURE_SCHEMA_RETRIES - 1"
    | e where "r = Raises e" "db' = db"
    | "r = Landed" "db' = db" "mg_seq m \<in> ar_seq ` set (tracked db)"
    | now where "r = Landed" "mg_seq m \<notin> ar_seq ` set (tracked db)" "apply_one env now m db = Inr db'"
  using assms unfolding attempt_one_def Let_def
  by (auto split: db_lock.splits if_splits sum.splits sql_error.splits)

lemma apply_one_prefix:
  assumes "at_prefix env ds s0 k db" "k < length ds" "apply_one env now (ds ! k) db = Inr db'"
  shows "at_prefix env ds s0 (Suc k) db'" "md_rows db' \<noteq> None"
proof -
  obtain s where s: "migration_effect env (ds ! k) (md_schema db) = Inr s"
    "insert_applied (applied_now now (ds ! k)) (db\<lparr>md_schema := s\<rparr>) = Inr db'"
    using assms(3) by (auto simp: apply_one_def)
  then have db': "md_rows db' = Some (tracked db @ [applied_now now (ds ! k)])" "md_schema db' = s"
    by (auto simp: insert_applied_def tracked_def split: option.splits if_splits)
  have snoc: "take (Suc k) ds = take k ds @ [ds ! k]" using assms(2) by (simp add: take_Suc_conv_app_nth)
  have "run_migrations env (take k ds @ [ds ! k]) s0 = Inr s"
    using assms(1) run_migrations_snoc[of env "take k ds" s0 "md_schema db"] s(1) by (simp add: at_prefix_def)
  then show "at_prefix env ds s0 (Suc k) db'" "md_rows db' \<noteq> None"
    using assms(1,2) db' unfolding at_prefix_def snoc
    by (auto simp: tracked_def row_key_def mig_key_def applied_now_def)
qed

lemma migrator_step_ok:
  assumes "at_prefix env ds s0 k db" "proc_ok ds target db k p" "sorted (map mg_seq ds)"
    and "migrator_step env (Inr ds) target lock p db = (p', db')"
  shows "\<exists>k'\<ge>k. at_prefix env ds s0 k' db' \<and> proc_ok ds target db' k' p' \<and> (md_rows db \<noteq> None \<longrightarrow> md_rows db' \<noteq> None)"
proof (cases p)
  case MigStart
  then show ?thesis
    using assms(1,4) by (auto simp: proc_ok_def ensure_tracking_table_def at_prefix_def tracked_def split: if_splits)
next
  case MigPlan
  have rows: "md_rows db \<noteq> None" using assms(2) MigPlan by (simp add: proc_ok_def)
  show ?thesis
  proof (cases "pending_migrations (Inr ds) target (read_applied db)")
    case (Inl e)
    then show ?thesis using assms(1,4) MigPlan by (auto simp: proc_ok_def)
  next
    case (Inr pending)
    then have "gap_free 1 (sort (map mg_seq ds))"
      by (auto simp: pending_migrations_def plan_def verify_no_gaps_def split: if_splits)
    then have seqs: "map mg_seq ds = [1..<1 + length ds]"
      using assms(3) by (simp add: gap_free_iff sorted_sort_id del: upt_Suc)
    have "pending = drop k (take (target_bound ds target) ds)" by (rule pending_prefix[OF assms(1) seqs Inr])
    then show ?thesis
      using assms(1,4) MigPlan Inr seqs rows
      by (intro exI[of _ k]) (auto simp: proc_ok_def ENSURE_SCHEMA_RETRIES_def simp del: upt_Suc)
  qed
next
  case (MigApply ms n fin)
  let ?ts = "take (target_bound ds target) ds"
  have ok: "md_rows db \<noteq> None" "n < ENSURE_SCHEMA_RETRIES" "map mg_seq ds = [1..<1 + length ds]"
    using assms(2) MigApply by (simp_all add: proc_ok_def)
  obtain j where j: "j \<le> k" "ms = drop j ?ts" using assms(2) MigApply by (auto simp: proc_ok_def)
  show ?thesis
  proof (cases ms)
    case Nil
    then have "length ?ts \<le> k" using j by simp
    then show ?thesis using assms(1,4) MigApply Nil ok by (auto simp: proc_ok_def simp del: upt_Suc)
  next
    case (Cons m rest)
    then have len: "j < length ?ts" using j(2) by (metis drop_all list.distinct(1) not_le)
    have m: "m = ds ! j" "rest = drop (Suc j) ?ts"
      using Cons j(2) len by (metis Cons_nth_drop_Suc list.inject nth_take length_take min_less_iff_conj)+
    have seq: "mg_seq m = Suc j" using consecutive_nth[OF ok(3)] len m(1) by simp
    obtain r db1 where att: "attempt_one env n m lock db = (r, db1)" by force
    from att ok(1) show ?thesis
    proof (cases rule: attempt_one_cases)
      case 1
      then have "Suc n < ENSURE_SCHEMA_RETRIES" using ok(2) by (simp add: ENSURE_SCHEMA_RETRIES_def)
      then show ?thesis
        using assms(1,4) MigApply Cons att 1 ok j
        by (intro exI[of _ k]) (auto simp: proc_ok_def simp del: upt_Suc intro!: exI[of _ j])
    next
      case (2 e)
      then show ?thesis using assms(1,4) MigApply Cons att by (auto simp: proc_ok_def)
    next
      case 3
      then have "Suc j \<le> k" using prefix_seqs[OF assms(1) ok(3)] seq by auto
      then show ?thesis
        using assms(1,4) MigApply Cons att 3 ok m(2)
        by (intro exI[of _ k]) (auto simp: proc_ok_def ENSURE_SCHEMA_RETRIES_def simp del: upt_Suc)
    next
      case (4 now)
      then have "j = k" using prefix_seqs[OF assms(1) ok(3)] seq j(1) by auto
      then have "at_prefix env ds s0 (Suc k) db1" "md_rows db1 \<noteq> None"
        using apply_one_prefix[OF assms(1), of now db1] 4(3) len m(1) by auto
      then show ?thesis
        using assms(4) MigApply Cons att 4 ok m(2) \<open>j = k\<close>
        by (intro exI[of _ "Suc k"]) (auto simp: proc_ok_def ENSURE_SCHEMA_RETRIES_def simp del: upt_Suc)
    qed
  qed
qed (use assms in \<open>auto simp: proc_ok_def\<close>)

section \<open>Whole runs\<close>

lemma run_migrators_ok:
  assumes "sorted (map mg_seq ds)" "run_migrators env (Inr ds) target sched (ps, db) = (ps', db')"
    and "at_prefix env ds s0 k db" "\<forall>i<length ps. proc_ok ds (target i) db k (ps ! i)"
  shows "\<exists>k'\<ge>k. at_prefix env ds s0 k' db' \<and> length ps' = length ps
     \<and> (\<forall>i<length ps'. proc_ok ds (target i) db' k' (ps' ! i))"
  using assms(2-4)
proof (induction sched arbitrary: ps db k)
  case (Cons e sched)
  obtain i lock where e: "e = (i, lock)" by force
  show ?case
  proof (cases "i < length ps")
    case True
    obtain p db1 where step: "migrator_step env (Inr ds) (target i) lock (ps ! i) db = (p, db1)" by force
    obtain k1 where k1: "k \<le> k1" "at_prefix env ds s0 k1 db1" "proc_ok ds (target i) db1 k1 p"
      "md_rows db \<noteq> None \<longrightarrow> md_rows db1 \<noteq> None"
      using migrator_step_ok[OF Cons.prems(2) _ assms(1) step] Cons.prems(3) True by blast
    have "proc_ok ds (target l) db1 k1 (ps[i := p] ! l)" if "l < length ps" for l
      using k1 that True Cons.prems(3) proc_ok_later[OF _ k1(1) k1(4)] by (cases "l = i") simp_all
    moreover have "run_migrators env (Inr ds) target sched (ps[i := p], db1) = (ps', db')"
      using Cons.prems(1) True step by (simp add: e)
    ultimately have "\<exists>k'\<ge>k1. at_prefix env ds s0 k' db' \<and> length ps' = length (ps[i := p])
        \<and> (\<forall>i<length ps'. proc_ok ds (target i) db' k' (ps' ! i))"
      by (intro Cons.IH[OF _ k1(2)]) auto
    then show ?thesis using k1(1) le_trans by (simp only: length_list_update) blast
  next
    case False
    then show ?thesis using Cons by (simp add: e)
  qed
qed auto

text \<open>C22: Start any number of migrators, each with its own target, on a database where some prefix of
  the files is recorded and in effect, and let them run in any interleaving, with the lock lost, a
  statement failing or a process stopping at any point. The tracking table then lists a prefix of the
  files, at least as long, and the schema is the effect of exactly those files in sequence order, each
  once; a migrator that finished has its whole target in place, and none attempts a file more than
  fifteen times.\<close>

theorem concurrent_migrators_linear:
  assumes "discover_migrations sha dir = Inr ds" "set ps = {MigStart}" "at_prefix env ds s0 k0 db"
    and "run_migrators env (discover_migrations sha dir) target sched (ps, db) = (ps', db')"
  shows "\<exists>k\<ge>k0. k \<le> length ds
     \<and> map row_key (tracked db') = map mig_key (take k ds)
     \<and> run_migrations env (take k ds) s0 = Inr (md_schema db')
     \<and> (\<forall>i<length ps'.
          (\<forall>fin. ps' ! i = MigDone fin \<longrightarrow> set (filter (within_target (target i)) ds) \<subseteq> set (take k ds))
          \<and> (\<forall>ms n fin. ps' ! i = MigApply ms n fin \<longrightarrow> n < ENSURE_SCHEMA_RETRIES))"
proof -
  have sorted: "sorted (map mg_seq ds)" by (rule discovered_sorted(1)[OF assms(1)])
  have "ps ! i = MigStart" if "i < length ps" for i using assms(2) nth_mem[OF that] by simp
  then have start: "\<forall>i<length ps. proc_ok ds (target i) db k0 (ps ! i)" by (simp add: proc_ok_def)
  obtain k where k: "k0 \<le> k" "at_prefix env ds s0 k db'" "\<forall>i<length ps'. proc_ok ds (target i) db' k (ps' ! i)"
    using run_migrators_ok[OF sorted assms(4)[unfolded assms(1)] assms(3) start] by blast
  have "set (filter (within_target (target i)) ds) \<subseteq> set (take k ds)"
    if "i < length ps'" "ps' ! i = MigDone fin" for i fin
  proof -
    have p: "map mg_seq ds = [1..<1 + length ds]" "length (take (target_bound ds (target i)) ds) \<le> k"
      using k(3) that unfolding proc_ok_def by force+
    have "take (target_bound ds (target i)) ds = take (length (take (target_bound ds (target i)) ds)) ds"
      by (simp add: min_def)
    then show ?thesis unfolding filter_within_target[OF p(1)] using p(2) by (metis set_take_subset_set_take)
  qed
  moreover have "n < ENSURE_SCHEMA_RETRIES" if "i < length ps'" "ps' ! i = MigApply ms n fin" for i ms n fin
    using k(3) that unfolding proc_ok_def by force
  ultimately show ?thesis using k(1,2) unfolding at_prefix_def by blast
qed

section \<open>What the code does beside its documentation\<close>

text \<open>The first migrators of a database are not protected by the retry: the tracking table is created
  outside of it.\<close>

lemma tracking_table_not_retried:
  "md_rows db = None \<Longrightarrow> migrator_step env (Inr ds) target Busy MigStart db = (MigFailed (SqlRaised SqlBusy), db)"
  by simp

text \<open>A migrator lists a file as applied by itself when another landed it.\<close>

lemma loser_reports_winners_file:
  "md_rows db = Some rows \<Longrightarrow> mg_seq m \<in> ar_seq ` set rows \<Longrightarrow>
     migrator_step env (Inr ds) target (Got now) (MigApply [m] 0 []) db = (MigApply [] 0 [m], db)"
  by (simp add: attempt_one_def tracked_def)

text \<open>With the second of two files recorded and the first not, the plan offers the first.\<close>

lemma out_of_order_accepted:
  "pending_migrations
     (Inr [\<lparr>mg_seq = 1, mg_slug = ''a'', mg_sql = p, mg_hook = None, mg_sha = x\<rparr>,
           \<lparr>mg_seq = 2, mg_slug = ''b'', mg_sql = q, mg_hook = None, mg_sha = y\<rparr>]) None
     [\<lparr>ar_seq = 2, ar_slug = ''b'', ar_at = t, ar_sha = y\<rparr>]
   = Inr [\<lparr>mg_seq = 1, mg_slug = ''a'', mg_sql = p, mg_hook = None, mg_sha = x\<rparr>]"
  by (simp add: pending_migrations_def plan_def verify_no_gaps_def within_target_def)

section \<open>Witness\<close>

definition sample_dir :: "dir_entry list" where
  "sample_dir = map (\<lambda>(n, t). \<lparr>de_name = n, de_file = True, de_text = t\<rparr>)
     [(''0002_b.sql'', ''B; C; -- d;''), (''__init__.py'', []), (''0001_a.sql'', ''A;''), (''0002_b.py'', [])]"

definition sample_migrations :: "migration list" where
  "sample_migrations =
     [\<lparr>mg_seq = 1, mg_slug = ''a'', mg_sql = ''0001_a.sql'', mg_hook = None, mg_sha = ''A;''\<rparr>,
      \<lparr>mg_seq = 2, mg_slug = ''b'', mg_sql = ''0002_b.sql'', mg_hook = Some ''0002_b.py'', mg_sha = ''B; C; -- d;''\<rparr>]"

definition sample_mig_env :: "string list mig_env" where
  "sample_mig_env = \<lparr>me_exec = (\<lambda>q s. Inr (s @ [q])), me_hook = (\<lambda>py s. Inr (s @ [py])),
     me_text = (\<lambda>n. if n = ''0001_a.sql'' then ''A;'' else ''B; C; -- d;'')\<rparr>"

lemma sample_discovered: "discover_migrations (\<lambda>t. t) sample_dir = Inr sample_migrations"
  by code_simp

text \<open>Two migrators, the second with target 1, the lock lost once: both finish, the first applies
  both files, and the second finds its own in place.\<close>

lemma sample_migrators:
  "run_migrators sample_mig_env (Inr sample_migrations) (\<lambda>i. if i = 0 then None else Some 1)
     [(0, Got 7), (1, Got 7), (0, Busy), (1, Busy), (0, Got 8), (1, Busy), (0, Busy), (0, Got 9), (1, Got 9), (0, Busy), (1, Busy)]
     ([MigStart, MigStart], \<lparr>md_schema = [], md_rows = None\<rparr>)
   = ([MigDone sample_migrations, MigDone (take 1 sample_migrations)],
      \<lparr>md_schema = [''A'', ''B'', ''C'', ''0002_b.py''],
       md_rows = Some (map2 applied_now [8, 9] sample_migrations)\<rparr>)"
  by code_simp

theorem concurrent_migrators_linear_witness:
  "\<exists>k\<ge>0. k \<le> 2
     \<and> map mig_key sample_migrations = map mig_key (take k sample_migrations)
     \<and> run_migrations sample_mig_env (take k sample_migrations) [] = Inr [''A'', ''B'', ''C'', ''0002_b.py'']"
proof -
  have start: "at_prefix sample_mig_env sample_migrations [] 0 \<lparr>md_schema = [], md_rows = None\<rparr>"
    by (simp add: at_prefix_def tracked_def)
  have rows: "map row_key (map2 applied_now [8, 9] sample_migrations) = map mig_key sample_migrations" by code_simp
  have len: "length sample_migrations = 2" by (simp add: sample_migrations_def)
  show ?thesis
    using concurrent_migrators_linear[OF sample_discovered _ start sample_migrators[folded sample_discovered]] rows len
    by (auto simp: tracked_def)
qed

end
