(* ===== verification/WB_Emit.thy ===== *)
theory WB_Emit
  imports WB_Store WB_WaitProps "HOL-Library.Log_Nat"
begin

text \<open>
  The producer seam, \<open>waitbus/_emit.py\<close>: \<open>emit\<close> with its read-back, \<open>emit_batch\<close> as one
  transaction, the input coercions of the command line and its exit code. The doubles of
  \<open>--received-at\<close> are rounded to 53 bits (ranges of underflow left out);
  \<open>datetime.fromisoformat\<close> scaled to nanoseconds and the file system are parameters.
\<close>

datatype emit_error = EmitDb db_error | RowVanished | BadStoredRow

record emit_result =
  er_inserted :: bool
  er_event :: event_row

text \<open>The struct \<open>Event\<close> needs an \<open>event_id\<close> and a registered source.\<close>

definition read_back :: "string list \<Rightarrow> string \<Rightarrow> event_table \<Rightarrow> emit_error + event_row" where
  "read_back known delivery_id t =
     (case find (\<lambda>r. ev_delivery_id r = delivery_id) (tb_rows t) of
        None \<Rightarrow> Inl RowVanished
      | Some r \<Rightarrow> if ev_event_id r = None \<or> \<not> is_known_source known (ev_source r) then Inl BadStoredRow else Inr r)"

definition emit ::
    "string list \<Rightarrow> insert_env \<Rightarrow> event_insert \<Rightarrow> ulid_state \<Rightarrow> event_table
       \<Rightarrow> (emit_error + emit_result) \<times> ulid_state \<times> event_table \<times> db_effect list" where
  "emit known env ev us t =
     (case insert_event env True ev us t of
        (Inl e, us', t', effs) \<Rightarrow> (Inl (EmitDb e), us', t', effs)
      | (Inr inserted, us', t', effs) \<Rightarrow>
          (res_bind (read_back known (ev_delivery_id ev) t')
             (\<lambda>stored. Inr \<lparr>er_inserted = inserted, er_event = stored\<rparr>), us', t', effs))"

section \<open>Batches\<close>

datatype batch_error = IterationRaises | BatchDb db_error

text \<open>The caller's iterable: each event with what its insert reads from outside, or a raise.\<close>

fun batch_loop ::
    "(insert_env \<times> event_insert) option list \<Rightarrow> nat \<Rightarrow> ulid_state \<Rightarrow> event_table \<Rightarrow> db_effect list
       \<Rightarrow> (batch_error + nat) \<times> ulid_state \<times> event_table \<times> db_effect list" where
  "batch_loop [] inserted us t effs = (Inr inserted, us, t, effs)"
| "batch_loop (None # evs) inserted us t effs = (Inl IterationRaises, us, t, effs)"
| "batch_loop (Some (env, ev) # evs) inserted us t effs =
     (case insert_event env False ev us t of
        (Inl e, us', t', eff) \<Rightarrow> (Inl (BatchDb e), us', t', effs @ eff)
      | (Inr new, us', t', eff) \<Rightarrow> batch_loop evs (if new then inserted + 1 else inserted) us' t' (effs @ eff))"

text \<open>An exception discards the open transaction.\<close>

definition emit_batch ::
    "(insert_env \<times> event_insert) option list \<Rightarrow> ulid_state \<Rightarrow> event_table
       \<Rightarrow> (batch_error + nat) \<times> ulid_state \<times> event_table \<times> db_effect list" where
  "emit_batch evs us t =
     (case batch_loop evs 0 us t [] of
        (Inl e, us', t', effs) \<Rightarrow> (Inl e, us', t, effs)
      | (Inr inserted, us', t', effs) \<Rightarrow>
          (Inr inserted, us', t', effs @ [Committed] @ (if inserted > 0 then [DoorbellRing] else [])))"

section \<open>Inputs of the command line\<close>

text \<open>Rounding to a double: 53 significant bits, ties to even.\<close>

definition round_even :: "rat \<Rightarrow> int" where
  "round_even y =
     (let q = \<lfloor>y\<rfloor>; r = y - of_int q in
      if r < 1 / 2 then q else if r > 1 / 2 then q + 1 else if even q then q else q + 1)"

definition pow2 :: "int \<Rightarrow> rat" where
  "pow2 e = (if 0 \<le> e then 2 ^ nat e else 1 / 2 ^ nat (- e))"

definition double :: "rat \<Rightarrow> rat" where
  "double x =
     (if x = 0 then 0
      else (let a = \<bar>x\<bar>; e0 = bitlen (fst (quotient_of a)) - bitlen (snd (quotient_of a)) - 53;
                e = (if a / pow2 e0 < 2 ^ 53 then e0 else e0 + 1);
                v = of_int (round_even (a / pow2 e)) * pow2 e
            in if x < 0 then - v else v))"

definition SECONDS_INPUT_CEILING :: rat where
  "SECONDS_INPUT_CEILING = 1000000000000"

text \<open>\<open>int(x)\<close> of a float truncates.\<close>

definition truncate_rat :: "rat \<Rightarrow> int" where
  "truncate_rat x = (if 0 \<le> x then \<lfloor>x\<rfloor> else \<lceil>x\<rceil>)"

text \<open>\<open>None\<close> is \<open>ValueError\<close>; \<open>iso_ns\<close> parses a time stamp with offset or UTC.\<close>

definition resolve_received_at_ns :: "(string \<Rightarrow> int option) \<Rightarrow> string \<Rightarrow> int option" where
  "resolve_received_at_ns iso_ns raw =
     (let text = strip raw in
      case py_float text of
        None \<Rightarrow> iso_ns (if text \<noteq> [] \<and> last text \<in> {CHR ''Z'', CHR ''z''} then butlast text @ ''+00:00'' else text)
      | Some (Fin q) \<Rightarrow>
          (let numeric = double q in
           if numeric \<le> SECONDS_INPUT_CEILING
           then Some (truncate_rat (double (numeric * of_int NS_PER_SECOND)))
           else Some (truncate_rat numeric))
      | Some _ \<Rightarrow> None)"

text \<open>\<open>None\<close> is an \<open>OSError\<close> or a decoding error of the file.\<close>

definition resolve_payload :: "string \<Rightarrow> (string \<Rightarrow> string option) \<Rightarrow> string \<Rightarrow> string option" where
  "resolve_payload stdin files spec =
     (if spec = ''-'' \<or> spec = ''@-'' then Some stdin
      else if starts_with ''@'' spec then files (tl spec)
      else Some spec)"

definition parse_source :: "string list \<Rightarrow> string \<Rightarrow> string option" where
  "parse_source known name =
     (let candidate = lower (strip name) in
      if candidate = [] then None
      else if \<not> is_known_source known candidate then None else Some candidate)"

record emit_args =
  ea_delivery_id :: string
  ea_source :: string
  ea_event_type :: string
  ea_owner :: string
  ea_repo :: string
  ea_received_at :: string
  ea_payload :: string
  ea_ingest_method :: string

record emit_cli_env =
  ec_known :: "string list"
  ec_iso :: "string \<Rightarrow> int option"
  ec_stdin :: string
  ec_files :: "string \<Rightarrow> string option"
  ec_insert :: insert_env

text \<open>The exit code, or an error that is not caught (a generator overflow, a row that vanished).\<close>

definition emit_cli ::
    "emit_cli_env \<Rightarrow> emit_args \<Rightarrow> ulid_state \<Rightarrow> event_table
       \<Rightarrow> (emit_error + int) \<times> ulid_state \<times> event_table \<times> db_effect list" where
  "emit_cli env a us t =
     (case (parse_source (ec_known env) (ea_source a), resolve_received_at_ns (ec_iso env) (ea_received_at a),
            resolve_payload (ec_stdin env) (ec_files env) (ea_payload a)) of
        (Some src, Some ns, Some payload) \<Rightarrow>
          (case emit (ec_known env) (ec_insert env)
                  (event_insert_defaults (ea_delivery_id a) src (ea_event_type a) (ea_owner a) (ea_repo a) ns
                     payload (ea_ingest_method a)) us t of
             (Inl (EmitDb (ReceivedAtNotPositive _)), st) \<Rightarrow> (Inr 2, st)
           | (Inl (EmitDb (ReceivedAtNotNs _)), st) \<Rightarrow> (Inr 2, st)
           | (Inl e, st) \<Rightarrow> (Inl e, st)
           | (Inr _, st) \<Rightarrow> (Inr 0, st))
      | _ \<Rightarrow> (Inr 2, us, t, []))"

section \<open>emit is idempotent\<close>

lemma find_delivery:
  assumes "table_inv t" "r \<in> set (tb_rows t)"
  shows "find (\<lambda>x. ev_delivery_id x = ev_delivery_id r) (tb_rows t) = Some r"
proof -
  have "\<exists>x. find (\<lambda>x. ev_delivery_id x = ev_delivery_id r) (tb_rows t) = Some x"
    using assms(2) by (metis (mono_tags, lifting) find_None_iff option.exhaust)
  then obtain x where x: "find (\<lambda>x. ev_delivery_id x = ev_delivery_id r) (tb_rows t) = Some x" ..
  then have "x \<in> set (tb_rows t)" "ev_delivery_id x = ev_delivery_id r" by (auto simp: find_Some_iff)
  then have "x = r" using assms by (auto simp: table_inv_def distinct_map inj_on_def)
  then show ?thesis using x by simp
qed

lemma read_back_Inr:
  "read_back known d t = Inr r \<Longrightarrow> r \<in> set (tb_rows t) \<and> ev_delivery_id r = d \<and> ev_event_id r \<noteq> None
     \<and> is_known_source known (ev_source r)"
  by (auto simp: read_back_def find_Some_iff split: option.splits if_splits)

lemma emit_Inr:
  assumes "table_inv t" "emit known env ev us t = (Inr r, us', t', effs)"
  shows "table_inv t'" "er_event r \<in> set (tb_rows t')" "ev_delivery_id (er_event r) = ev_delivery_id ev"
    and "er_inserted r \<Longrightarrow> tb_rows t' = tb_rows t @ [er_event r] \<and> event_insert.truncate (er_event r) = ev
      \<and> tb_last_seq t < ev_seq (er_event r) \<and> ev_delivery_id ev \<notin> ev_delivery_id ` set (tb_rows t)"
    and "\<not> er_inserted r \<Longrightarrow> tb_rows t' = tb_rows t \<and> ev_delivery_id ev \<in> ev_delivery_id ` set (tb_rows t)"
    and "DoorbellRing \<in> set effs \<longleftrightarrow> er_inserted r"
    and "ev_event_id (er_event r) \<noteq> None"
proof -
  obtain ins where i: "insert_event env True ev us t = (Inr ins, us', t', effs)"
    and rb: "read_back known (ev_delivery_id ev) t' = Inr (er_event r)" "er_inserted r = ins"
    using assms(2) by (auto simp: emit_def split: prod.splits sum.splits)
  note facts = insert_event_facts[OF assms(1) i]
  show "table_inv t'" by (rule facts(1))
  have rb_row: "er_event r \<in> set (tb_rows t')" "ev_delivery_id (er_event r) = ev_delivery_id ev"
    "ev_event_id (er_event r) \<noteq> None" using read_back_Inr[OF rb(1)] by auto
  then show "er_event r \<in> set (tb_rows t')" "ev_delivery_id (er_event r) = ev_delivery_id ev"
    "ev_event_id (er_event r) \<noteq> None" by auto
  show "DoorbellRing \<in> set effs \<longleftrightarrow> er_inserted r" using facts(5) rb(2) by simp
  show "tb_rows t' = tb_rows t @ [er_event r] \<and> event_insert.truncate (er_event r) = ev
      \<and> tb_last_seq t < ev_seq (er_event r) \<and> ev_delivery_id ev \<notin> ev_delivery_id ` set (tb_rows t)" if new: "er_inserted r"
  proof -
    obtain row where row: "tb_rows t' = tb_rows t @ [row]" "event_insert.truncate row = ev" "tb_last_seq t < ev_seq row"
      "ev_delivery_id ev \<notin> ev_delivery_id ` set (tb_rows t)"
      using facts(3) rb(2) new by auto
    then have "er_event r = row" using rb_row(1,2) by (auto simp: image_iff)
    then show ?thesis using row by simp
  qed
  show "tb_rows t' = tb_rows t \<and> ev_delivery_id ev \<in> ev_delivery_id ` set (tb_rows t)" if "\<not> er_inserted r"
    using facts(4) rb(2) that rb_row(1,2) by (metis image_eqI)
qed

text \<open>A call of \<open>emit\<close> that returns reports the row that now stands under its delivery id. It was
  inserted by this call exactly when no row had that id: then it is appended unchanged with a fresh
  identifier and the doorbell rings; otherwise no row changes and the doorbell stays silent. A second
  call under the same delivery id, whatever its other fields, changes no row and reports the same one.\<close>

theorem emit_idempotent:
  assumes "table_inv t" "emit known env ev us t = (Inr r, us', t', effs)"
    and "ev_delivery_id ev2 = ev_delivery_id ev" "emit known env2 ev2 us2 t' = (r2, us3, t2, effs2)"
    and "NS_RECEIVED_AT_MIN \<le> ev_received_at ev2"
  shows "er_event r \<in> set (tb_rows t') \<and> ev_delivery_id (er_event r) = ev_delivery_id ev
     \<and> er_inserted r = (ev_delivery_id ev \<notin> ev_delivery_id ` set (tb_rows t))
     \<and> (if er_inserted r then tb_rows t' = tb_rows t @ [er_event r] \<and> event_insert.truncate (er_event r) = ev
        else tb_rows t' = tb_rows t)
     \<and> (DoorbellRing \<in> set effs) = er_inserted r
     \<and> tb_rows t2 = tb_rows t' \<and> DoorbellRing \<notin> set effs2
     \<and> (r2 = Inr \<lparr>er_inserted = False, er_event = er_event r\<rparr> \<or> (\<exists>e. r2 = Inl (EmitDb (UlidError e))))"
proof -
  note one = emit_Inr[OF assms(1,2)]
  have dup: "list_ex (row_conflicts (ev_delivery_id ev2) eid) (tb_rows t')" for eid
    using one(2,3) assms(3) by (force simp: list_ex_iff row_conflicts_def)
  have rb_row: "read_back known (ev_delivery_id ev2) u = Inr (er_event r)" if "tb_rows u = tb_rows t'" for u
  proof -
    have "read_back known (ev_delivery_id ev) t' = Inr (er_event r)"
      using assms(2) by (auto simp: emit_def split: prod.splits sum.splits)
    then show ?thesis using that assms(3) by (simp add: read_back_def)
  qed
  have second: "tb_rows t2 = tb_rows t' \<and> DoorbellRing \<notin> set effs2
     \<and> (r2 = Inr \<lparr>er_inserted = False, er_event = er_event r\<rparr> \<or> (\<exists>e. r2 = Inl (EmitDb (UlidError e))))"
  proof (cases "ulid_new (ie_boot env2) (ie_mono_ns env2) (ie_entropy env2) us2")
    case (Pair u us4)
    have pos: "0 < ev_received_at ev2" using assms(5) by (simp add: NS_RECEIVED_AT_MIN_def)
    show ?thesis
      using assms(4,5) pos Pair dup rb_row
      by (cases u) (auto simp: emit_def insert_event_def sql_insert_or_ignore_def Let_def)
  qed
  show ?thesis using one second by auto
qed

section \<open>Batches are atomic\<close>

text \<open>What an event of a batch leads to: a row under its delivery id, unless an identifier it can
  draw is that of another delivery's row.\<close>

definition lands :: "event_table \<Rightarrow> insert_env \<times> event_insert \<Rightarrow> bool" where
  "lands t x = (case x of (env, ev) \<Rightarrow> \<exists>r\<in>set (tb_rows t). ev_delivery_id r = ev_delivery_id ev
     \<or> (\<exists>us us' i. ulid_new (ie_boot env) (ie_mono_ns env) (ie_entropy env) us = (Inr i, us')
          \<and> ev_event_id r = Some i \<and> ev_delivery_id r \<noteq> ev_delivery_id ev))"

lemma lands_append:
  assumes "lands t x" "tb_rows t' = tb_rows t @ new"
  shows "lands t' x"
  using assms by (auto simp: lands_def)

lemma insert_event_lands:
  assumes "insert_event env c ev us t = (Inr b, us', t', eff)"
  shows "lands t' (env, ev)"
proof -
  obtain i us1 where u: "ulid_new (ie_boot env) (ie_mono_ns env) (ie_entropy env) us = (Inr i, us1)"
    and t': "t' = snd (sql_insert_or_ignore (ie_gap env) ev i t)"
    using assms by (auto simp: insert_event_def Let_def split: if_splits sum.splits prod.splits)
  have "\<exists>r\<in>set (tb_rows t'). ev_delivery_id r = ev_delivery_id ev \<or> ev_event_id r = Some i"
    unfolding t' by (force simp: sql_insert_or_ignore_def Let_def list_ex_iff row_conflicts_def new_row_def event_insert.defs)
  then show ?thesis unfolding lands_def using u by blast
qed

text \<open>The identifiers a batch draws, in order. If none of them is taken, nothing else stands in the way.\<close>

fun batch_draws :: "(insert_env \<times> event_insert) option list \<Rightarrow> ulid_state \<Rightarrow> string list" where
  "batch_draws (Some (env, ev) # evs) us =
     (case ulid_new (ie_boot env) (ie_mono_ns env) (ie_entropy env) us of
        (Inr i, us') \<Rightarrow> i # batch_draws evs us'
      | (Inl _, _) \<Rightarrow> [])"
| "batch_draws _ us = []"

definition fresh_draws :: "(insert_env \<times> event_insert) option list \<Rightarrow> ulid_state \<Rightarrow> event_table \<Rightarrow> bool" where
  "fresh_draws evs us t \<longleftrightarrow> distinct (batch_draws evs us)
     \<and> (\<forall>i\<in>set (batch_draws evs us). Some i \<notin> ev_event_id ` set (tb_rows t))"

lemma batch_loop_stores:
  assumes "batch_loop evs n us t effs = (Inr m, us', t', effs')" "fresh_draws evs us t"
  shows "set (tb_rows t) \<subseteq> set (tb_rows t')
    \<and> (\<forall>env ev. Some (env, ev) \<in> set evs \<longrightarrow> ev_delivery_id ev \<in> ev_delivery_id ` set (tb_rows t'))"
  using assms
proof (induction evs n us t effs arbitrary: m us' t' effs' rule: batch_loop.induct)
  case (3 env ev evs n us t effs)
  obtain b us1 t1 eff where i: "insert_event env False ev us t = (Inr b, us1, t1, eff)"
    using "3.prems"(1) by (auto split: prod.splits sum.splits)
  obtain d where d: "ulid_new (ie_boot env) (ie_mono_ns env) (ie_entropy env) us = (Inr d, us1)"
    and t1: "t1 = snd (sql_insert_or_ignore (ie_gap env) ev d t)"
    using i by (auto simp: insert_event_def Let_def split: if_splits sum.splits prod.splits)
  have fresh: "Some d \<notin> ev_event_id ` set (tb_rows t)" "d \<notin> set (batch_draws evs us1)"
    using "3.prems"(2) d by (auto simp: fresh_draws_def)
  have one: "set (tb_rows t) \<subseteq> set (tb_rows t1)"
    "ev_event_id ` set (tb_rows t1) \<subseteq> insert (Some d) (ev_event_id ` set (tb_rows t))"
    unfolding t1 by (auto simp: sql_insert_or_ignore_def Let_def)
  have stored: "ev_delivery_id ev \<in> ev_delivery_id ` set (tb_rows t1)"
    unfolding t1 using fresh(1)
    by (force simp: sql_insert_or_ignore_def Let_def list_ex_iff row_conflicts_def new_row_def event_insert.defs)
  have "fresh_draws evs us1 t1" using "3.prems"(2) d one(2) fresh(2) by (auto simp: fresh_draws_def)
  moreover have "batch_loop evs (if b then n + 1 else n) us1 t1 (effs @ eff) = (Inr m, us', t', effs')"
    using "3.prems"(1) i by simp
  ultimately have "set (tb_rows t1) \<subseteq> set (tb_rows t')
    \<and> (\<forall>env ev. Some (env, ev) \<in> set evs \<longrightarrow> ev_delivery_id ev \<in> ev_delivery_id ` set (tb_rows t'))"
    using "3.IH"[OF i[symmetric] refl refl refl] by blast
  then show ?case using one(1) stored by auto
qed auto

lemma batch_loop_facts:
  assumes "table_inv t" "batch_loop evs n us t effs = (r, us', t', effs')"
  shows "table_inv t' \<and> (\<exists>new eff. tb_rows t' = tb_rows t @ new \<and> effs' = effs @ eff
     \<and> Committed \<notin> set eff \<and> DoorbellRing \<notin> set eff
     \<and> (\<forall>m. r = Inr m \<longrightarrow> m = n + length new \<and> None \<notin> set evs
          \<and> (\<forall>x\<in>set evs. \<forall>env ev. x = Some (env, ev) \<longrightarrow> NS_RECEIVED_AT_MIN \<le> ev_received_at ev \<and> lands t' (env, ev))
          \<and> event_insert.truncate ` set new \<subseteq> snd ` the ` set evs))"
  using assms
proof (induction evs n us t effs arbitrary: r us' t' effs' rule: batch_loop.induct)
  case (3 env ev evs n us t effs)
  obtain q us1 t1 eff where i: "insert_event env False ev us t = (q, us1, t1, eff)" by (metis prod_cases4)
  note facts = insert_event_facts[OF "3.prems"(1) i]
  have quiet: "Committed \<notin> set eff" "DoorbellRing \<notin> set eff"
    using i by (auto simp: insert_event_def Let_def split: if_splits sum.splits prod.splits)
  show ?case
  proof (cases q)
    case (Inl e)
    then have "tb_rows t1 = tb_rows t"
      using i by (auto simp: insert_event_def Let_def split: if_splits sum.splits prod.splits)
    then show ?thesis using "3.prems"(2) i Inl facts(1) quiet by auto
  next
    case (Inr b)
    have ns: "NS_RECEIVED_AT_MIN \<le> ev_received_at ev" using facts(2) Inr by fastforce
    have here: "lands t1 (env, ev)" using insert_event_lands i Inr by blast
    obtain new1 where new1: "tb_rows t1 = tb_rows t @ new1" "length new1 = (if b then 1 else 0)"
      "event_insert.truncate ` set new1 \<subseteq> {ev}"
      using facts(3,4) Inr by (cases b) auto
    have "batch_loop evs (if b then n + 1 else n) us1 t1 (effs @ eff) = (r, us', t', effs')"
      using "3.prems"(2) i Inr by simp
    from "3.IH"[OF i[symmetric] Inr refl refl facts(1) this] obtain new2 eff2 where
      two: "table_inv t'" "tb_rows t' = tb_rows t1 @ new2" "effs' = (effs @ eff) @ eff2"
      "Committed \<notin> set eff2" "DoorbellRing \<notin> set eff2"
      "\<forall>m. r = Inr m \<longrightarrow> m = (if b then n + 1 else n) + length new2 \<and> None \<notin> set evs
          \<and> (\<forall>x\<in>set evs. \<forall>env ev. x = Some (env, ev) \<longrightarrow> NS_RECEIVED_AT_MIN \<le> ev_received_at ev \<and> lands t' (env, ev))
          \<and> event_insert.truncate ` set new2 \<subseteq> snd ` the ` set evs" by auto
    show ?thesis
      by (intro conjI exI[of _ "new1 @ new2"] exI[of _ "eff @ eff2"])
        (use two new1 quiet ns lands_append[OF here two(2)] in \<open>auto split: if_splits simp: image_subset_iff\<close>)
  qed
qed auto

text \<open>C26: A batch is all or nothing. If the iteration or an insert raises, the table is as before,
  nothing is committed and the doorbell does not ring. Otherwise every event passed the timestamp
  check, each has a row under its delivery id (provided the identifiers drawn are new), the rows
  added are events of the batch and as many as the call reports, and there is one commit, followed by
  one ring exactly when a row was added.\<close>

theorem emit_batch_atomic:
  assumes "table_inv t" "emit_batch evs us t = (r, us', t', effs)"
  shows "table_inv t'
     \<and> (\<forall>e. r = Inl e \<longrightarrow> t' = t \<and> Committed \<notin> set effs \<and> DoorbellRing \<notin> set effs)
     \<and> (\<forall>n. r = Inr n \<longrightarrow> None \<notin> set evs
          \<and> (\<forall>env ev. Some (env, ev) \<in> set evs \<longrightarrow> NS_RECEIVED_AT_MIN \<le> ev_received_at ev \<and> lands t' (env, ev)
               \<and> (fresh_draws evs us t \<longrightarrow> ev_delivery_id ev \<in> ev_delivery_id ` set (tb_rows t')))
          \<and> (\<exists>new. tb_rows t' = tb_rows t @ new \<and> length new = n
               \<and> event_insert.truncate ` set new \<subseteq> snd ` the ` set evs)
          \<and> (\<exists>eff. effs = eff @ Committed # (if n > 0 then [DoorbellRing] else [])
               \<and> Committed \<notin> set eff \<and> DoorbellRing \<notin> set eff))"
proof -
  obtain r1 us1 t1 eff1 where b: "batch_loop evs 0 us t [] = (r1, us1, t1, eff1)" by (metis prod_cases4)
  have "r1 = Inr m \<Longrightarrow> fresh_draws evs us t \<Longrightarrow> Some (env, ev) \<in> set evs
      \<Longrightarrow> ev_delivery_id ev \<in> ev_delivery_id ` set (tb_rows t1)" for m env ev
    using batch_loop_stores b by blast
  with batch_loop_facts[OF assms(1) b] assms show ?thesis
    unfolding emit_batch_def b by (cases r1) auto
qed

section \<open>Time stamps on the command line\<close>

lemma double_int:
  fixes n :: int
  assumes "2 ^ (52 + k) \<le> n" "n < 2 ^ (53 + k)"
  shows "double (of_int n) = of_int (round_even (of_int n / 2 ^ k)) * 2 ^ k"
proof -
  have pos: "0 < n" using assms(1) by (smt (verit) zero_less_power)
  have q: "quotient_of (of_int n) = (n, 1)"
    using pos by (metis Fract_of_int_eq Rat.quotient_of_Fract coprime_1_right normalize_stable zero_less_one)
  have len: "bitlen n = 53 + int k"
    using assms by (intro antisym) (simp_all add: bitlen_le_iff_power bitlen_ge_iff_power nat_add_distrib)
  have one: "bitlen 1 = 1" by (simp add: bitlen_alt_def)
  have big: "\<not> of_int n / pow2 (int k - 1) < (2 :: rat) ^ 53"
  proof -
    have n: "(2 :: rat) ^ (52 + k) \<le> of_int n" using assms(1) by (metis of_int_le_iff of_int_numeral of_int_power)
    show ?thesis
    proof (cases k)
      case 0
      then show ?thesis using n by (simp add: pow2_def)
    next
      case (Suc j)
      then show ?thesis using n by (simp add: pow2_def pos_divide_less_eq power_add)
    qed
  qed
  have "pow2 (int k) = 2 ^ k" by (simp add: pow2_def)
  then show ?thesis using pos q len one big by (simp add: double_def Let_def)
qed

lemma resolve_nat:
  "resolve_received_at_ns iso_ns (nat_str n) =
     (let numeric = double (of_nat n) in
      if numeric \<le> SECONDS_INPUT_CEILING then Some (truncate_rat (double (numeric * of_int NS_PER_SECOND)))
      else Some (truncate_rat numeric))"
proof -
  have "py_float (strip (nat_str n)) = Some (Fin (of_nat n))"
    using py_float_nat[of n] by (simp add: py_float_def)
  then show ?thesis by (simp add: resolve_received_at_ns_def Let_def)
qed

text \<open>A nanosecond value goes through a double and comes out rounded to a multiple of 256.\<close>

lemma nanoseconds_not_unchanged:
  "resolve_received_at_ns iso_ns (nat_str 1763337600123456789) = Some 1763337600123456768"
proof -
  have "double (of_int 1763337600123456789) = of_int (round_even (of_int 1763337600123456789 / 2 ^ 8)) * 2 ^ 8"
    by (rule double_int) simp_all
  moreover have "round_even (of_int 1763337600123456789 / 2 ^ 8) = 6888037500482253"
  proof -
    have "\<lfloor>1763337600123456789 / 256 :: rat\<rfloor> = 6888037500482253" by (simp add: floor_eq_iff)
    then show ?thesis by (simp add: round_even_def Let_def)
  qed
  ultimately have "double (of_nat 1763337600123456789) = 1763337600123456768" by simp
  then show ?thesis by (simp add: resolve_nat SECONDS_INPUT_CEILING_def truncate_rat_def)
qed

section \<open>Witnesses\<close>

lemma sample_emit:
  "case emit [''github''] (sample_env 5000000) (sample_event ''d1'') ulid_state0 empty_table of
     (r, us', t', effs) \<Rightarrow> (case r of Inr x \<Rightarrow> er_inserted x | Inl _ \<Rightarrow> False)"
  by code_simp

theorem emit_idempotent_witness:
  "\<exists>r us' t' effs. emit [''github''] (sample_env 5000000) (sample_event ''d1'') ulid_state0 empty_table = (Inr r, us', t', effs)
     \<and> er_inserted r \<and> tb_rows (fst (snd (snd (emit [''github''] (sample_env 9000000) (sample_event ''d1'') us' t')))) = tb_rows t'"
proof -
  obtain r us' t' effs where one:
    "emit [''github''] (sample_env 5000000) (sample_event ''d1'') ulid_state0 empty_table = (Inr r, us', t', effs)" "er_inserted r"
    using sample_emit by (auto split: prod.splits sum.splits)
  obtain r2 us3 t2 effs2 where two: "emit [''github''] (sample_env 9000000) (sample_event ''d1'') us' t' = (r2, us3, t2, effs2)"
    by (metis prod_cases4)
  have "NS_RECEIVED_AT_MIN \<le> ev_received_at (sample_event ''d1'')"
    by (simp add: sample_event_def event_insert_defaults_def NS_RECEIVED_AT_MIN_def)
  from emit_idempotent[OF table_inv_empty one(1) refl two this] show ?thesis using one two by simp
qed

lemma sample_batch:
  "case emit_batch [Some (sample_env 5000000, sample_event ''d1''), Some (sample_env 6000000, sample_event ''d1''),
      Some (sample_env 7000000, sample_event ''d2'')] ulid_state0 empty_table of (r, us', t', effs) \<Rightarrow> r = Inr 2"
  by code_simp

theorem emit_batch_atomic_witness:
  "length (tb_rows (fst (snd (snd (emit_batch [Some (sample_env 5000000, sample_event ''d1''),
      Some (sample_env 6000000, sample_event ''d1''), Some (sample_env 7000000, sample_event ''d2'')] ulid_state0 empty_table))))) = 2"
proof -
  let ?evs = "[Some (sample_env 5000000, sample_event ''d1''), Some (sample_env 6000000, sample_event ''d1''),
      Some (sample_env 7000000, sample_event ''d2'')]"
  obtain us' t' effs where b: "emit_batch ?evs ulid_state0 empty_table = (Inr 2, us', t', effs)"
    using sample_batch by (auto split: prod.splits)
  from emit_batch_atomic[OF table_inv_empty b] show ?thesis unfolding b by (auto simp: empty_table_def)
qed

end
