(* ===== verification/WB_Subscribe.thy ===== *)
theory WB_Subscribe
  imports WB_SubProps WB_Predicate
begin

text \<open>
  The consumer SDK, \<open>waitbus/_subscribe.py\<close>: the predicate of a call, one drain of the read engine,
  \<open>wait_for\<close>, the generator \<open>subscribe\<close> as the list of what it yields with its ending, and
  \<open>asubscribe\<close> as a worker thread and a consumer over a bounded queue. The connection is the
  list of what still arrives and the clock. \<open>msgspec.convert\<close> to an \<open>EventFrame\<close> is a
  parameter that may refuse a frame.
\<close>

record sdk_env =
  se_loads :: "bytes \<Rightarrow> json option"
  se_literal :: "string \<Rightarrow> json option"
  se_quote :: "string \<Rightarrow> string"
  se_dumps :: "json \<Rightarrow> bytes"
  se_convert :: "dict \<Rightarrow> event_frame option"

datatype sdk_error =
    SdkValueError
  | SdkOpen open_error
  | SdkFraming
  | SdkPeerClosed
  | SdkSub sub_error
  | SdkValidation

section \<open>Predicates\<close>

datatype match_arg = NoMatch | OneSpec string | Specs "string list"

definition compose_predicate ::
    "sdk_env \<Rightarrow> match_arg \<Rightarrow> string option \<Rightarrow> string option \<Rightarrow> sdk_error + predicate" where
  "compose_predicate env m source to =
     (let specs = (case m of NoMatch \<Rightarrow> [] | OneSpec s \<Rightarrow> [s] | Specs ss \<Rightarrow> ss)
            @ (case source of None \<Rightarrow> [] | Some s \<Rightarrow> [''fields.source='' @ se_quote env s])
            @ (case to of None \<Rightarrow> [] | Some t \<Rightarrow> [''fields.msg_to='' @ se_quote env t])
      in if specs = [] then Inl SdkValueError
         else (case parse_match (se_literal env) specs of
                 Inl _ \<Rightarrow> Inl SdkValueError
               | Inr p \<Rightarrow> Inr (compose [p])))"

definition make_capture_decide :: "predicate \<Rightarrow> dict \<Rightarrow> dict list \<Rightarrow> frame_decision \<times> dict list" where
  "make_capture_decide composed frame captured =
     (case dict_get frame ''fields'' of
        JObj _ \<Rightarrow> (if pr_evaluate composed frame then (MATCHED, captured @ [frame]) else (CONTINUE, captured))
      | _ \<Rightarrow> (CONTINUE, captured))"

definition validate_compose_kwargs ::
    "string list option \<Rightarrow> string list option \<Rightarrow> match_arg \<Rightarrow> string option \<Rightarrow> string option \<Rightarrow> sdk_error + unit" where
  "validate_compose_kwargs all_of first_of m source to =
     (if all_of \<noteq> None \<and> first_of \<noteq> None then Inl SdkValueError
      else if m \<noteq> NoMatch \<or> source \<noteq> None \<or> to \<noteq> None then Inl SdkValueError
      else Inr ())"

definition clause_predicates :: "sdk_env \<Rightarrow> string list \<Rightarrow> sdk_error + predicate list" where
  "clause_predicates env specs =
     (if specs = [] then Inl SdkValueError
      else res_map_list
             (\<lambda>spec. case parse_clause spec of
                Inl _ \<Rightarrow> Inl SdkValueError
              | Inr c \<Rightarrow> (case clause_predicate (se_literal env) (se_quote env) c of
                            Inl _ \<Rightarrow> Inl SdkValueError | Inr p \<Rightarrow> Inr p)) specs)"

definition resolve_stream_predicate ::
    "sdk_env \<Rightarrow> match_arg \<Rightarrow> string option \<Rightarrow> string option \<Rightarrow> string list option \<Rightarrow> sdk_error + predicate" where
  "resolve_stream_predicate env m source to first_of =
     (case first_of of
        Some cs \<Rightarrow>
          res_bind (validate_compose_kwargs None first_of m source to)
            (\<lambda>_. res_bind (clause_predicates env cs) (\<lambda>ps. Inr (compose_any ps)))
      | None \<Rightarrow> compose_predicate env m source to)"

section \<open>One drain\<close>

text \<open>The tail shared by every path.\<close>

definition finish_drain ::
    "sdk_env \<Rightarrow> bool \<Rightarrow> wait_outcome \<Rightarrow> dict list \<Rightarrow> sdk_error + event_frame option" where
  "finish_drain env raise_on_peer_close outcome captured =
     (if wo_matched outcome \<and> captured \<noteq> [] then
        (case se_convert env (hd captured) of None \<Rightarrow> Inl SdkValidation | Some ev \<Rightarrow> Inr (Some ev))
      else if wo_framing_error outcome then Inl SdkFraming
      else if raise_on_peer_close \<and> wo_peer_closed outcome then Inl SdkPeerClosed
      else Inr None)"

text \<open>A drain returns, raises, or without a deadline still waits.\<close>

datatype drain_result = Drained "event_frame option" | DrainRaises sdk_error | StillDraining

definition drain_tail :: "sdk_env \<Rightarrow> bool \<Rightarrow> await_end \<Rightarrow> dict list \<Rightarrow> drain_result" where
  "drain_tail env raise_on_peer_close e captured =
     (case e of
        Returned outcome \<Rightarrow>
          (case finish_drain env raise_on_peer_close outcome captured of
             Inl x \<Rightarrow> DrainRaises x | Inr r \<Rightarrow> Drained r)
      | Raised x \<Rightarrow> DrainRaises (SdkSub x)
      | StillWaiting \<Rightarrow> StillDraining)"

definition drain_one ::
    "sdk_env \<Rightarrow> predicate \<Rightarrow> rat option \<Rightarrow> bool \<Rightarrow> arrival list \<Rightarrow> rat \<Rightarrow> drain_result \<times> arrival list \<times> rat" where
  "drain_one env composed dl raise_on_peer_close as now =
     (case await_predicate (se_loads env) (make_capture_decide composed) dl False as now None [] of
        (e, st) \<Rightarrow> (drain_tail env raise_on_peer_close e (aw_caller st), aw_unread st, aw_now st))"

definition all_of_decide :: "dict \<Rightarrow> all_of_tracker \<times> dict list \<Rightarrow> frame_decision \<times> all_of_tracker \<times> dict list" where
  "all_of_decide frame s =
     (case s of (tracker, captured) \<Rightarrow>
        (case dict_get frame ''fields'' of
           JObj _ \<Rightarrow> (case tracker_update frame tracker of
                        (True, t) \<Rightarrow> (MATCHED, t, captured @ [frame])
                      | (False, t) \<Rightarrow> (CONTINUE, t, captured))
         | _ \<Rightarrow> (CONTINUE, tracker, captured)))"

definition drain_all_of ::
    "sdk_env \<Rightarrow> all_of_tracker \<Rightarrow> rat option \<Rightarrow> arrival list \<Rightarrow> rat \<Rightarrow> drain_result \<times> arrival list \<times> rat" where
  "drain_all_of env tracker dl as now =
     (case await_predicate (se_loads env) all_of_decide dl False as now None (tracker, []) of
        (e, st) \<Rightarrow> (drain_tail env True e (snd (aw_caller st)), aw_unread st, aw_now st))"

section \<open>wait\_for and subscribe\<close>

text \<open>Connecting comes after the arguments are checked; \<open>None\<close> means connected.\<close>

definition open_failure :: "sdk_env \<Rightarrow> string option \<Rightarrow> connect_result \<Rightarrow> sdk_error option" where
  "open_failure env since conn =
     (case open_subscriber (se_dumps env) (\<lambda>_. None) None None since None conn of
        Inl e \<Rightarrow> Some (SdkOpen e) | Inr _ \<Rightarrow> None)"

definition wait_for ::
    "sdk_env \<Rightarrow> match_arg \<Rightarrow> string option \<Rightarrow> string option \<Rightarrow> string list option \<Rightarrow> string list option
       \<Rightarrow> rat option \<Rightarrow> string option \<Rightarrow> connect_result \<Rightarrow> arrival list \<Rightarrow> rat \<Rightarrow> drain_result" where
  "wait_for env m source to all_of first_of timeout since conn as now =
     (if all_of \<noteq> None \<or> first_of \<noteq> None then
        (case res_bind (validate_compose_kwargs all_of first_of m source to)
                (\<lambda>_. clause_predicates env (case all_of of Some cs \<Rightarrow> cs
                       | None \<Rightarrow> (case first_of of Some cs \<Rightarrow> cs | None \<Rightarrow> []))) of
           Inl e \<Rightarrow> DrainRaises e
         | Inr clauses \<Rightarrow>
             (case open_failure env since conn of
                Some e \<Rightarrow> DrainRaises e
              | None \<Rightarrow>
                  fst (if all_of \<noteq> None then drain_all_of env (new_tracker clauses) timeout as now
                       else drain_one env (compose_any clauses) timeout True as now)))
      else
        (case compose_predicate env m source to of
           Inl e \<Rightarrow> DrainRaises e
         | Inr composed \<Rightarrow>
             (case open_failure env since conn of
                Some e \<Rightarrow> DrainRaises e
              | None \<Rightarrow> fst (drain_one env composed timeout True as now))))"

text \<open>How a stream ends: the generator returns, raises, or still waits for a frame.\<close>

datatype stream_stop = StreamDone | StreamRaises sdk_error | StreamWaits

text \<open>A frame was captured only if one was read.\<close>

lemma drain_one_trace:
  "\<exists>n. await_trace (se_loads env) (make_capture_decide composed) dl as
     \<lparr>aw_now = now, aw_anchor = now, aw_cursor = None, aw_unread = as, aw_caller = []\<rparr> n
     (await_predicate (se_loads env) (make_capture_decide composed) dl False as now None [])"
  by (rule await_predicate_trace)

lemma drain_one_consumes:
  assumes "drain_one env composed dl r as now = (Drained (Some ev), as', now')"
  shows "length as' < length as"
proof -
  obtain e st where a: "await_predicate (se_loads env) (make_capture_decide composed) dl False as now None [] = (e, st)"
    by force
  obtain n where n: "await_trace (se_loads env) (make_capture_decide composed) dl as
     \<lparr>aw_now = now, aw_anchor = now, aw_cursor = None, aw_unread = as, aw_caller = []\<rparr> n (e, st)"
    using drain_one_trace[of env composed dl as now] a by auto
  have "aw_caller st \<noteq> []"
    using assms a by (auto simp: drain_one_def drain_tail_def finish_drain_def split: await_end.splits sum.splits if_splits)
  moreover have "aw_caller st = []" if "take n as = []"
    using n unfolding await_trace_def that by simp
  ultimately have "take n as \<noteq> []" by blast
  then have "n > 0" "as \<noteq> []" by auto
  then show ?thesis using assms a n by (auto simp: drain_one_def await_trace_def)
qed

function stream ::
    "sdk_env \<Rightarrow> predicate \<Rightarrow> arrival list \<Rightarrow> rat \<Rightarrow> event_frame list \<times> stream_stop" where
  "stream env composed as now =
     (case drain_one env composed None False as now of
        (Drained (Some ev), as', now') \<Rightarrow> (case stream env composed as' now' of (evs, e) \<Rightarrow> (ev # evs, e))
      | (Drained None, _) \<Rightarrow> ([], StreamDone)
      | (DrainRaises x, _) \<Rightarrow> ([], StreamRaises x)
      | (StillDraining, _) \<Rightarrow> ([], StreamWaits))"
  by pat_completeness auto
termination
  by (relation "measure (\<lambda>(env, composed, as, now). length as)") (auto dest!: drain_one_consumes[OF sym])

declare stream.simps [simp del]

definition subscribe ::
    "sdk_env \<Rightarrow> match_arg \<Rightarrow> string option \<Rightarrow> string option \<Rightarrow> string list option \<Rightarrow> string option
       \<Rightarrow> connect_result \<Rightarrow> arrival list \<Rightarrow> rat \<Rightarrow> event_frame list \<times> stream_stop" where
  "subscribe env m source to first_of since conn as now =
     (case resolve_stream_predicate env m source to first_of of
        Inl e \<Rightarrow> ([], StreamRaises e)
      | Inr composed \<Rightarrow>
          (case open_failure env since conn of
             Some e \<Rightarrow> ([], StreamRaises e)
           | None \<Rightarrow> stream env composed as now))"

section \<open>asubscribe\<close>

definition ASUBSCRIBE_QUEUE_MAXSIZE :: nat where
  "ASUBSCRIBE_QUEUE_MAXSIZE = 256"

text \<open>What the worker hands over: an event, an exception to re-raise, the end mark.\<close>

datatype hand_off = Item event_frame | Failure sdk_error | DoneMark

datatype worker = Draining | Putting hand_off | Exited

text \<open>Why the consumer left its loop.\<close>

datatype consumer_end = EndOfStream | ReRaised sdk_error | ClosedEarly

record async_state =
  ay_unread :: "arrival list"
  ay_now :: rat
  ay_worker :: worker
  ay_queue :: "hand_off list"
  ay_received :: "event_frame list"
  ay_consumer :: "consumer_end option"

definition async_start :: "arrival list \<Rightarrow> rat \<Rightarrow> async_state" where
  "async_start as now = \<lparr>ay_unread = as, ay_now = now, ay_worker = Draining, ay_queue = [],
     ay_received = [], ay_consumer = None\<rparr>"

text \<open>One move: of the worker thread; of its blocked read when the socket has been shut down (it may
  end in EOF, an \<open>OSError\<close> or another error); of the consumer; the consumer leaving; the drainer of
  the teardown. \<open>None\<close> when that party is blocked.\<close>

datatype async_move = WorkerMove | TornRead "sdk_error option" | ConsumerMove | ConsumerLeaves | DrainerMove

definition after_put :: "hand_off \<Rightarrow> worker" where
  "after_put x = (case x of Item _ \<Rightarrow> Draining | Failure _ \<Rightarrow> Putting DoneMark | DoneMark \<Rightarrow> Exited)"

definition worker_move :: "sdk_env \<Rightarrow> predicate \<Rightarrow> async_state \<Rightarrow> async_state option" where
  "worker_move env composed st =
     (case ay_worker st of
        Draining \<Rightarrow>
          (if ay_consumer st \<noteq> None then None
           else (case drain_one env composed None False (ay_unread st) (ay_now st) of
                   (StillDraining, _) \<Rightarrow> None
                 | (Drained (Some ev), as', now') \<Rightarrow>
                     Some (st\<lparr>ay_worker := Putting (Item ev), ay_unread := as', ay_now := now'\<rparr>)
                 | (Drained None, as', now') \<Rightarrow>
                     Some (st\<lparr>ay_worker := Putting DoneMark, ay_unread := as', ay_now := now'\<rparr>)
                 | (DrainRaises e, as', now') \<Rightarrow>
                     Some (st\<lparr>ay_worker := Putting (Failure e), ay_unread := as', ay_now := now'\<rparr>)))
      | Putting x \<Rightarrow>
          (if length (ay_queue st) < ASUBSCRIBE_QUEUE_MAXSIZE
           then Some (st\<lparr>ay_queue := ay_queue st @ [x], ay_worker := after_put x\<rparr>) else None)
      | Exited \<Rightarrow> None)"

definition consumer_move :: "async_state \<Rightarrow> async_state option" where
  "consumer_move st =
     (if ay_consumer st \<noteq> None then None
      else (case ay_queue st of
              [] \<Rightarrow> None
            | Item ev # q \<Rightarrow> Some (st\<lparr>ay_queue := q, ay_received := ay_received st @ [ev]\<rparr>)
            | Failure e # q \<Rightarrow> Some (st\<lparr>ay_queue := q, ay_consumer := Some (ReRaised e)\<rparr>)
            | DoneMark # q \<Rightarrow> Some (st\<lparr>ay_queue := q, ay_consumer := Some EndOfStream\<rparr>)))"

fun async_step :: "sdk_env \<Rightarrow> predicate \<Rightarrow> async_move \<Rightarrow> async_state \<Rightarrow> async_state option" where
  "async_step env composed WorkerMove st = worker_move env composed st"
| "async_step env composed (TornRead r) st =
     (if ay_worker st = Draining \<and> ay_consumer st \<noteq> None
      then Some (st\<lparr>ay_worker := Putting (case r of None \<Rightarrow> DoneMark | Some e \<Rightarrow> Failure e)\<rparr>) else None)"
| "async_step env composed ConsumerMove st = consumer_move st"
| "async_step env composed ConsumerLeaves st =
     (if ay_consumer st = None then Some (st\<lparr>ay_consumer := Some ClosedEarly\<rparr>) else None)"
| "async_step env composed DrainerMove st =
     (if ay_consumer st \<noteq> None \<and> ay_queue st \<noteq> [] then Some (st\<lparr>ay_queue := tl (ay_queue st)\<rparr>) else None)"

inductive async_reach :: "sdk_env \<Rightarrow> predicate \<Rightarrow> arrival list \<Rightarrow> rat \<Rightarrow> async_state \<Rightarrow> bool"
  for env composed as now where
  async_init: "async_reach env composed as now (async_start as now)"
| async_next: "async_reach env composed as now st \<Longrightarrow> async_step env composed m st = Some st' \<Longrightarrow>
     async_reach env composed as now st'"

end
