(* ===== verification/WB_Messaging.thy ===== *)
theory WB_Messaging
  imports WB_Emit WB_Subscribe WB_Broadcast
begin

text \<open>
  Request and reply between agents, \<open>waitbus/_messaging.py\<close>, on top of \<open>emit\<close> and the read
  engine: the shared envelope, the reply-matching callback, the claim-check of an oversize reply in the
  store, \<open>request\<close> and \<open>respond\<close>. The fields of a request frame are strings or null, as the
  daemon sends them; anything else counts as absent.
\<close>

definition AGENT_SOURCE :: string where "AGENT_SOURCE = ''agent''"
definition AGENT_MESSAGE :: string where "AGENT_MESSAGE = ''agent_message''"
definition SYNTHETIC_OWNER :: string where "SYNTHETIC_OWNER = ''local''"
definition SYNTHETIC_REPO :: string where "SYNTHETIC_REPO = ''agents''"

text \<open>What an emit reads from outside: the wall clock in nanoseconds and what the insert reads.\<close>

record msg_env =
  mv_known :: "string list"
  mv_time_ns :: int
  mv_insert :: insert_env

definition agent_envelope ::
    "int \<Rightarrow> string \<Rightarrow> string \<Rightarrow> string \<Rightarrow> string \<Rightarrow> string option \<Rightarrow> string \<Rightarrow> string option \<Rightarrow> event_insert" where
  "agent_envelope now delivery_id to sender correlation_id reply_to body thread =
     (event_insert_defaults delivery_id AGENT_SOURCE AGENT_MESSAGE SYNTHETIC_OWNER SYNTHETIC_REPO now ''{}'' ''api'')
       \<lparr>ev_msg_to := Some to, ev_msg_from := Some sender, ev_msg_reply_to := reply_to,
        ev_msg_correlation_id := Some correlation_id, ev_msg_thread := thread, ev_msg_body := Some body\<rparr>"

definition emit_agent_message ::
    "msg_env \<Rightarrow> string \<Rightarrow> string \<Rightarrow> string \<Rightarrow> string \<Rightarrow> string option \<Rightarrow> string \<Rightarrow> string option
       \<Rightarrow> ulid_state \<Rightarrow> event_table \<Rightarrow> (emit_error + emit_result) \<times> ulid_state \<times> event_table \<times> db_effect list" where
  "emit_agent_message env delivery_id to sender correlation_id reply_to body thread us t =
     emit (mv_known env) (mv_insert env)
       (agent_envelope (mv_time_ns env) delivery_id to sender correlation_id reply_to body thread) us t"

section \<open>Awaiting the reply\<close>

definition reply_decide :: "string \<Rightarrow> string \<Rightarrow> dict \<Rightarrow> dict list \<Rightarrow> frame_decision \<times> dict list" where
  "reply_decide correlation_id sender frame captured =
     (case dict_get frame ''fields'' of
        JObj fs \<Rightarrow>
          (if dict_get fs ''msg_correlation_id'' = JStr correlation_id \<and> dict_get fs ''msg_to'' = JStr sender
           then (MATCHED, captured @ [frame]) else (CONTINUE, captured))
      | _ \<Rightarrow>
          (if dict_get frame ''kind'' = JStr KIND_TRUNCATED \<and> dict_get frame ''correlation_id'' = JStr correlation_id
           then (MATCHED, captured @ [frame]) else (CONTINUE, captured)))"

definition refetch_reply :: "config \<Rightarrow> string \<Rightarrow> event_table \<Rightarrow> event_frame option" where
  "refetch_reply cf ident t = map_option (row_to_frame cf) (fetch_event_by_id t ident)"

datatype request_error = RequestEmit emit_error | RequestUlid ulid_error | RequestSdk sdk_error | NoEventId

text \<open>A returned reply (or none), an error, or no answer yet without a deadline. The store is read
  when the stub has arrived.\<close>

datatype request_result = Replied "event_frame option" | RequestRaises request_error | RequestWaits

definition await_reply ::
    "sdk_env \<Rightarrow> config \<Rightarrow> string \<Rightarrow> string \<Rightarrow> string \<Rightarrow> rat option \<Rightarrow> connect_result \<Rightarrow> arrival list \<Rightarrow> rat
       \<Rightarrow> event_table \<Rightarrow> request_result" where
  "await_reply env cf correlation_id sender since timeout conn as now t =
     (case open_failure env (Some since) conn of
        Some e \<Rightarrow> RequestRaises (RequestSdk e)
      | None \<Rightarrow>
          (case await_predicate (se_loads env) (reply_decide correlation_id sender) timeout False as now None [] of
             (Raised e, st) \<Rightarrow> RequestRaises (RequestSdk (SdkSub e))
           | (StillWaiting, st) \<Rightarrow> RequestWaits
           | (Returned outcome, st) \<Rightarrow>
               (if wo_framing_error outcome \<or> wo_peer_closed outcome then RequestRaises (RequestSdk SdkPeerClosed)
                else if \<not> (wo_matched outcome \<and> aw_caller st \<noteq> []) then Replied None
                else (let frame = hd (aw_caller st) in
                      if dict_get frame ''kind'' = JStr KIND_TRUNCATED then
                        (case map_of frame ''event_id'' of
                           None \<Rightarrow> RequestRaises NoEventId
                         | Some (JStr ident) \<Rightarrow> Replied (refetch_reply cf ident t)
                         | Some _ \<Rightarrow> Replied None)
                      else (case se_convert env frame of
                              None \<Rightarrow> RequestRaises (RequestSdk SdkValidation)
                            | Some ev \<Rightarrow> Replied (Some ev))))))"

section \<open>request and respond\<close>

record request_args =
  ra_to :: string
  ra_body :: string
  ra_sender :: string
  ra_timeout :: "rat option"
  ra_reply_to :: "string option"
  ra_correlation_id :: "string option"
  ra_thread :: "string option"

text \<open>\<open>correlation_id or _ulid.new()\<close>: an empty override counts as none.\<close>

definition correlation_of :: "insert_env \<Rightarrow> string option \<Rightarrow> ulid_state \<Rightarrow> (ulid_error + string) \<times> ulid_state" where
  "correlation_of env override us =
     (case override of
        Some (c # cs) \<Rightarrow> (Inr (c # cs), us)
      | _ \<Rightarrow> ulid_new (ie_boot env) (ie_mono_ns env) (ie_entropy env) us)"

definition request_delivery_id :: "string \<Rightarrow> string \<Rightarrow> string" where
  "request_delivery_id sender correlation_id = ''agent:'' @ sender @ '':request:'' @ correlation_id"

text \<open>The first half of \<open>request\<close>: the message is in the store; with what \<open>_await_reply\<close> gets.\<close>

definition request_emit ::
    "msg_env \<Rightarrow> insert_env \<Rightarrow> request_args \<Rightarrow> ulid_state \<Rightarrow> event_table
       \<Rightarrow> (request_error + string \<times> emit_result) \<times> ulid_state \<times> event_table \<times> db_effect list" where
  "request_emit env ulid_env a us t =
     (case correlation_of ulid_env (ra_correlation_id a) us of
        (Inl e, us1) \<Rightarrow> (Inl (RequestUlid e), us1, t, [])
      | (Inr correlation_id, us1) \<Rightarrow>
          (let reply_to = (case ra_reply_to a of
                             Some (c # cs) \<Rightarrow> c # cs
                           | _ \<Rightarrow> ra_sender a @ ''.'' @ correlation_id)
           in (case emit_agent_message env (request_delivery_id (ra_sender a) correlation_id) (ra_to a) (ra_sender a)
                      correlation_id (Some reply_to) (ra_body a) (ra_thread a) us1 t of
                 (Inl e, st) \<Rightarrow> (Inl (RequestEmit e), st)
               | (Inr r, st) \<Rightarrow> (Inr (correlation_id, r), st))))"

text \<open>The whole call; \<open>later\<close> is the store when the reply has arrived.\<close>

definition request_reply ::
    "sdk_env \<Rightarrow> config \<Rightarrow> msg_env \<Rightarrow> insert_env \<Rightarrow> request_args \<Rightarrow> connect_result \<Rightarrow> arrival list \<Rightarrow> rat
       \<Rightarrow> (event_table \<Rightarrow> event_table) \<Rightarrow> ulid_state \<Rightarrow> event_table
       \<Rightarrow> request_result \<times> ulid_state \<times> event_table \<times> db_effect list" where
  "request_reply sdk cf env ulid_env a conn as now later us t =
     (case request_emit env ulid_env a us t of
        (Inl e, st) \<Rightarrow> (RequestRaises e, st)
      | (Inr (correlation_id, r), us', t', effs) \<Rightarrow>
          (await_reply sdk cf correlation_id (ra_sender a) (row_event_id (er_event r)) (ra_timeout a) conn as now (later t'),
           us', t', effs))"

datatype respond_error = NotAddressed | NoSender | RespondEmit emit_error

definition respond ::
    "msg_env \<Rightarrow> event_frame \<Rightarrow> string \<Rightarrow> string option \<Rightarrow> string option \<Rightarrow> ulid_state \<Rightarrow> event_table
       \<Rightarrow> (respond_error + emit_result) \<times> ulid_state \<times> event_table \<times> db_effect list" where
  "respond env rq body sender thread us t =
     (let field = (\<lambda>k. json_str_opt (dict_get (ef_fields rq) k)) in
      case (field ''msg_correlation_id'', field ''msg_from'') of
        (Some correlation_id, Some recipient) \<Rightarrow>
          (case (case sender of Some s \<Rightarrow> Some s | None \<Rightarrow> field ''msg_to'') of
             None \<Rightarrow> (Inl NoSender, us, t, [])
           | Some s \<Rightarrow>
               (case emit_agent_message env (''agent:'' @ s @ '':reply:'' @ correlation_id) recipient s correlation_id
                       (field ''msg_reply_to'') body
                       (case thread of Some x \<Rightarrow> Some x | None \<Rightarrow> field ''msg_thread'') us t of
                  (Inl e, st) \<Rightarrow> (Inl (RespondEmit e), st)
                | (Inr r, st) \<Rightarrow> (Inr r, st)))
      | _ \<Rightarrow> (Inl NotAddressed, us, t, []))"

end
