(* ===== verification/WB_SubscribeProps.thy ===== *)
theory WB_SubscribeProps
  imports WB_Subscribe
begin

text \<open>
  What the consumer SDK delivers: the stream yields exactly the matching frames of what it read, in
  order, and ends as the connection ends; the asynchronous form hands over that same stream through
  its bounded queue, whatever the scheduling, and its teardown cannot deadlock.
\<close>

section \<open>The capture callback\<close>

definition hits :: "predicate \<Rightarrow> dict \<Rightarrow> bool" where
  "hits p f \<longleftrightarrow> (\<exists>d. dict_get f ''fields'' = JObj d) \<and> pr_evaluate p f"

lemma make_capture_hits:
  "make_capture_decide p f c = (if hits p f then (MATCHED, c @ [f]) else (CONTINUE, c))"
  by (auto simp: make_capture_decide_def hits_def split: json.split)

lemma run_capture:
  "run_decide (make_capture_decide p) fs c
     = (map (\<lambda>f. if hits p f then MATCHED else CONTINUE) fs, c @ filter (hits p) fs)"
  by (induction fs arbitrary: c) (auto simp: make_capture_hits)

lemma await_loop_waits:
  "await_loop loads decide None ir as st = (StillWaiting, st') \<Longrightarrow> aw_unread st = as \<Longrightarrow> aw_unread st' = []"
proof (induction loads decide "None :: rat option" ir as st rule: await_loop.induct)
  case (2 loads decide ir a as st)
  show ?case
  proof (cases "ar_item a")
    case (GotPayload data)
    let ?st1 = "st\<lparr>aw_now := max (max (aw_now st) (ar_ready a)) (ar_done a), aw_unread := as\<rparr>"
    obtain v st2 where v: "await_frame loads decide ir data ?st1 = (v, st2)" by force
    have unread: "aw_unread st2 = as"
      using v by (auto simp: await_frame_def Let_def split: option.splits json.splits if_splits frame_decision.splits prod.splits)
    have none: "v = None" using 2(2) GotPayload v await_frame_verdict[of loads decide ir data ?st1]
      by (cases v) (auto simp: Let_def)
    show ?thesis
      by (rule 2(1)[OF _ refl GotPayload v[symmetric, unfolded none] refl _ unread])
         (use 2(2) GotPayload v none in \<open>auto simp: Let_def\<close>)
  qed (use 2 in \<open>auto simp: Let_def\<close>)
qed simp

section \<open>One drain\<close>

text \<open>How a drain without a deadline ends, by the last arrival it read.\<close>

definition drain_ends_on :: "sdk_env \<Rightarrow> bool \<Rightarrow> drain_result \<Rightarrow> read_item \<Rightarrow> bool" where
  "drain_ends_on env raise_on_peer_close res i =
     (case i of
        Interrupted \<Rightarrow> res = Drained None
      | GotEof \<Rightarrow> res = (if raise_on_peer_close then DrainRaises SdkPeerClosed else Drained None)
      | GotBadFraming \<Rightarrow> res = DrainRaises SdkFraming
      | GotPayload data \<Rightarrow> (case classify (se_loads env) data of Fatal x \<Rightarrow> res = DrainRaises (SdkSub x) | _ \<Rightarrow> False))"

lemma drain_one_cases:
  assumes "drain_one env p None r as now = (res, as', now')"
  obtains n where "n \<le> length as" "as' = drop n as"
    "list_all (\<lambda>a. passes_over (se_loads env) (ar_item a)) (take (n - 1) as)"
    "(\<exists>f. filter (hits p) (delivered_of (se_loads env) (take n as)) = [f] \<and> 0 < n
        \<and> passes_over (se_loads env) (ar_item (as ! (n - 1)))
        \<and> res = (case se_convert env f of None \<Rightarrow> DrainRaises SdkValidation | Some ev \<Rightarrow> Drained (Some ev)))
     \<or> filter (hits p) (delivered_of (se_loads env) (take n as)) = []
        \<and> (if res = StillDraining then n = length as \<and> list_all (\<lambda>a. passes_over (se_loads env) (ar_item a)) as
           else 0 < n \<and> drain_ends_on env r res (ar_item (as ! (n - 1))))"
proof -
  let ?loads = "se_loads env" and ?d = "make_capture_decide p"
  obtain e st where a: "await_predicate ?loads ?d None False as now None [] = (e, st)" by force
  obtain n where n: "await_trace ?loads ?d None as
     \<lparr>aw_now = now, aw_anchor = now, aw_cursor = None, aw_unread = as, aw_caller = []\<rparr> n (e, st)"
    using drain_one_trace[of env p None as now] a by auto
  let ?fs = "delivered_of ?loads (take n as)"
  let ?vs = "map (\<lambda>f. if hits p f then MATCHED else CONTINUE) ?fs"
  have len: "n \<le> length as" and unread: "aw_unread st = drop n as" and captured: "aw_caller st = filter (hits p) ?fs"
    using n by (auto simp: await_trace_def run_capture)
  have verdicts: "if e = Returned OUTCOME_MATCHED
      then ?vs \<noteq> [] \<and> last ?vs = MATCHED \<and> list_all (\<lambda>v. v = CONTINUE) (butlast ?vs)
      else list_all (\<lambda>v. v = CONTINUE) ?vs"
    using n by (simp add: await_trace_def run_capture Let_def cong: if_cong)
  have ending: "if e = StillWaiting then list_all (\<lambda>a. passes_over ?loads (ar_item a)) (take n as)
      else n > 0 \<and> list_all (\<lambda>a. passes_over ?loads (ar_item a)) (take (n - 1) as) \<and> ends_on ?loads e (ar_item (as ! (n - 1)))"
    using n by (simp add: await_trace_def open_ended_def cong: if_cong)
  have res: "res = drain_tail env r e (filter (hits p) ?fs)" "as' = drop n as"
    using assms a captured unread by (auto simp: drain_one_def)
  have before: "list_all (\<lambda>a. passes_over ?loads (ar_item a)) (take (n - 1) as)"
  proof (cases "e = StillWaiting")
    case True
    then have "list_all (\<lambda>a. passes_over ?loads (ar_item a)) (take n as)" using ending by simp
    then show ?thesis using set_take_subset_set_take[of "n - 1" n as] by (auto simp: list_all_iff)
  qed (use ending in simp)
  show thesis
  proof (cases "e = Returned OUTCOME_MATCHED")
    case True
    then obtain fs f where fs: "?fs = fs @ [f]" using verdicts by (cases ?fs rule: rev_cases) auto
    then have hit: "filter (hits p) ?fs = [f]"
      using verdicts True by (auto simp: list_all_iff filter_empty_conv split: if_splits)
    have "passes_over ?loads (ar_item (as ! (n - 1)))"
      using ending True
      by (auto simp: ends_on_def passes_over_def outcome_distinct(2-4)[symmetric] split: read_item.splits verdict.splits)
    then show ?thesis
      using that[OF len res(2) before] hit ending True res(1)
      by (auto simp: drain_tail_def finish_drain_def OUTCOME_MATCHED_def split: option.splits)
  next
    case False
    then have none: "filter (hits p) ?fs = []"
      using verdicts by (auto simp: list_all_iff filter_empty_conv split: if_splits)
    show ?thesis
    proof (cases "e = StillWaiting")
      case True
      have "drop n as = []"
        using await_loop_waits[of ?loads ?d False as _ st] a True unread by (simp add: await_predicate_def)
      then have "n = length as" using len by simp
      then show ?thesis
        using that[OF len res(2) before] none res(1) True ending by (simp add: drain_tail_def)
    next
      case other: False
      then have "n > 0" "ends_on ?loads e (ar_item (as ! (n - 1)))" using ending by auto
      moreover from this(2) have "drain_ends_on env r res (ar_item (as ! (n - 1))) \<and> res \<noteq> StillDraining"
        using False unfolding res(1) none
        by (auto simp: ends_on_def drain_ends_on_def drain_tail_def finish_drain_def OUTCOME_defs
            split: read_item.splits verdict.splits)
      ultimately show ?thesis using that[OF len res(2) before] none by auto
    qed
  qed
qed

section \<open>The stream\<close>

text \<open>The frames a stream yielded and, when a matching frame did not decode, that frame after them.\<close>

definition yields :: "sdk_env \<Rightarrow> dict list \<Rightarrow> event_frame list \<Rightarrow> stream_stop \<Rightarrow> bool" where
  "yields env fs evs e \<longleftrightarrow>
     (if e = StreamRaises SdkValidation
      then (\<exists>gs f. fs = gs @ [f] \<and> map (se_convert env) gs = map Some evs \<and> se_convert env f = None)
      else map (se_convert env) fs = map Some evs)"

definition stream_ends_on :: "sdk_env \<Rightarrow> stream_stop \<Rightarrow> arrival list \<Rightarrow> nat \<Rightarrow> bool" where
  "stream_ends_on env e as n \<longleftrightarrow>
     (case e of
        StreamWaits \<Rightarrow> n = length as \<and> list_all (\<lambda>a. passes_over (se_loads env) (ar_item a)) as
      | StreamDone \<Rightarrow> 0 < n \<and> ar_item (as ! (n - 1)) \<in> {GotEof, Interrupted}
      | StreamRaises SdkValidation \<Rightarrow> 0 < n \<and> passes_over (se_loads env) (ar_item (as ! (n - 1)))
      | StreamRaises SdkFraming \<Rightarrow> 0 < n \<and> ar_item (as ! (n - 1)) = GotBadFraming
      | StreamRaises (SdkSub x) \<Rightarrow>
          0 < n \<and> (\<exists>data. ar_item (as ! (n - 1)) = GotPayload data \<and> classify (se_loads env) data = Fatal x)
      | _ \<Rightarrow> False)"

lemma stream_ends_on_drop:
  "n \<le> length as \<Longrightarrow> list_all (\<lambda>a. passes_over (se_loads env) (ar_item a)) (take n as) \<Longrightarrow>
     stream_ends_on env e (drop n as) m \<Longrightarrow> stream_ends_on env e as (n + m)"
proof -
  assume n: "n \<le> length as" "list_all (\<lambda>a. passes_over (se_loads env) (ar_item a)) (take n as)"
    and e: "stream_ends_on env e (drop n as) m"
  have item: "drop n as ! (m - 1) = as ! (n + m - 1)" if "0 < m" using n(1) that by simp
  have all: "list_all (\<lambda>a. passes_over (se_loads env) (ar_item a)) as"
    if "list_all (\<lambda>a. passes_over (se_loads env) (ar_item a)) (drop n as)"
    using n(2) that by (metis append_take_drop_id list_all_append)
  show ?thesis
    using e n(1) item all unfolding stream_ends_on_def
    by (cases e) (auto split: sdk_error.splits)
qed

lemma stream_trace:
  "stream env p as now = (evs, e) \<Longrightarrow>
     \<exists>n\<le>length as. yields env (filter (hits p) (delivered_of (se_loads env) (take n as))) evs e
       \<and> list_all (\<lambda>a. passes_over (se_loads env) (ar_item a)) (take (n - 1) as)
       \<and> stream_ends_on env e as n"
proof (induction env p as now arbitrary: evs e rule: stream.induct)
  case (1 env p as now)
  obtain res as' now' where d: "drain_one env p None False as now = (res, as', now')" by (metis prod_cases3)
  from d obtain n where n: "n \<le> length as" "as' = drop n as"
    "list_all (\<lambda>a. passes_over (se_loads env) (ar_item a)) (take (n - 1) as)"
    "(\<exists>f. filter (hits p) (delivered_of (se_loads env) (take n as)) = [f] \<and> 0 < n
        \<and> passes_over (se_loads env) (ar_item (as ! (n - 1)))
        \<and> res = (case se_convert env f of None \<Rightarrow> DrainRaises SdkValidation | Some ev \<Rightarrow> Drained (Some ev)))
     \<or> filter (hits p) (delivered_of (se_loads env) (take n as)) = []
        \<and> (if res = StillDraining then n = length as \<and> list_all (\<lambda>a. passes_over (se_loads env) (ar_item a)) as
           else 0 < n \<and> drain_ends_on env False res (ar_item (as ! (n - 1))))"
    by (rule drain_one_cases)
  show ?case
  proof (cases "filter (hits p) (delivered_of (se_loads env) (take n as)) = []")
    case True
    then have fin: "if res = StillDraining then n = length as \<and> list_all (\<lambda>a. passes_over (se_loads env) (ar_item a)) as
        else 0 < n \<and> drain_ends_on env False res (ar_item (as ! (n - 1)))" using n(4) by auto
    have "evs = [] \<and> stream_ends_on env e as n \<and> e \<noteq> StreamRaises SdkValidation"
      using 1(2) fin unfolding stream.simps[of env p as now] d
      by (auto simp: stream_ends_on_def drain_ends_on_def split: if_splits read_item.splits verdict.splits)
    then show ?thesis using n(1,3) True by (intro exI[of _ n]) (auto simp: yields_def)
  next
    case False
    then obtain f where f: "filter (hits p) (delivered_of (se_loads env) (take n as)) = [f]" "0 < n"
      "passes_over (se_loads env) (ar_item (as ! (n - 1)))"
      "res = (case se_convert env f of None \<Rightarrow> DrainRaises SdkValidation | Some ev \<Rightarrow> Drained (Some ev))"
      using n(4) by auto
    show ?thesis
    proof (cases "se_convert env f")
      case None
      then have "evs = []" "e = StreamRaises SdkValidation"
        using 1(2) f(4) unfolding stream.simps[of env p as now] d by auto
      then show ?thesis
        using n(1,3) f None by (intro exI[of _ n]) (auto simp: yields_def stream_ends_on_def)
    next
      case (Some ev)
      then have res: "res = Drained (Some ev)" using f(4) by simp
      obtain evs' where evs: "stream env p as' now' = (evs', e)" "evs = ev # evs'"
        using 1(2) unfolding stream.simps[of env p as now] d res by (auto split: prod.splits)
      have "\<exists>m\<le>length as'. yields env (filter (hits p) (delivered_of (se_loads env) (take m as'))) evs' e
          \<and> list_all (\<lambda>a. passes_over (se_loads env) (ar_item a)) (take (m - 1) as') \<and> stream_ends_on env e as' m"
        using 1(1)[OF d[symmetric] res refl refl evs(1)] by simp
      then obtain m where m: "m \<le> length as'" "yields env (filter (hits p) (delivered_of (se_loads env) (take m as'))) evs' e"
        "list_all (\<lambda>a. passes_over (se_loads env) (ar_item a)) (take (m - 1) as')" "stream_ends_on env e as' m" by blast
      have split: "take (n + m) as = take n as @ take m as'" using n(2) by (simp add: take_add)
      have all: "list_all (\<lambda>a. passes_over (se_loads env) (ar_item a)) (take n as)"
        using n(1,3) f(2,3) by (cases n) (auto simp: take_Suc_conv_app_nth)
      have "list_all (\<lambda>a. passes_over (se_loads env) (ar_item a)) (take (n + m - 1) as)"
      proof (cases "m = 0")
        case False
        then have "take (n + m - 1) as = take n as @ take (m - 1) as'" using n(2) by (simp add: take_add[symmetric])
        then show ?thesis using all m(3) by simp
      qed (use n(3) in simp)
      moreover have "yields env (filter (hits p) (delivered_of (se_loads env) (take (n + m) as))) evs e"
        using m(2) f(1) Some unfolding split delivered_append filter_append evs(2) yields_def
        by (auto split: if_splits)
      moreover have "stream_ends_on env e as (n + m)"
        using stream_ends_on_drop[OF n(1) all] m(4) n(2) by simp
      ultimately show ?thesis using m(1) n(1,2) by (intro exI[of _ "n + m"]) auto
    qed
  qed
qed

text \<open>C24: The generator yields exactly the frames it read that carry fields and satisfy the predicate,
  each once and in the order of the wire, each decoded. It reads past frames only, ends when the daemon
  closes the connection or the wait is cancelled, raises on a framing violation, on a frame that ends
  the engine or on the first matching frame that does not decode, and otherwise goes on for as long as
  frames arrive.\<close>

theorem subscribe_yields_matching:
  assumes "resolve_stream_predicate env m source to first_of = Inr p"
    and "open_failure env since conn = None"
    and "subscribe env m source to first_of since conn as now = (evs, e)"
  shows "\<exists>n\<le>length as. yields env (filter (hits p) (delivered_of (se_loads env) (take n as))) evs e
     \<and> list_all (\<lambda>a. passes_over (se_loads env) (ar_item a)) (take (n - 1) as)
     \<and> stream_ends_on env e as n"
  using assms stream_trace by (simp add: subscribe_def)

section \<open>The asynchronous form\<close>

text \<open>What the worker puts for a stream.\<close>

definition hand_offs :: "event_frame list \<times> stream_stop \<Rightarrow> hand_off list" where
  "hand_offs r = map Item (fst r) @ (case snd r of
       StreamDone \<Rightarrow> [DoneMark] | StreamRaises x \<Rightarrow> [Failure x, DoneMark] | StreamWaits \<Rightarrow> [])"

definition yet_to_put :: "sdk_env \<Rightarrow> predicate \<Rightarrow> async_state \<Rightarrow> hand_off list" where
  "yet_to_put env p st =
     (case ay_worker st of
        Draining \<Rightarrow> hand_offs (stream env p (ay_unread st) (ay_now st))
      | Putting (Item ev) \<Rightarrow> Item ev # hand_offs (stream env p (ay_unread st) (ay_now st))
      | Putting (Failure x) \<Rightarrow> [Failure x, DoneMark]
      | Putting DoneMark \<Rightarrow> [DoneMark]
      | Exited \<Rightarrow> [])"

text \<open>While the consumer reads, what it has, what is queued and what is to come make up the stream;
  when it has left, what it has is a prefix, complete if the stream ended or raised.\<close>

definition async_inv :: "sdk_env \<Rightarrow> predicate \<Rightarrow> hand_off list \<Rightarrow> async_state \<Rightarrow> bool" where
  "async_inv env p all st \<longleftrightarrow>
     length (ay_queue st) \<le> ASUBSCRIBE_QUEUE_MAXSIZE
     \<and> (case ay_consumer st of
          None \<Rightarrow> map Item (ay_received st) @ ay_queue st @ yet_to_put env p st = all
        | Some EndOfStream \<Rightarrow> \<exists>r. map Item (ay_received st) @ DoneMark # r = all
        | Some (ReRaised x) \<Rightarrow> \<exists>r. map Item (ay_received st) @ Failure x # r = all
        | Some ClosedEarly \<Rightarrow> \<exists>r. map Item (ay_received st) @ r = all)"

lemma async_invD:
  assumes "async_inv env p all st"
  shows "length (ay_queue st) \<le> ASUBSCRIBE_QUEUE_MAXSIZE"
    and "ay_consumer st = Some EndOfStream \<Longrightarrow> \<exists>r. map Item (ay_received st) @ DoneMark # r = all"
    and "ay_consumer st = Some (ReRaised x) \<Longrightarrow> \<exists>r. map Item (ay_received st) @ Failure x # r = all"
    and "\<exists>r. map Item (ay_received st) @ r = all"
  using assms by (auto simp: async_inv_def split: option.splits consumer_end.splits)

lemma yet_to_put_consumer [simp]:
  "yet_to_put env p (st\<lparr>ay_queue := q, ay_received := r\<rparr>) = yet_to_put env p st"
  by (cases "ay_worker st") (simp_all add: yet_to_put_def split: hand_off.split)

lemma yet_to_put_drain:
  assumes "ay_worker st = Draining"
  shows "yet_to_put env p st =
     (case drain_one env p None False (ay_unread st) (ay_now st) of
        (Drained (Some ev), as', now') \<Rightarrow> Item ev # hand_offs (stream env p as' now')
      | (Drained None, _) \<Rightarrow> [DoneMark]
      | (DrainRaises x, _) \<Rightarrow> [Failure x, DoneMark]
      | (StillDraining, _) \<Rightarrow> [])"
  using assms unfolding yet_to_put_def stream.simps[of env p "ay_unread st" "ay_now st"]
  by (auto simp: hand_offs_def split: drain_result.splits option.splits prod.splits)

lemma async_inv_step:
  assumes "async_inv env p all st" "async_step env p m st = Some st'"
  shows "async_inv env p all st'"
proof (cases m)
  case WorkerMove
  then have w: "worker_move env p st = Some st'" using assms(2) by simp
  show ?thesis
  proof (cases "ay_worker st")
    case Draining
    then have "ay_consumer st = None" using w by (auto simp: worker_move_def split: if_splits)
    then show ?thesis
      using assms(1) w Draining yet_to_put_drain[OF Draining, of env p]
      by (auto simp: worker_move_def async_inv_def yet_to_put_def split: drain_result.splits option.splits prod.splits)
  next
    case (Putting x)
    then have "yet_to_put env p st = x # yet_to_put env p st'"
      using w by (cases x) (auto simp: worker_move_def yet_to_put_def after_put_def split: if_splits)
    then show ?thesis
      using assms(1) w Putting
      by (auto simp: worker_move_def async_inv_def split: if_splits option.splits consumer_end.splits)
  qed (use w in \<open>simp add: worker_move_def\<close>)
next
  case (TornRead r)
  then show ?thesis
    using assms by (auto simp: async_inv_def split: if_splits option.splits consumer_end.splits)
next
  case ConsumerMove
  then show ?thesis
    using assms
    by (auto simp: consumer_move_def async_inv_def split: if_splits list.splits hand_off.splits)
next
  case ConsumerLeaves
  then show ?thesis using assms by (auto simp: async_inv_def split: if_splits)
next
  case DrainerMove
  then show ?thesis
    using assms by (auto simp: async_inv_def split: if_splits option.splits consumer_end.splits)
qed

lemma async_reach_inv:
  "async_reach env p as now st \<Longrightarrow> async_inv env p (hand_offs (stream env p as now)) st"
proof (induction rule: async_reach.induct)
  case async_init
  show ?case by (simp add: async_start_def async_inv_def yet_to_put_def)
qed (rule async_inv_step)

lemma items_prefix:
  "map Item xs @ r = map Item ys @ s \<Longrightarrow> \<forall>ev. Item ev \<notin> set s \<Longrightarrow> take (length xs) ys = xs"
proof (induction xs arbitrary: ys)
  case (Cons x xs)
  then show ?case by (cases ys) auto
qed simp

lemma items_complete:
  "map Item xs @ y # r = map Item ys @ s \<Longrightarrow> \<forall>ev. Item ev \<notin> set s \<Longrightarrow> \<forall>ev. y \<noteq> Item ev \<Longrightarrow> xs = ys \<and> s = y # r"
proof (induction xs arbitrary: ys)
  case Nil
  then show ?case by (cases ys) auto
next
  case (Cons x xs)
  then show ?case by (cases ys) auto
qed

text \<open>C25: In whatever way the event loop, the consumer and the worker thread are scheduled, the
  asynchronous iterator hands over a prefix of the stream the generator would yield, in order and
  without loss or repetition; it ends normally only with the whole of a stream that ended, and raises
  only what that stream raises, after all its events. The queue never holds more than 256 items, and
  once the consumer has left, a worker that has not exited is never stuck: it or the drainer can move.\<close>

theorem asubscribe_delivers_stream:
  assumes "async_reach env p as now st" "stream env p as now = (evs, e)"
  shows "take (length (ay_received st)) evs = ay_received st
     \<and> (ay_consumer st = Some EndOfStream \<longrightarrow> ay_received st = evs \<and> e = StreamDone)
     \<and> (\<forall>x. ay_consumer st = Some (ReRaised x) \<longrightarrow> ay_received st = evs \<and> e = StreamRaises x)
     \<and> length (ay_queue st) \<le> ASUBSCRIBE_QUEUE_MAXSIZE
     \<and> (ay_consumer st \<noteq> None \<and> ay_worker st \<noteq> Exited \<longrightarrow>
          (\<exists>m\<in>{WorkerMove, TornRead None, DrainerMove}. async_step env p m st \<noteq> None))"
proof -
  let ?tail = "case e of StreamDone \<Rightarrow> [DoneMark] | StreamRaises x \<Rightarrow> [Failure x, DoneMark] | StreamWaits \<Rightarrow> []"
  have inv: "async_inv env p (map Item evs @ ?tail) st"
    using async_reach_inv[OF assms(1)] assms(2) by (simp add: hand_offs_def)
  have tail: "\<forall>ev. Item ev \<notin> set ?tail" by (simp split: stream_stop.split)
  have prefix: "\<exists>r. map Item (ay_received st) @ r = map Item evs @ ?tail"
    by (rule async_invD(4)[OF inv])
  have done1: "ay_received st = evs \<and> e = StreamDone" if left: "ay_consumer st = Some EndOfStream"
  proof -
    obtain r where "map Item (ay_received st) @ DoneMark # r = map Item evs @ ?tail"
      using async_invD(2)[OF inv left] by blast
    from items_complete[OF this tail] show ?thesis by (auto split: stream_stop.splits)
  qed
  have raised: "ay_received st = evs \<and> e = StreamRaises x" if left: "ay_consumer st = Some (ReRaised x)" for x
  proof -
    obtain r where "map Item (ay_received st) @ Failure x # r = map Item evs @ ?tail"
      using async_invD(3)[OF inv left] by blast
    from items_complete[OF this tail] show ?thesis by (auto split: stream_stop.splits)
  qed
  have "\<exists>m\<in>{WorkerMove, TornRead None, DrainerMove}. async_step env p m st \<noteq> None"
    if "ay_consumer st \<noteq> None" "ay_worker st \<noteq> Exited"
  proof (cases "ay_worker st")
    case (Putting x)
    then show ?thesis
      using that by (cases "ay_queue st = []") (auto simp: worker_move_def ASUBSCRIBE_QUEUE_MAXSIZE_def)
  qed (use that in auto)
  then show ?thesis
    using prefix items_prefix[OF _ tail] done1 raised async_invD(1)[OF inv] by blast
qed

section \<open>Witnesses\<close>

definition sample_sdk_frame :: "string \<Rightarrow> string \<Rightarrow> dict" where
  "sample_sdk_frame i source = [(''kind'', JStr ''event''), (''event_id'', JStr i),
     (''fields'', JObj [(''source'', JStr source)])]"

definition sample_event_frame :: "string \<Rightarrow> event_frame" where
  "sample_event_frame eid = \<lparr>ef_event_id = eid, ef_event_type = [], ef_owner = [], ef_repo = [],
     ef_received_at = 0, ef_delivery_id = [], ef_summary = [], ef_fields = []\<rparr>"

definition sample_sdk_env :: sdk_env where
  "sample_sdk_env = \<lparr>se_loads = map_of [([2], JObj (sample_sdk_frame ''2'' ''docker'')),
       ([3], JObj (sample_sdk_frame ''3'' ''github'')), ([4], JObj (sample_sdk_frame ''4'' ''docker''))],
     se_literal = (\<lambda>s. Some (JStr (butlast (tl s)))),
     se_quote = (\<lambda>s. [CHR 34] @ s @ [CHR 34]), se_dumps = (\<lambda>_. []),
     se_convert = (\<lambda>f. case dict_get f ''event_id'' of JStr i \<Rightarrow> Some (sample_event_frame i) | _ \<Rightarrow> None)\<rparr>"

definition sample_sdk_arrivals :: "arrival list" where
  "sample_sdk_arrivals = map (\<lambda>i. \<lparr>ar_ready = 0, ar_done = 0, ar_item = i\<rparr>)
     [GotPayload [2], GotPayload [3], GotPayload [4], GotEof]"

definition sample_sdk_predicate :: predicate where
  "sample_sdk_predicate = projr (resolve_stream_predicate sample_sdk_env NoMatch (Some ''docker'') None None)"

lemma sample_sdk_resolves:
  "resolve_stream_predicate sample_sdk_env NoMatch (Some ''docker'') None None = Inr sample_sdk_predicate"
proof -
  have "isl (resolve_stream_predicate sample_sdk_env NoMatch (Some ''docker'') None None) = False" by code_simp
  then show ?thesis by (cases "resolve_stream_predicate sample_sdk_env NoMatch (Some ''docker'') None None")
    (simp_all add: sample_sdk_predicate_def)
qed

lemma sample_sdk_opens: "open_failure sample_sdk_env None Connected = None"
  by (simp add: open_failure_def open_subscriber_def resolve_since_def sample_sdk_env_def encode_frame_def)

lemma sample_hits:
  "hits sample_sdk_predicate (sample_sdk_frame i source) = pr_evaluate sample_sdk_predicate (sample_sdk_frame i source)"
  "pr_evaluate sample_sdk_predicate (sample_sdk_frame ''2'' ''docker'')"
  "\<not> pr_evaluate sample_sdk_predicate (sample_sdk_frame ''3'' ''github'')"
  "pr_evaluate sample_sdk_predicate (sample_sdk_frame ''4'' ''docker'')"
  subgoal by (simp add: hits_def sample_sdk_frame_def dict_get_def)
  subgoal by code_simp
  subgoal by code_simp
  subgoal by code_simp
  done

lemma sample_convert: "se_convert sample_sdk_env (sample_sdk_frame i source) = Some (sample_event_frame i)"
  by (simp add: sample_sdk_env_def sample_sdk_frame_def dict_get_def)

lemma sample_classify:
  "classify (se_loads sample_sdk_env) [2] = Delivered (sample_sdk_frame ''2'' ''docker'')"
  "classify (se_loads sample_sdk_env) [3] = Delivered (sample_sdk_frame ''3'' ''github'')"
  "classify (se_loads sample_sdk_env) [4] = Delivered (sample_sdk_frame ''4'' ''docker'')"
  by (simp_all add: classify_def sample_sdk_env_def sample_sdk_frame_def dict_get_def)

lemma sample_drains:
  "drain_one sample_sdk_env sample_sdk_predicate None False sample_sdk_arrivals 0
     = (Drained (Some (sample_event_frame ''2'')), tl sample_sdk_arrivals, 0)"
  "drain_one sample_sdk_env sample_sdk_predicate None False (tl sample_sdk_arrivals) 0
     = (Drained (Some (sample_event_frame ''4'')), drop 3 sample_sdk_arrivals, 0)"
  "drain_one sample_sdk_env sample_sdk_predicate None False (drop 3 sample_sdk_arrivals) 0 = (Drained None, [], 0)"
  by (simp_all add: drain_one_def await_predicate_def sample_sdk_arrivals_def await_frame_classify sample_classify
      deliver_def make_capture_hits sample_hits drain_tail_def finish_drain_def sample_convert OUTCOME_defs)

lemma sample_stream:
  "stream sample_sdk_env sample_sdk_predicate sample_sdk_arrivals 0
     = ([sample_event_frame ''2'', sample_event_frame ''4''], StreamDone)"
  by (subst stream.simps, simp add: sample_drains, subst stream.simps, simp add: sample_drains,
      subst stream.simps, simp add: sample_drains)

lemma sample_sdk_stream:
  "subscribe sample_sdk_env NoMatch (Some ''docker'') None None None Connected sample_sdk_arrivals 0
     = ([sample_event_frame ''2'', sample_event_frame ''4''], StreamDone)"
  by (simp add: subscribe_def sample_sdk_resolves sample_sdk_opens sample_stream)

theorem subscribe_yields_matching_witness:
  "\<exists>n\<le>length sample_sdk_arrivals.
     yields sample_sdk_env (filter (hits sample_sdk_predicate) (delivered_of (se_loads sample_sdk_env) (take n sample_sdk_arrivals)))
       [sample_event_frame ''2'', sample_event_frame ''4''] StreamDone
     \<and> list_all (\<lambda>a. passes_over (se_loads sample_sdk_env) (ar_item a)) (take (n - 1) sample_sdk_arrivals)
     \<and> stream_ends_on sample_sdk_env StreamDone sample_sdk_arrivals n"
  by (rule subscribe_yields_matching[OF sample_sdk_resolves sample_sdk_opens sample_sdk_stream])

text \<open>A run of the asynchronous form up to the end of the stream.\<close>

fun async_run :: "sdk_env \<Rightarrow> predicate \<Rightarrow> async_move list \<Rightarrow> async_state \<Rightarrow> async_state option" where
  "async_run env p [] st = Some st"
| "async_run env p (m # ms) st =
     (case async_step env p m st of None \<Rightarrow> None | Some st' \<Rightarrow> async_run env p ms st')"

lemma async_run_reach:
  "async_reach env p as now st \<Longrightarrow> async_run env p ms st = Some st' \<Longrightarrow> async_reach env p as now st'"
  by (induction ms arbitrary: st) (auto split: option.splits intro: async_next)

definition sample_async_end :: async_state where
  "sample_async_end = \<lparr>ay_unread = [], ay_now = 0, ay_worker = Exited, ay_queue = [],
     ay_received = [sample_event_frame ''2'', sample_event_frame ''4''], ay_consumer = Some EndOfStream\<rparr>"

lemma sample_async_run:
  "async_run sample_sdk_env sample_sdk_predicate
     [WorkerMove, WorkerMove, WorkerMove, ConsumerMove, WorkerMove, WorkerMove, ConsumerMove, WorkerMove, ConsumerMove]
     (async_start sample_sdk_arrivals 0) = Some sample_async_end"
  by (simp add: async_start_def worker_move_def consumer_move_def sample_drains after_put_def
      ASUBSCRIBE_QUEUE_MAXSIZE_def sample_async_end_def)

theorem asubscribe_delivers_stream_witness:
  "ay_consumer sample_async_end = Some EndOfStream
   \<and> ay_received sample_async_end = [sample_event_frame ''2'', sample_event_frame ''4'']"
proof -
  have "async_reach sample_sdk_env sample_sdk_predicate sample_sdk_arrivals 0 sample_async_end"
    by (rule async_run_reach[OF async_init sample_async_run])
  moreover have "ay_consumer sample_async_end = Some EndOfStream" by (simp add: sample_async_end_def)
  ultimately show ?thesis using asubscribe_delivers_stream[OF _ sample_stream] by blast
qed

end
