(* ===== verification/WB_MessagingProps.thy ===== *)
theory WB_MessagingProps
  imports WB_Messaging WB_SubscribeProps
begin

text \<open>
  Request and reply end to end: a reply emitted for a request is in the replay the requester asked
  for, is recognised by its callback whole or truncated, and can be fetched from the store; and what a
  request returns is the first frame that carries its correlation.
\<close>

section \<open>The reply is recognised\<close>

definition reply_frame :: "string \<Rightarrow> string \<Rightarrow> dict \<Rightarrow> bool" where
  "reply_frame correlation_id sender f \<longleftrightarrow>
     (case dict_get f ''fields'' of
        JObj d \<Rightarrow> dict_get d ''msg_correlation_id'' = JStr correlation_id \<and> dict_get d ''msg_to'' = JStr sender
      | _ \<Rightarrow> dict_get f ''kind'' = JStr KIND_TRUNCATED \<and> dict_get f ''correlation_id'' = JStr correlation_id)"

lemma reply_decide_frame:
  "reply_decide c s f captured = (if reply_frame c s f then (MATCHED, captured @ [f]) else (CONTINUE, captured))"
  by (auto simp: reply_decide_def reply_frame_def split: json.split)

lemma frame_fields_get:
  assumes "c \<in> set EVENT_COLUMNS" "c \<notin> {''delivery_id'', ''received_at'', ''payload_json'', ''event_id''}"
  shows "dict_get (frame_fields r) c = dict_get (col_to_value r (ev_event_id r)) c"
proof -
  have "map_of (frame_fields r) c = Some (row_get r c)"
    unfolding frame_fields_def map_of_map_restrict using assms by (simp add: restrict_map_def)
  then show ?thesis by (simp add: dict_get_def row_get_column[OF assms(1)])
qed

lemma msg_fields_get:
  "dict_get (frame_fields r) ''msg_to'' = opt_json JStr (ev_msg_to r)"
  "dict_get (frame_fields r) ''msg_from'' = opt_json JStr (ev_msg_from r)"
  "dict_get (frame_fields r) ''msg_correlation_id'' = opt_json JStr (ev_msg_correlation_id r)"
  "dict_get (frame_fields r) ''msg_reply_to'' = opt_json JStr (ev_msg_reply_to r)"
  "dict_get (frame_fields r) ''msg_thread'' = opt_json JStr (ev_msg_thread r)"
  by (subst frame_fields_get; simp add: EVENT_COLUMNS_def dict_get_def col_to_value_def)+

lemma wire_fields_get [simp]:
  "dict_get (frame_items (EventFrame f)) ''fields'' = JObj (ef_fields f)"
  "dict_get (frame_items (TruncatedFrame s)) ''fields'' = JNull"
  "dict_get (frame_items (TruncatedFrame s)) ''kind'' = JStr KIND_TRUNCATED"
  "dict_get (frame_items (TruncatedFrame s)) ''correlation_id'' = opt_str (tf_correlation_id s)"
  by (simp_all add: dict_get_def)

lemma json_str_opt_opt [simp]: "json_str_opt (opt_json JStr x) = x" "json_str_opt (opt_str x) = x"
  by (cases x; simp)+

text \<open>The addressing columns of a row that an agent message inserted.\<close>

lemma envelope_row:
  assumes "event_insert.truncate r = agent_envelope now d to sender corr reply_to body thread"
  shows "ev_delivery_id r = d" "ev_msg_to r = Some to" "ev_msg_from r = Some sender"
    "ev_msg_correlation_id r = Some corr" "ev_msg_reply_to r = reply_to" "ev_msg_thread r = thread" "ev_msg_body r = Some body"
proof -
  have t: "ev_delivery_id (event_insert.truncate r) = ev_delivery_id r"
    "ev_msg_to (event_insert.truncate r) = ev_msg_to r" "ev_msg_from (event_insert.truncate r) = ev_msg_from r"
    "ev_msg_correlation_id (event_insert.truncate r) = ev_msg_correlation_id r"
    "ev_msg_reply_to (event_insert.truncate r) = ev_msg_reply_to r" "ev_msg_thread (event_insert.truncate r) = ev_msg_thread r"
    "ev_msg_body (event_insert.truncate r) = ev_msg_body r" by (simp_all add: event_insert.defs)
  show "ev_delivery_id r = d" "ev_msg_to r = Some to" "ev_msg_from r = Some sender"
    "ev_msg_correlation_id r = Some corr" "ev_msg_reply_to r = reply_to" "ev_msg_thread r = thread" "ev_msg_body r = Some body"
    unfolding t[symmetric] assms by (simp_all add: agent_envelope_def event_insert_defaults_def)
qed

lemma emit_agent_row:
  assumes "table_inv t" "emit_agent_message env d to sender corr reply_to body thread us t = (Inr r, us', t', effs)" "er_inserted r"
  shows "table_inv t'" "tb_rows t' = tb_rows t @ [er_event r]" "tb_last_seq t < ev_seq (er_event r)"
    "ev_event_id (er_event r) \<noteq> None"
    "event_insert.truncate (er_event r) = agent_envelope (mv_time_ns env) d to sender corr reply_to body thread"
  using emit_Inr[OF assms(1) assms(2)[unfolded emit_agent_message_def]] assms(3) by auto

lemma request_emit_row:
  assumes "table_inv t" "request_emit env ulid_env a us t = (Inr (corr, r), us', t', effs)" "er_inserted r"
  shows "table_inv t'" "er_event r \<in> set (tb_rows t')" "ev_event_id (er_event r) \<noteq> None"
    "ev_msg_to (er_event r) = Some (ra_to a)" "ev_msg_from (er_event r) = Some (ra_sender a)"
    "ev_msg_correlation_id (er_event r) = Some corr" "ev_msg_thread (er_event r) = ra_thread a"
proof -
  obtain us1 reply_to where e: "emit_agent_message env (request_delivery_id (ra_sender a) corr) (ra_to a) (ra_sender a)
      corr reply_to (ra_body a) (ra_thread a) us1 t = (Inr r, us', t', effs)"
    using assms(2) by (auto simp: request_emit_def Let_def split: prod.splits sum.splits)
  note row = emit_agent_row[OF assms(1) e assms(3)]
  show "table_inv t'" "er_event r \<in> set (tb_rows t')" "ev_event_id (er_event r) \<noteq> None"
    "ev_msg_to (er_event r) = Some (ra_to a)" "ev_msg_from (er_event r) = Some (ra_sender a)"
    "ev_msg_correlation_id (er_event r) = Some corr" "ev_msg_thread (er_event r) = ra_thread a"
    using row envelope_row[OF row(5)] by auto
qed

lemma respond_row:
  assumes "table_inv t" "respond env (row_to_frame cf rq) body sender thread us t = (Inr r, us', t', effs)" "er_inserted r"
    and "ev_msg_correlation_id rq = Some corr" "ev_msg_from rq = Some requester"
  shows "table_inv t'" "tb_rows t' = tb_rows t @ [er_event r]" "tb_last_seq t < ev_seq (er_event r)"
    "ev_event_id (er_event r) \<noteq> None" "ev_msg_to (er_event r) = Some requester"
    "ev_msg_correlation_id (er_event r) = Some corr" "ev_msg_body (er_event r) = Some body"
proof -
  have "ef_fields (row_to_frame cf rq) = frame_fields rq" by (simp add: row_to_frame_def)
  then obtain s th where e: "emit_agent_message env (''agent:'' @ s @ '':reply:'' @ corr) requester s corr
      (ev_msg_reply_to rq) body th us t = (Inr r, us', t', effs)"
    using assms(2,4,5) by (auto simp: respond_def Let_def msg_fields_get split: option.splits prod.splits sum.splits)
  note row = emit_agent_row[OF assms(1) e assms(3)]
  show "table_inv t'" "tb_rows t' = tb_rows t @ [er_event r]" "tb_last_seq t < ev_seq (er_event r)"
    "ev_event_id (er_event r) \<noteq> None" "ev_msg_to (er_event r) = Some requester"
    "ev_msg_correlation_id (er_event r) = Some corr" "ev_msg_body (er_event r) = Some body"
    using row envelope_row[OF row(5)] by auto
qed

lemma fetch_own_row:
  assumes "table_inv t" "r \<in> set (tb_rows t)" "ev_event_id r \<noteq> None"
  shows "fetch_event_by_id t (row_event_id r) = Some r"
proof -
  obtain i where i: "ev_event_id r = Some i" using assms(3) by auto
  obtain x where x: "fetch_event_by_id t i = Some x"
    using assms(2) i by (cases "fetch_event_by_id t i") (auto simp: fetch_event_by_id_def find_None_iff)
  then have "x \<in> set (visible_rows t)" "ev_event_id x = Some i" "r \<in> set (visible_rows t)"
    using assms(2) i by (auto simp: fetch_event_by_id_def find_Some_iff visible_rows_def)
  then have "x = r" using assms(1) i by (auto simp: table_inv_def distinct_map inj_on_def)
  then show ?thesis using x i by (simp add: row_event_id_def)
qed

text \<open>A reply reaches its request. Let a request be stored, anything happen to the store that keeps
  its row, and a responder answer the frame of that row. The reply's row carries the body; it comes
  after the request in commit order and is in the replay the requester subscribes to; its frame, and
  the stub an oversize frame is replaced by, are recognised by the requester's callback; and fetching
  the reply by its identifier gives that very frame.\<close>

theorem reply_reaches_requester:
  assumes "table_inv t" "request_emit env ulid_env a us t = (Inr (corr, rq), us1, t1, effs1)" "er_inserted rq"
    and "table_inv t2" "er_event rq \<in> set (tb_rows t2)"
    and "respond env2 (row_to_frame cf (er_event rq)) body sender thread us2 t2 = (Inr rp, us3, t3, effs3)" "er_inserted rp"
    and "row_event_id (er_event rq) \<noteq> []" "stub = \<lparr>tf_event_id = row_event_id (er_event rp), tf_reason = reason,
           tf_correlation_id = json_str_opt (dict_get (ef_fields (row_to_frame cf (er_event rp))) ''msg_correlation_id''),
           tf_max_frame_bytes = bound\<rparr>"
  shows "ev_msg_body (er_event rp) = Some body
     \<and> ev_seq (er_event rq) < ev_seq (er_event rp)
     \<and> er_event rp \<in> set (iter_events_above t3 (seq_for_event_id t3 (row_event_id (er_event rq))) None (length (tb_rows t3)))
     \<and> fst (reply_decide corr (ra_sender a) (frame_items (EventFrame (row_to_frame cf (er_event rp)))) []) = MATCHED
     \<and> fst (reply_decide corr (ra_sender a) (frame_items (TruncatedFrame stub)) []) = MATCHED
     \<and> refetch_reply cf (row_event_id (er_event rp)) t3 = Some (row_to_frame cf (er_event rp))"
proof -
  note q = request_emit_row[OF assms(1-3)]
  note p = respond_row[OF assms(4,6,7) q(6,5)]
  have seq: "ev_seq (er_event rq) < ev_seq (er_event rp)"
    using assms(4,5) p(3) by (force simp: table_inv_def)
  have mem: "er_event rq \<in> set (tb_rows t3)" "er_event rp \<in> set (tb_rows t3)" using p(2) assms(5) by auto
  have cursor: "seq_for_event_id t3 (row_event_id (er_event rq)) = ev_seq (er_event rq)"
    using fetch_own_row[OF p(1) mem(1) q(3)] assms(8) by (simp add: seq_for_event_id_def)
  have "er_event rp \<in> set (iter_events_above t3 (ev_seq (er_event rq)) None (length (tb_rows t3)))"
    using seq p(4) mem(2) unfolding iter_events_above_def by (simp add: length_filter_le)
  moreover have "reply_frame corr (ra_sender a) (frame_items (EventFrame (row_to_frame cf (er_event rp))))"
    using p(5,6) by (simp add: reply_frame_def row_to_frame_def msg_fields_get del: frame_items.simps)
  moreover have "reply_frame corr (ra_sender a) (frame_items (TruncatedFrame stub))"
    using p(6) assms(9) by (simp add: reply_frame_def row_to_frame_def msg_fields_get del: frame_items.simps)
  ultimately show ?thesis
    using p(7) seq cursor fetch_own_row[OF p(1) mem(2) p(4)] by (simp add: reply_decide_frame refetch_reply_def)
qed

section \<open>What a request returns\<close>

lemma run_reply:
  "run_decide (reply_decide c s) fs captured
     = (map (\<lambda>f. if reply_frame c s f then MATCHED else CONTINUE) fs, captured @ filter (reply_frame c s) fs)"
  by (induction fs arbitrary: captured) (auto simp: reply_decide_frame)

text \<open>C27: A request returns only its own reply. The frame it returns comes from the first frame read
  that carries the request's correlation identifier and, unless it is a stub, its sender as recipient:
  that frame decoded, or for a stub the stored row it names. It returns nothing only when no such frame
  was read by the deadline or the interruption, or when the row or identifier of the stub was gone; and
  it raises when the daemon closed the connection or broke the framing first.\<close>

theorem request_returns_own_reply:
  assumes "await_reply env cf corr sender since timeout conn as now t = res" "open_failure env (Some since) conn = None"
  shows "\<exists>n\<le>length as. (case filter (reply_frame corr sender) (delivered_of (se_loads env) (take n as)) of
       f # fs \<Rightarrow> fs = [] \<and>
         (if dict_get f ''kind'' = JStr KIND_TRUNCATED
          then res = (case map_of f ''event_id'' of
                        None \<Rightarrow> RequestRaises NoEventId
                      | Some (JStr i) \<Rightarrow> Replied (map_option (row_to_frame cf) (fetch_event_by_id t i))
                      | Some _ \<Rightarrow> Replied None)
          else res = (case se_convert env f of None \<Rightarrow> RequestRaises (RequestSdk SdkValidation) | Some ev \<Rightarrow> Replied (Some ev)))
     | [] \<Rightarrow> res \<in> {Replied None, RequestWaits, RequestRaises (RequestSdk SdkPeerClosed)} \<or> (\<exists>x. res = RequestRaises (RequestSdk (SdkSub x))))"
proof -
  let ?loads = "se_loads env" and ?d = "reply_decide corr sender"
  obtain e st where a: "await_predicate ?loads ?d timeout False as now None [] = (e, st)" by force
  obtain n where n: "await_trace ?loads ?d timeout as
     \<lparr>aw_now = now, aw_anchor = now, aw_cursor = None, aw_unread = as, aw_caller = []\<rparr> n (e, st)"
    using await_predicate_trace[of ?loads ?d timeout as now None "[]" False] a by auto
  let ?fs = "delivered_of ?loads (take n as)"
  let ?vs = "map (\<lambda>f. if reply_frame corr sender f then MATCHED else CONTINUE) ?fs"
  have len: "n \<le> length as" and captured: "aw_caller st = filter (reply_frame corr sender) ?fs"
    using n by (auto simp: await_trace_def run_reply)
  have verdicts: "if e = Returned OUTCOME_MATCHED
      then ?vs \<noteq> [] \<and> last ?vs = MATCHED \<and> list_all (\<lambda>v. v = CONTINUE) (butlast ?vs)
      else list_all (\<lambda>v. v = CONTINUE) ?vs"
    using n by (simp add: await_trace_def run_reply Let_def cong: if_cong)
  have res: "res = (case e of
       Raised x \<Rightarrow> RequestRaises (RequestSdk (SdkSub x))
     | StillWaiting \<Rightarrow> RequestWaits
     | Returned outcome \<Rightarrow>
         (if wo_framing_error outcome \<or> wo_peer_closed outcome then RequestRaises (RequestSdk SdkPeerClosed)
          else if \<not> (wo_matched outcome \<and> aw_caller st \<noteq> []) then Replied None
          else (let frame = hd (aw_caller st) in
                if dict_get frame ''kind'' = JStr KIND_TRUNCATED then
                  (case map_of frame ''event_id'' of
                     None \<Rightarrow> RequestRaises NoEventId
                   | Some (JStr ident) \<Rightarrow> Replied (refetch_reply cf ident t)
                   | Some _ \<Rightarrow> Replied None)
                else (case se_convert env frame of
                        None \<Rightarrow> RequestRaises (RequestSdk SdkValidation)
                      | Some ev \<Rightarrow> Replied (Some ev)))))"
    using assms a by (auto simp: await_reply_def split: await_end.splits)
  show ?thesis
  proof (cases "e = Returned OUTCOME_MATCHED")
    case True
    then obtain gs f where fs: "?fs = gs @ [f]" using verdicts by (cases ?fs rule: rev_cases) auto
    then have hit: "filter (reply_frame corr sender) ?fs = [f]"
      using verdicts True by (auto simp: list_all_iff filter_empty_conv split: if_splits)
    show ?thesis
      using len unfolding res captured hit True
      by (intro exI[of _ n]) (simp add: hit OUTCOME_MATCHED_def refetch_reply_def cong: if_cong option.case_cong json.case_cong)
  next
    case False
    then have none: "filter (reply_frame corr sender) ?fs = []"
      using verdicts by (auto simp: list_all_iff filter_empty_conv split: if_splits)
    have "res \<in> {Replied None, RequestWaits, RequestRaises (RequestSdk SdkPeerClosed)} \<or> (\<exists>x. res = RequestRaises (RequestSdk (SdkSub x)))"
      unfolding res captured none by (cases e) auto
    then show ?thesis using len none by (intro exI[of _ n]) simp
  qed
qed

text \<open>A stub with the right correlation is taken whoever it is addressed to.\<close>

lemma stub_recipient_unchecked:
  "fst (reply_decide corr sender (frame_items (TruncatedFrame \<lparr>tf_event_id = i, tf_reason = r,
      tf_correlation_id = Some corr, tf_max_frame_bytes = n\<rparr>)) []) = MATCHED"
  by (simp add: reply_decide_frame reply_frame_def del: frame_items.simps)

section \<open>Witnesses\<close>

definition sample_msg_env :: "int \<Rightarrow> msg_env" where
  "sample_msg_env ns = \<lparr>mv_known = [''agent''], mv_time_ns = 1763337600000000000, mv_insert = sample_env ns\<rparr>"

definition sample_args :: request_args where
  "sample_args = \<lparr>ra_to = ''reviewer'', ra_body = ''ready?'', ra_sender = ''builder'', ra_timeout = None,
     ra_reply_to = None, ra_correlation_id = Some ''c1'', ra_thread = None\<rparr>"

definition sample_msg_cf :: config where
  "sample_msg_cf = \<lparr>cf_enc = (\<lambda>_. [7]), cf_format_text = (\<lambda>r. Some ''text''), cf_heartbeat_sec = 60,
     cf_event_types = [''agent_message''], cf_uid = 1000\<rparr>"

lemma sample_exchange:
  "case request_emit (sample_msg_env 5000000) (sample_env 5000000) sample_args ulid_state0 empty_table of
     (Inr (corr, rq), us1, t1, effs1) \<Rightarrow>
       er_inserted rq \<and> row_event_id (er_event rq) \<noteq> []
       \<and> (case respond (sample_msg_env 9000000) (row_to_frame sample_msg_cf (er_event rq)) ''yes'' None None us1 t1 of
            (Inr rp, us3, t3, effs3) \<Rightarrow> er_inserted rp
          | _ \<Rightarrow> False)
   | _ \<Rightarrow> False"
  by code_simp

theorem reply_reaches_requester_witness:
  "\<exists>(rq :: emit_result) (rp :: emit_result) t3. ev_msg_body (er_event rp) = Some ''yes'' \<and> ev_seq (er_event rq) < ev_seq (er_event rp)
     \<and> refetch_reply sample_msg_cf (row_event_id (er_event rp)) t3 = Some (row_to_frame sample_msg_cf (er_event rp))"
proof -
  obtain x us1 t1 effs1 where x:
    "request_emit (sample_msg_env 5000000) (sample_env 5000000) sample_args ulid_state0 empty_table = (x, us1, t1, effs1)"
    by (rule prod_cases4)
  obtain corr rq where q: "x = Inr (corr, rq)" using sample_exchange unfolding x by (cases x) auto
  note q = x[unfolded q]
  obtain y us3 t3 effs3 where y:
    "respond (sample_msg_env 9000000) (row_to_frame sample_msg_cf (er_event rq)) ''yes'' None None us1 t1 = (y, us3, t3, effs3)"
    by (rule prod_cases4)
  have flags: "er_inserted rq" "row_event_id (er_event rq) \<noteq> []" "case y of Inr rp \<Rightarrow> er_inserted rp | Inl _ \<Rightarrow> False"
    using sample_exchange unfolding q by (simp_all add: y split: sum.splits)
  obtain rp where p: "y = Inr rp" "er_inserted rp" using flags(3) by (cases y) auto
  note p = y[unfolded p(1)] p(2)
  note q = q flags(1,2)
  note row = request_emit_row[OF table_inv_empty q(1,2)]
  from reply_reaches_requester[OF table_inv_empty q(1,2) row(1,2) p q(3) refl, where reason = "''r''" and bound = 1] show ?thesis
    by blast
qed

definition sample_reply :: dict where
  "sample_reply = [(''kind'', JStr ''event''), (''event_id'', JStr ''r''),
     (''fields'', JObj [(''msg_correlation_id'', JStr ''c1''), (''msg_to'', JStr ''builder'')])]"

definition sample_reply_env :: sdk_env where
  "sample_reply_env = sample_sdk_env\<lparr>se_loads := map_of [([2], JObj (sample_sdk_frame ''2'' ''docker'')),
       ([5], JObj sample_reply)]\<rparr>"

definition sample_reply_arrivals :: "arrival list" where
  "sample_reply_arrivals = map (\<lambda>i. \<lparr>ar_ready = 0, ar_done = 0, ar_item = i\<rparr>) [GotPayload [2], GotPayload [5]]"

lemma sample_reply_opens: "open_failure sample_reply_env (Some []) Connected = None"
  by (simp add: open_failure_def open_subscriber_def resolve_since_def sample_reply_env_def sample_sdk_env_def encode_frame_def)

lemma sample_reply_classify:
  "classify (se_loads sample_reply_env) [2] = Delivered (sample_sdk_frame ''2'' ''docker'')"
  "classify (se_loads sample_reply_env) [5] = Delivered sample_reply"
  "\<not> reply_frame ''c1'' ''builder'' (sample_sdk_frame ''2'' ''docker'')"
  "reply_frame ''c1'' ''builder'' sample_reply"
  by (simp_all add: classify_def sample_reply_env_def sample_sdk_env_def sample_sdk_frame_def sample_reply_def
      dict_get_def reply_frame_def)

lemma sample_reply_kind:
  "dict_get sample_reply ''kind'' = JStr ''event''" "''event'' \<noteq> KIND_TRUNCATED"
  "se_convert sample_reply_env sample_reply = Some (sample_event_frame ''r'')"
  by (simp_all add: sample_reply_def sample_reply_env_def sample_sdk_env_def dict_get_def KIND_defs)

lemma sample_await:
  "await_reply sample_reply_env sample_msg_cf ''c1'' ''builder'' [] None Connected sample_reply_arrivals 0 empty_table
     = Replied (Some (sample_event_frame ''r''))"
  by (simp add: await_reply_def sample_reply_opens await_predicate_def sample_reply_arrivals_def await_frame_classify
      sample_reply_classify deliver_def reply_decide_frame OUTCOME_defs sample_reply_kind)

theorem request_returns_own_reply_witness:
  "\<exists>n\<le>2. filter (reply_frame ''c1'' ''builder'') (delivered_of (se_loads sample_reply_env) (take n sample_reply_arrivals)) \<noteq> []"
proof -
  have len: "length sample_reply_arrivals = 2" by (simp add: sample_reply_arrivals_def)
  show ?thesis
    using request_returns_own_reply[OF sample_await sample_reply_opens] unfolding len
    by (elim ex_forward) (auto split: list.splits)
qed

end
