(* ===== verification/WB_On.thy ===== *)
theory WB_On
  imports WB_WaitProps
begin

text \<open>
  The acting verb \<open>waitbus on\<close>, \<open>waitbus/on.py\<close>: the event context of the command, the
  foreground run of the once and sequential modes, the process group and event file of a restart child
  with its teardown, the three loops and the translation to an exit code. The operating system is the
  record \<open>on_world\<close>: what it answers at each turn (a turn is a match), signals included; a
  process group counts as alive until it is sent \<open>SIGKILL\<close>. Messages are left out.
\<close>

section \<open>What the system answers\<close>

datatype os_error_kind = FileNotFound | PermissionDenied | OtherOSError

datatype run_end = RunFails os_error_kind | RunInterrupted | RunEnds int rat

datatype spawn_end = SpawnFails os_error_kind | SpawnedPid nat

text \<open>How the wait after \<open>SIGTERM\<close> ends: the child exits, the grace is over, a second Ctrl-C,
  or a \<open>SIGTERM\<close> or \<open>SIGHUP\<close> to the supervisor.\<close>

datatype grace_end = ExitedInGrace | GraceOver | GraceCtrlC | GraceSignalled nat

text \<open>What interrupts the reaping wait after \<open>SIGKILL\<close>.\<close>

datatype reap_end = Reaped | ReapCtrlC | ReapSignalled nat

record on_world =
  ow_environ :: "string \<rightharpoonup> string"
  ow_repr :: "json \<Rightarrow> string"
  ow_path :: "nat \<Rightarrow> string option"
  ow_write :: "nat \<Rightarrow> bool"
  ow_run :: "nat \<Rightarrow> run_end"
  ow_spawn :: "nat \<Rightarrow> spawn_end"
  ow_parked :: "nat \<Rightarrow> nat option"
  ow_poll :: "nat \<Rightarrow> nat \<Rightarrow> bool"
  ow_grace :: "nat \<Rightarrow> nat \<Rightarrow> grace_end"
  ow_reap :: "nat \<Rightarrow> nat \<Rightarrow> reap_end"
  ow_took :: "nat \<Rightarrow> nat \<Rightarrow> rat"

text \<open>What the run did to the system, in order.\<close>

datatype on_event =
    Ran "string list" "string \<rightharpoonup> string" dict
  | Spawned nat "string list" "string \<rightharpoonup> string" dict
  | TermSent nat
  | KillSent nat

record on_state =
  os_unread :: "arrival list"
  os_now :: rat
  os_files :: "string list"
  os_groups :: "nat list"
  os_log :: "on_event list"

datatype on_raise =
    ExecError int
  | SignalShutdown nat
  | KeyboardInterrupt
  | OnWait wait_error
  | OnOSError
  | OnValueError

section \<open>The event context\<close>

text \<open>\<open>str(value)\<close> of a field.\<close>

definition field_str :: "on_world \<Rightarrow> json \<Rightarrow> string" where
  "field_str w j = (case j of JStr s \<Rightarrow> s | _ \<Rightarrow> ow_repr w j)"

definition event_env :: "on_world \<Rightarrow> dict \<Rightarrow> (string \<times> string) list" where
  "event_env w frame =
     (let fs = (case dict_get frame ''fields'' of JObj d \<Rightarrow> d | _ \<Rightarrow> []) in
      map (\<lambda>(k, v). (k, field_str w v))
        (filter (\<lambda>(k, v). v \<noteq> JNull)
          [(''WAITBUS_EVENT_ID'', dict_get frame ''event_id''),
           (''WAITBUS_EVENT_TYPE'', dict_get frame ''event_type''),
           (''WAITBUS_OWNER'', dict_get frame ''owner''),
           (''WAITBUS_REPO'', dict_get frame ''repo''),
           (''WAITBUS_SOURCE'', dict_get fs ''source''),
           (''WAITBUS_HEAD_SHA'', dict_get fs ''head_sha''),
           (''WAITBUS_CONCLUSION'', dict_get fs ''conclusion'')]))"

definition child_env :: "on_world \<Rightarrow> dict \<Rightarrow> string \<Rightarrow> string \<rightharpoonup> string" where
  "child_env w frame event_file =
     (ow_environ w ++ map_of (event_env w frame))(''WAITBUS_EVENT_FILE'' \<mapsto> event_file)"

text \<open>The process constructor refuses an environment value with a NUL (\<open>ValueError\<close>). The
  inherited environment has none.\<close>

definition env_accepted :: "on_world \<Rightarrow> dict \<Rightarrow> bool" where
  "env_accepted w frame \<longleftrightarrow> list_all (\<lambda>(k, v). CHR 0x00 \<notin> set v) (event_env w frame)"

definition unlink :: "string \<Rightarrow> on_state \<Rightarrow> on_state" where
  "unlink path st = st\<lparr>os_files := filter (\<lambda>p. p \<noteq> path) (os_files st)\<rparr>"

text \<open>\<open>mkstemp\<close> makes the file, then the frame is written; either may raise.\<close>

definition write_event_file :: "on_world \<Rightarrow> nat \<Rightarrow> on_state \<Rightarrow> (on_raise + string) \<times> on_state" where
  "write_event_file w i st =
     (case ow_path w i of
        None \<Rightarrow> (Inl OnOSError, st)
      | Some path \<Rightarrow>
          (let st1 = st\<lparr>os_files := path # os_files st\<rparr> in
           if ow_write w i then (Inr path, st1) else (Inl OnOSError, st1)))"

definition normalise_returncode :: "int \<Rightarrow> int" where
  "normalise_returncode rc = (if 0 \<le> rc then rc else 128 + (- rc))"

definition EXIT_EXEC_NO_PERMISSION :: int where "EXIT_EXEC_NO_PERMISSION = 126"
definition EXIT_EXEC_NOT_FOUND :: int where "EXIT_EXEC_NOT_FOUND = 127"

fun exec_error_code :: "os_error_kind \<Rightarrow> int" where
  "exec_error_code FileNotFound = EXIT_EXEC_NOT_FOUND"
| "exec_error_code PermissionDenied = EXIT_EXEC_NO_PERMISSION"
| "exec_error_code OtherOSError = EXIT_STARTUP"

section \<open>The foreground run\<close>

definition run_blocking ::
    "on_world \<Rightarrow> nat \<Rightarrow> string list \<Rightarrow> dict \<Rightarrow> on_state \<Rightarrow> (on_raise + int) \<times> on_state" where
  "run_blocking w i command frame st =
     (case write_event_file w i st of
        (Inl e, st1) \<Rightarrow> (Inl e, st1)
      | (Inr path, st1) \<Rightarrow>
          (let started = st1\<lparr>os_log := os_log st1 @ [Ran command (child_env w frame path) frame]\<rparr> in
           if \<not> env_accepted w frame then (Inl OnValueError, unlink path st1)
           else (case ow_run w i of
                   RunFails err \<Rightarrow> (Inl (ExecError (exec_error_code err)), unlink path st1)
                 | RunInterrupted \<Rightarrow> (Inl KeyboardInterrupt, unlink path started)
                 | RunEnds rc t \<Rightarrow>
                     (Inr (normalise_returncode rc), unlink path (started\<lparr>os_now := os_now started + t\<rparr>)))))"

section \<open>A child in its own process group\<close>

record running_child =
  rc_turn :: nat
  rc_pid :: nat
  rc_event_file :: string

definition spawn :: "on_world \<Rightarrow> nat \<Rightarrow> string list \<Rightarrow> dict \<Rightarrow> on_state \<Rightarrow> (on_raise + running_child) \<times> on_state" where
  "spawn w i command frame st =
     (case write_event_file w i st of
        (Inl e, st1) \<Rightarrow> (Inl e, st1)
      | (Inr path, st1) \<Rightarrow>
          (if \<not> env_accepted w frame then (Inl OnValueError, st1)
           else (case ow_spawn w i of
                   SpawnFails err \<Rightarrow> (Inl (ExecError (exec_error_code err)), unlink path st1)
                 | SpawnedPid pid \<Rightarrow>
                     (Inr \<lparr>rc_turn = i, rc_pid = pid, rc_event_file = path\<rparr>,
                      st1\<lparr>os_groups := pid # os_groups st1,
                          os_log := os_log st1 @ [Spawned pid command (child_env w frame path) frame]\<rparr>))))"

definition kill_group :: "nat \<Rightarrow> on_state \<Rightarrow> on_state" where
  "kill_group pid st = st\<lparr>os_groups := filter (\<lambda>q. q \<noteq> pid) (os_groups st), os_log := os_log st @ [KillSent pid]\<rparr>"

text \<open>The \<open>j\<close>-th teardown of the same child.\<close>

definition terminate_group ::
    "on_world \<Rightarrow> nat \<Rightarrow> running_child \<Rightarrow> on_state \<Rightarrow> (on_raise + unit) \<times> on_state" where
  "terminate_group w j c st =
     (let i = rc_turn c;
          st0 = st\<lparr>os_now := os_now st + ow_took w i j\<rparr>;
          st1 = (if ow_poll w i j then st0\<lparr>os_log := os_log st0 @ [TermSent (rc_pid c)]\<rparr> else st0)
      in case (ow_poll w i j, ow_grace w i j) of
           (True, GraceSignalled n) \<Rightarrow> (Inl (SignalShutdown n), st1)
         | _ \<Rightarrow> (case ow_reap w i j of
                   Reaped \<Rightarrow> (Inr (), kill_group (rc_pid c) st1)
                 | ReapCtrlC \<Rightarrow> (Inl KeyboardInterrupt, kill_group (rc_pid c) st1)
                 | ReapSignalled n \<Rightarrow> (Inl (SignalShutdown n), kill_group (rc_pid c) st1)))"

definition terminate_and_cleanup ::
    "on_world \<Rightarrow> nat \<Rightarrow> running_child \<Rightarrow> on_state \<Rightarrow> (on_raise + unit) \<times> on_state" where
  "terminate_and_cleanup w j c st =
     (case terminate_group w j c st of (r, st1) \<Rightarrow> (r, unlink (rc_event_file c) st1))"

section \<open>Waiting for a match\<close>

definition make_decide :: "predicate \<Rightarrow> dict \<Rightarrow> wait_error + dict list \<Rightarrow> frame_decision \<times> (wait_error + dict list)" where
  "make_decide composed frame st =
     (case dict_get frame ''fields'' of
        JObj fs \<Rightarrow>
          (if \<not> pr_evaluate composed frame then (CONTINUE, st)
           else (case (if dict_get fs ''source'' = JStr ''github''
                       then map_sum id (\<lambda>c. c = None) (exit_code_if_terminal (dict_get fs ''conclusion''))
                       else Inr False) of
                   Inl e \<Rightarrow> (MATCHED, Inl (WaitTerminal e))
                 | Inr True \<Rightarrow> (CONTINUE, st)
                 | Inr False \<Rightarrow> (MATCHED, map_sum id (\<lambda>captured. captured @ [frame]) st)))
      | _ \<Rightarrow> (CONTINUE, st))"

definition outcome_exit :: "wait_outcome \<Rightarrow> int option" where
  "outcome_exit outcome =
     (if wo_cancelled outcome then Some EXIT_SIGINT
      else if wo_timed_out outcome then Some EXIT_TIMEOUT
      else if wo_matched outcome then None
      else Some EXIT_STARTUP)"

text \<open>An exit code or the matched frame; the wait may raise.\<close>

definition next_match_or_exit ::
    "wait_env \<Rightarrow> predicate \<Rightarrow> pyfloat \<Rightarrow> on_state \<Rightarrow> (on_raise + int + dict) \<times> on_state" where
  "next_match_or_exit env composed deadline st =
     (case deadline of
        Fin d \<Rightarrow>
          (case await_predicate (we_loads env) (make_decide composed) (Some d) False (os_unread st) (os_now st) None (Inr []) of
             (e, a) \<Rightarrow>
               (let st1 = st\<lparr>os_unread := aw_unread a, os_now := aw_now a\<rparr> in
                case (e, aw_caller a) of
                  (Raised x, _) \<Rightarrow> (Inl (OnWait (WaitSub x)), st1)
                | (StillWaiting, _) \<Rightarrow> (Inl (OnWait (WaitSelect deadline)), st1)
                | (Returned w, Inl x) \<Rightarrow> (Inl (OnWait x), st1)
                | (Returned w, Inr captured) \<Rightarrow>
                    (case outcome_exit w of
                       Some code \<Rightarrow> (Inr (Inl code), st1)
                     | None \<Rightarrow> (Inr (Inr (hd captured)), st1))))
      | _ \<Rightarrow> (Inl (OnWait (WaitSelect deadline)), st))"

section \<open>The three modes\<close>

definition run_once ::
    "on_world \<Rightarrow> wait_env \<Rightarrow> predicate \<Rightarrow> pyfloat \<Rightarrow> string list \<Rightarrow> on_state \<Rightarrow> (on_raise + int) \<times> on_state" where
  "run_once w env composed deadline command st =
     (case next_match_or_exit env composed deadline st of
        (Inl e, st1) \<Rightarrow> (Inl e, st1)
      | (Inr (Inl code), st1) \<Rightarrow> (Inr code, st1)
      | (Inr (Inr frame), st1) \<Rightarrow> run_blocking w 0 command frame st1)"

text \<open>The callback under the contract of \<open>waiter\<close>: the first frame that has a verdict.\<close>

lemma make_decide_code:
  "make_decide p f st =
     (case frame_code p f of
        None \<Rightarrow> (CONTINUE, st)
      | Some (Inl e) \<Rightarrow> (MATCHED, Inl e)
      | Some (Inr k) \<Rightarrow> (MATCHED, map_sum id (\<lambda>captured. captured @ [f]) st))"
  by (cases "dict_get f ''fields''") (auto simp: make_decide_def frame_code_def exit_code_cases Let_def)

interpretation on_wait: waiter "make_decide p" "Inr []" "\<lambda>fs. \<exists>f\<in>set fs. frame_code p f \<noteq> None" for p
proof
  have "all_continue (fst (run_decide (make_decide p) fs s)) \<longleftrightarrow> \<not> (\<exists>f\<in>set fs. frame_code p f \<noteq> None)" for fs s
    by (induction fs arbitrary: s)
      (auto simp: all_continue_def make_decide_code run_decide_Cons simp del: run_decide.simps(2)
        split: option.splits sum.splits)
  then show "all_continue (fst (run_decide (make_decide p) fs (Inr []))) \<longleftrightarrow> \<not> (\<exists>f\<in>set fs. frame_code p f \<noteq> None)" for fs .
qed

lemma run_make_decide_quiet:
  "\<forall>f\<in>set fs. frame_code p f = None \<Longrightarrow> snd (run_decide (make_decide p) fs s) = s"
  by (induction fs arbitrary: s) (simp_all add: make_decide_code run_decide_Cons del: run_decide.simps(2))

text \<open>One wait, on every ending.\<close>

lemma next_match_cases:
  assumes "next_match_or_exit env p (Fin d) st = (r, st')"
  shows "\<exists>n\<le>length (os_unread st). \<exists>fs. fs = delivered_of (we_loads env) (take n (os_unread st))
     \<and> os_unread st' = drop n (os_unread st)
     \<and> st' = st\<lparr>os_unread := os_unread st', os_now := os_now st'\<rparr>
     \<and> (let quiet = (\<lambda>gs. \<forall>f\<in>set gs. frame_code p f = None);
            last_item = ar_item (last (take n (os_unread st))) in
        case r of
          Inr (Inr f) \<Rightarrow> n > 0 \<and> fs \<noteq> [] \<and> f = last fs \<and> quiet (butlast fs) \<and> (\<exists>k. frame_code p f = Some (Inr k))
        | Inr (Inl c) \<Rightarrow> quiet fs
            \<and> (c = 124 \<and> list_all (\<lambda>a. passes_over (we_loads env) (ar_item a)) (take n (os_unread st))
               \<or> n > 0 \<and> (c = 130 \<and> last_item = Interrupted \<or> c = 2 \<and> last_item \<in> {GotEof, GotBadFraming}))
        | Inl x \<Rightarrow> (\<exists>y. x = OnWait y \<and> (fs \<noteq> [] \<and> quiet (butlast fs) \<and> frame_code p (last fs) = Some (Inl y)
                      \<or> quiet fs \<and> (\<exists>z. y = WaitSub z))))"
proof -
  obtain n e a fs where n: "n \<le> length (os_unread st)"
    and ap: "await_predicate (we_loads env) (make_decide p) (Some d) False (os_unread st) (os_now st) None (Inr []) = (e, a)"
    and fs: "fs = delivered_of (we_loads env) (take n (os_unread st))"
    and caller: "aw_caller a = snd (run_decide (make_decide p) fs (Inr []))"
    and e: "e \<noteq> StillWaiting" "stopped_by (we_loads env) (take n (os_unread st)) e"
    and sat: "if e = Returned OUTCOME_MATCHED
       then fs \<noteq> [] \<and> (\<exists>f\<in>set fs. frame_code p f \<noteq> None) \<and> \<not> (\<exists>f\<in>set (butlast fs). frame_code p f \<noteq> None)
       else \<not> (\<exists>f\<in>set fs. frame_code p f \<noteq> None)"
    and unread: "aw_unread a = drop n (os_unread st)"
    using on_wait.engine[where p = p, of "os_unread st" "we_loads env" d False "os_now st" None] by blast
  let ?st1 = "st\<lparr>os_unread := aw_unread a, os_now := aw_now a\<rparr>"
  have st': "st' = ?st1"
    using assms ap by (auto simp: next_match_or_exit_def Let_def split: await_end.splits sum.splits option.splits)
  show ?thesis
  proof (cases "e = Returned OUTCOME_MATCHED")
    case True
    then have m: "fs \<noteq> []" "\<exists>f\<in>set fs. frame_code p f \<noteq> None" "\<forall>f\<in>set (butlast fs). frame_code p f = None"
      using sat by auto
    obtain pre f where pf: "fs = pre @ [f]" using m(1) by (cases fs rule: rev_cases) auto
    obtain x where x: "frame_code p f = Some x" using m(2,3) pf by auto
    have c: "aw_caller a = (case x of Inl y \<Rightarrow> Inl y | Inr k \<Rightarrow> Inr [f])"
      using run_make_decide_quiet[of pre p "Inr []"] m(3) x
      by (auto simp: caller pf run_decide_append make_decide_code split: sum.splits)
    have "n > 0" using m(1) fs by (cases n) auto
    moreover have "r = (case x of Inl y \<Rightarrow> Inl (OnWait y) | Inr k \<Rightarrow> Inr (Inr f))"
      using assms ap True c
      by (auto simp: next_match_or_exit_def Let_def outcome_exit_def OUTCOME_MATCHED_def split: sum.splits)
    ultimately show ?thesis
      using n fs[symmetric] unread st' m(1,3) x pf(1)
      by (intro exI[of _ n] conjI exI[of _ fs]) (auto simp: Let_def split: sum.splits)
  next
    case False
    then have q: "\<forall>f\<in>set fs. frame_code p f = None" using sat by auto
    have c: "aw_caller a = Inr []" using run_make_decide_quiet[OF q] caller by simp
    have r: "r = (case e of Returned w \<Rightarrow> Inr (Inl (if w = OUTCOME_CANCELLED then 130 else if w = OUTCOME_TIMED_OUT then 124 else 2))
        | Raised y \<Rightarrow> Inl (OnWait (WaitSub y)) | StillWaiting \<Rightarrow> r)"
      using assms ap c False stopped_endings[OF e(2,1)]
      by (auto simp: next_match_or_exit_def Let_def outcome_exit_def OUTCOME_defs EXIT_defs split: await_end.splits)
    have t: "list_all (\<lambda>a. passes_over (we_loads env) (ar_item a)) (take n (os_unread st))"
      if "e = Returned OUTCOME_TIMED_OUT"
      using e(2) that by (simp add: stopped_by_def)
    show ?thesis
      using n fs unread st' q r False stopped_endings[OF e(2,1)] t
      by (intro exI[of _ n] conjI exI[of _ fs]) (auto simp: Let_def OUTCOME_defs)
  qed
qed


lemma next_match_consumes:
  assumes "next_match_or_exit env p d st = (Inr (Inr f), st')"
  shows "length (os_unread st') < length (os_unread st)"
proof -
  obtain q where d: "d = Fin q" using assms by (cases d) (auto simp: next_match_or_exit_def)
  from next_match_cases[OF assms[unfolded d]] show ?thesis by (auto simp: Let_def)
qed

text \<open>\<open>--loop\<close>: a command runs to its end before the next match; its code is dropped.\<close>

lemma run_blocking_unread [simp]:
  "os_unread (unlink path st) = os_unread st"
  "run_blocking w i command frame st = (r, st') \<Longrightarrow> os_unread st' = os_unread st"
  by (auto simp: unlink_def run_blocking_def write_event_file_def Let_def
      split: option.splits sum.splits if_splits run_end.splits)

function run_loop_sequential ::
    "on_world \<Rightarrow> wait_env \<Rightarrow> predicate \<Rightarrow> pyfloat \<Rightarrow> string list \<Rightarrow> nat \<Rightarrow> on_state \<Rightarrow> (on_raise + int) \<times> on_state" where
  "run_loop_sequential w env composed idle command i st =
     (case next_match_or_exit env composed idle st of
        (Inl e, st1) \<Rightarrow> (Inl e, st1)
      | (Inr (Inl code), st1) \<Rightarrow> (Inr code, st1)
      | (Inr (Inr frame), st1) \<Rightarrow>
          (case run_blocking w i command frame st1 of
             (Inl e, st2) \<Rightarrow> (Inl e, st2)
           | (Inr _, st2) \<Rightarrow> run_loop_sequential w env composed idle command (i + 1) st2))"
  by pat_completeness auto
termination
  by (relation "measure (\<lambda>(w, env, composed, idle, command, i, st). length (os_unread st))")
     (auto dest!: next_match_consumes[OF sym] run_blocking_unread(2)[OF sym])

declare run_loop_sequential.simps [simp del]

text \<open>\<open>--loop --restart\<close>. The \<open>finally\<close> clause tears down the last child; what it raises
  replaces the pending result. A teardown that follows another one of the same child is its second.\<close>

definition finally_teardown ::
    "on_world \<Rightarrow> nat \<Rightarrow> running_child option \<Rightarrow> on_raise + int \<Rightarrow> on_state \<Rightarrow> (on_raise + int) \<times> on_state" where
  "finally_teardown w j running r st =
     (case running of
        None \<Rightarrow> (r, st)
      | Some c \<Rightarrow> (case terminate_and_cleanup w j c st of
                    (Inl e, st1) \<Rightarrow> (Inl e, st1)
                  | (Inr _, st1) \<Rightarrow> (r, st1)))"

definition replace_child ::
    "on_world \<Rightarrow> running_child option \<Rightarrow> on_state \<Rightarrow> (on_raise + unit) \<times> on_state" where
  "replace_child w running st =
     (case running of None \<Rightarrow> (Inr (), st) | Some c \<Rightarrow> terminate_and_cleanup w 0 c st)"

lemma teardown_unread [simp]:
  "terminate_and_cleanup w j c st = (r, st') \<Longrightarrow> os_unread st' = os_unread st"
  "replace_child w running st = (q, st') \<Longrightarrow> os_unread st' = os_unread st"
  "spawn w i command frame st = (s, st') \<Longrightarrow> os_unread st' = os_unread st"
  by (auto simp: terminate_and_cleanup_def terminate_group_def replace_child_def spawn_def write_event_file_def unlink_def
      kill_group_def Let_def split: option.splits sum.splits if_splits prod.splits grace_end.splits reap_end.splits
      spawn_end.splits bool.splits)

function run_loop_restart ::
    "on_world \<Rightarrow> wait_env \<Rightarrow> predicate \<Rightarrow> pyfloat \<Rightarrow> string list \<Rightarrow> nat \<Rightarrow> running_child option \<Rightarrow> on_state
       \<Rightarrow> (on_raise + int) \<times> on_state" where
  "run_loop_restart w env composed idle command i running st =
     (case ow_parked w i of
        Some n \<Rightarrow> finally_teardown w 0 running (Inl (SignalShutdown n)) st
      | None \<Rightarrow>
          (case next_match_or_exit env composed idle st of
             (Inl e, st1) \<Rightarrow> finally_teardown w 0 running (Inl e) st1
           | (Inr (Inl code), st1) \<Rightarrow> finally_teardown w 0 running (Inr code) st1
           | (Inr (Inr frame), st1) \<Rightarrow>
               (case replace_child w running st1 of
                  (Inl e, st2) \<Rightarrow> finally_teardown w 1 running (Inl e) st2
                | (Inr _, st2) \<Rightarrow>
                    (case spawn w i command frame st2 of
                       (Inl e, st3) \<Rightarrow> finally_teardown w 1 running (Inl e) st3
                     | (Inr child, st3) \<Rightarrow>
                         run_loop_restart w env composed idle command (i + 1) (Some child) st3))))"
  by pat_completeness auto
termination
  by (relation "measure (\<lambda>(w, env, composed, idle, command, i, running, st). length (os_unread st))")
     (auto dest!: next_match_consumes[OF sym] teardown_unread(2)[OF sym] teardown_unread(3)[OF sym])

declare run_loop_restart.simps [simp del]

definition run_loop ::
    "on_world \<Rightarrow> wait_env \<Rightarrow> predicate \<Rightarrow> pyfloat \<Rightarrow> string list \<Rightarrow> bool \<Rightarrow> on_state \<Rightarrow> (on_raise + int) \<times> on_state" where
  "run_loop w env composed idle command restart st =
     (if restart then run_loop_restart w env composed idle command 0 None st
      else run_loop_sequential w env composed idle command 0 st)"

section \<open>Exit codes\<close>

datatype on_exit = OnExit int | OnUncaught on_raise

definition supervise ::
    "on_world \<Rightarrow> wait_env \<Rightarrow> predicate \<Rightarrow> string list \<Rightarrow> bool \<Rightarrow> bool \<Rightarrow> pyfloat \<Rightarrow> on_state \<Rightarrow> on_exit \<times> on_state" where
  "supervise w env composed command loop restart deadline st =
     (case (if loop then run_loop w env composed deadline command restart st
            else run_once w env composed deadline command st) of
        (r, st1) \<Rightarrow>
          (case r of
             Inr code \<Rightarrow> OnExit code
           | Inl (ExecError code) \<Rightarrow> OnExit code
           | Inl KeyboardInterrupt \<Rightarrow> OnExit EXIT_SIGINT
           | Inl (SignalShutdown n) \<Rightarrow> OnExit (normalise_returncode (- int n))
           | Inl e \<Rightarrow> OnUncaught e, st1))"

text \<open>The flags \<open>on\<close> shares with \<open>wait\<close>, and its own.\<close>

record on_flags =
  of_wait :: wait_flags
  of_loop :: bool
  of_restart :: bool
  of_stop_timeout :: string

text \<open>The registration barrier: a failure to connect or to be acknowledged exits 2; a connection
  error while the frame is encoded is not caught.\<close>

definition open_acked_subscriber :: "wait_env \<Rightarrow> string option \<Rightarrow> first_read \<Rightarrow> wait_exit option" where
  "open_acked_subscriber env repo ack =
     (case open_for_wait env (map_option (\<lambda>r. [r]) repo) None of
        Some x \<Rightarrow> Some x
      | None \<Rightarrow> (case read_subscribe_ack (we_loads env) ack of
                   Inl _ \<Rightarrow> Some (Exit EXIT_STARTUP)
                 | Inr _ \<Rightarrow> None))"

definition on_startup :: "wait_env \<Rightarrow> on_flags \<Rightarrow> string list \<Rightarrow> int + predicate \<times> string option \<times> pyfloat" where
  "on_startup env fl command =
     (if command = [] then Inl EXIT_STARTUP
      else if of_restart fl \<and> \<not> of_loop fl then Inl EXIT_STARTUP
      else (case (parse_duration (fl_timeout (of_wait fl)), parse_duration (of_stop_timeout fl)) of
              (Inr deadline, Inr _) \<Rightarrow>
                res_bind (build_predicate env (of_wait fl)) (\<lambda>(composed, effective_source).
                res_bind (resolve_repo env (of_wait fl) effective_source) (\<lambda>repo.
                  Inr (composed, repo, deadline)))
            | _ \<Rightarrow> Inl EXIT_STARTUP))"

definition on_start_state :: "wait_env \<Rightarrow> on_state" where
  "on_start_state env = \<lparr>os_unread = we_arrivals env, os_now = we_now env, os_files = [], os_groups = [], os_log = []\<rparr>"

definition on_verb ::
    "on_world \<Rightarrow> wait_env \<Rightarrow> first_read \<Rightarrow> on_flags \<Rightarrow> string list \<Rightarrow> on_exit \<times> on_state" where
  "on_verb w env ack fl command =
     (case on_startup env fl command of
        Inl code \<Rightarrow> (OnExit code, on_start_state env)
      | Inr (composed, repo, deadline) \<Rightarrow>
          (case open_acked_subscriber env repo ack of
             Some (Exit code) \<Rightarrow> (OnExit code, on_start_state env)
           | Some (Uncaught e) \<Rightarrow> (OnUncaught (OnWait e), on_start_state env)
           | None \<Rightarrow> supervise w env composed command (of_loop fl) (of_restart fl) deadline (on_start_state env)))"

end
