(* ===== verification/WB_OnProps.thy ===== *)
theory WB_OnProps
  imports WB_On
begin

text \<open>
  What \<open>waitbus on\<close> promises: no child group and no event file outlives the run, at most one
  restart child at a time, one command per match in order, and the exit code of the once mode. The
  invariant \<open>loop_inv\<close> is kept by every operation of the restart loop.
\<close>

section \<open>Children over a run\<close>

fun group_step :: "on_event \<Rightarrow> nat list \<Rightarrow> nat list" where
  "group_step (Spawned pid _ _ _) gs = pid # gs"
| "group_step (KillSent pid) gs = filter (\<lambda>q. q \<noteq> pid) gs"
| "group_step _ gs = gs"

text \<open>The groups spawned and not yet sent \<open>SIGKILL\<close> after a run.\<close>

definition live_groups :: "on_event list \<Rightarrow> nat list" where
  "live_groups es = fold group_step es []"

definition one_at_a_time :: "on_event list \<Rightarrow> bool" where
  "one_at_a_time es \<longleftrightarrow> (\<forall>k \<le> length es. length (live_groups (take k es)) \<le> 1)"

lemma live_groups_simps [simp]:
  "live_groups [] = []" "live_groups (es @ [e]) = group_step e (live_groups es)"
  by (simp_all add: live_groups_def)

lemma one_at_a_time_Nil [simp]: "one_at_a_time []"
  by (simp add: one_at_a_time_def)

lemma one_at_a_time_snoc [simp]:
  "one_at_a_time (es @ [e]) \<longleftrightarrow> one_at_a_time es \<and> length (group_step e (live_groups es)) \<le> 1"
  by (auto simp: one_at_a_time_def le_Suc_eq all_conj_distrib)

text \<open>The event files that may stay behind: one whose writing failed, or any when an event of the
  stream has a field with a NUL.\<close>

definition may_stay :: "on_world \<Rightarrow> dict list \<Rightarrow> string \<Rightarrow> bool" where
  "may_stay w fs path \<longleftrightarrow>
     (\<exists>k. ow_path w k = Some path \<and> (\<not> ow_write w k \<or> (\<exists>f\<in>set fs. \<not> env_accepted w f)))"

definition loop_inv :: "on_world \<Rightarrow> dict list \<Rightarrow> running_child option \<Rightarrow> on_state \<Rightarrow> bool" where
  "loop_inv w fs running st \<longleftrightarrow>
     os_groups st = live_groups (os_log st) \<and> one_at_a_time (os_log st)
     \<and> os_groups st = (case running of None \<Rightarrow> [] | Some c \<Rightarrow> [rc_pid c])
     \<and> (\<forall>p\<in>set (os_files st). may_stay w fs p \<or> (\<exists>c. running = Some c \<and> p = rc_event_file c))"

text \<open>How a run ends: nothing left, or the last teardown was cut short by a signal.\<close>

definition left_behind :: "on_world \<Rightarrow> on_raise + 'a \<Rightarrow> on_state \<Rightarrow> bool" where
  "left_behind w r st \<longleftrightarrow>
     (\<exists>n i j pid. r = Inl (SignalShutdown n) \<and> ow_grace w i j = GraceSignalled n \<and> os_groups st = [pid]
        \<and> os_log st \<noteq> [] \<and> last (os_log st) = TermSent pid)"

definition run_end_ok :: "on_world \<Rightarrow> dict list \<Rightarrow> on_raise + 'a \<Rightarrow> on_state \<Rightarrow> bool" where
  "run_end_ok w fs r st \<longleftrightarrow>
     os_groups st = live_groups (os_log st) \<and> one_at_a_time (os_log st)
     \<and> (os_groups st = [] \<or> left_behind w r st) \<and> (\<forall>p\<in>set (os_files st). may_stay w fs p)"

lemma may_stayI:
  "ow_path w i = Some p \<Longrightarrow> \<not> ow_write w i \<Longrightarrow> may_stay w fs p"
  "ow_path w i = Some p \<Longrightarrow> \<not> env_accepted w f \<Longrightarrow> f \<in> set fs \<Longrightarrow> may_stay w fs p"
  unfolding may_stay_def by blast+

lemma loop_inv_NoneD:
  assumes "loop_inv w fs None st"
  shows "os_groups st = []" "live_groups (os_log st) = []" "one_at_a_time (os_log st)"
    "\<And>p. p \<in> set (os_files st) \<Longrightarrow> may_stay w fs p"
  using assms unfolding loop_inv_def by auto

lemma loop_inv_NoneI:
  assumes "os_groups st = []" "live_groups (os_log st) = []" "one_at_a_time (os_log st)"
    "\<And>p. p \<in> set (os_files st) \<Longrightarrow> may_stay w fs p"
  shows "loop_inv w fs None st"
  using assms unfolding loop_inv_def by simp

lemma loop_inv_SomeD:
  assumes "loop_inv w fs (Some c) st"
  shows "os_groups st = [rc_pid c]" "live_groups (os_log st) = [rc_pid c]" "one_at_a_time (os_log st)"
    "\<And>p. p \<in> set (os_files st) \<Longrightarrow> may_stay w fs p \<or> p = rc_event_file c"
  using assms unfolding loop_inv_def by auto

lemma loop_inv_SomeI:
  assumes "os_groups st = [rc_pid c]" "live_groups (os_log st) = [rc_pid c]" "one_at_a_time (os_log st)"
    "\<And>p. p \<in> set (os_files st) \<Longrightarrow> may_stay w fs p \<or> p = rc_event_file c"
  shows "loop_inv w fs (Some c) st"
  using assms unfolding loop_inv_def by simp

text \<open>What a foreground run and a spawn did.\<close>

lemma run_blocking_cases:
  assumes "run_blocking w i command f st = (r, st')"
  shows "os_groups st' = os_groups st
     \<and> (os_log st' = os_log st \<and> (\<exists>e. r = Inl e \<and> (e \<in> {OnOSError, OnValueError} \<or> (\<exists>k. ow_run w i = RunFails k \<and> e = ExecError (exec_error_code k))))
        \<or> (\<exists>path. os_log st' = os_log st @ [Ran command (child_env w f path) f]
             \<and> (ow_run w i = RunInterrupted \<and> r = Inl KeyboardInterrupt
                \<or> (\<exists>rc t. ow_run w i = RunEnds rc t \<and> r = Inr (normalise_returncode rc)))))
     \<and> (\<forall>p\<in>set (os_files st'). p \<in> set (os_files st) \<or> ow_path w i = Some p \<and> \<not> ow_write w i)"
proof (cases "ow_path w i")
  case None
  then show ?thesis using assms by (auto simp: run_blocking_def write_event_file_def)
next
  case (Some path)
  then show ?thesis
    using assms
    by (cases "ow_write w i"; cases "env_accepted w f"; cases "ow_run w i")
      (auto simp: run_blocking_def write_event_file_def unlink_def Let_def)
qed

lemma spawn_cases:
  assumes "spawn w i command f st = (r, st')"
  shows "case r of
      Inl e \<Rightarrow> os_groups st' = os_groups st \<and> os_log st' = os_log st
        \<and> (e \<in> {OnOSError, OnValueError} \<or> (\<exists>k. ow_spawn w i = SpawnFails k \<and> e = ExecError (exec_error_code k)))
        \<and> (\<forall>p\<in>set (os_files st'). p \<in> set (os_files st) \<or> ow_path w i = Some p \<and> (\<not> ow_write w i \<or> \<not> env_accepted w f))
    | Inr c \<Rightarrow> os_groups st' = rc_pid c # os_groups st
        \<and> os_log st' = os_log st @ [Spawned (rc_pid c) command (child_env w f (rc_event_file c)) f]
        \<and> os_files st' = rc_event_file c # os_files st"
proof (cases "ow_path w i")
  case None
  then show ?thesis using assms by (auto simp: spawn_def write_event_file_def)
next
  case (Some path)
  then show ?thesis
    using assms
    by (cases "ow_write w i"; cases "env_accepted w f"; cases "ow_spawn w i")
      (auto simp: spawn_def write_event_file_def unlink_def Let_def)
qed

lemma run_blocking_inv:
  assumes "loop_inv w fs None st" "run_blocking w i command f st = (r, st')"
  shows "loop_inv w fs None st'"
proof (rule loop_inv_NoneI)
  note d = loop_inv_NoneD[OF assms(1)]
  note t = run_blocking_cases[OF assms(2)]
  show "os_groups st' = []" using t d(1) by argo
  show "live_groups (os_log st') = []" "one_at_a_time (os_log st')" using t d(2,3) by auto
  show "may_stay w fs p" if "p \<in> set (os_files st')" for p using t d(4) that may_stayI(1) by blast
qed

lemma spawn_inv:
  assumes "loop_inv w fs None st" "spawn w i command f st = (r, st')" "f \<in> set fs"
  shows "loop_inv w fs (case r of Inl _ \<Rightarrow> None | Inr c \<Rightarrow> Some c) st'"
proof -
  note d = loop_inv_NoneD[OF assms(1)]
  note t = spawn_cases[OF assms(2)]
  show ?thesis
  proof (cases r)
    case (Inl e)
    have "may_stay w fs p" if "p \<in> set (os_files st')" for p
      using t Inl d(4) that may_stayI[where w = w and i = i] assms(3) by auto
    then show ?thesis using t Inl d(1-3) by (auto intro: loop_inv_NoneI)
  next
    case (Inr c)
    have "may_stay w fs p \<or> p = rc_event_file c" if "p \<in> set (os_files st')" for p
      using t Inr d(4) that by auto
    then show ?thesis using t Inr d(1-3) unfolding Inr sum.case by (intro loop_inv_SomeI) auto
  qed
qed

text \<open>What a teardown did: a full one ends with the kill; one cut short leaves the group.\<close>

lemma teardown_cases:
  assumes "terminate_and_cleanup w j c st = (r, st')"
  shows "os_files st' = filter (\<lambda>p. p \<noteq> rc_event_file c) (os_files st)
     \<and> (os_groups st' = filter (\<lambda>q. q \<noteq> rc_pid c) (os_groups st)
          \<and> (\<exists>es. set es \<subseteq> {TermSent (rc_pid c)} \<and> os_log st' = os_log st @ es @ [KillSent (rc_pid c)] \<and> length es \<le> 1)
        \<or> (\<exists>n. r = Inl (SignalShutdown n) \<and> ow_grace w (rc_turn c) j = GraceSignalled n
             \<and> os_log st' = os_log st @ [TermSent (rc_pid c)] \<and> os_groups st' = os_groups st))"
proof (cases "ow_poll w (rc_turn c) j")
  case True
  then show ?thesis
    using assms by (cases "ow_grace w (rc_turn c) j"; cases "ow_reap w (rc_turn c) j")
      (auto simp: terminate_and_cleanup_def terminate_group_def unlink_def kill_group_def Let_def intro: exI[of _ "[TermSent (rc_pid c)]"])
next
  case False
  then show ?thesis
    using assms by (cases "ow_reap w (rc_turn c) j")
      (auto simp: terminate_and_cleanup_def terminate_group_def unlink_def kill_group_def Let_def intro: exI[of _ "[]"])
qed

lemma log_after_kill:
  assumes "set es \<subseteq> {TermSent pid}" "length es \<le> 1"
  shows "live_groups (xs @ es @ [KillSent pid]) = filter (\<lambda>q. q \<noteq> pid) (live_groups xs)"
    "one_at_a_time xs \<Longrightarrow> one_at_a_time (xs @ es @ [KillSent pid])"
proof -
  have es: "es = [] \<or> es = [TermSent pid]" using assms by (cases es) auto
  then show live: "live_groups (xs @ es @ [KillSent pid]) = filter (\<lambda>q. q \<noteq> pid) (live_groups xs)"
    using live_groups_simps(2)[of xs] live_groups_simps(2)[of "xs @ [TermSent pid]"] by auto
  assume one: "one_at_a_time xs"
  then have "length (live_groups xs) \<le> 1" by (auto simp: one_at_a_time_def dest: spec[of _ "length xs"])
  moreover have "length (filter (\<lambda>q. q \<noteq> pid) ys) \<le> length ys" for ys :: "nat list" by simp
  ultimately have "length (filter (\<lambda>q. q \<noteq> pid) (live_groups xs)) \<le> 1" by (meson le_trans)
  then show "one_at_a_time (xs @ es @ [KillSent pid])"
    using es one \<open>length (live_groups xs) \<le> 1\<close> one_at_a_time_snoc[of xs] one_at_a_time_snoc[of "xs @ [TermSent pid]"] by auto
qed

text \<open>A teardown leaves nothing of the child, unless a signal cuts its grace short.\<close>

lemma teardown_inv:
  assumes "loop_inv w fs (Some c) st" "terminate_and_cleanup w j c st = (r, st')"
  shows "loop_inv w fs None st' \<or>
     (\<exists>n. r = Inl (SignalShutdown n) \<and> ow_grace w (rc_turn c) j = GraceSignalled n
        \<and> os_log st' = os_log st @ [TermSent (rc_pid c)] \<and> os_groups st' = os_groups st
        \<and> loop_inv w fs (Some c) st' \<and> (\<forall>p\<in>set (os_files st'). may_stay w fs p))"
proof -
  note d = loop_inv_SomeD[OF assms(1)]
  note t = teardown_cases[OF assms(2)]
  have files: "\<forall>p\<in>set (os_files st'). may_stay w fs p" using t d(4) by auto
  consider (killed) es where "set es \<subseteq> {TermSent (rc_pid c)}" "length es \<le> 1" "os_log st' = os_log st @ es @ [KillSent (rc_pid c)]"
      "os_groups st' = filter (\<lambda>q. q \<noteq> rc_pid c) (os_groups st)"
    | (cut) n where "r = Inl (SignalShutdown n)" "ow_grace w (rc_turn c) j = GraceSignalled n"
      "os_log st' = os_log st @ [TermSent (rc_pid c)]" "os_groups st' = os_groups st"
    using t by blast
  then show ?thesis
  proof cases
    case killed
    have "loop_inv w fs None st'"
      using killed d(1-3) files log_after_kill[OF killed(1,2), of "os_log st"] by (intro loop_inv_NoneI) simp_all
    then show ?thesis ..
  next
    case cut
    then have "loop_inv w fs (Some c) st'"
      using d(1-3) files by (intro loop_inv_SomeI) simp_all
    then show ?thesis using cut files by blast
  qed
qed

lemma loop_inv_end: "loop_inv w fs None st \<Longrightarrow> run_end_ok w fs r st"
  by (auto simp: loop_inv_def run_end_ok_def)

lemma second_teardown_inv:
  assumes "loop_inv w fs None st" "terminate_and_cleanup w j c st = (r, st')"
  shows "loop_inv w fs None st'"
proof (rule loop_inv_NoneI)
  note d = loop_inv_NoneD[OF assms(1)]
  note t = teardown_cases[OF assms(2)]
  show "os_groups st' = []" using t d(1) by auto
  show "live_groups (os_log st') = []" "one_at_a_time (os_log st')"
    using t d(2,3) by (auto simp: log_after_kill simp del: append_assoc)
  show "may_stay w fs p" if "p \<in> set (os_files st')" for p using t d(4) that by auto
qed

lemma finally_end:
  assumes "loop_inv w fs running st \<or> loop_inv w fs None st" "finally_teardown w j running r st = (r', st')"
  shows "run_end_ok w fs r' st'"
proof (cases running)
  case None
  then show ?thesis using assms by (auto simp: finally_teardown_def intro: loop_inv_end)
next
  case (Some c)
  obtain q st1 where t: "terminate_and_cleanup w j c st = (q, st1)" by force
  have st1: "st' = st1" "r' = (case q of Inl e \<Rightarrow> Inl e | Inr _ \<Rightarrow> r)"
    using assms(2) t Some by (auto simp: finally_teardown_def split: sum.splits)
  show ?thesis
  proof (cases "loop_inv w fs None st")
    case True
    then show ?thesis using second_teardown_inv[OF True t] st1 by (auto intro: loop_inv_end)
  next
    case False
    then have "loop_inv w fs (Some c) st" using assms(1) Some by auto
    from teardown_inv[OF this t] show ?thesis
      unfolding st1 by (auto intro: loop_inv_end simp: run_end_ok_def left_behind_def loop_inv_def)
  qed
qed

lemma next_match_inv:
  assumes "next_match_or_exit env p d st = (r, st')" "set (delivered_of (we_loads env) (os_unread st)) \<subseteq> set fs"
  shows "st' = st\<lparr>os_unread := os_unread st', os_now := os_now st'\<rparr>"
    "set (delivered_of (we_loads env) (os_unread st')) \<subseteq> set fs"
    "r = Inr (Inr f) \<Longrightarrow> f \<in> set fs"
    "loop_inv w fs running st' = loop_inv w fs running st"
    "os_groups st' = os_groups st" "os_files st' = os_files st" "os_log st' = os_log st"
proof -
  have "st' = st\<lparr>os_unread := os_unread st', os_now := os_now st'\<rparr>
     \<and> set (delivered_of (we_loads env) (os_unread st')) \<subseteq> set fs \<and> (\<forall>f. r = Inr (Inr f) \<longrightarrow> f \<in> set fs)"
  proof (cases d)
    case (Fin q)
    obtain n gs where n: "gs = delivered_of (we_loads env) (take n (os_unread st))"
      "os_unread st' = drop n (os_unread st)" "st' = st\<lparr>os_unread := os_unread st', os_now := os_now st'\<rparr>"
      and hit: "\<And>f. r = Inr (Inr f) \<Longrightarrow> gs \<noteq> [] \<and> f = last gs"
      using next_match_cases[OF assms(1)[unfolded Fin]] by (force simp: Let_def)
    have mem: "\<And>f. r = Inr (Inr f) \<Longrightarrow> f \<in> set (delivered_of (we_loads env) (take n (os_unread st)))"
      using hit n(1) by auto
    have "set (delivered_of (we_loads env) (os_unread st)) =
        set (delivered_of (we_loads env) (take n (os_unread st))) \<union> set (delivered_of (we_loads env) (drop n (os_unread st)))"
      using delivered_append[of "we_loads env" "take n (os_unread st)" "drop n (os_unread st)"] by simp
    then have "set (delivered_of (we_loads env) (os_unread st')) \<subseteq> set fs"
      "\<forall>f. r = Inr (Inr f) \<longrightarrow> f \<in> set fs"
      unfolding n(2) using mem assms(2) by auto
    then show ?thesis using n(3) by (intro conjI)
  qed (use assms in \<open>auto simp: next_match_or_exit_def\<close>)
  then have e: "st' = st\<lparr>os_unread := os_unread st', os_now := os_now st'\<rparr>"
    and rest: "set (delivered_of (we_loads env) (os_unread st')) \<subseteq> set fs" "\<And>f. r = Inr (Inr f) \<Longrightarrow> f \<in> set fs"
    by auto
  show "st' = st\<lparr>os_unread := os_unread st', os_now := os_now st'\<rparr>" by (rule e)
  show "set (delivered_of (we_loads env) (os_unread st')) \<subseteq> set fs" "r = Inr (Inr f) \<Longrightarrow> f \<in> set fs"
    by (fact rest)+
  show same: "os_groups st' = os_groups st" "os_files st' = os_files st" "os_log st' = os_log st"
    using arg_cong[OF e, of os_groups] arg_cong[OF e, of os_files] arg_cong[OF e, of os_log] by simp_all
  show "loop_inv w fs running st' = loop_inv w fs running st" unfolding loop_inv_def same ..
qed

lemma replace_inv:
  assumes "loop_inv w fs running st" "replace_child w running st = (r, st')"
  shows "case r of Inl _ \<Rightarrow> loop_inv w fs running st' \<or> loop_inv w fs None st' | Inr _ \<Rightarrow> loop_inv w fs None st'"
proof (cases running)
  case (Some c)
  then show ?thesis
    using teardown_inv[of w fs c st 0 r st'] assms by (auto simp: replace_child_def split: sum.splits)
qed (use assms in \<open>auto simp: replace_child_def\<close>)

lemma restart_loop_end:
  assumes "loop_inv w fs running st" "set (delivered_of (we_loads env) (os_unread st)) \<subseteq> set fs"
    and "run_loop_restart w env p d command i running st = (r, st')"
  shows "run_end_ok w fs r st'"
  using assms
proof (induction w env p d command i running st arbitrary: r st' rule: run_loop_restart.induct)
  case (1 w env p d command i running st)
  note run = "1.prems"(3)[unfolded run_loop_restart.simps[of w env p d command i running st]]
  show ?case
  proof (cases "ow_parked w i")
    case (Some n)
    then show ?thesis using run finally_end[of w fs running st 0] "1.prems"(1) by auto
  next
    case parked: None
    obtain q st1 where m: "next_match_or_exit env p d st = (q, st1)" by force
    note inv1 = next_match_inv[OF m "1.prems"(2)]
    have l1: "loop_inv w fs running st1" using inv1(4) "1.prems"(1) by blast
    show ?thesis
    proof (cases "\<exists>f. q = Inr (Inr f)")
      case False
      then obtain x where "finally_teardown w 0 running x st1 = (r, st')"
        using run parked m by (auto split: sum.splits)
      then show ?thesis using finally_end[of w fs running st1 0] l1 by blast
    next
      case True
      then obtain f where q: "q = Inr (Inr f)" by blast
      obtain t st2 where t: "replace_child w running st1 = (t, st2)" by force
      note l2 = replace_inv[OF l1 t]
      show ?thesis
      proof (cases t)
        case (Inl e)
        then have "finally_teardown w 1 running (Inl e) st2 = (r, st')" using run parked m q t by auto
        then show ?thesis using finally_end[of w fs running st2 1] l2 Inl by auto
      next
        case (Inr u)
        then have l2: "loop_inv w fs None st2" using l2 by simp
        obtain s st3 where s: "spawn w i command f st2 = (s, st3)" by force
        note l3 = spawn_inv[OF l2 s inv1(3)[OF q]]
        show ?thesis
        proof (cases s)
          case Inl': (Inl e)
          then have "finally_teardown w 1 running (Inl e) st3 = (r, st')" using run parked m q t Inr s by auto
          then show ?thesis using finally_end[of w fs running st3 1] l3 Inl' by auto
        next
          case Inr': (Inr c)
          have "os_unread st3 = os_unread st1" using t s by simp
          moreover have "run_loop_restart w env p d command (i + 1) (Some c) st3 = (r, st')"
            using run parked m q t Inr s Inr' by auto
          ultimately show ?thesis
            using "1.IH"[OF parked m[symmetric] q refl t[symmetric] Inr s[symmetric] Inr'] l3 Inr' inv1(2) by simp
        qed
      qed
    qed
  qed
qed

lemma sequential_loop_end:
  assumes "loop_inv w fs None st" "set (delivered_of (we_loads env) (os_unread st)) \<subseteq> set fs"
    and "run_loop_sequential w env p d command i st = (r, st')"
  shows "loop_inv w fs None st'"
  using assms
proof (induction w env p d command i st arbitrary: r st' rule: run_loop_sequential.induct)
  case (1 w env p d command i st)
  note run = "1.prems"(3)[unfolded run_loop_sequential.simps[of w env p d command i st]]
  obtain q st1 where m: "next_match_or_exit env p d st = (q, st1)" by force
  note inv1 = next_match_inv[OF m "1.prems"(2)]
  have l1: "loop_inv w fs None st1" using inv1(4) "1.prems"(1) by blast
  show ?case
  proof (cases "\<exists>f. q = Inr (Inr f)")
    case False
    then show ?thesis using run m l1 by (auto split: sum.splits)
  next
    case True
    then obtain f where q: "q = Inr (Inr f)" by blast
    obtain s st2 where s: "run_blocking w i command f st1 = (s, st2)" by force
    note l2 = run_blocking_inv[OF l1 s]
    show ?thesis
    proof (cases s)
      case (Inl e)
      then show ?thesis using run m q s l2 by auto
    next
      case (Inr c)
      moreover have "os_unread st2 = os_unread st1" using s by simp
      ultimately show ?thesis
        using "1.IH"[OF m[symmetric] q refl s[symmetric] Inr l2] inv1(2) run m q s by simp
    qed
  qed
qed

lemma run_once_inv:
  assumes "loop_inv w fs None st" "set (delivered_of (we_loads env) (os_unread st)) \<subseteq> set fs"
    and "run_once w env p d command st = (r, st')"
  shows "loop_inv w fs None st'"
proof -
  obtain q st1 where m: "next_match_or_exit env p d st = (q, st1)" by force
  have l1: "loop_inv w fs None st1" using next_match_inv(4)[OF m assms(2)] assms(1) by blast
  show ?thesis
  proof (cases "\<exists>f. q = Inr (Inr f)")
    case True
    then obtain f where "run_blocking w 0 command f st1 = (r, st')" using assms(3) m by (auto simp: run_once_def)
    then show ?thesis by (rule run_blocking_inv[OF l1])
  next
    case False
    then show ?thesis using assms(3) m l1 by (auto simp: run_once_def split: sum.splits)
  qed
qed

lemma start_inv: "loop_inv w fs None (on_start_state env)"
  by (rule loop_inv_NoneI) (simp_all add: on_start_state_def)

definition exit_of :: "on_raise + int \<Rightarrow> on_exit" where
  "exit_of r = (case r of
     Inr code \<Rightarrow> OnExit code | Inl (ExecError code) \<Rightarrow> OnExit code | Inl KeyboardInterrupt \<Rightarrow> OnExit EXIT_SIGINT
   | Inl (SignalShutdown n) \<Rightarrow> OnExit (normalise_returncode (- int n)) | Inl e \<Rightarrow> OnUncaught e)"

lemma supervise_runs:
  assumes "supervise w env p command loop restart d st = (x, st')"
  obtains r where "(if loop then run_loop w env p d command restart st else run_once w env p d command st) = (r, st')"
    "x = exit_of r"
  using assms by (auto simp: supervise_def exit_of_def split: prod.splits)


section \<open>One command per match\<close>

fun started :: "on_event list \<Rightarrow> dict list" where
  "started [] = []"
| "started (Ran _ _ f # es) = f # started es"
| "started (Spawned _ _ _ f # es) = f # started es"
| "started (_ # es) = started es"

lemma started_append [simp]: "started (xs @ ys) = started xs @ started ys"
  by (induction xs rule: started.induct) simp_all

text \<open>Every command run is the operator's, with the context of its frame.\<close>

definition launch_ok :: "on_world \<Rightarrow> string list \<Rightarrow> on_event \<Rightarrow> bool" where
  "launch_ok w command e \<longleftrightarrow>
     (case e of Ran c v f \<Rightarrow> c = command \<and> (\<exists>path. v = child_env w f path)
      | Spawned _ c v f \<Rightarrow> c = command \<and> (\<exists>path. v = child_env w f path) | _ \<Rightarrow> True)"

definition serves :: "predicate \<Rightarrow> dict \<Rightarrow> bool" where
  "serves p f \<longleftrightarrow> (\<exists>k. frame_code p f = Some (Inr k))"

definition start_failure :: "on_raise + int \<Rightarrow> bool" where
  "start_failure r \<longleftrightarrow> (\<exists>e. r = Inl e \<and> (\<forall>c. e = ExecError c \<longrightarrow> c \<in> {2, 126, 127}))"

text \<open>The new part of the log after a run from a state.\<close>

definition serving ::
    "on_world \<Rightarrow> wait_env \<Rightarrow> predicate \<Rightarrow> string list \<Rightarrow> on_state \<Rightarrow> nat \<Rightarrow> on_event list \<Rightarrow> on_raise + int \<Rightarrow> on_state \<Rightarrow> bool" where
  "serving w env p command st n es r st' \<longleftrightarrow>
     n \<le> length (os_unread st) \<and> os_log st' = os_log st @ es \<and> list_all (launch_ok w command) es
     \<and> (let ms = filter (serves p) (delivered_of (we_loads env) (take n (os_unread st))) in
        started es = ms \<or> ms \<noteq> [] \<and> started es = butlast ms \<and> start_failure r)"

lemma next_match_serves:
  assumes "next_match_or_exit env p d st = (q, st1)"
  obtains n where "n \<le> length (os_unread st)" "os_unread st1 = drop n (os_unread st)" "os_log st1 = os_log st"
    "filter (serves p) (delivered_of (we_loads env) (take n (os_unread st))) =
       (case q of Inr (Inr f) \<Rightarrow> [f] | _ \<Rightarrow> [])"
    "\<And>e c. q = Inl e \<Longrightarrow> e \<noteq> ExecError c"
proof (cases "\<exists>x. d = Fin x")
  case True
  then obtain x where Fin: "d = Fin x" by blast
  obtain n gs where n: "n \<le> length (os_unread st)" "gs = delivered_of (we_loads env) (take n (os_unread st))"
    "os_unread st1 = drop n (os_unread st)"
    and q: "case q of Inr (Inr f) \<Rightarrow> gs \<noteq> [] \<and> f = last gs \<and> (\<forall>g\<in>set (butlast gs). frame_code p g = None) \<and> serves p f
       | Inr (Inl c) \<Rightarrow> \<forall>g\<in>set gs. frame_code p g = None
       | Inl x \<Rightarrow> (\<exists>y. x = OnWait y) \<and> (gs \<noteq> [] \<and> (\<forall>g\<in>set (butlast gs). frame_code p g = None) \<and> \<not> serves p (last gs)
            \<or> (\<forall>g\<in>set gs. frame_code p g = None))"
    using next_match_cases[OF assms[unfolded Fin]] by (force simp: Let_def serves_def split: sum.splits)
  have none: "filter (serves p) hs = []" if "\<forall>g\<in>set hs. frame_code p g = None" for hs
    using that by (auto simp: filter_empty_conv serves_def)
  have "filter (serves p) gs = (case q of Inr (Inr f) \<Rightarrow> [f] | _ \<Rightarrow> [])"
    using q none[of gs] none[of "butlast gs"]
    by (cases gs rule: rev_cases) (auto split: sum.splits)
  moreover have "os_log st1 = os_log st" by (rule next_match_inv(7)[OF assms subset_refl])
  moreover have "\<And>e c. q = Inl e \<Longrightarrow> e \<noteq> ExecError c" using q by auto
  ultimately show ?thesis using that n by blast
next
  case False
  then have "q = Inl (OnWait (WaitSelect d))" "st1 = st"
    using assms by (cases d; simp add: next_match_or_exit_def)+
  then show ?thesis by (intro that[of 0]) simp_all
qed

text \<open>A match that was served, then the rest of the run.\<close>

lemma serving_step:
  assumes "n \<le> length (os_unread st)" "os_unread st1 = drop n (os_unread st)" "os_log st1 = os_log st"
    and "filter (serves p) (delivered_of (we_loads env) (take n (os_unread st))) = [f]"
    and "os_log st2 = os_log st1 @ es" "os_unread st2 = os_unread st1" "started es = [f]" "list_all (launch_ok w command) es"
    and "serving w env p command st2 k es2 r st'"
  shows "serving w env p command st (n + k) (es @ es2) r st'"
proof -
  have "take (n + k) (os_unread st) = take n (os_unread st) @ take k (os_unread st2)"
    using assms(2,6) by (simp add: take_add)
  then have "filter (serves p) (delivered_of (we_loads env) (take (n + k) (os_unread st))) =
      f # filter (serves p) (delivered_of (we_loads env) (take k (os_unread st2)))"
    using assms(4) by (simp add: delivered_append)
  moreover have "k \<le> length (os_unread st2)" using assms(9) by (simp add: serving_def)
  then have "n + k \<le> length (os_unread st)" using assms(1,2,6) by simp
  ultimately show ?thesis using assms(3,5,7,8,9) by (auto simp: serving_def Let_def)
qed

lemma exec_code_range: "exec_error_code k \<in> {2, 126, 127}"
  by (cases k) (simp_all add: EXIT_EXEC_NOT_FOUND_def EXIT_EXEC_NO_PERMISSION_def EXIT_STARTUP_def)

lemma sequential_serves:
  assumes "run_loop_sequential w env p d command i st = (r, st')"
  shows "\<exists>n es. serving w env p command st n es r st'"
  using assms
proof (induction w env p d command i st arbitrary: r st' rule: run_loop_sequential.induct)
  case (1 w env p d command i st)
  note run = "1.prems"[unfolded run_loop_sequential.simps[of w env p d command i st]]
  obtain q st1 where m: "next_match_or_exit env p d st = (q, st1)" by force
  obtain n where n: "n \<le> length (os_unread st)" "os_unread st1 = drop n (os_unread st)" "os_log st1 = os_log st"
    "filter (serves p) (delivered_of (we_loads env) (take n (os_unread st))) = (case q of Inr (Inr f) \<Rightarrow> [f] | _ \<Rightarrow> [])"
    by (rule next_match_serves[OF m])
  show ?case
  proof (cases "\<exists>f. q = Inr (Inr f)")
    case False
    then have "st' = st1" using run m by (auto split: sum.splits)
    moreover have "filter (serves p) (delivered_of (we_loads env) (take n (os_unread st))) = []"
      using n(4) False by (auto split: sum.splits)
    ultimately show ?thesis using n by (intro exI[of _ n] exI[of _ "[]"]) (simp add: serving_def)
  next
    case True
    then obtain f where q: "q = Inr (Inr f)" by blast
    obtain s st2 where s: "run_blocking w i command f st1 = (s, st2)" by force
    have u: "os_unread st2 = os_unread st1" using s by simp
    note t = run_blocking_cases[OF s]
    have hit: "filter (serves p) (delivered_of (we_loads env) (take n (os_unread st))) = [f]" using n(4) q by simp
    show ?thesis
    proof (cases s)
      case (Inl e)
      then have end_st: "st' = st2" "r = Inl e" using run m q s by auto
      show ?thesis
      proof (cases "os_log st2 = os_log st1")
        case True
        then have "start_failure r" using t Inl end_st(2) exec_code_range by (auto simp: start_failure_def)
        then show ?thesis using True n(1-3) hit end_st by (intro exI[of _ n] exI[of _ "[]"]) (simp add: serving_def)
      next
        case False
        then obtain path where "os_log st2 = os_log st1 @ [Ran command (child_env w f path) f]" using t by blast
        then show ?thesis
          using n(1-3) hit end_st by (intro exI[of _ n] exI[of _ "[Ran command (child_env w f path) f]"])
            (auto simp: serving_def launch_ok_def)
      qed
    next
      case (Inr c)
      obtain path where l: "os_log st2 = os_log st1 @ [Ran command (child_env w f path) f]" using t Inr by auto
      have "run_loop_sequential w env p d command (i + 1) st2 = (r, st')" using run m q s Inr by simp
      from "1.IH"[OF m[symmetric] q refl s[symmetric] Inr this] obtain k es2 where
        k: "serving w env p command st2 k es2 r st'" by blast
      have "serving w env p command st (n + k) ([Ran command (child_env w f path) f] @ es2) r st'"
        by (rule serving_step[OF n(1-3) hit l u _ _ k]) (auto simp: launch_ok_def)
      then show ?thesis by blast
    qed
  qed
qed

text \<open>A teardown starts nothing.\<close>

definition quiet_log :: "on_event list \<Rightarrow> bool" where
  "quiet_log es \<longleftrightarrow> started es = [] \<and> (\<forall>w command. list_all (launch_ok w command) es)"

lemma quiet_log_simps [simp]:
  "quiet_log []" "quiet_log (TermSent q # es) = quiet_log es" "quiet_log (KillSent q # es) = quiet_log es"
  by (simp_all add: quiet_log_def launch_ok_def)

lemma teardown_quiet:
  assumes "terminate_and_cleanup w j c st = (r, st')"
  shows "\<exists>es. os_log st' = os_log st @ es \<and> quiet_log es"
  using assms
  by (cases "ow_poll w (rc_turn c) j"; cases "ow_grace w (rc_turn c) j"; cases "ow_reap w (rc_turn c) j")
    (auto simp: terminate_and_cleanup_def terminate_group_def unlink_def kill_group_def Let_def)

lemma teardown_raise:
  assumes "terminate_and_cleanup w j c st = (Inl e, st')"
  shows "e \<noteq> ExecError k"
  using assms
  by (cases "ow_poll w (rc_turn c) j"; cases "ow_grace w (rc_turn c) j"; cases "ow_reap w (rc_turn c) j")
    (auto simp: terminate_and_cleanup_def terminate_group_def Let_def)

lemma replace_quiet:
  assumes "replace_child w running st = (r, st')"
  shows "(\<exists>es. os_log st' = os_log st @ es \<and> quiet_log es) \<and> (\<forall>e k. r = Inl e \<longrightarrow> e \<noteq> ExecError k)"
proof (cases running)
  case (Some c)
  then have "terminate_and_cleanup w 0 c st = (r, st')" using assms by (simp add: replace_child_def)
  then show ?thesis using teardown_quiet teardown_raise by blast
qed (use assms in \<open>auto simp: replace_child_def\<close>)

lemma finally_quiet:
  assumes "finally_teardown w j running r st = (r', st')"
  shows "(\<exists>es. os_log st' = os_log st @ es \<and> quiet_log es) \<and> (start_failure r \<longrightarrow> start_failure r')"
proof (cases running)
  case (Some c)
  obtain q st1 where t: "terminate_and_cleanup w j c st = (q, st1)" by force
  then have "st' = st1" "r' = (case q of Inl e \<Rightarrow> Inl e | Inr _ \<Rightarrow> r)"
    using assms Some by (auto simp: finally_teardown_def split: sum.splits)
  then show ?thesis using teardown_quiet[OF t] teardown_raise[of w j c st _ st1] t
    by (cases q) (auto simp: start_failure_def)
qed (use assms in \<open>auto simp: finally_teardown_def\<close>)

lemma restart_serves:
  assumes "run_loop_restart w env p d command i running st = (r, st')"
  shows "\<exists>n es. serving w env p command st n es r st'"
  using assms
proof (induction w env p d command i running st arbitrary: r st' rule: run_loop_restart.induct)
  case (1 w env p d command i running st)
  note run = "1.prems"[unfolded run_loop_restart.simps[of w env p d command i running st]]
  show ?case
  proof (cases "ow_parked w i")
    case (Some n)
    then have "finally_teardown w 0 running (Inl (SignalShutdown n)) st = (r, st')" using run by simp
    from finally_quiet[OF this] obtain es where "os_log st' = os_log st @ es" "quiet_log es" by blast
    then show ?thesis by (intro exI[of _ 0] exI[of _ es]) (simp add: serving_def quiet_log_def)
  next
    case parked: None
    obtain q st1 where m: "next_match_or_exit env p d st = (q, st1)" by force
    obtain n where n: "n \<le> length (os_unread st)" "os_unread st1 = drop n (os_unread st)" "os_log st1 = os_log st"
      "filter (serves p) (delivered_of (we_loads env) (take n (os_unread st))) = (case q of Inr (Inr f) \<Rightarrow> [f] | _ \<Rightarrow> [])"
      by (rule next_match_serves[OF m])
    show ?thesis
    proof (cases "\<exists>f. q = Inr (Inr f)")
      case False
      then obtain x where "finally_teardown w 0 running x st1 = (r, st')"
        using run parked m by (auto split: sum.splits)
      from finally_quiet[OF this] obtain es where "os_log st' = os_log st1 @ es" "quiet_log es" by blast
      moreover have "filter (serves p) (delivered_of (we_loads env) (take n (os_unread st))) = []"
        using n(4) False by (auto split: sum.splits)
      ultimately show ?thesis using n(1,3) by (intro exI[of _ n] exI[of _ es]) (simp add: serving_def quiet_log_def)
    next
      case True
      then obtain f where q: "q = Inr (Inr f)" by blast
      have hit: "filter (serves p) (delivered_of (we_loads env) (take n (os_unread st))) = [f]" using n(4) q by simp
      have failed: "\<exists>n es. serving w env p command st n es r st'"
        if "finally_teardown w 1 running x sta = (r, st')" "start_failure x" "os_log sta = os_log st @ es" "quiet_log es" for x sta es
      proof -
        note h = that
        obtain es2 where "os_log st' = os_log st @ es @ es2" "quiet_log es2" "start_failure r"
          using finally_quiet[OF h(1)] h(2,3) by auto
        then show ?thesis
          using n(1) hit h(4) by (intro exI[of _ n] exI[of _ "es @ es2"]) (simp add: serving_def quiet_log_def)
      qed
      obtain t st2 where t: "replace_child w running st1 = (t, st2)" by force
      obtain es2 where es2: "os_log st2 = os_log st @ es2" "quiet_log es2" using replace_quiet[OF t] n(3) by auto
      show ?thesis
      proof (cases t)
        case (Inl e)
        then have "start_failure (Inl e)" using replace_quiet[OF t] by (simp add: start_failure_def)
        moreover have "finally_teardown w 1 running (Inl e) st2 = (r, st')" using run parked m q t Inl by auto
        ultimately show ?thesis using failed es2 by blast
      next
        case (Inr u)
        obtain s st3 where s: "spawn w i command f st2 = (s, st3)" by force
        note sp = spawn_cases[OF s]
        show ?thesis
        proof (cases s)
          case Inl': (Inl e)
          then have "start_failure (Inl e)" using sp exec_code_range by (auto simp: start_failure_def)
          moreover have "finally_teardown w 1 running (Inl e) st3 = (r, st')" using run parked m q t Inr s Inl' by auto
          ultimately show ?thesis using failed es2 sp Inl' by auto
        next
          case Inr': (Inr c)
          let ?es = "es2 @ [Spawned (rc_pid c) command (child_env w f (rc_event_file c)) f]"
          have l: "os_log st3 = os_log st1 @ ?es" using sp Inr' es2(1) n(3) by simp
          have u: "os_unread st3 = os_unread st1" using t s by simp
          have "run_loop_restart w env p d command (i + 1) (Some c) st3 = (r, st')"
            using run parked m q t Inr s Inr' by auto
          from "1.IH"[OF parked m[symmetric] q refl t[symmetric] Inr s[symmetric] Inr' this] obtain k es3 where
            k: "serving w env p command st3 k es3 r st'" by blast
          have "serving w env p command st (n + k) (?es @ es3) r st'"
            by (rule serving_step[OF n(1-3) hit l u _ _ k]) (use es2(2) in \<open>auto simp: launch_ok_def quiet_log_def\<close>)
          then show ?thesis by blast
        qed
      qed
    qed
  qed
qed


section \<open>The once mode\<close>

text \<open>The exit code of the once mode. Either no frame of the prefix read has a verdict, nothing is
  run, and the exit is 124 after the deadline, 130 on SIGINT and 2 when the daemon went away, or the wait
  raised; or the last frame is the first one with a verdict, and the command was run on it: the exit is
  then its code (128 + n when signal n killed it), or 130 when SIGINT interrupted it, or 127, 126, 2
  when it could not be executed, with nothing run; the event file cannot be made or a field has a NUL
  otherwise.\<close>

theorem on_once_exit_code:
  assumes "\<not> of_loop fl" "on_startup env fl command = Inr (p, repo, Fin d)" "open_acked_subscriber env repo ack = None"
    and "on_verb w env ack fl command = (x, st)"
  shows "\<exists>n \<le> length (we_arrivals env). \<exists>fs.
     fs = delivered_of (we_loads env) (take n (we_arrivals env))
     \<and> (let quiet = (\<lambda>gs. \<forall>f\<in>set gs. frame_code p f = None);
            last_item = ar_item (last (take n (we_arrivals env))) in
        os_log st = [] \<and> quiet fs
          \<and> (x = OnExit 124 \<and> list_all (\<lambda>a. passes_over (we_loads env) (ar_item a)) (take n (we_arrivals env))
             \<or> x = OnExit 130 \<and> last_item = Interrupted \<or> x = OnExit 2 \<and> last_item \<in> {GotEof, GotBadFraming}
             \<or> (\<exists>z. x = OnUncaught (OnWait (WaitSub z))))
        \<or> os_log st = [] \<and> fs \<noteq> [] \<and> quiet (butlast fs)
          \<and> (\<exists>y. frame_code p (last fs) = Some (Inl y) \<and> x = OnUncaught (OnWait y))
        \<or> fs \<noteq> [] \<and> quiet (butlast fs) \<and> serves p (last fs)
          \<and> ((\<exists>path. os_log st = [Ran command (child_env w (last fs) path) (last fs)])
               \<and> (case ow_run w 0 of
                    RunEnds rc _ \<Rightarrow> x = OnExit (if 0 \<le> rc then rc else 128 - rc)
                  | RunInterrupted \<Rightarrow> x = OnExit 130
                  | RunFails _ \<Rightarrow> False)
             \<or> os_log st = []
               \<and> (x \<in> {OnUncaught OnOSError, OnUncaught OnValueError}
                  \<or> (\<exists>k. ow_run w 0 = RunFails k
                       \<and> x = OnExit (case k of FileNotFound \<Rightarrow> 127 | PermissionDenied \<Rightarrow> 126 | OtherOSError \<Rightarrow> 2)))))"
proof -
  have "supervise w env p command False (of_restart fl) (Fin d) (on_start_state env) = (x, st)"
    using assms by (simp add: on_verb_def)
  then obtain r where r: "run_once w env p (Fin d) command (on_start_state env) = (r, st)" "x = exit_of r"
    by (rule supervise_runs) simp
  obtain q st1 where m: "next_match_or_exit env p (Fin d) (on_start_state env) = (q, st1)" by force
  have log1: "os_log st1 = []" using next_match_inv(7)[OF m subset_refl] by (simp add: on_start_state_def)
  have start: "os_unread (on_start_state env) = we_arrivals env" by (simp add: on_start_state_def)
  note c = next_match_cases[OF m, unfolded start]
  show ?thesis
  proof (cases "\<exists>f. q = Inr (Inr f)")
    case False
    then have "st = st1" "x = exit_of (case q of Inl e \<Rightarrow> Inl e | Inr (Inl k) \<Rightarrow> Inr k)"
      using r m by (auto simp: run_once_def split: sum.splits)
    then show ?thesis
      using c log1 False by (elim ex_forward) (auto simp: Let_def exit_of_def split: sum.splits)
  next
    case True
    then obtain f where q: "q = Inr (Inr f)" by blast
    then have b: "run_blocking w 0 command f st1 = (r, st)" using r(1) m by (simp add: run_once_def)
    have "(\<exists>path. os_log st = [Ran command (child_env w f path) f])
               \<and> (case ow_run w 0 of
                    RunEnds rc _ \<Rightarrow> x = OnExit (if 0 \<le> rc then rc else 128 - rc)
                  | RunInterrupted \<Rightarrow> x = OnExit 130
                  | RunFails _ \<Rightarrow> False)
             \<or> os_log st = []
               \<and> (x \<in> {OnUncaught OnOSError, OnUncaught OnValueError}
                  \<or> (\<exists>k. ow_run w 0 = RunFails k
                       \<and> x = OnExit (case k of FileNotFound \<Rightarrow> 127 | PermissionDenied \<Rightarrow> 126 | OtherOSError \<Rightarrow> 2)))"
      using run_blocking_cases[OF b] log1 r(2)
      by (auto simp: exit_of_def EXIT_defs normalise_returncode_def EXIT_EXEC_NOT_FOUND_def EXIT_EXEC_NO_PERMISSION_def
          split: os_error_kind.splits)
    moreover have "serves p f" using c q by (auto simp: Let_def serves_def)
    ultimately show ?thesis
      using c unfolding q by (elim ex_forward) (auto simp: Let_def)
  qed
qed

section \<open>Where something is left\<close>

text \<open>A second \<open>SIGTERM\<close> during the last teardown skips the kill: the child's group is orphaned.\<close>

lemma signalled_teardown_orphans:
  assumes "ow_parked w i = Some n" "ow_poll w (rc_turn c) 0" "ow_grace w (rc_turn c) 0 = GraceSignalled k"
  shows "\<exists>st'. run_loop_restart w env p d command i (Some c) st = (Inl (SignalShutdown k), st') \<and> os_groups st' = os_groups st"
  using assms
  by (subst run_loop_restart.simps)
    (simp add: finally_teardown_def terminate_and_cleanup_def terminate_group_def unlink_def Let_def)

text \<open>A NUL in a field makes the spawn raise past its cleanup: the event file stays.\<close>

lemma nul_field_leaks_file:
  assumes "\<not> env_accepted w f" "ow_path w i = Some path" "ow_write w i"
  shows "\<exists>st'. spawn w i command f st = (Inl OnValueError, st') \<and> path \<in> set (os_files st')"
  using assms by (simp add: spawn_def write_event_file_def Let_def)

section \<open>Witnesses\<close>

definition sample_world :: on_world where
  "sample_world = \<lparr>ow_environ = Map.empty, ow_repr = (\<lambda>_. []), ow_path = (\<lambda>i. Some (''f'' @ nat_str i)),
     ow_write = (\<lambda>_. True), ow_run = (\<lambda>_. RunEnds 3 1), ow_spawn = (\<lambda>i. SpawnedPid (100 + i)), ow_parked = (\<lambda>_. None),
     ow_poll = (\<lambda>_ _. True), ow_grace = (\<lambda>_ _. GraceOver), ow_reap = (\<lambda>_ _. Reaped), ow_took = (\<lambda>_ _. 1)\<rparr>"

definition sample_on_flags :: "bool \<Rightarrow> on_flags" where
  "sample_on_flags loop = \<lparr>of_wait = sample_flags, of_loop = loop, of_restart = loop, of_stop_timeout = ''10s''\<rparr>"

definition sample_ack_read :: first_read where "sample_ack_read = ReadPayload [9]"

definition sample_on_env :: wait_env where
  "sample_on_env = sample_env_wait\<lparr>we_loads := (we_loads sample_env_wait)([9] \<mapsto> JObj [(''kind'', JStr ''subscribe_ack'')])\<rparr>"

definition sample_match :: dict where
  "sample_match = [(''a'', JInt 1), (''fields'', JObj [(''source'', JStr ''github''), (''conclusion'', JStr ''failure'')])]"

lemma flags_ignore_loads:
  "build_predicate (env\<lparr>we_loads := g\<rparr>) fl = build_predicate env fl"
  "resolve_repo (env\<lparr>we_loads := g\<rparr>) fl src = resolve_repo env fl src"
  by (cases env, simp only: build_predicate_def build_predicates_def resolve_repo_def wait_env.simps)+

lemma sample_on_startup:
  "on_startup sample_on_env (sample_on_flags loop) [''run''] = Inr (sample_predicate, None, Fin 30)"
proof -
  have "build_predicate sample_on_env sample_flags = build_predicate sample_env_wait sample_flags"
    "resolve_repo sample_on_env sample_flags None = resolve_repo sample_env_wait sample_flags None"
    by (simp_all add: sample_on_env_def flags_ignore_loads)
  moreover have "parse_duration ''10s'' = Inr (Fin 10)" by code_simp
  ultimately show ?thesis
    using sample_pieces by (simp add: on_startup_def sample_on_flags_def)
qed

lemma sample_on_opens: "open_acked_subscriber sample_on_env None sample_ack_read = None"
proof -
  have "open_for_wait sample_on_env fs since = None" for fs since
    by (rule open_for_wait_small) (simp_all add: sample_on_env_def sample_env_wait_def MAX_FRAME_BYTES_def)
  then show ?thesis
    by (simp add: open_acked_subscriber_def read_subscribe_ack_def sample_ack_read_def sample_on_env_def dict_get_def)
qed

lemma sample_next:
  "\<exists>st. next_match_or_exit sample_on_env sample_predicate (Fin 30) (on_start_state sample_on_env) = (Inr (Inr sample_match), st)
     \<and> os_unread st = [] \<and> os_files st = [] \<and> os_groups st = [] \<and> os_log st = []"
proof -
  have "case next_match_or_exit sample_on_env sample_predicate (Fin 30) (on_start_state sample_on_env) of
     (r, st) \<Rightarrow> r = Inr (Inr sample_match) \<and> os_unread st = []"
    by code_simp
  then obtain st where st: "next_match_or_exit sample_on_env sample_predicate (Fin 30) (on_start_state sample_on_env)
      = (Inr (Inr sample_match), st)" "os_unread st = []"
    by (auto split: prod.splits)
  then show ?thesis using next_match_inv(5-7)[OF st(1) subset_refl] by (auto simp: on_start_state_def)
qed

lemma idle_wait:
  assumes "os_unread st = []"
  shows "\<exists>st'. next_match_or_exit env p (Fin 30) st = (Inr (Inl 124), st')"
  using assms
  by (simp add: next_match_or_exit_def await_predicate_def Let_def outcome_exit_def OUTCOME_TIMED_OUT_def EXIT_defs)

lemma sample_accepted: "env_accepted sample_world sample_match"
  by code_simp

lemma sample_on_loop:
  "\<exists>st. on_verb sample_world sample_on_env sample_ack_read (sample_on_flags True) [''run''] = (OnExit 124, st)"
proof -
  obtain st where st: "next_match_or_exit sample_on_env sample_predicate (Fin 30) (on_start_state sample_on_env)
      = (Inr (Inr sample_match), st)" "os_unread st = []"
    using sample_next by blast
  have w: "ow_parked sample_world i = None" "ow_path sample_world i = Some (''f'' @ nat_str i)" "ow_write sample_world i"
    "ow_spawn sample_world i = SpawnedPid (100 + i)" "ow_poll sample_world i j" "ow_grace sample_world i j = GraceOver"
    "ow_reap sample_world i j = Reaped" for i j
    by (simp_all add: sample_world_def)
  obtain c st2 where sp: "spawn sample_world 0 [''run''] sample_match st = (Inr c, st2)" "os_unread st2 = []"
    using st(2) by (simp add: spawn_def write_event_file_def w sample_accepted)
  obtain st3 where st3: "next_match_or_exit sample_on_env sample_predicate (Fin 30) st2 = (Inr (Inl 124), st3)"
    using idle_wait[OF sp(2)] by blast
  have "\<exists>st4. finally_teardown sample_world 0 (Some c) (Inr 124) st3 = (Inr 124, st4)"
    by (simp add: finally_teardown_def terminate_and_cleanup_def terminate_group_def w Let_def)
  then have "\<exists>st4. run_loop_restart sample_world sample_on_env sample_predicate (Fin 30) [''run''] 0 None (on_start_state sample_on_env)
      = (Inr 124, st4)"
    by (subst run_loop_restart.simps, simp add: w st(1) replace_child_def sp(1), subst run_loop_restart.simps, simp add: w st3)
  then show ?thesis
    using sample_on_startup[of True] sample_on_opens
    by (auto simp: on_verb_def supervise_def run_loop_def sample_on_flags_def)
qed



lemma sample_on_once:
  "\<exists>st path. on_verb sample_world sample_on_env sample_ack_read (sample_on_flags False) [''run''] = (OnExit 3, st)
     \<and> os_log st = [Ran [''run''] (child_env sample_world sample_match path) sample_match]"
proof -
  obtain st where st: "next_match_or_exit sample_on_env sample_predicate (Fin 30) (on_start_state sample_on_env)
      = (Inr (Inr sample_match), st)" "os_log st = []"
    using sample_next by blast
  have w: "ow_path sample_world 0 = Some (''f'' @ nat_str 0)" "ow_write sample_world 0" "ow_run sample_world 0 = RunEnds 3 1"
    by (simp_all add: sample_world_def)
  show ?thesis
    using sample_on_startup[of False] sample_on_opens st
    by (simp add: on_verb_def supervise_def run_once_def sample_on_flags_def run_blocking_def write_event_file_def w
        sample_accepted unlink_def normalise_returncode_def)
       (rule exI, rule refl)
qed

theorem on_once_exit_code_witness:
  "\<exists>st n. on_verb sample_world sample_on_env sample_ack_read (sample_on_flags False) [''run''] = (OnExit 3, st) \<and> n \<le> 2
     \<and> serves sample_predicate (last (delivered_of (we_loads sample_on_env) (take n (we_arrivals sample_on_env))))"
proof -
  obtain st path where st: "on_verb sample_world sample_on_env sample_ack_read (sample_on_flags False) [''run''] = (OnExit 3, st)"
    "os_log st = [Ran [''run''] (child_env sample_world sample_match path) sample_match]"
    using sample_on_once by blast
  have once: "\<not> of_loop (sample_on_flags False)" by (simp add: sample_on_flags_def)
  have len: "length (we_arrivals sample_on_env) = 2" by (simp add: sample_on_env_def sample_env_wait_def)
  from on_once_exit_code[OF once sample_on_startup sample_on_opens st(1)] show ?thesis
    using st unfolding len by (auto simp: Let_def)
qed

end
