(* ===== verification/WB_EtagPoll.thy ===== *)
theory WB_EtagPoll
  imports WB_Emit WB_Listener WB_Sql
begin

text \<open>
  The polling fallback, \<open>waitbus/etag_poll.py\<close>: the watched list, conditional GETs with their
  retries, the three write passes over the event store (runs, jobs, stalls) each as one transaction, and
  one pass over a repository. GitHub is a parameter: what each request of a URL gets, attempt by
  attempt, and of each item of a reply the fields the code reads, with the types GitHub documents.
  Clock readings and ULID draws are indexed by the write pass. Log lines and metrics are left out.
\<close>

section \<open>The watched list\<close>

definition watched_line :: "string \<Rightarrow> (string \<times> string) option" where
  "watched_line raw =
     (let line = strip raw in
      if line = [] \<or> starts_with ''#'' line then None
      else if CHR ''/'' \<notin> set line then None
      else (case partition_on (CHR ''/'') line of (owner, _, repo) \<Rightarrow> Some (strip owner, strip repo)))"

definition load_watched :: "string option \<Rightarrow> (string \<times> string) list" where
  "load_watched file =
     (case file of None \<Rightarrow> [] | Some text \<Rightarrow> List.map_filter watched_line (splitlines text))"

section \<open>Conditional requests\<close>

datatype http_reply =
    HttpOk int "string option" json
  | HttpError int "string option"
  | HttpNetwork
  | HttpBadJson

datatype poll_error = PollDb db_error | PollBusy | PollAttribute | PollSleepValue | PollOverflow

definition GH_RETRY_ATTEMPTS :: nat where "GH_RETRY_ATTEMPTS = 3"
definition GH_RETRY_AFTER_MAX_SEC :: rat where "GH_RETRY_AFTER_MAX_SEC = 60"
definition RECENCY_WINDOW_SEC :: int where "RECENCY_WINDOW_SEC = 86400"

text \<open>The integer form goes through a double, which overflows; the date form is the parameter
  \<open>date_delta\<close>, seconds from now.\<close>

definition parse_retry_after :: "(string \<Rightarrow> rat option) \<Rightarrow> string option \<Rightarrow> poll_error + rat option" where
  "parse_retry_after date_delta value =
     (case value of
        None \<Rightarrow> Inr None
      | Some v \<Rightarrow>
          (if v = [] then Inr None
           else (case py_int_of (strip v) of
                   Some i \<Rightarrow> if double (of_int \<bar>i\<bar>) < 2 ^ 1024 then Inr (Some (double (of_int i))) else Inl PollOverflow
                 | None \<Rightarrow> Inr (map_option (max 0) (date_delta (strip v))))))"

text \<open>One attempt: a final answer, or a retry after a sleep. \<open>time.sleep\<close> of a negative value is
  a \<open>ValueError\<close>.\<close>

datatype get_attempt = Answer int "string option" json | Transient "rat option" | AttemptRaises poll_error

definition do_conditional_get :: "(string \<Rightarrow> rat option) \<Rightarrow> string option \<Rightarrow> http_reply \<Rightarrow> get_attempt" where
  "do_conditional_get date_delta etag reply =
     (case reply of
        HttpOk status new_etag data \<Rightarrow> Answer status new_etag data
      | HttpError code retry_after \<Rightarrow>
          (if code = 304 then Answer 304 etag (JObj [])
           else if code = 429 \<or> 500 \<le> code then
             (case parse_retry_after date_delta retry_after of
                Inl e \<Rightarrow> AttemptRaises e
              | Inr None \<Rightarrow> Transient None
              | Inr (Some s) \<Rightarrow>
                  (if min s GH_RETRY_AFTER_MAX_SEC < 0 then AttemptRaises PollSleepValue
                   else Transient (Some (min s GH_RETRY_AFTER_MAX_SEC))))
           else Answer code etag (JObj []))
      | HttpNetwork \<Rightarrow> Transient None
      | HttpBadJson \<Rightarrow> Answer 0 etag (JObj []))"

text \<open>The retries, with the sleeps the server asked for; \<open>replies k\<close> answers the k-th attempt.\<close>

fun conditional_get ::
    "(string \<Rightarrow> rat option) \<Rightarrow> (nat \<Rightarrow> http_reply) \<Rightarrow> string option \<Rightarrow> nat \<Rightarrow> nat
       \<Rightarrow> (poll_error + int \<times> string option \<times> json) \<times> nat \<times> rat list" where
  "conditional_get date_delta replies etag k 0 = (Inr (0, etag, JObj []), k, [])"
| "conditional_get date_delta replies etag k (Suc left) =
     (case do_conditional_get date_delta etag (replies k) of
        Answer status new_etag data \<Rightarrow> (Inr (status, new_etag, data), k + 1, [])
      | AttemptRaises e \<Rightarrow> (Inl e, k + 1, [])
      | Transient s \<Rightarrow>
          (case conditional_get date_delta replies etag (k + 1) left of
             (r, n, slept) \<Rightarrow> (r, n, (case s of None \<Rightarrow> slept | Some x \<Rightarrow> x # slept))))"

text \<open>What the code reads of an item by \<open>get\<close>.\<close>

record api_item =
  ai_json :: json
  ai_id :: "int option"
  ai_name :: "string option"
  ai_status :: "string option"
  ai_conclusion :: "string option"
  ai_head_branch :: "string option"
  ai_head_sha :: "string option"

record poll_env =
  pe_replies :: "string \<Rightarrow> string option \<Rightarrow> nat \<Rightarrow> http_reply"
  pe_date_delta :: "string \<Rightarrow> rat option"
  pe_item :: "json \<Rightarrow> api_item"
  pe_dumps :: "json \<Rightarrow> string"
  pe_loads :: "string \<Rightarrow> json option"
  pe_iso :: "string \<Rightarrow> int option"
  pe_time_ns :: "nat \<Rightarrow> int"
  pe_begin_ok :: "nat \<Rightarrow> bool"
  pe_insert :: "nat \<Rightarrow> nat \<Rightarrow> insert_env"

definition API :: string where "API = ''https://api.github.com''"

text \<open>\<open>data.get(key) or []\<close>: the reply must be an object, its list one of items.\<close>

definition reply_items :: "poll_env \<Rightarrow> string \<Rightarrow> json \<Rightarrow> poll_error + api_item list" where
  "reply_items env key data =
     (case data of
        JObj d \<Rightarrow> (case dict_get d key of
                     JArr xs \<Rightarrow> Inr (map (pe_item env) xs)
                   | j \<Rightarrow> if truthy j then Inl PollAttribute else Inr [])
      | _ \<Rightarrow> Inl PollAttribute)"

definition fetch_items ::
    "poll_env \<Rightarrow> string \<Rightarrow> string \<Rightarrow> string option \<Rightarrow> poll_error + int \<times> string option \<times> api_item list" where
  "fetch_items env key url etag =
     res_bind (fst (conditional_get (pe_date_delta env) (pe_replies env url etag) etag 0 GH_RETRY_ATTEMPTS))
       (\<lambda>(status, new_etag, data). res_bind (reply_items env key data) (\<lambda>items. Inr (status, new_etag, items)))"

definition fetch_runs :: "poll_env \<Rightarrow> string \<Rightarrow> string \<Rightarrow> string option \<Rightarrow> poll_error + int \<times> string option \<times> api_item list" where
  "fetch_runs env owner repo =
     fetch_items env ''workflow_runs'' (API @ ''/repos/'' @ owner @ ''/'' @ repo @ ''/actions/runs?per_page=20'')"

definition fetch_jobs :: "poll_env \<Rightarrow> string \<Rightarrow> string \<Rightarrow> int \<Rightarrow> string option \<Rightarrow> poll_error + int \<times> string option \<times> api_item list" where
  "fetch_jobs env owner repo run_id =
     fetch_items env ''jobs'' (API @ ''/repos/'' @ owner @ ''/'' @ repo @ ''/actions/runs/'' @ int_str run_id @ ''/jobs'')"

section \<open>The write passes\<close>

text \<open>An f-string of an optional field.\<close>

definition fmt :: "string option \<Rightarrow> string" where
  "fmt x = (case x of None \<Rightarrow> ''None'' | Some s \<Rightarrow> s)"

definition with_repository :: "string \<Rightarrow> string \<Rightarrow> dict \<Rightarrow> dict" where
  "with_repository owner repo d =
     d @ [(''repository'', JObj [(''owner'', JObj [(''login'', JStr owner)]), (''name'', JStr repo)])]"

definition job_event :: "poll_env \<Rightarrow> string \<Rightarrow> string \<Rightarrow> int \<Rightarrow> int \<Rightarrow> api_item \<Rightarrow> int \<Rightarrow> event_insert" where
  "job_event env owner repo run_id now job job_id =
     (event_insert_defaults
        (''etag:job:'' @ int_str job_id @ '':'' @ fmt (ai_status job) @ '':'' @ fmt (ai_conclusion job))
        ''github'' ''workflow_job'' owner repo now
        (pe_dumps env (JObj (with_repository owner repo [(''workflow_job'', ai_json job)]))) ''etag_poll'')
       \<lparr>ev_head_branch := ai_head_branch job, ev_head_sha := ai_head_sha job, ev_status := ai_status job,
        ev_conclusion := ai_conclusion job, ev_job_id := Some job_id, ev_job_name := ai_name job,
        ev_parent_run_id := Some run_id\<rparr>"

definition run_event :: "poll_env \<Rightarrow> string \<Rightarrow> string \<Rightarrow> int \<Rightarrow> api_item \<Rightarrow> int \<Rightarrow> event_insert" where
  "run_event env owner repo now run run_id =
     (event_insert_defaults
        (''etag:'' @ int_str run_id @ '':'' @ fmt (ai_status run) @ '':'' @ fmt (ai_conclusion run))
        ''github'' ''workflow_run'' owner repo now
        (pe_dumps env (JObj (with_repository owner repo [(''workflow_run'', ai_json run)]))) ''etag_poll'')
       \<lparr>ev_run_id := Some run_id, ev_workflow_name := ai_name run, ev_head_branch := ai_head_branch run,
        ev_head_sha := ai_head_sha run, ev_status := ai_status run, ev_conclusion := ai_conclusion run\<rparr>"

text \<open>The loop of a write pass: an item without an identifier is passed over.\<close>

fun upsert_loop ::
    "(nat \<Rightarrow> insert_env) \<Rightarrow> (api_item \<Rightarrow> int \<Rightarrow> event_insert) \<Rightarrow> nat \<Rightarrow> api_item list \<Rightarrow> nat
       \<Rightarrow> ulid_state \<Rightarrow> event_table \<Rightarrow> db_effect list
       \<Rightarrow> (db_error + nat) \<times> ulid_state \<times> event_table \<times> db_effect list" where
  "upsert_loop ins event k [] inserted us t effs = (Inr inserted, us, t, effs)"
| "upsert_loop ins event k (item # items) inserted us t effs =
     (case ai_id item of
        None \<Rightarrow> upsert_loop ins event (k + 1) items inserted us t effs
      | Some i \<Rightarrow>
          (case insert_event (ins k) False (event item i) us t of
             (Inl e, us', t', eff) \<Rightarrow> (Inl e, us', t', effs @ eff)
           | (Inr new, us', t', eff) \<Rightarrow>
               upsert_loop ins event (k + 1) items (if new then inserted + 1 else inserted) us' t' (effs @ eff)))"

text \<open>\<open>BEGIN IMMEDIATE\<close> may find the database busy; an exception rolls back.\<close>

definition upsert ::
    "bool \<Rightarrow> (nat \<Rightarrow> insert_env) \<Rightarrow> (api_item \<Rightarrow> int \<Rightarrow> event_insert) \<Rightarrow> api_item list \<Rightarrow> ulid_state \<Rightarrow> event_table
       \<Rightarrow> (poll_error + nat) \<times> ulid_state \<times> event_table \<times> db_effect list" where
  "upsert begin_ok ins event items us t =
     (if items = [] then (Inr 0, us, t, [])
      else if \<not> begin_ok then (Inl PollBusy, us, t, [])
      else (case upsert_loop ins event 0 items 0 us t [] of
              (Inl e, us', t', effs) \<Rightarrow> (Inl (PollDb e), us', t, effs)
            | (Inr inserted, us', t', effs) \<Rightarrow>
                (Inr inserted, us', t', effs @ [Committed] @ (if inserted > 0 then [DoorbellRing] else []))))"

text \<open>The number \<open>s\<close> of the pass picks its clock reading and draws.\<close>

definition upsert_runs ::
    "poll_env \<Rightarrow> nat \<Rightarrow> string \<Rightarrow> string \<Rightarrow> api_item list \<Rightarrow> ulid_state \<Rightarrow> event_table
       \<Rightarrow> (poll_error + nat) \<times> ulid_state \<times> event_table \<times> db_effect list" where
  "upsert_runs env s owner repo =
     upsert (pe_begin_ok env s) (pe_insert env s) (run_event env owner repo (pe_time_ns env s))"

definition upsert_jobs ::
    "poll_env \<Rightarrow> nat \<Rightarrow> string \<Rightarrow> string \<Rightarrow> int \<Rightarrow> api_item list \<Rightarrow> ulid_state \<Rightarrow> event_table
       \<Rightarrow> (poll_error + nat) \<times> ulid_state \<times> event_table \<times> db_effect list" where
  "upsert_jobs env s owner repo run_id =
     upsert (pe_begin_ok env s) (pe_insert env s) (job_event env owner repo run_id (pe_time_ns env s))"

section \<open>Reading the store\<close>

text \<open>The latest row of a run comes first; rows of one reading keep the store's order.\<close>

definition run_rows :: "string \<Rightarrow> string \<Rightarrow> int \<Rightarrow> event_table \<Rightarrow> event_row list" where
  "run_rows owner repo cutoff t =
     sort_key (\<lambda>r. - ev_received_at r)
       (filter (\<lambda>r. ev_event_type r = ''workflow_run'' \<and> ev_owner r = owner \<and> ev_repo r = repo
                  \<and> ev_run_id r \<noteq> None \<and> cutoff < ev_received_at r) (tb_rows t))"

fun first_status :: "event_row list \<Rightarrow> (int \<times> string) list \<Rightarrow> (int \<times> string) list" where
  "first_status [] seen = seen"
| "first_status (r # rs) seen =
     (let rid = the (ev_run_id r) in
      first_status rs (if rid \<in> fst ` set seen then seen
                       else seen @ [(rid, case ev_status r of None \<Rightarrow> [] | Some s \<Rightarrow> s)]))"

definition LIVE_STATUSES :: "string list" where "LIVE_STATUSES = [''in_progress'', ''queued'']"

definition in_progress_run_ids :: "string \<Rightarrow> string \<Rightarrow> int \<Rightarrow> event_table \<Rightarrow> int list" where
  "in_progress_run_ids owner repo now_ns t =
     map fst (filter (\<lambda>(rid, status). status \<in> set LIVE_STATUSES)
       (first_status (run_rows owner repo (now_ns - RECENCY_WINDOW_SEC * NS_PER_SECOND) t) []))"

section \<open>Stalled jobs\<close>

definition job_rows :: "string \<Rightarrow> string \<Rightarrow> int \<Rightarrow> event_table \<Rightarrow> event_row list" where
  "job_rows owner repo cutoff t =
     filter (\<lambda>r. ev_event_type r = ''workflow_job'' \<and> ev_owner r = owner \<and> ev_repo r = repo
               \<and> ev_job_id r \<noteq> None \<and> cutoff < ev_received_at r) (tb_rows t)"

text \<open>The latest row of its job (rows of one reading are all latest), in a live state.\<close>

definition stall_candidates :: "string \<Rightarrow> string \<Rightarrow> int \<Rightarrow> event_table \<Rightarrow> event_row list" where
  "stall_candidates owner repo cutoff t =
     filter (\<lambda>r. (\<forall>q\<in>set (job_rows owner repo cutoff t). ev_job_id q = ev_job_id r \<longrightarrow> ev_received_at q \<le> ev_received_at r)
               \<and> ev_status r \<in> Some ` set LIVE_STATUSES) (job_rows owner repo cutoff t)"

definition parse_iso8601_to_epoch :: "poll_env \<Rightarrow> json \<Rightarrow> int option" where
  "parse_iso8601_to_epoch env j = (case j of JStr s \<Rightarrow> pe_iso env s | _ \<Rightarrow> None)"

record stall =
  sl_row :: event_row
  sl_payload :: dict
  sl_elapsed :: int
  sl_started :: json

text \<open>One candidate: passed over, past the threshold, or a payload that is no object.\<close>

definition stall_of :: "poll_env \<Rightarrow> int \<Rightarrow> int \<Rightarrow> event_row \<Rightarrow> poll_error + stall option" where
  "stall_of env now_s threshold_s r =
     (case (if ev_payload_json r = [] then Some (JObj []) else pe_loads env (ev_payload_json r)) of
        None \<Rightarrow> Inr None
      | Some (JObj payload) \<Rightarrow>
          (case (if truthy (dict_get payload ''workflow_job'') then dict_get payload ''workflow_job'' else JObj []) of
             JObj job_payload \<Rightarrow>
               (let started = dict_get job_payload ''started_at'' in
                if \<not> truthy started then Inr None
                else (case parse_iso8601_to_epoch env started of
                        None \<Rightarrow> Inr None
                      | Some started_at \<Rightarrow>
                          (if now_s - started_at < threshold_s then Inr None
                           else Inr (Some \<lparr>sl_row = r, sl_payload = job_payload,
                                           sl_elapsed = now_s - started_at, sl_started = started\<rparr>))))
           | _ \<Rightarrow> Inl PollAttribute)
      | Some _ \<Rightarrow> Inl PollAttribute)"

definition stall_rows :: "poll_env \<Rightarrow> int \<Rightarrow> int \<Rightarrow> event_row list \<Rightarrow> poll_error + stall list" where
  "stall_rows env now_s threshold_s rs =
     res_bind (res_map_list (stall_of env now_s threshold_s) rs) (\<lambda>xs. Inr (List.map_filter id xs))"

definition stall_event :: "poll_env \<Rightarrow> string \<Rightarrow> string \<Rightarrow> int \<Rightarrow> int \<Rightarrow> stall \<Rightarrow> event_insert" where
  "stall_event env owner repo threshold_min now_ns s =
     (event_insert_defaults (''etag:stall:'' @ int_str (the (ev_job_id (sl_row s)))) ''github'' ''workflow_job'' owner repo now_ns
        (pe_dumps env (JObj (with_repository owner repo [(''workflow_job'', JObj (sl_payload s))]
           @ [(''stall_detected'', JObj [(''elapsed_seconds'', JInt (sl_elapsed s)),
                (''threshold_minutes'', JInt threshold_min), (''started_at'', sl_started s)])]))) ''etag_poll'')
       \<lparr>ev_head_branch := ev_head_branch (sl_row s), ev_head_sha := ev_head_sha (sl_row s), ev_status := Some ''stalled'',
        ev_conclusion := Some ''in_progress'', ev_job_id := ev_job_id (sl_row s), ev_job_name := ev_job_name (sl_row s),
        ev_parent_run_id := ev_parent_run_id (sl_row s)\<rparr>"

text \<open>The inserts of the stalls, as in the other passes.\<close>

fun stall_loop ::
    "(nat \<Rightarrow> insert_env) \<Rightarrow> (stall \<Rightarrow> event_insert) \<Rightarrow> nat \<Rightarrow> stall list \<Rightarrow> nat \<Rightarrow> ulid_state \<Rightarrow> event_table \<Rightarrow> db_effect list
       \<Rightarrow> (db_error + nat) \<times> ulid_state \<times> event_table \<times> db_effect list" where
  "stall_loop ins event k [] inserted us t effs = (Inr inserted, us, t, effs)"
| "stall_loop ins event k (x # xs) inserted us t effs =
     (case insert_event (ins k) False (event x) us t of
        (Inl e, us', t', eff) \<Rightarrow> (Inl e, us', t', effs @ eff)
      | (Inr new, us', t', eff) \<Rightarrow>
          stall_loop ins event (k + 1) xs (if new then inserted + 1 else inserted) us' t' (effs @ eff))"

definition emit_stall_synthetic_events ::
    "poll_env \<Rightarrow> nat \<Rightarrow> string \<Rightarrow> string \<Rightarrow> int \<Rightarrow> ulid_state \<Rightarrow> event_table
       \<Rightarrow> (poll_error + nat) \<times> ulid_state \<times> event_table \<times> db_effect list" where
  "emit_stall_synthetic_events env s owner repo threshold_min us t =
     (let now_ns = pe_time_ns env s; now_s = now_ns div NS_PER_SECOND;
          candidates = stall_candidates owner repo (now_ns - RECENCY_WINDOW_SEC * NS_PER_SECOND) t
      in case stall_rows env now_s (threshold_min * 60) candidates of
           Inl e \<Rightarrow> (Inl e, us, t, [])
         | Inr stalls \<Rightarrow>
             (if stalls = [] then (Inr 0, us, t, [])
              else if \<not> pe_begin_ok env s then (Inl PollBusy, us, t, [])
              else (case stall_loop (pe_insert env s) (stall_event env owner repo threshold_min now_ns) 0 stalls 0 us t [] of
                      (Inl e, us', t', effs) \<Rightarrow> (Inl (PollDb e), us', t, effs)
                    | (Inr inserted, us', t', effs) \<Rightarrow>
                        (Inr inserted, us', t',
                         effs @ [Committed] @ (if inserted > 0 then [DoorbellRing] else [])))))"

section \<open>One pass over a repository\<close>

record poll_state =
  ps_etags :: "string \<rightharpoonup> string"
  ps_ulid :: ulid_state
  ps_table :: event_table
  ps_effects :: "db_effect list"

definition stored :: "(poll_error + nat) \<times> ulid_state \<times> event_table \<times> db_effect list \<Rightarrow> poll_state \<Rightarrow> (poll_error + nat) \<times> poll_state" where
  "stored x st = (case x of (r, us, t, effs) \<Rightarrow>
     (r, st\<lparr>ps_ulid := us, ps_table := t, ps_effects := ps_effects st @ effs\<rparr>))"

text \<open>\<open>if new_etag: state[key] = new_etag\<close>.\<close>

definition keep_etag :: "string \<Rightarrow> string option \<Rightarrow> poll_state \<Rightarrow> poll_state" where
  "keep_etag key new_etag st =
     (case new_etag of
        Some (c # cs) \<Rightarrow> st\<lparr>ps_etags := (ps_etags st)(key \<mapsto> c # cs)\<rparr>
      | _ \<Rightarrow> st)"

text \<open>What a 200 reply does: its items are stored, then its ETag kept.\<close>

definition store_reply ::
    "(api_item list \<Rightarrow> ulid_state \<Rightarrow> event_table \<Rightarrow> (poll_error + nat) \<times> ulid_state \<times> event_table \<times> db_effect list)
       \<Rightarrow> string \<Rightarrow> poll_error + int \<times> string option \<times> api_item list \<Rightarrow> poll_state \<Rightarrow> (poll_error + nat) \<times> poll_state" where
  "store_reply upsert_items key reply st =
     (case reply of
        Inl e \<Rightarrow> (Inl e, st)
      | Inr (status, new_etag, items) \<Rightarrow>
          (if status = 200 then
             (case stored (upsert_items items (ps_ulid st) (ps_table st)) st of
                (Inl e, st1) \<Rightarrow> (Inl e, st1)
              | (Inr n, st1) \<Rightarrow> (Inr n, keep_etag key new_etag st1))
           else (Inr 0, st)))"

definition repo_key :: "string \<Rightarrow> string \<Rightarrow> string" where
  "repo_key owner repo = owner @ ''/'' @ repo"

definition job_key :: "string \<Rightarrow> string \<Rightarrow> int \<Rightarrow> string" where
  "job_key owner repo run_id = repo_key owner repo @ ''/jobs/'' @ int_str run_id"

fun poll_jobs ::
    "poll_env \<Rightarrow> nat \<Rightarrow> string \<Rightarrow> string \<Rightarrow> int list \<Rightarrow> nat \<Rightarrow> poll_state \<Rightarrow> (poll_error + nat) \<times> poll_state" where
  "poll_jobs env s owner repo [] new st = (Inr new, st)"
| "poll_jobs env s owner repo (run_id # ids) new st =
     (let key = job_key owner repo run_id in
      case store_reply (upsert_jobs env s owner repo run_id) key (fetch_jobs env owner repo run_id (ps_etags st key)) st of
        (Inl e, st1) \<Rightarrow> (Inl e, st1)
      | (Inr n, st1) \<Rightarrow> poll_jobs env (s + 1) owner repo ids (new + n) st1)"

text \<open>The passes of a repository are numbered from \<open>s\<close>: runs, the live runs' reading, one per live
  run, the stalls.\<close>

definition poll_one_repo ::
    "poll_env \<Rightarrow> nat \<Rightarrow> string \<Rightarrow> string \<Rightarrow> int \<Rightarrow> poll_state \<Rightarrow> (poll_error + nat) \<times> poll_state" where
  "poll_one_repo env s owner repo threshold_min st =
     (let key = repo_key owner repo in
      case store_reply (upsert_runs env s owner repo) key (fetch_runs env owner repo (ps_etags st key)) st of
        (Inl e, st1) \<Rightarrow> (Inl e, st1)
      | (Inr n, st1) \<Rightarrow>
          (let ids = in_progress_run_ids owner repo (pe_time_ns env (s + 1)) (ps_table st1) in
           case poll_jobs env (s + 2) owner repo ids 0 st1 of
             (Inl e, st2) \<Rightarrow> (Inl e, st2)
           | (Inr jn, st2) \<Rightarrow>
               (case stored (emit_stall_synthetic_events env (s + 2 + length ids) owner repo threshold_min
                        (ps_ulid st2) (ps_table st2)) st2 of
                  (Inl e, st3) \<Rightarrow> (Inl e, st3)
                | (Inr sn, st3) \<Rightarrow> (Inr (n + jn + sn), st3))))"

text \<open>\<open>main\<close>: the repositories in turn; an exception leaves the loop before the ETags are saved.
  Repository \<open>i\<close> has its own readings.\<close>

fun poll_repos ::
    "(nat \<Rightarrow> poll_env) \<Rightarrow> nat \<Rightarrow> (string \<times> string) list \<Rightarrow> int \<Rightarrow> nat \<Rightarrow> poll_state \<Rightarrow> (poll_error + nat) \<times> poll_state" where
  "poll_repos envs i [] threshold_min new st = (Inr new, st)"
| "poll_repos envs i ((owner, repo) # rs) threshold_min new st =
     (case poll_one_repo (envs i) 0 owner repo threshold_min st of
        (Inl e, st1) \<Rightarrow> (Inl e, st1)
      | (Inr n, st1) \<Rightarrow> poll_repos envs (i + 1) rs threshold_min (new + n) st1)"

datatype poll_exit = PollExit int "(string \<rightharpoonup> string) option" | PollUncaught poll_error

text \<open>The exit with the ETag map it saved, if it saved one.\<close>

definition etag_poll_main ::
    "(nat \<Rightarrow> poll_env) \<Rightarrow> bool \<Rightarrow> string option \<Rightarrow> bool \<Rightarrow> int \<Rightarrow> poll_state \<Rightarrow> poll_exit \<times> poll_state" where
  "etag_poll_main envs db_exists watched_file token_ok threshold_min st =
     (if \<not> db_exists then (PollExit 2 None, st)
      else (let watched = load_watched watched_file in
            if watched = [] then (PollExit 0 None, st)
            else if \<not> token_ok then (PollExit 2 None, st)
            else (case poll_repos envs 0 watched threshold_min 0 st of
                    (Inl e, st1) \<Rightarrow> (PollUncaught e, st1)
                  | (Inr _, st1) \<Rightarrow> (PollExit 0 (Some (ps_etags st1)), st1))))"

end
