(* ===== verification/WB_EtagPollProps.thy ===== *)
theory WB_EtagPollProps
  imports WB_EtagPoll
begin

text \<open>
  What the poller promises: bounded retries; each write pass is the batch of \<open>emit_batch\<close>, so that
  it is one transaction and a repeated reply stores nothing; an ETag is kept only after the items it
  stands for are stored; one stall row per stalled job.
\<close>

section \<open>Retries\<close>

lemma conditional_get_bounds:
  assumes "conditional_get dd replies etag k n = (r, k', slept)"
  shows "k \<le> k' \<and> k' \<le> k + n \<and> length slept \<le> n \<and> (\<forall>x\<in>set slept. 0 \<le> x \<and> x \<le> GH_RETRY_AFTER_MAX_SEC)"
  using assms
proof (induction dd replies etag k n arbitrary: r k' slept rule: conditional_get.induct)
  case (2 dd replies etag k n)
  show ?case
  proof (cases "do_conditional_get dd etag (replies k)")
    case (Transient s)
    obtain r1 k1 sl where c: "conditional_get dd replies etag (k + 1) n = (r1, k1, sl)" by (metis prod_cases3)
    have "\<forall>x. s = Some x \<longrightarrow> 0 \<le> x \<and> x \<le> GH_RETRY_AFTER_MAX_SEC"
      using Transient by (auto simp: do_conditional_get_def GH_RETRY_AFTER_MAX_SEC_def split: http_reply.splits sum.splits option.splits if_splits)
    then show ?thesis using "2.IH"[OF Transient c] "2.prems" Transient c by (auto split: option.splits)
  qed (use "2.prems" in auto)
qed auto

lemma sum_list_bound:
  fixes b :: rat
  shows "\<forall>x\<in>set xs. x \<le> b \<Longrightarrow> sum_list xs \<le> of_nat (length xs) * b"
  by (induction xs) (auto simp: algebra_simps intro: add_mono)

text \<open>Retries are bounded. Whatever the server answers, a fetch makes at most three requests, and
  the sleeps it takes on the server's word are never negative and at most sixty seconds each, three
  minutes together.\<close>

theorem retries_bounded:
  assumes "conditional_get date_delta replies etag 0 GH_RETRY_ATTEMPTS = (r, requests, slept)"
  shows "requests \<le> 3 \<and> (\<forall>x\<in>set slept. 0 \<le> x \<and> x \<le> 60) \<and> sum_list slept \<le> 180"
proof -
  have b: "requests \<le> 3" "length slept \<le> 3" "\<forall>x\<in>set slept. 0 \<le> x \<and> x \<le> 60"
    using conditional_get_bounds[OF assms] by (auto simp: GH_RETRY_ATTEMPTS_def GH_RETRY_AFTER_MAX_SEC_def)
  have "sum_list slept \<le> of_nat (length slept) * 60" using b(3) by (intro sum_list_bound) auto
  also have "\<dots> \<le> 180" using b(2) by simp
  finally show ?thesis using b by auto
qed

section \<open>The write passes are batches\<close>

fun upsert_events ::
    "(nat \<Rightarrow> insert_env) \<Rightarrow> (api_item \<Rightarrow> int \<Rightarrow> event_insert) \<Rightarrow> nat \<Rightarrow> api_item list \<Rightarrow> (insert_env \<times> event_insert) option list" where
  "upsert_events ins event k [] = []"
| "upsert_events ins event k (item # items) =
     (case ai_id item of None \<Rightarrow> [] | Some i \<Rightarrow> [Some (ins k, event item i)]) @ upsert_events ins event (k + 1) items"

fun stall_events :: "(nat \<Rightarrow> insert_env) \<Rightarrow> (stall \<Rightarrow> event_insert) \<Rightarrow> nat \<Rightarrow> stall list \<Rightarrow> (insert_env \<times> event_insert) option list" where
  "stall_events ins event k [] = []"
| "stall_events ins event k (x # xs) = Some (ins k, event x) # stall_events ins event (k + 1) xs"

lemma upsert_loop_batch:
  "batch_loop (upsert_events ins event k items) n us t effs =
     (case upsert_loop ins event k items n us t effs of (r, st) \<Rightarrow> (map_sum BatchDb id r, st))"
  by (induction ins event k items n us t effs rule: upsert_loop.induct) (auto split: option.splits prod.splits sum.splits)

lemma stall_loop_batch:
  "batch_loop (stall_events ins event k xs) n us t effs =
     (case stall_loop ins event k xs n us t effs of (r, st) \<Rightarrow> (map_sum BatchDb id r, st))"
  by (induction ins event k xs n us t effs rule: stall_loop.induct) (auto split: prod.splits sum.splits)

lemma upsert_events_set:
  "x \<in> set (upsert_events ins event k items) \<longleftrightarrow>
     (\<exists>j < length items. \<exists>i. ai_id (items ! j) = Some i \<and> x = Some (ins (k + j), event (items ! j) i))"
proof (induction ins event k items rule: upsert_events.induct)
  case (2 ins event k item items)
  note ih = "2.IH"[simplified]
  show ?case
    by (cases "ai_id item") (auto simp: ih Ex_less_Suc2)
qed simp

lemma stall_events_set:
  "x \<in> set (stall_events ins event k xs) \<longleftrightarrow> (\<exists>j < length xs. x = Some (ins (k + j), event (xs ! j)))"
  by (induction ins event k xs rule: stall_events.induct) (auto simp: Ex_less_Suc2)

text \<open>The hand-written transaction of a write pass is \<open>emit_batch\<close>, up to the error's name.\<close>

definition as_poll_error :: "batch_error \<Rightarrow> poll_error" where
  "as_poll_error e = (case e of BatchDb d \<Rightarrow> PollDb d | IterationRaises \<Rightarrow> PollBusy)"

lemma upsert_is_batch:
  assumes "items \<noteq> []"
  shows "upsert True ins event items us t =
     (case emit_batch (upsert_events ins event 0 items) us t of (r, st) \<Rightarrow> (map_sum as_poll_error id r, st))"
  using assms
  by (auto simp: upsert_def emit_batch_def upsert_loop_batch as_poll_error_def split: prod.splits sum.splits)

lemma upsert_facts:
  assumes "table_inv t" "upsert begin_ok ins event items us t = (r, us', t', effs)"
  shows "table_inv t'" "\<exists>new. tb_rows t' = tb_rows t @ new \<and> event_insert.truncate ` set new \<subseteq>
       {event item i |item i. item \<in> set items \<and> ai_id item = Some i} \<and> (\<forall>n. r = Inr n \<longrightarrow> length new = n)"
    "\<And>e. r = Inl e \<Longrightarrow> t' = t"
    "r = Inr n \<Longrightarrow> j < length items \<Longrightarrow> ai_id (items ! j) = Some i \<Longrightarrow> lands t' (ins j, event (items ! j) i)"
    "DoorbellRing \<in> set effs \<longleftrightarrow> (\<exists>n > 0. r = Inr n)"
proof -
  have "table_inv t' \<and> (\<exists>new. tb_rows t' = tb_rows t @ new \<and> event_insert.truncate ` set new \<subseteq>
       {event item i |item i. item \<in> set items \<and> ai_id item = Some i} \<and> (\<forall>n. r = Inr n \<longrightarrow> length new = n))
     \<and> (\<forall>e. r = Inl e \<longrightarrow> t' = t)
     \<and> (\<forall>n j i. r = Inr n \<longrightarrow> j < length items \<longrightarrow> ai_id (items ! j) = Some i \<longrightarrow> lands t' (ins j, event (items ! j) i))
     \<and> (DoorbellRing \<in> set effs \<longleftrightarrow> (\<exists>n > 0. r = Inr n))"
  proof (cases "items = [] \<or> \<not> begin_ok")
    case True
    then show ?thesis using assms by (auto simp: upsert_def split: if_splits)
  next
    case False
    obtain q us1 t1 eff1 where l: "upsert_loop ins event 0 items 0 us t [] = (q, us1, t1, eff1)" by (metis prod_cases4)
    have "batch_loop (upsert_events ins event 0 items) 0 us t [] = (map_sum BatchDb id q, us1, t1, eff1)"
      using l by (simp add: upsert_loop_batch)
    from batch_loop_facts[OF assms(1) this] obtain new where
      new: "table_inv t1" "tb_rows t1 = tb_rows t @ new" "DoorbellRing \<notin> set eff1"
      "\<And>m. q = Inr m \<Longrightarrow> m = length new \<and> (\<forall>x\<in>set (upsert_events ins event 0 items). \<forall>env ev. x = Some (env, ev) \<longrightarrow> lands t1 (env, ev))
          \<and> event_insert.truncate ` set new \<subseteq> snd ` the ` set (upsert_events ins event 0 items)"
      by auto
    have sub: "snd ` the ` set (upsert_events ins event 0 items) \<subseteq> {event item i |item i. item \<in> set items \<and> ai_id item = Some i}"
      by (auto simp: upsert_events_set) (metis nth_mem)
    show ?thesis
    proof (cases q)
      case (Inl e)
      then have "r = Inl (PollDb e)" "t' = t" "effs = eff1" using assms(2) False l by (simp_all add: upsert_def)
      then show ?thesis using assms(1) new(3) by auto
    next
      case (Inr m)
      then have o: "r = Inr m" "t' = t1" "effs = eff1 @ [Committed] @ (if m > 0 then [DoorbellRing] else [])"
        using assms(2) False l by (simp_all add: upsert_def)
      have m: "m = length new" using new(4)[OF Inr] by (rule conjunct1)
      have sub2: "event_insert.truncate ` set new \<subseteq> {event item i |item i. item \<in> set items \<and> ai_id item = Some i}"
        by (rule order_trans[OF conjunct2[OF conjunct2[OF new(4)[OF Inr]]] sub])
      have lands: "lands t1 (ins j, event (items ! j) i)" if "j < length items" "ai_id (items ! j) = Some i" for j i
      proof -
        have "Some (ins j, event (items ! j) i) \<in> set (upsert_events ins event 0 items)"
          unfolding upsert_events_set using that by (intro exI[of _ j] exI[of _ i]) simp
        then show ?thesis using new(4)[OF Inr] by blast
      qed
      have bell: "DoorbellRing \<in> set effs \<longleftrightarrow> m > 0" using new(3) o(3) by simp
      show ?thesis
      proof (intro conjI)
        show "table_inv t'" using new(1) o(2) by simp
        show "\<exists>new. tb_rows t' = tb_rows t @ new \<and> event_insert.truncate ` set new \<subseteq>
           {event item i |item i. item \<in> set items \<and> ai_id item = Some i} \<and> (\<forall>n. r = Inr n \<longrightarrow> length new = n)"
          using new(2) sub2 m unfolding o(1,2) by blast
        show "\<forall>e. r = Inl e \<longrightarrow> t' = t" using o(1) by simp
        show "\<forall>n j i. r = Inr n \<longrightarrow> j < length items \<longrightarrow> ai_id (items ! j) = Some i \<longrightarrow> lands t' (ins j, event (items ! j) i)"
          using lands o(2) by blast
        show "DoorbellRing \<in> set effs \<longleftrightarrow> (\<exists>n > 0. r = Inr n)" using bell o(1) by blast
      qed
    qed
  qed
  then show "table_inv t'" "\<exists>new. tb_rows t' = tb_rows t @ new \<and> event_insert.truncate ` set new \<subseteq>
       {event item i |item i. item \<in> set items \<and> ai_id item = Some i} \<and> (\<forall>n. r = Inr n \<longrightarrow> length new = n)"
    "\<And>e. r = Inl e \<Longrightarrow> t' = t"
    "r = Inr n \<Longrightarrow> j < length items \<Longrightarrow> ai_id (items ! j) = Some i \<Longrightarrow> lands t' (ins j, event (items ! j) i)"
    "DoorbellRing \<in> set effs \<longleftrightarrow> (\<exists>n > 0. r = Inr n)" by blast+
qed

lemma truncate_fields:
  assumes "event_insert.truncate q = ev"
  shows "ev_delivery_id q = ev_delivery_id ev" "ev_job_id q = ev_job_id ev" "ev_status q = ev_status ev"
  unfolding assms[symmetric] by (simp_all add: event_insert.defs)

lemma new_deliveries:
  assumes "table_inv t'" "tb_rows t' = tb_rows t @ new" "q \<in> set new"
  shows "ev_delivery_id q \<notin> ev_delivery_id ` set (tb_rows t)"
  using assms by (auto simp: table_inv_def)

text \<open>A reply that reports states already stored adds nothing and rings no doorbell. Only the
  identifier, the status and the conclusion count: a re-run that returns to an earlier state is such a
  reply, and its transition is not recorded.\<close>

lemma repeat_reply_stores_nothing:
  assumes "table_inv t" "upsert_runs env s owner repo items us t = (r, us', t', effs)"
    and "\<And>item i. item \<in> set items \<Longrightarrow> ai_id item = Some i \<Longrightarrow>
       \<exists>old\<in>set (tb_rows t). ev_delivery_id old = ''etag:'' @ int_str i @ '':'' @ fmt (ai_status item) @ '':'' @ fmt (ai_conclusion item)"
  shows "tb_rows t' = tb_rows t \<and> DoorbellRing \<notin> set effs"
proof -
  note u = upsert_facts[OF assms(1) assms(2)[unfolded upsert_runs_def]]
  obtain new where new: "tb_rows t' = tb_rows t @ new" "\<forall>n. r = Inr n \<longrightarrow> length new = n"
    "event_insert.truncate ` set new \<subseteq> {run_event env owner repo (pe_time_ns env s) item i |item i. item \<in> set items \<and> ai_id item = Some i}"
    using u(2) by blast
  have "new = []"
  proof (rule ccontr)
    assume "new \<noteq> []"
    then obtain q where q: "q \<in> set new" by (cases new) auto
    then obtain item i where it: "item \<in> set items" "ai_id item = Some i"
      "event_insert.truncate q = run_event env owner repo (pe_time_ns env s) item i" using new(3) by blast
    then have "ev_delivery_id q \<in> ev_delivery_id ` set (tb_rows t)"
      using assms(3)[OF it(1,2)] truncate_fields(1)[OF it(3)] by (force simp: run_event_def event_insert_defaults_def)
    then show False using new_deliveries[OF u(1) new(1) q] by blast
  qed
  then show ?thesis using new(1,2) u(5) by auto
qed

section \<open>Stalls\<close>

lemma stall_facts:
  assumes "table_inv t" "emit_stall_synthetic_events env s owner repo threshold_min us t = (r, us', t', effs)"
  shows "table_inv t' \<and> (\<exists>new. tb_rows t' = tb_rows t @ new)"
    "r = Inr n \<Longrightarrow> stall_rows env (pe_time_ns env s div NS_PER_SECOND) (threshold_min * 60)
         (stall_candidates owner repo (pe_time_ns env s - RECENCY_WINDOW_SEC * NS_PER_SECOND) t) = Inr xs \<Longrightarrow>
       \<exists>new. tb_rows t' = tb_rows t @ new \<and> length new = n
         \<and> event_insert.truncate ` set new \<subseteq> stall_event env owner repo threshold_min (pe_time_ns env s) ` set xs
         \<and> (\<forall>x\<in>set xs. \<exists>k. lands t' (pe_insert env s k, stall_event env owner repo threshold_min (pe_time_ns env s) x))"
    "r = Inr n \<Longrightarrow> DoorbellRing \<in> set effs \<longleftrightarrow> n > 0"
    "r = Inr n \<Longrightarrow> \<exists>xs. stall_rows env (pe_time_ns env s div NS_PER_SECOND) (threshold_min * 60)
         (stall_candidates owner repo (pe_time_ns env s - RECENCY_WINDOW_SEC * NS_PER_SECOND) t) = Inr xs"
proof -
  let ?now = "pe_time_ns env s" and ?ev = "stall_event env owner repo threshold_min (pe_time_ns env s)"
  let ?rows = "stall_rows env (?now div NS_PER_SECOND) (threshold_min * 60)
      (stall_candidates owner repo (?now - RECENCY_WINDOW_SEC * NS_PER_SECOND) t)"
  have same: "(table_inv t' \<and> (\<exists>new. tb_rows t' = tb_rows t @ new))
     \<and> (\<forall>n. r = Inr n \<longrightarrow> (\<exists>xs. ?rows = Inr xs \<and> (DoorbellRing \<in> set effs \<longleftrightarrow> n > 0) \<and> (\<exists>new. tb_rows t' = tb_rows t @ new \<and> length new = n
         \<and> event_insert.truncate ` set new \<subseteq> ?ev ` set xs \<and> (\<forall>x\<in>set xs. \<exists>k. lands t' (pe_insert env s k, ?ev x)))))"
  proof (cases ?rows)
    case (Inl e)
    then show ?thesis using assms by (auto simp: emit_stall_synthetic_events_def Let_def)
  next
    case rows: (Inr xs)
    obtain q us1 t1 eff1 where l: "stall_loop (pe_insert env s) ?ev 0 xs 0 us t [] = (q, us1, t1, eff1)" by (metis prod_cases4)
    have "batch_loop (stall_events (pe_insert env s) ?ev 0 xs) 0 us t [] = (map_sum BatchDb id q, us1, t1, eff1)"
      using l by (simp add: stall_loop_batch)
    from batch_loop_facts[OF assms(1) this] obtain new where
      new: "table_inv t1" "tb_rows t1 = tb_rows t @ new" "DoorbellRing \<notin> set eff1"
      "\<And>m. q = Inr m \<Longrightarrow> m = length new \<and> (\<forall>x\<in>set (stall_events (pe_insert env s) ?ev 0 xs). \<forall>env ev. x = Some (env, ev) \<longrightarrow> lands t1 (env, ev))
          \<and> event_insert.truncate ` set new \<subseteq> snd ` the ` set (stall_events (pe_insert env s) ?ev 0 xs)"
      by auto
    consider "xs = []" | "xs \<noteq> []" "\<not> pe_begin_ok env s" | (failed) e where "xs \<noteq> []" "pe_begin_ok env s" "q = Inl e"
      | (done_) m where "xs \<noteq> []" "pe_begin_ok env s" "q = Inr m"
      by (cases q) auto
    then show ?thesis
    proof cases
      case done_
      have o: "r = Inr m" "t' = t1" "effs = eff1 @ [Committed] @ (if m > 0 then [DoorbellRing] else [])"
        using assms(2) rows l done_ by (simp_all add: emit_stall_synthetic_events_def Let_def)
      have m: "m = length new" using new(4)[OF done_(3)] by (rule conjunct1)
      have "snd ` the ` set (stall_events (pe_insert env s) ?ev 0 xs) \<subseteq> ?ev ` set xs"
        by (auto simp: stall_events_set)
      from order_trans[OF conjunct2[OF conjunct2[OF new(4)[OF done_(3)]]] this]
      have sub: "event_insert.truncate ` set new \<subseteq> ?ev ` set xs" .
      have "\<exists>k. lands t1 (pe_insert env s k, ?ev x)" if "x \<in> set xs" for x
      proof -
        note x = that
        obtain j where j: "j < length xs" "x = xs ! j" using x unfolding in_set_conv_nth by blast
        then have "Some (pe_insert env s j, ?ev x) \<in> set (stall_events (pe_insert env s) ?ev 0 xs)"
          unfolding stall_events_set by (intro exI[of _ j]) simp
        then show ?thesis using new(4)[OF done_(3)] by blast
      qed
      then have "\<exists>new. tb_rows t' = tb_rows t @ new \<and> length new = m \<and> event_insert.truncate ` set new \<subseteq> ?ev ` set xs
          \<and> (\<forall>x\<in>set xs. \<exists>k. lands t' (pe_insert env s k, ?ev x))"
        using new(2) m sub o(2) by blast
      moreover have "DoorbellRing \<in> set effs \<longleftrightarrow> m > 0" using o(3) new(3) by simp
      moreover have "table_inv t' \<and> (\<exists>new. tb_rows t' = tb_rows t @ new)" using new(1,2) o(2) by blast
      ultimately show ?thesis using o(1) rows by (metis sum.inject(2))
    qed (use assms rows l in \<open>auto simp: emit_stall_synthetic_events_def Let_def\<close>)
  qed
  show "table_inv t' \<and> (\<exists>new. tb_rows t' = tb_rows t @ new)" using same by (rule conjunct1)
  note rest = spec[OF conjunct2[OF same], THEN mp]
  show "DoorbellRing \<in> set effs \<longleftrightarrow> n > 0" if "r = Inr n" using rest[OF that] by blast
  show "\<exists>xs. ?rows = Inr xs" if "r = Inr n" using rest[OF that] by blast
  show "\<exists>new. tb_rows t' = tb_rows t @ new \<and> length new = n \<and> event_insert.truncate ` set new \<subseteq> ?ev ` set xs
      \<and> (\<forall>x\<in>set xs. \<exists>k. lands t' (pe_insert env s k, ?ev x))" if "r = Inr n" "?rows = Inr xs"
    using rest[OF that(1)] that(2) by auto
qed

lemma stall_rows_set:
  assumes "stall_rows env now_s threshold_s rs = Inr xs"
  shows "x \<in> set xs \<longleftrightarrow> (\<exists>r\<in>set rs. stall_of env now_s threshold_s r = Inr (Some x))"
proof -
  obtain ys where ys: "res_map_list (stall_of env now_s threshold_s) rs = Inr ys" "xs = List.map_filter id ys"
    using assms by (auto simp: stall_rows_def res_bind_Inr_iff)
  have "list_all2 (\<lambda>r y. stall_of env now_s threshold_s r = Inr y) rs ys"
    using ys(1) by (simp add: res_map_list_Inr)
  then show ?thesis
    unfolding ys(2) by (induction rs ys rule: list_all2_induct) (auto simp: map_filter_simps split: option.splits)
qed

lemma stall_of_row: "stall_of env now_s threshold_s r = Inr (Some x) \<Longrightarrow> sl_row x = r"
  by (auto simp: stall_of_def Let_def split: option.splits json.splits if_splits)

text \<open>A stall is reported once. The rows a pass adds are stall rows of different jobs, each the job
  of a candidate (a latest row in a live state that started longer ago than the threshold) that had no
  stall row before; they are as many as the pass reports; every such candidate has its stall row
  afterwards, unless the identifier drawn for it is another row's; and the doorbell rings exactly when a
  row was added.\<close>

theorem stalls_reported_once:
  assumes "table_inv t" "emit_stall_synthetic_events env s owner repo threshold_min us t = (Inr n, us', t', effs)"
  shows "table_inv t' \<and> (DoorbellRing \<in> set effs \<longleftrightarrow> n > 0)
     \<and> (let late = (\<lambda>r x. r \<in> set (stall_candidates owner repo (pe_time_ns env s - RECENCY_WINDOW_SEC * NS_PER_SECOND) t)
                \<and> stall_of env (pe_time_ns env s div NS_PER_SECOND) (threshold_min * 60) r = Inr (Some x))
        in (\<exists>new. tb_rows t' = tb_rows t @ new \<and> length new = n \<and> distinct (map ev_job_id new)
              \<and> (\<forall>q\<in>set new. ev_status q = Some ''stalled'' \<and> ev_delivery_id q \<notin> ev_delivery_id ` set (tb_rows t)
                   \<and> (\<exists>r x. late r x \<and> ev_job_id q = ev_job_id r)))
           \<and> (\<forall>r x. late r x \<longrightarrow> (\<exists>k. lands t' (pe_insert env s k, stall_event env owner repo threshold_min (pe_time_ns env s) x))))"
proof -
  let ?ev = "stall_event env owner repo threshold_min (pe_time_ns env s)"
  note f = stall_facts[OF assms]
  obtain xs where xs: "stall_rows env (pe_time_ns env s div NS_PER_SECOND) (threshold_min * 60)
      (stall_candidates owner repo (pe_time_ns env s - RECENCY_WINDOW_SEC * NS_PER_SECOND) t) = Inr xs"
    using f(4)[OF refl] by blast
  obtain new where new: "tb_rows t' = tb_rows t @ new" "length new = n" "event_insert.truncate ` set new \<subseteq> ?ev ` set xs"
    and lands: "\<forall>x\<in>set xs. \<exists>k. lands t' (pe_insert env s k, ?ev x)"
    using f(2)[OF refl xs] by blast
  have inv: "table_inv t'" using f(1) by blast
  have q: "\<exists>r x. x \<in> set xs \<and> r = sl_row x \<and> ev_status q = Some ''stalled'' \<and> ev_job_id q = ev_job_id r
      \<and> ev_delivery_id q = ''etag:stall:'' @ int_str (the (ev_job_id q))" if "q \<in> set new" for q
  proof -
    have "event_insert.truncate q \<in> ?ev ` set xs" using new(3) that by (auto simp: image_subset_iff)
    then obtain x where x: "x \<in> set xs" "event_insert.truncate q = ?ev x" by (rule imageE) simp
    have "ev_status q = Some ''stalled'' \<and> ev_job_id q = ev_job_id (sl_row x)
        \<and> ev_delivery_id q = ''etag:stall:'' @ int_str (the (ev_job_id q))"
      using truncate_fields[OF x(2)] by (simp add: stall_event_def event_insert_defaults_def)
    then show ?thesis using x(1) by blast
  qed
  have "distinct (map ev_delivery_id new)" using inv new(1) by (simp add: table_inv_def)
  moreover have "map ev_delivery_id new = map (\<lambda>j. ''etag:stall:'' @ int_str (the j)) (map ev_job_id new)"
    using q by (auto intro!: map_cong)
  ultimately have "distinct (map ev_job_id new)" by (metis (no_types, lifting) distinct_map)
  moreover have "\<forall>p\<in>set new. ev_delivery_id p \<notin> ev_delivery_id ` set (tb_rows t)"
    using new_deliveries[OF inv new(1)] by blast
  moreover have "\<exists>r x. (r \<in> set (stall_candidates owner repo (pe_time_ns env s - RECENCY_WINDOW_SEC * NS_PER_SECOND) t)
      \<and> stall_of env (pe_time_ns env s div NS_PER_SECOND) (threshold_min * 60) r = Inr (Some x)) \<and> ev_job_id p = ev_job_id r"
    if "p \<in> set new" for p
    using q[OF that] stall_rows_set[OF xs] stall_of_row by blast
  moreover have "\<exists>k. lands t' (pe_insert env s k, ?ev x)"
    if "r \<in> set (stall_candidates owner repo (pe_time_ns env s - RECENCY_WINDOW_SEC * NS_PER_SECOND) t) \<and>
      stall_of env (pe_time_ns env s div NS_PER_SECOND) (threshold_min * 60) r = Inr (Some x)" for r x
    using lands that stall_rows_set[OF xs] by blast
  moreover have "\<forall>p\<in>set new. ev_status p = Some ''stalled''" using q by blast
  ultimately show ?thesis
    unfolding Let_def using inv f(3)[OF refl] new(1,2) by (intro conjI exI[of _ new] ballI allI impI) simp_all
qed

section \<open>ETags stand for stored items\<close>

text \<open>The items of a 200 reply with this ETag are in the table (or the identifier drawn for one is a
  stored one).\<close>

definition items_landed :: "poll_env \<Rightarrow> (int \<Rightarrow> api_item \<Rightarrow> int \<Rightarrow> event_insert) \<Rightarrow> api_item list \<Rightarrow> event_table \<Rightarrow> bool" where
  "items_landed env event items t \<longleftrightarrow>
     (\<exists>s. \<forall>item\<in>set items. \<forall>i. ai_id item = Some i \<longrightarrow> (\<exists>k. lands t (pe_insert env s k, event (pe_time_ns env s) item i)))"

definition etag_backed :: "poll_env \<Rightarrow> string \<Rightarrow> string \<Rightarrow> event_table \<Rightarrow> string \<Rightarrow> string \<Rightarrow> bool" where
  "etag_backed env owner repo t key etag \<longleftrightarrow>
     (\<exists>used items. key = repo_key owner repo \<and> fetch_runs env owner repo used = Inr (200, Some etag, items)
        \<and> items_landed env (run_event env owner repo) items t)
     \<or> (\<exists>run_id used items. key = job_key owner repo run_id \<and> fetch_jobs env owner repo run_id used = Inr (200, Some etag, items)
        \<and> items_landed env (job_event env owner repo run_id) items t)"

definition grows :: "event_table \<Rightarrow> event_table \<Rightarrow> bool" where
  "grows t t' \<longleftrightarrow> (\<exists>new. tb_rows t' = tb_rows t @ new)"

lemma grows_refl [simp]: "grows t t"
  by (simp add: grows_def)

lemma grows_trans: "grows t t1 \<Longrightarrow> grows t1 t2 \<Longrightarrow> grows t t2"
  by (auto simp: grows_def)

lemma items_landed_grows: "items_landed env event items t \<Longrightarrow> grows t t' \<Longrightarrow> items_landed env event items t'"
  unfolding items_landed_def grows_def using lands_append by blast

lemma etag_backed_grows: "etag_backed env owner repo t key etag \<Longrightarrow> grows t t' \<Longrightarrow> etag_backed env owner repo t' key etag"
  unfolding etag_backed_def using items_landed_grows by blast

text \<open>What a stage of a poll keeps: the table grows, and a new ETag is backed.\<close>

definition stage_ok :: "poll_env \<Rightarrow> string \<Rightarrow> string \<Rightarrow> poll_state \<Rightarrow> poll_state \<Rightarrow> bool" where
  "stage_ok env owner repo st st' \<longleftrightarrow>
     table_inv (ps_table st') \<and> grows (ps_table st) (ps_table st')
     \<and> (\<forall>key etag. ps_etags st' key = Some etag \<longrightarrow>
          ps_etags st key = Some etag \<or> etag_backed env owner repo (ps_table st') key etag)"

lemma stage_ok_refl: "table_inv (ps_table st) \<Longrightarrow> stage_ok env owner repo st st"
  by (simp add: stage_ok_def)

lemma stage_ok_trans:
  assumes "stage_ok env owner repo st st1" "stage_ok env owner repo st1 st2"
  shows "stage_ok env owner repo st st2"
  using assms unfolding stage_ok_def by (blast intro: grows_trans etag_backed_grows)

lemma stage_ok_stored:
  assumes "stored x st = (r, st')" "table_inv (fst (snd (snd x)))" "grows (ps_table st) (fst (snd (snd x)))"
  shows "stage_ok env owner repo st st'"
  using assms by (auto simp: stored_def stage_ok_def split: prod.splits)

text \<open>Both write passes under one contract.\<close>

lemma store_reply_ok:
  assumes "table_inv (ps_table st)" "store_reply (upsert begin_ok (pe_insert env s) (event (pe_time_ns env s))) key reply st = (r, st')"
    and backed: "\<And>etag items t. reply = Inr (200, Some etag, items) \<Longrightarrow> items_landed env event items t \<Longrightarrow>
       etag_backed env owner repo t key etag"
  shows "stage_ok env owner repo st st'"
proof (cases "\<exists>new_etag items. reply = Inr (200, new_etag, items)")
  case False
  then have "st' = st" using assms(2) by (auto simp: store_reply_def split: sum.splits if_splits)
  then show ?thesis using stage_ok_refl assms(1) by blast
next
  case True
  then obtain new_etag items where reply: "reply = Inr (200, new_etag, items)" by blast
  obtain q us t effs where u: "upsert begin_ok (pe_insert env s) (event (pe_time_ns env s)) items (ps_ulid st) (ps_table st)
      = (q, us, t, effs)" by (metis prod_cases4)
  note f = upsert_facts[OF assms(1) u]
  let ?st1 = "st\<lparr>ps_ulid := us, ps_table := t, ps_effects := ps_effects st @ effs\<rparr>"
  have g: "grows (ps_table st) t" using f(2) unfolding grows_def by blast
  have one: "stage_ok env owner repo st ?st1" using f(1) g by (simp add: stage_ok_def)
  show ?thesis
  proof (cases "\<exists>n c cs. q = Inr n \<and> new_etag = Some (c # cs)")
    case False
    then have "st' = ?st1"
      using assms(2) reply u by (cases q) (auto simp: store_reply_def stored_def keep_etag_def split: option.splits list.splits)
    then show ?thesis using one by simp
  next
    case True
    then obtain n c cs where q: "q = Inr n" "new_etag = Some (c # cs)" by blast
    have "items_landed env event items t"
      unfolding items_landed_def using f(4)[OF q(1)] by (intro exI[of _ s]) (metis in_set_conv_nth)
    then have "etag_backed env owner repo t key (c # cs)" using backed reply q(2) by blast
    moreover have "st' = ?st1\<lparr>ps_etags := (ps_etags st)(key \<mapsto> c # cs)\<rparr>"
      using assms(2) reply u q by (simp add: store_reply_def stored_def keep_etag_def)
    ultimately show ?thesis using f(1) g by (auto simp: stage_ok_def)
  qed
qed

lemma poll_jobs_ok:
  assumes "table_inv (ps_table st)" "poll_jobs env s owner repo ids new st = (r, st')"
  shows "stage_ok env owner repo st st'"
  using assms
proof (induction env s owner repo ids new st arbitrary: r st' rule: poll_jobs.induct)
  case (1 env s owner repo new st)
  then show ?case using stage_ok_refl by auto
next
  case (2 env s owner repo run_id ids new st)
  let ?key = "job_key owner repo run_id" and ?reply = "fetch_jobs env owner repo run_id (ps_etags st (job_key owner repo run_id))"
  obtain q st1 where q: "store_reply (upsert_jobs env s owner repo run_id) ?key ?reply st = (q, st1)" by force
  have one: "stage_ok env owner repo st st1"
    using store_reply_ok[where event = "job_event env owner repo run_id", OF "2.prems"(1) q[unfolded upsert_jobs_def]]
    unfolding etag_backed_def by blast
  show ?case
  proof (cases q)
    case (Inl e)
    then show ?thesis using "2.prems"(2) q one by simp
  next
    case (Inr n)
    have "table_inv (ps_table st1)" using one by (simp add: stage_ok_def)
    from "2.IH"[OF refl q[symmetric] Inr this] show ?thesis
      using "2.prems"(2) q Inr stage_ok_trans[OF one] by simp
  qed
qed


section \<open>Where the code and its documents part\<close>

text \<open>A line with two slashes is documented as skipped.\<close>

lemma two_slashes_watched: "watched_line ''a/b/c'' = Some (''a'', ''b/c'')"
  by code_simp

text \<open>A negative \<open>Retry-After\<close> makes the sleep raise out of the poll.\<close>

lemma double_five: "double 5 = 5" "double (- 5) = - 5"
proof -
  have "bitlen 5 = 3" "bitlen 1 = 1" by (code_simp+)
  moreover have "quotient_of 5 = (5, 1)" by code_simp
  ultimately show "double 5 = 5" "double (- 5) = - 5"
    by (simp_all add: double_def pow2_def round_even_def Let_def floor_eq_iff)
qed

lemma negative_retry_after_raises:
  "do_conditional_get dd etag (HttpError 429 (Some ''-5'')) = AttemptRaises PollSleepValue"
proof -
  have "py_int_of (strip ''-5'') = Some (- 5)" by code_simp
  then show ?thesis
    by (simp add: do_conditional_get_def parse_retry_after_def double_five GH_RETRY_AFTER_MAX_SEC_def min_def)
qed

section \<open>Witnesses\<close>

lemma sample_retry:
  "conditional_get (\<lambda>_. Some 100) (\<lambda>k. if k = 0 then HttpError 429 (Some ''later'') else if k = 1 then HttpNetwork else HttpOk 200 None JNull)
     None 0 GH_RETRY_ATTEMPTS = (Inr (200, None, JNull), 3, [60])"
proof -
  have "py_int_of (strip ''later'') = None" by code_simp
  then show ?thesis
    by (simp add: GH_RETRY_ATTEMPTS_def numeral_3_eq_3 do_conditional_get_def parse_retry_after_def GH_RETRY_AFTER_MAX_SEC_def)
qed

theorem retries_bounded_witness: "sum_list [60 :: rat] \<le> 180"
  using retries_bounded[OF sample_retry] by simp

definition sample_item :: "int \<Rightarrow> string \<Rightarrow> api_item" where
  "sample_item i status = \<lparr>ai_json = JNull, ai_id = Some i, ai_name = Some ''build'', ai_status = Some status,
     ai_conclusion = None, ai_head_branch = None, ai_head_sha = None\<rparr>"

definition sample_poll_env :: poll_env where
  "sample_poll_env = \<lparr>pe_replies = (\<lambda>url etag k. HttpOk 200 (Some ''e1'') (JObj [(''workflow_runs'', JArr [JNull])])),
     pe_date_delta = (\<lambda>_. None), pe_item = (\<lambda>_. sample_item 5 ''completed''), pe_dumps = (\<lambda>_. ''{}''),
     pe_loads = (\<lambda>_. Some (JObj [(''workflow_job'', JObj [(''started_at'', JStr ''x'')])])), pe_iso = (\<lambda>_. Some 0),
     pe_time_ns = (\<lambda>_. 1763337600000000000), pe_begin_ok = (\<lambda>_. True),
     pe_insert = (\<lambda>s k. sample_env (if s = 0 then 5000000 else 9000000))\<rparr>"

definition sample_poll_state :: poll_state where
  "sample_poll_state = \<lparr>ps_etags = Map.empty, ps_ulid = ulid_state0, ps_table = empty_table, ps_effects = []\<rparr>"

lemma sample_job_stored:
  "case upsert_jobs sample_poll_env 0 ''o'' ''r'' 7 [sample_item 9 ''in_progress''] ulid_state0 empty_table of (q, us, t, effs) \<Rightarrow>
     (case emit_stall_synthetic_events sample_poll_env 1 ''o'' ''r'' 60 us t of (p, st) \<Rightarrow> p = Inr 1)"
  by code_simp

theorem stalls_reported_once_witness:
  "\<exists>us t us' t' effs new. emit_stall_synthetic_events sample_poll_env 1 ''o'' ''r'' 60 us t = (Inr 1, us', t', effs)
     \<and> tb_rows t' = tb_rows t @ new \<and> length new = 1 \<and> DoorbellRing \<in> set effs"
proof -
  obtain q us t effs where j: "upsert_jobs sample_poll_env 0 ''o'' ''r'' 7 [sample_item 9 ''in_progress''] ulid_state0 empty_table
      = (q, us, t, effs)" by (metis prod_cases4)
  obtain us' t' effs' where s: "emit_stall_synthetic_events sample_poll_env 1 ''o'' ''r'' 60 us t = (Inr 1, us', t', effs')"
    using sample_job_stored unfolding j by (auto split: prod.splits)
  have "table_inv t" by (rule upsert_facts(1)[OF table_inv_empty j[unfolded upsert_jobs_def]])
  from stalls_reported_once[OF this s] obtain new where
    "tb_rows t' = tb_rows t @ new" "length new = 1" "DoorbellRing \<in> set effs'"
    unfolding Let_def by auto
  then show ?thesis using s by blast
qed

lemma sample_poll:
  "case poll_one_repo sample_poll_env 0 ''o'' ''r'' 60 sample_poll_state of (q, st) \<Rightarrow> ps_etags st ''o/r'' = Some ''e1''"
  by code_simp


end
