(* ===== verification/WB_McpSub.thy ===== *)
theory WB_McpSub
  imports WB_Untrusted WB_Subscriber
begin

text \<open>
  The push side of the MCP server: the subscription registry of \<open>waitbus/_mcp_subscriptions.py\<close>
  and, of \<open>waitbus/mcp.py\<close>, the translation of a bus frame into notifications, the fan-out to
  the subscribed sessions, the queue kept before the handshake and its flush. The server runs as
  asyncio tasks that give way only at an \<open>await\<close>, here at each send: \<open>mcp\<close> holds the
  registry, what the stream task has still to do for the frame in hand (\<open>mc_todo\<close>) and the
  flush in progress, \<open>stream_step\<close> and \<open>flush_step\<close> go on to the next send, and
  \<open>mcp_step\<close> interleaves them with the client's requests. Parameters: the order in which Python
  iterates a set, \<open>str\<close> of a JSON value that is not a string, and what the SDK answers a send.
\<close>

section \<open>The URI scheme\<close>

definition URI_CURRENT :: string where "URI_CURRENT = ''waitbus://current''"
definition URI_REPO_PREFIX :: string where "URI_REPO_PREFIX = ''waitbus://repo/''"
definition URI_EVENT_PREFIX :: string where "URI_EVENT_PREFIX = ''waitbus://event/''"
definition URI_EVENT_RAW_SUFFIX :: string where "URI_EVENT_RAW_SUFFIX = ''/raw''"
definition URI_AGENT_PREFIX :: string where "URI_AGENT_PREFIX = ''waitbus://agent/''"

lemmas uri_defs = URI_CURRENT_def URI_REPO_PREFIX_def URI_EVENT_PREFIX_def URI_EVENT_RAW_SUFFIX_def
  URI_AGENT_PREFIX_def starts_with_def ends_with_def

definition uri_matches_frame :: "string \<Rightarrow> string \<Rightarrow> string \<Rightarrow> bool" where
  "uri_matches_frame uri owner repo =
     (if uri = URI_CURRENT then True
      else if \<not> starts_with URI_REPO_PREFIX uri then False
      else (case split_on (CHR ''/'') (drop (length URI_REPO_PREFIX) uri) of
              [pat_owner, pat_repo] \<Rightarrow>
                (if pat_owner \<noteq> ''*'' \<and> pat_owner \<noteq> owner then False
                 else pat_repo = ''*'' \<or> pat_repo = repo)
            | _ \<Rightarrow> False))"

definition parse_agent_uri :: "string \<Rightarrow> string option" where
  "parse_agent_uri uri =
     (if \<not> starts_with URI_AGENT_PREFIX uri then None
      else (let name = drop (length URI_AGENT_PREFIX) uri in if name = [] then None else Some name))"

definition parse_repo_uri :: "string \<Rightarrow> (string \<times> string) option" where
  "parse_repo_uri uri =
     (if \<not> starts_with URI_REPO_PREFIX uri then None
      else (case split_on (CHR ''/'') (drop (length URI_REPO_PREFIX) uri) of
              [a, b] \<Rightarrow> if a \<noteq> [] \<and> b \<noteq> [] then Some (a, b) else None
            | _ \<Rightarrow> None))"

definition is_subscribable_uri :: "string \<Rightarrow> bool" where
  "is_subscribable_uri uri =
     (if uri = URI_CURRENT then True
      else if starts_with URI_REPO_PREFIX uri
        then (case split_on (CHR ''/'') (drop (length URI_REPO_PREFIX) uri) of
                [a, b] \<Rightarrow> a \<noteq> [] \<and> b \<noteq> [] | _ \<Rightarrow> False)
      else parse_agent_uri uri \<noteq> None)"

definition is_readable_uri :: "string \<Rightarrow> bool" where
  "is_readable_uri uri \<longleftrightarrow> uri = URI_CURRENT \<or> starts_with URI_REPO_PREFIX uri
     \<or> starts_with URI_EVENT_PREFIX uri \<or> starts_with URI_AGENT_PREFIX uri"

definition parse_event_uri :: "string \<Rightarrow> string option" where
  "parse_event_uri uri =
     (if \<not> starts_with URI_EVENT_PREFIX uri then None
      else (let tl = drop (length URI_EVENT_PREFIX) uri in
            if tl = [] \<or> ends_with URI_EVENT_RAW_SUFFIX tl then None else Some tl))"

definition parse_event_raw_uri :: "string \<Rightarrow> string option" where
  "parse_event_raw_uri uri =
     (if \<not> starts_with URI_EVENT_PREFIX uri then None
      else (let tl = drop (length URI_EVENT_PREFIX) uri in
            if \<not> ends_with URI_EVENT_RAW_SUFFIX tl then None
            else (let ulid = take (length tl - length URI_EVENT_RAW_SUFFIX) tl in
                  if ulid = [] then None else Some ulid)))"

definition agent_doorbell_uri_for_session :: "string set \<Rightarrow> string \<Rightarrow> string option" where
  "agent_doorbell_uri_for_session subscriptions msg_to =
     (case sorted_list_of_set (Set.filter (starts_with URI_AGENT_PREFIX) subscriptions) of
        [] \<Rightarrow> None
      | u # _ \<Rightarrow>
          (if msg_to \<noteq> ''*''
           then (let target = URI_AGENT_PREFIX @ msg_to in
                 if target \<in> subscriptions then Some target else None)
           else Some u))"

section \<open>Session states\<close>

definition PENDING_QUEUE_MAX :: nat where "PENDING_QUEUE_MAX = 1000"

type_synonym channel_meta = "(string \<times> codepoints) list"

text \<open>The two shapes of a queued notification; the payload kept with a ping is for diagnostics.\<close>

datatype queued_emit = QueuedPing string json | QueuedChannel codepoints channel_meta

record session_state =
  ss_subscriptions :: "string set"
  ss_initialized :: bool
  ss_pending :: "queued_emit list"
  ss_pending_overflowed :: bool

definition new_session_state :: session_state where
  "new_session_state = \<lparr>ss_subscriptions = {}, ss_initialized = False, ss_pending = [],
     ss_pending_overflowed = False\<rparr>"

text \<open>\<open>append\<close> on a \<open>deque(maxlen=n)\<close> drops from the front.\<close>

definition deque_append :: "nat \<Rightarrow> 'a list \<Rightarrow> 'a \<Rightarrow> 'a list" where
  "deque_append n xs x = (let ys = xs @ [x] in drop (length ys - n) ys)"

definition mark_overflow_if_saturated :: "session_state \<Rightarrow> session_state" where
  "mark_overflow_if_saturated st =
     (if PENDING_QUEUE_MAX \<le> length (ss_pending st) then st\<lparr>ss_pending_overflowed := True\<rparr> else st)"

definition queue_emit :: "queued_emit \<Rightarrow> session_state \<Rightarrow> session_state" where
  "queue_emit q st = (mark_overflow_if_saturated st)
     \<lparr>ss_pending := deque_append PENDING_QUEUE_MAX (ss_pending st) q\<rparr>"

definition queue_pending :: "string \<Rightarrow> json \<Rightarrow> session_state \<Rightarrow> session_state" where
  "queue_pending uri payload = queue_emit (QueuedPing uri payload)"

definition queue_pending_channel :: "codepoints \<Rightarrow> channel_meta \<Rightarrow> session_state \<Rightarrow> session_state" where
  "queue_pending_channel content meta = queue_emit (QueuedChannel content meta)"

section \<open>A frame as channel notifications\<close>

definition AGENT_MESSAGE_EVENT_TYPE :: string where "AGENT_MESSAGE_EVENT_TYPE = ''agent_message''"

definition str_of_json :: "(json \<Rightarrow> string) \<Rightarrow> json \<Rightarrow> string" where
  "str_of_json repr j = (case j of JStr s \<Rightarrow> s | _ \<Rightarrow> repr j)"

text \<open>\<open>d.get(k, "")\<close>, \<open>a or b\<close>.\<close>

definition get_or_empty :: "dict \<Rightarrow> string \<Rightarrow> json" where
  "get_or_empty d k = (case map_of d k of None \<Rightarrow> JStr [] | Some v \<Rightarrow> v)"

definition or_else :: "json \<Rightarrow> json \<Rightarrow> json" where
  "or_else a b = (if truthy a then a else b)"

text \<open>\<open>frame.get("fields") or {}\<close> used as a dict: \<open>AttributeError\<close> (None) on another type.
  A list or an object as \<open>kind\<close> is not hashable (\<open>TypeError\<close>).\<close>

definition fields_of :: "dict \<Rightarrow> dict option" where
  "fields_of frame = (let j = dict_get frame ''fields'' in if truthy j then as_dict j else Some [])"

definition unhashable :: "json \<Rightarrow> bool" where
  "unhashable j = (case j of JArr _ \<Rightarrow> True | JObj _ \<Rightarrow> True | _ \<Rightarrow> False)"

definition is_control :: "dict \<Rightarrow> bool" where
  "is_control frame \<longleftrightarrow> dict_get frame ''kind'' \<in> JStr ` set DRAINABLE_CONTROL_KINDS"

definition build_frame_emissions :: "(json \<Rightarrow> string) \<Rightarrow> dict \<Rightarrow> (codepoints \<times> channel_meta) list option" where
  "build_frame_emissions repr frame =
     (let kind = dict_get frame ''kind'' in
      if unhashable kind then None
      else if is_control frame then Some []
      else
        (let summary = or_else (dict_get frame ''summary'') (or_else (dict_get frame ''event_id'') (JStr []));
             repo = str_of_json repr (get_or_empty frame ''owner'') @ ''/'' @ str_of_json repr (get_or_empty frame ''repo'');
             event_id = str_of_json repr (get_or_empty frame ''event_id'');
             fenced = fence (cps (str_of_json repr summary)) (cps ''event-summary'')
         in case fields_of frame of
              None \<Rightarrow> None
            | Some fs \<Rightarrow>
                (if kind = JStr ''truncated''
                 then Some [(cps ''[truncated] '' @ fenced,
                             [(''repo'', strip_control (cps repo)), (''kind'', cps ''truncated''),
                              (''id'', cps event_id)])]
                 else Some [(fenced,
                             [(''repo'', strip_control (cps repo)),
                              (''kind'', cps (str_of_json repr (get_or_empty frame ''event_type''))),
                              (''id'', cps event_id),
                              (''run_id'', cps (str_of_json repr (or_else (dict_get fs ''run_id'') (JStr [])))),
                              (''conclusion'',
                                cps (str_of_json repr (or_else (dict_get fs ''conclusion'') (JStr ''pending''))))])])))"

text \<open>\<open>_META_KEY_RE\<close>; the values are strings by their type here.\<close>

definition meta_key_body :: "string \<Rightarrow> bool" where
  "meta_key_body s \<longleftrightarrow> s \<noteq> [] \<and> list_all (\<lambda>c. is_ascii_lower c \<or> is_ascii_upper c \<or> is_ascii_digit c \<or> c = CHR ''_'') s"

definition validate_channel_meta :: "channel_meta \<Rightarrow> bool" where
  "validate_channel_meta meta \<longleftrightarrow> list_all (\<lambda>(key, value). dollar_match meta_key_body key) meta"

section \<open>The server's tasks\<close>

datatype notification = ResourceUpdated string | ChannelEvent codepoints channel_meta

text \<open>What the SDK makes of a send: done, an \<open>OSError\<close>, or another exception.\<close>

datatype send_end = SendDone | SendOSError | SendRaises

text \<open>What has happened: a subscription accepted, the client's capabilities received, its
  \<open>initialized\<close>, a notification sent. The newest entry is first.\<close>

datatype mcp_event =
    Subscribed nat string
  | Negotiated nat
  | Ready nat
  | Sent nat notification

text \<open>The rest of the work on one frame.\<close>

datatype todo =
    EmitChannel codepoints channel_meta
  | FanOut dict
  | Doorbell string json "nat list"
  | VisitRepo string string json "nat list"
  | Ping nat string json

record mcp =
  mc_registry :: "nat list"
  mc_state :: "nat \<Rightarrow> session_state"
  mc_client :: "nat \<Rightarrow> string list option"
  mc_todo :: "todo list"
  mc_stream_over :: bool
  mc_flush :: "(nat \<times> bool) option"
  mc_log :: "mcp_event list"

definition init_mcp :: mcp where
  "init_mcp = \<lparr>mc_registry = [], mc_state = (\<lambda>_. new_session_state), mc_client = (\<lambda>_. None),
     mc_todo = [], mc_stream_over = False, mc_flush = None, mc_log = []\<rparr>"

definition get_state :: "nat \<Rightarrow> mcp \<Rightarrow> mcp" where
  "get_state s m =
     (if s \<in> set (mc_registry m) then m
      else m\<lparr>mc_registry := mc_registry m @ [s], mc_state := (mc_state m)(s := new_session_state)\<rparr>)"

definition upd_state :: "nat \<Rightarrow> (session_state \<Rightarrow> session_state) \<Rightarrow> mcp \<Rightarrow> mcp" where
  "upd_state s f m = m\<lparr>mc_state := (mc_state m)(s := f (mc_state m s))\<rparr>"

definition log_event :: "mcp_event \<Rightarrow> mcp \<Rightarrow> mcp" where
  "log_event e m = m\<lparr>mc_log := e # mc_log m\<rparr>"

definition client_negotiated_channel :: "nat \<Rightarrow> mcp \<Rightarrow> bool" where
  "client_negotiated_channel s m =
     (case mc_client m s of None \<Rightarrow> False | Some experimental \<Rightarrow> ''claude/channel'' \<in> set experimental)"

text \<open>A send whose exception is suppressed.\<close>

definition send_quiet :: "send_end \<Rightarrow> nat \<Rightarrow> notification \<Rightarrow> mcp \<Rightarrow> mcp" where
  "send_quiet r s n m = (if r = SendDone then log_event (Sent s n) m else m)"

definition ping_session_uri :: "send_end \<Rightarrow> nat \<Rightarrow> string \<Rightarrow> json \<Rightarrow> mcp \<Rightarrow> mcp" where
  "ping_session_uri r s uri frame_id m =
     (if \<not> ss_initialized (mc_state m s)
      then upd_state s (queue_pending uri (JObj [(''uri'', JStr uri), (''frame_id'', frame_id)])) m
      else send_quiet r s (ResourceUpdated uri) m)"

text \<open>The end of the stream task (\<open>_stream_events\<close>): the session leaves the registry.\<close>

definition end_stream :: "nat \<Rightarrow> mcp \<Rightarrow> mcp" where
  "end_stream own m = m\<lparr>mc_todo := [], mc_stream_over := True,
     mc_registry := filter (\<lambda>s. s \<noteq> own) (mc_registry m)\<rparr>"

text \<open>A send of the channel notification is not guarded: an \<open>OSError\<close> ends the connection (the
  rest of the frame is lost), another exception the task.\<close>

definition emit_channel :: "nat \<Rightarrow> send_end \<Rightarrow> codepoints \<Rightarrow> channel_meta \<Rightarrow> mcp \<Rightarrow> mcp" where
  "emit_channel own r content meta m =
     (if \<not> ss_initialized (mc_state m own) then upd_state own (queue_pending_channel content meta) m
      else if client_negotiated_channel own m
        then (if \<not> validate_channel_meta meta then end_stream own m
              else (case r of
                SendDone \<Rightarrow> log_event (Sent own (ChannelEvent content meta)) m
              | SendOSError \<Rightarrow> m\<lparr>mc_todo := []\<rparr>
              | SendRaises \<Rightarrow> end_stream own m))
      else m)"

text \<open>The head of \<open>_emit_to_subscribed_sessions\<close> and \<open>_emit_agent_doorbell\<close>.\<close>

definition fan_out_plan :: "(json \<Rightarrow> string) \<Rightarrow> dict \<Rightarrow> nat list \<Rightarrow> todo list option" where
  "fan_out_plan repr frame sessions =
     (if unhashable (dict_get frame ''kind'') then None
      else if is_control frame then Some []
      else if dict_get frame ''event_type'' = JStr AGENT_MESSAGE_EVENT_TYPE
        then (case fields_of frame of
                None \<Rightarrow> None
              | Some fs \<Rightarrow>
                  (let msg_to = str_of_json repr (or_else (dict_get fs ''msg_to'') (JStr [])) in
                   if msg_to = [] then Some []
                   else Some [Doorbell msg_to (dict_get frame ''event_id'') sessions]))
      else (let owner = str_of_json repr (get_or_empty frame ''owner'');
                repo = str_of_json repr (get_or_empty frame ''repo'')
            in if owner = [] \<or> repo = [] then Some []
               else Some [VisitRepo owner repo (dict_get frame ''event_id'') sessions]))"

definition matched_uris :: "(string set \<Rightarrow> string list) \<Rightarrow> string \<Rightarrow> string \<Rightarrow> session_state \<Rightarrow> string list" where
  "matched_uris order owner repo st =
     filter (\<lambda>uri. uri_matches_frame uri owner repo) (order (ss_subscriptions st))"

fun stream_step :: "(json \<Rightarrow> string) \<Rightarrow> (string set \<Rightarrow> string list) \<Rightarrow> nat \<Rightarrow> send_end \<Rightarrow> todo list \<Rightarrow> mcp \<Rightarrow> mcp" where
  "stream_step repr order own r [] m = m"
| "stream_step repr order own r (EmitChannel content meta # ts) m =
     emit_channel own r content meta (m\<lparr>mc_todo := ts\<rparr>)"
| "stream_step repr order own r (FanOut frame # ts) m =
     (case fan_out_plan repr frame (mc_registry m) of
        None \<Rightarrow> end_stream own m
      | Some plan \<Rightarrow> m\<lparr>mc_todo := plan @ ts\<rparr>)"
| "stream_step repr order own r (Doorbell msg_to frame_id [] # ts) m = m\<lparr>mc_todo := ts\<rparr>"
| "stream_step repr order own r (Doorbell msg_to frame_id (s # ss) # ts) m =
     (let rest = Doorbell msg_to frame_id ss # ts in
      case agent_doorbell_uri_for_session (ss_subscriptions (mc_state m s)) msg_to of
        None \<Rightarrow> m\<lparr>mc_todo := rest\<rparr>
      | Some uri \<Rightarrow> ping_session_uri r s uri frame_id (m\<lparr>mc_todo := rest\<rparr>))"
| "stream_step repr order own r (VisitRepo owner repo frame_id [] # ts) m = m\<lparr>mc_todo := ts\<rparr>"
| "stream_step repr order own r (VisitRepo owner repo frame_id (s # ss) # ts) m =
     m\<lparr>mc_todo := map (\<lambda>uri. Ping s uri frame_id) (matched_uris order owner repo (mc_state m s))
                  @ VisitRepo owner repo frame_id ss # ts\<rparr>"
| "stream_step repr order own r (Ping s uri frame_id # ts) m =
     ping_session_uri r s uri frame_id (m\<lparr>mc_todo := ts\<rparr>)"

text \<open>A frame read from the bus: \<open>_emit_frame\<close>, then the fan-out.\<close>

definition take_frame :: "(json \<Rightarrow> string) \<Rightarrow> nat \<Rightarrow> dict \<Rightarrow> mcp \<Rightarrow> mcp" where
  "take_frame repr own frame m =
     (case build_frame_emissions repr frame of
        None \<Rightarrow> end_stream own m
      | Some emissions \<Rightarrow>
          (if emissions = [] then m else get_state own m)
            \<lparr>mc_todo := map (\<lambda>(content, meta). EmitChannel content meta) emissions @ [FanOut frame]\<rparr>)"

text \<open>The client's \<open>notifications/initialized\<close> starts the flush; each step sends one entry,
  the last the overflow marker.\<close>

definition begin_flush :: "nat \<Rightarrow> mcp \<Rightarrow> mcp" where
  "begin_flush s m =
     (let m1 = log_event (Ready s) (upd_state s (\<lambda>st. st\<lparr>ss_initialized := True\<rparr>) (get_state s m)) in
      m1\<lparr>mc_flush := Some (s, client_negotiated_channel s m1)\<rparr>)"

definition overflow_marker :: notification where
  "overflow_marker = ChannelEvent (cps ''[truncated] pre-init notification queue overflowed'')
     [(''kind'', cps ''truncated'')]"

definition flush_step :: "send_end \<Rightarrow> nat \<Rightarrow> bool \<Rightarrow> mcp \<Rightarrow> mcp" where
  "flush_step r s channel_negotiated m =
     (let st = mc_state m s in
      case ss_pending st of
        q # rest \<Rightarrow>
          (let m1 = upd_state s (\<lambda>st. st\<lparr>ss_pending := rest\<rparr>) m in
           case q of
             QueuedChannel content meta \<Rightarrow>
               (if channel_negotiated \<and> validate_channel_meta meta
                then send_quiet r s (ChannelEvent content meta) m1 else m1)
           | QueuedPing uri _ \<Rightarrow> send_quiet r s (ResourceUpdated uri) m1)
      | [] \<Rightarrow>
          (if ss_pending_overflowed st \<and> channel_negotiated
           then send_quiet r s overflow_marker
                  (upd_state s (\<lambda>st. st\<lparr>ss_pending_overflowed := False\<rparr>) (m\<lparr>mc_flush := None\<rparr>))
           else m\<lparr>mc_flush := None\<rparr>))"

text \<open>The subscribe and unsubscribe handlers; the context, when there is one, names the session.\<close>

datatype subscribe_refusal = NotSubscribable string | BroadcastUnreachable

definition subscribe_handler :: "bool \<Rightarrow> nat option \<Rightarrow> string \<Rightarrow> mcp \<Rightarrow> (subscribe_refusal + unit) \<times> mcp" where
  "subscribe_handler socket_exists ctx uri m =
     (if \<not> is_subscribable_uri uri then (Inl (NotSubscribable uri), m)
      else if \<not> socket_exists then (Inl BroadcastUnreachable, m)
      else (case ctx of
              None \<Rightarrow> (Inr (), m)
            | Some s \<Rightarrow> (Inr (), log_event (Subscribed s uri)
                (upd_state s (\<lambda>st. st\<lparr>ss_subscriptions := insert uri (ss_subscriptions st)\<rparr>) (get_state s m)))))"

definition unsubscribe_handler :: "nat option \<Rightarrow> string \<Rightarrow> mcp \<Rightarrow> mcp" where
  "unsubscribe_handler ctx uri m =
     (case ctx of
        None \<Rightarrow> m
      | Some s \<Rightarrow>
          (if s \<notin> set (mc_registry m) then m
           else upd_state s (\<lambda>st. st\<lparr>ss_subscriptions := ss_subscriptions st - {uri}\<rparr>) m))"

text \<open>The tasks interleaved; \<open>own\<close> is the session the stream task belongs to. The handshake of
  the SDK stores the client's capabilities.\<close>

definition negotiate :: "nat \<Rightarrow> string list \<Rightarrow> mcp \<Rightarrow> mcp" where
  "negotiate s experimental m =
     (let m1 = m\<lparr>mc_client := (mc_client m)(s := Some experimental)\<rparr> in
      if ''claude/channel'' \<in> set experimental then log_event (Negotiated s) m1 else m1)"

inductive mcp_step :: "(json \<Rightarrow> string) \<Rightarrow> (string set \<Rightarrow> string list) \<Rightarrow> nat \<Rightarrow> mcp \<Rightarrow> mcp \<Rightarrow> bool"
  for repr order own where
  frame: "mc_todo m = [] \<Longrightarrow> \<not> mc_stream_over m \<Longrightarrow> mcp_step repr order own m (take_frame repr own frame m)"
| stream: "mcp_step repr order own m (stream_step repr order own r (mc_todo m) m)"
| subscribe: "mcp_step repr order own m (snd (subscribe_handler socket_exists ctx uri m))"
| unsubscribe: "mcp_step repr order own m (unsubscribe_handler ctx uri m)"
| negotiate: "mcp_step repr order own m (negotiate s experimental m)"
| initialized: "mc_flush m = None \<Longrightarrow> mcp_step repr order own m (begin_flush s m)"
| flush: "mc_flush m = Some (s, neg) \<Longrightarrow> mcp_step repr order own m (flush_step r s neg m)"

inductive mcp_reach :: "(json \<Rightarrow> string) \<Rightarrow> (string set \<Rightarrow> string list) \<Rightarrow> nat \<Rightarrow> mcp \<Rightarrow> bool"
  for repr order own where
  start: "mcp_reach repr order own init_mcp"
| step: "mcp_reach repr order own m \<Longrightarrow> mcp_step repr order own m m' \<Longrightarrow> mcp_reach repr order own m'"

inductive_cases mcp_step_cases: "mcp_step repr order own m m'"

end
