(* ===== verification/WB_McpSubProps.thy ===== *)
theory WB_McpSubProps
  imports WB_McpSub
begin

text \<open>
  What the push side of the MCP server guarantees. \<open>mcp_inv\<close> holds in every state the
  interleaved tasks can reach: each entry of the log is justified by what stands before it. The
  fan-out of one frame is then computed to its end, per session, and the queue kept before the
  handshake is compared with the list of everything queued.
\<close>

section \<open>The invariant of the tasks\<close>

fun justified :: "mcp_event \<Rightarrow> mcp_event list \<Rightarrow> bool" where
  "justified (Sent s (ResourceUpdated uri)) l \<longleftrightarrow>
     Ready s \<in> set l \<and> Subscribed s uri \<in> set l \<and> is_subscribable_uri uri"
| "justified (Sent s (ChannelEvent content meta)) l \<longleftrightarrow>
     Ready s \<in> set l \<and> Negotiated s \<in> set l \<and> validate_channel_meta meta"
| "justified (Subscribed s uri) l \<longleftrightarrow> is_subscribable_uri uri"
| "justified _ l \<longleftrightarrow> True"

fun log_ok :: "mcp_event list \<Rightarrow> bool" where
  "log_ok [] \<longleftrightarrow> True"
| "log_ok (e # l) \<longleftrightarrow> justified e l \<and> log_ok l"

fun queued_ok :: "mcp_event list \<Rightarrow> nat \<Rightarrow> queued_emit \<Rightarrow> bool" where
  "queued_ok l s (QueuedPing uri _) \<longleftrightarrow> Subscribed s uri \<in> set l"
| "queued_ok l s (QueuedChannel _ _) \<longleftrightarrow> True"

fun todo_ok :: "mcp_event list \<Rightarrow> todo \<Rightarrow> bool" where
  "todo_ok l (Ping s uri _) \<longleftrightarrow> Subscribed s uri \<in> set l"
| "todo_ok l _ \<longleftrightarrow> True"

definition state_ok :: "mcp_event list \<Rightarrow> nat \<Rightarrow> session_state \<Rightarrow> bool" where
  "state_ok l s st \<longleftrightarrow>
     finite (ss_subscriptions st) \<and> (\<forall>uri\<in>ss_subscriptions st. Subscribed s uri \<in> set l)
     \<and> (ss_initialized st \<longrightarrow> Ready s \<in> set l)
     \<and> length (ss_pending st) \<le> PENDING_QUEUE_MAX \<and> list_all (queued_ok l s) (ss_pending st)"

definition mcp_inv :: "mcp \<Rightarrow> bool" where
  "mcp_inv m \<longleftrightarrow>
     log_ok (mc_log m) \<and> (\<forall>s. state_ok (mc_log m) s (mc_state m s))
     \<and> (\<forall>s. client_negotiated_channel s m \<longrightarrow> Negotiated s \<in> set (mc_log m))
     \<and> list_all (todo_ok (mc_log m)) (mc_todo m)
     \<and> (\<forall>s neg. mc_flush m = Some (s, neg) \<longrightarrow>
          Ready s \<in> set (mc_log m) \<and> (neg \<longrightarrow> Negotiated s \<in> set (mc_log m)))
     \<and> distinct (mc_registry m)"

lemma client_negotiated_cong: "mc_client m' = mc_client m \<Longrightarrow> client_negotiated_channel s m' = client_negotiated_channel s m"
  by (simp add: client_negotiated_channel_def)

lemma client_negotiated_simps [simp]:
  "client_negotiated_channel s (upd_state t f m) = client_negotiated_channel s m"
  "client_negotiated_channel s (log_event e m) = client_negotiated_channel s m"
  "client_negotiated_channel s (get_state t m) = client_negotiated_channel s m"
  "client_negotiated_channel s (m\<lparr>mc_todo := ts\<rparr>) = client_negotiated_channel s m"
  "client_negotiated_channel s (m\<lparr>mc_flush := fl\<rparr>) = client_negotiated_channel s m"
  "client_negotiated_channel s (end_stream own m) = client_negotiated_channel s m"
  by (simp_all add: client_negotiated_channel_def upd_state_def log_event_def get_state_def end_stream_def)

text \<open>More log justifies at least as much.\<close>

lemma queued_ok_mono: "queued_ok l s q \<Longrightarrow> queued_ok (e # l) s q"
  by (cases q) auto

lemma todo_ok_mono: "todo_ok l t \<Longrightarrow> todo_ok (e # l) t"
  by (cases t) auto

lemma state_ok_mono: "state_ok l s st \<Longrightarrow> state_ok (e # l) s st"
  by (auto simp: state_ok_def list_all_iff queued_ok_mono)

lemma inv_log: "mcp_inv m \<Longrightarrow> justified e (mc_log m) \<Longrightarrow> mcp_inv (log_event e m)"
  by (auto simp: mcp_inv_def log_event_def state_ok_mono list_all_iff todo_ok_mono client_negotiated_channel_def)

lemma inv_upd: "mcp_inv m \<Longrightarrow> state_ok (mc_log m) s (f (mc_state m s)) \<Longrightarrow> mcp_inv (upd_state s f m)"
  by (auto simp: mcp_inv_def upd_state_def client_negotiated_channel_def)

lemma inv_todo: "mcp_inv m \<Longrightarrow> list_all (todo_ok (mc_log m)) ts \<Longrightarrow> mcp_inv (m\<lparr>mc_todo := ts\<rparr>)"
  by (simp add: mcp_inv_def client_negotiated_channel_def)

lemma inv_no_flush: "mcp_inv m \<Longrightarrow> mcp_inv (m\<lparr>mc_flush := None\<rparr>)"
  by (simp add: mcp_inv_def client_negotiated_channel_def)

lemma state_ok_new [simp]: "state_ok l s new_session_state"
  by (simp add: state_ok_def new_session_state_def)

lemma inv_get_state: "mcp_inv m \<Longrightarrow> mcp_inv (get_state s m)"
  by (auto simp: mcp_inv_def get_state_def client_negotiated_channel_def)

lemma inv_end_stream: "mcp_inv m \<Longrightarrow> mcp_inv (end_stream own m)"
  by (simp add: mcp_inv_def end_stream_def client_negotiated_channel_def)

lemma inv_state_ok: "mcp_inv m \<Longrightarrow> state_ok (mc_log m) s (mc_state m s)"
  by (simp add: mcp_inv_def)

lemma queue_emit_fields [simp]:
  "ss_subscriptions (queue_emit q st) = ss_subscriptions st"
  "ss_initialized (queue_emit q st) = ss_initialized st"
  by (simp_all add: queue_emit_def mark_overflow_if_saturated_def)

lemma deque_append_length: "length xs \<le> n \<Longrightarrow> length (deque_append n xs x) \<le> n"
  by (simp add: deque_append_def Let_def)

lemma deque_append_set: "set (deque_append n xs x) \<subseteq> insert x (set xs)"
  using set_drop_subset[of "length (xs @ [x]) - n" "xs @ [x]"] by (auto simp: deque_append_def Let_def)

lemma ss_pending_queue_emit: "ss_pending (queue_emit q st) = deque_append PENDING_QUEUE_MAX (ss_pending st) q"
  by (simp add: queue_emit_def)

lemma state_ok_queue: "state_ok l s st \<Longrightarrow> queued_ok l s q \<Longrightarrow> state_ok l s (queue_emit q st)"
  using deque_append_set[of PENDING_QUEUE_MAX "ss_pending st" q]
  by (auto simp: state_ok_def ss_pending_queue_emit list_all_iff deque_append_length)

lemma inv_send_quiet: "mcp_inv m \<Longrightarrow> justified (Sent s n) (mc_log m) \<Longrightarrow> mcp_inv (send_quiet r s n m)"
  by (simp add: send_quiet_def inv_log)

lemma log_ok_subscribed: "log_ok l \<Longrightarrow> Subscribed s uri \<in> set l \<Longrightarrow> is_subscribable_uri uri"
  by (induction l) auto

lemma inv_subscribable: "mcp_inv m \<Longrightarrow> Subscribed s uri \<in> set (mc_log m) \<Longrightarrow> is_subscribable_uri uri"
  using log_ok_subscribed by (auto simp: mcp_inv_def)

lemma inv_ping:
  assumes "mcp_inv m" "Subscribed s uri \<in> set (mc_log m)"
  shows "mcp_inv (ping_session_uri r s uri fid m)"
  using assms inv_state_ok[OF assms(1), of s] inv_subscribable[OF assms]
  by (auto simp: ping_session_uri_def queue_pending_def state_ok_def[of _ _ "mc_state m s"]
      intro!: inv_upd inv_send_quiet state_ok_queue)

lemma inv_emit_channel: "mcp_inv m \<Longrightarrow> mcp_inv (emit_channel own r content meta m)"
  by (auto simp: emit_channel_def queue_pending_channel_def mcp_inv_def[of m] state_ok_def[of _ _ "mc_state m _"]
      split: send_end.splits intro!: inv_upd inv_log inv_end_stream inv_todo state_ok_queue inv_state_ok)

lemma doorbell_subscribed: "agent_doorbell_uri_for_session subs msg_to = Some uri \<Longrightarrow> uri \<in> subs"
proof (cases "finite (Set.filter (starts_with URI_AGENT_PREFIX) subs)")
  case True
  assume "agent_doorbell_uri_for_session subs msg_to = Some uri"
  then show ?thesis
    using set_sorted_list_of_set[OF True]
    by (auto simp: agent_doorbell_uri_for_session_def Let_def split: list.splits if_splits)
qed (simp add: agent_doorbell_uri_for_session_def)

definition set_order :: "('a set \<Rightarrow> 'a list) \<Rightarrow> bool" where
  "set_order order \<longleftrightarrow> (\<forall>S. finite S \<longrightarrow> set (order S) = S \<and> distinct (order S))"

lemma set_order_sorted: "set_order (sorted_list_of_set :: 'a::linorder set \<Rightarrow> 'a list)"
  by (simp add: set_order_def)

lemma fan_out_plan_ok: "fan_out_plan repr frame ss = Some plan \<Longrightarrow> list_all (todo_ok l) plan"
  by (auto simp: fan_out_plan_def Let_def split: if_splits option.splits)

lemma inv_stream_step:
  assumes "set_order order" "mcp_inv m"
  shows "mcp_inv (stream_step repr order own r (mc_todo m) m)"
proof (cases "mc_todo m")
  case (Cons t ts)
  then have ts: "list_all (todo_ok (mc_log m)) ts" and t: "todo_ok (mc_log m) t"
    using assms(2) by (simp_all add: mcp_inv_def)
  note inv = inv_todo[OF assms(2)]
  show ?thesis
  proof (cases t)
    case (EmitChannel content meta)
    with Cons show ?thesis by (simp add: inv_emit_channel inv ts)
  next
    case (FanOut frame)
    with Cons show ?thesis
      by (auto split: option.splits intro!: inv inv_end_stream assms(2) simp: ts fan_out_plan_ok)
  next
    case (Doorbell msg_to fid ss)
    show ?thesis
    proof (cases ss)
      case (Cons s ss')
      have st: "state_ok (mc_log m) s (mc_state m s)" by (rule inv_state_ok[OF assms(2)])
      have "mcp_inv (ping_session_uri r s uri fid (m\<lparr>mc_todo := Doorbell msg_to fid ss' # ts\<rparr>))"
        if "agent_doorbell_uri_for_session (ss_subscriptions (mc_state m s)) msg_to = Some uri" for uri
        using doorbell_subscribed[OF that] st by (intro inv_ping inv) (auto simp: ts state_ok_def)
      then show ?thesis
        using \<open>mc_todo m = t # ts\<close> Doorbell Cons by (auto simp: ts Let_def intro!: inv split: option.splits)
    qed (use Doorbell Cons in \<open>simp add: inv ts\<close>)
  next
    case (VisitRepo owner repo fid ss)
    show ?thesis
    proof (cases ss)
      case (Cons s ss')
      have st: "state_ok (mc_log m) s (mc_state m s)" by (rule inv_state_ok[OF assms(2)])
      then have "set (order (ss_subscriptions (mc_state m s))) = ss_subscriptions (mc_state m s)"
        using assms(1) by (simp add: state_ok_def set_order_def)
      then show ?thesis
        using \<open>mc_todo m = t # ts\<close> VisitRepo Cons st
        by (auto simp: ts matched_uris_def state_ok_def list_all_iff intro!: inv)
           (use ts in \<open>auto simp: list_all_iff\<close>)
    qed (use VisitRepo Cons in \<open>simp add: inv ts\<close>)
  next
    case (Ping s uri fid)
    with Cons t show ?thesis by (auto intro!: inv_ping inv simp: ts)
  qed
qed (simp add: assms)

lemma inv_take_frame: "mcp_inv m \<Longrightarrow> mcp_inv (take_frame repr own frame m)"
  by (auto simp: take_frame_def list_all_iff split: option.splits if_splits prod.splits
      intro!: inv_todo inv_get_state inv_end_stream)

lemma mc_log_simps [simp]:
  "mc_log (upd_state s f m) = mc_log m" "mc_log (get_state s m) = mc_log m"
  "mc_log (log_event e m) = e # mc_log m"
  by (simp_all add: upd_state_def get_state_def log_event_def)

lemma mc_state_upd [simp]: "mc_state (upd_state s f m) t = (if t = s then f (mc_state m s) else mc_state m t)"
  by (simp add: upd_state_def)

lemma inv_begin_flush:
  assumes "mcp_inv m"
  shows "mcp_inv (begin_flush s m)"
proof -
  let ?m0 = "log_event (Ready s) (get_state s m)"
  let ?m1 = "upd_state s (\<lambda>st. st\<lparr>ss_initialized := True\<rparr>) ?m0"
  have m0: "mcp_inv ?m0" by (intro inv_log inv_get_state assms) simp
  have m1: "mcp_inv ?m1"
    using inv_state_ok[OF m0, of s] by (intro inv_upd m0) (simp add: state_ok_def)
  have eq: "log_event (Ready s) (upd_state s (\<lambda>st. st\<lparr>ss_initialized := True\<rparr>) (get_state s m)) = ?m1"
    by (simp add: upd_state_def log_event_def)
  show ?thesis
    using m1 unfolding begin_flush_def eq Let_def
    by (auto simp: mcp_inv_def[of "_\<lparr>mc_flush := _\<rparr>"] mcp_inv_def[of "?m1"])
qed

lemma inv_flush_step:
  assumes "mcp_inv m" "mc_flush m = Some (s, neg)"
  shows "mcp_inv (flush_step r s neg m)"
proof (cases "ss_pending (mc_state m s)")
  case Nil
  have "mcp_inv (upd_state s (\<lambda>st. st\<lparr>ss_pending_overflowed := False\<rparr>) (m\<lparr>mc_flush := None\<rparr>))"
    using inv_state_ok[OF assms(1), of s] by (intro inv_upd inv_no_flush assms) (simp add: state_ok_def)
  moreover have "validate_channel_meta [(''kind'', cps ''truncated'')]" by code_simp
  ultimately show ?thesis
    using assms Nil
    by (auto simp: flush_step_def overflow_marker_def mcp_inv_def[of m] intro!: inv_send_quiet inv_no_flush)
next
  case (Cons q rest)
  let ?m1 = "upd_state s (\<lambda>st. st\<lparr>ss_pending := rest\<rparr>) m"
  have st: "state_ok (mc_log m) s (mc_state m s)" by (rule inv_state_ok[OF assms(1)])
  then have m1: "mcp_inv ?m1"
    using Cons by (intro inv_upd assms) (simp add: state_ok_def)
  have ready: "Ready s \<in> set (mc_log m)" "neg \<Longrightarrow> Negotiated s \<in> set (mc_log m)"
    using assms by (auto simp: mcp_inv_def)
  show ?thesis
  proof (cases q)
    case (QueuedPing uri p)
    then have "Subscribed s uri \<in> set (mc_log m)" using st Cons by (simp add: state_ok_def)
    with ready inv_subscribable[OF assms(1) this] show ?thesis
      using Cons QueuedPing by (auto simp: flush_step_def intro!: inv_send_quiet m1)
  next
    case (QueuedChannel c meta)
    with ready show ?thesis
      using Cons by (auto simp: flush_step_def Let_def intro!: inv_send_quiet m1)
  qed
qed

lemma mcp_inv_subscribe: "mcp_inv m \<Longrightarrow> mcp_inv (snd (subscribe_handler ex ctx uri m))"
proof (cases ctx)
  case (Some s)
  assume inv: "mcp_inv m"
  let ?m0 = "log_event (Subscribed s uri) (get_state s m)"
  let ?f = "\<lambda>st. st\<lparr>ss_subscriptions := insert uri (ss_subscriptions st)\<rparr>"
  have eq: "log_event (Subscribed s uri) (upd_state s ?f (get_state s m)) = upd_state s ?f ?m0"
    by (simp add: upd_state_def log_event_def)
  have "mcp_inv (upd_state s ?f ?m0)" if "is_subscribable_uri uri"
  proof -
    have m0: "mcp_inv ?m0" by (intro inv_log inv_get_state inv) (simp add: that)
    show ?thesis
      using inv_state_ok[OF m0, of s] by (intro inv_upd m0) (simp add: state_ok_def)
  qed
  then show ?thesis using Some inv by (auto simp: subscribe_handler_def eq)
qed (auto simp: subscribe_handler_def)

lemma inv_unsubscribe: "mcp_inv m \<Longrightarrow> mcp_inv (unsubscribe_handler ctx uri m)"
  using inv_state_ok by (auto simp: unsubscribe_handler_def state_ok_def split: option.splits intro!: inv_upd)

lemma inv_negotiate: "mcp_inv m \<Longrightarrow> mcp_inv (negotiate s ex m)"
  by (auto simp: negotiate_def Let_def mcp_inv_def log_event_def client_negotiated_channel_def
      state_ok_mono list_all_iff todo_ok_mono)

lemma mcp_reach_inv:
  assumes "mcp_reach repr order own m" "set_order order"
  shows "mcp_inv m"
  using assms(1)
proof induction
  case start
  show ?case by (simp add: mcp_inv_def init_mcp_def client_negotiated_channel_def)
next
  case (step m m')
  from step.hyps(2) step.IH show ?case
    by cases (simp_all add: inv_take_frame inv_stream_step[OF assms(2)] mcp_inv_subscribe inv_unsubscribe
        inv_negotiate inv_begin_flush inv_flush_step)
qed

lemma log_ok_split: "log_ok (post @ e # pre) \<Longrightarrow> justified e pre"
  by (induction post) auto

text \<open>C31: Whatever the client, the bus and the handshake do in whatever order, a notification
  leaves the server only for a session whose client has sent \<open>initialized\<close>; a
  \<open>resources/updated\<close> only for a URI that session subscribed to before (so never for an event
  URI); the private channel notification only for a client that negotiated it, with meta keys its
  renderer keeps.\<close>

theorem mcp_sends_only_asked_for:
  assumes "mcp_reach repr order own m" "set_order order" "mc_log m = post @ Sent s n # pre"
  shows "Ready s \<in> set pre
    \<and> (case n of
         ResourceUpdated uri \<Rightarrow> Subscribed s uri \<in> set pre \<and> is_subscribable_uri uri
       | ChannelEvent content meta \<Rightarrow> Negotiated s \<in> set pre \<and> validate_channel_meta meta)"
proof -
  have "log_ok (mc_log m)" using mcp_reach_inv[OF assms(1,2)] by (simp add: mcp_inv_def)
  then have "justified (Sent s n) pre" unfolding assms(3) by (rule log_ok_split)
  then show ?thesis by (cases n) auto
qed

text \<open>Concrete runs.\<close>

definition repo_frame :: "string \<Rightarrow> dict" where
  "repo_frame repo = [(''kind'', JStr ''event''), (''event_type'', JStr ''workflow_run''),
     (''owner'', JStr ''o''), (''repo'', JStr repo), (''event_id'', JStr ''e'')]"

abbreviation demo_step :: "mcp \<Rightarrow> mcp" where
  "demo_step m \<equiv> stream_step (\<lambda>_. []) sorted_list_of_set 0 SendDone (mc_todo m) m"

definition demo_frame :: "string \<Rightarrow> mcp \<Rightarrow> mcp" where
  "demo_frame repo m = (demo_step ^^ 5) (take_frame (\<lambda>_. []) 0 (repo_frame repo) m)"

definition demo_subscribe :: "string \<Rightarrow> mcp \<Rightarrow> mcp" where
  "demo_subscribe uri m = snd (subscribe_handler True (Some 0) uri m)"

lemma demo_emissions:
  "\<exists>content meta. build_frame_emissions repr (repo_frame repo) = Some [(content, meta)]
     \<and> fan_out_plan repr (repo_frame repo) ss = (if repo = [] then Some [] else Some [VisitRepo ''o'' repo (JStr ''e'') ss])"
  by (simp add: build_frame_emissions_def repo_frame_def unhashable_def is_control_def dict_get_def
      DRAINABLE_CONTROL_KINDS_def KIND_HEARTBEAT_def KIND_SUBSCRIBE_ACK_def fields_of_def fan_out_plan_def
      AGENT_MESSAGE_EVENT_TYPE_def get_or_empty_def str_of_json_def image_iff Let_def)

lemma mc_flush_demo [simp]:
  "mc_flush (upd_state s f m) = mc_flush m" "mc_flush (log_event e m) = mc_flush m"
  by (simp_all add: upd_state_def log_event_def)

lemma demo_frame_eq:
  assumes "mc_registry m = [0]" "\<not> client_negotiated_channel 0 m" "repo \<noteq> []"
    "matched_uris sorted_list_of_set ''o'' repo (mc_state m 0) = [uri]"
  shows "\<exists>content meta. demo_frame repo m =
    (if ss_initialized (mc_state m 0) then log_event (Sent 0 (ResourceUpdated uri)) (m\<lparr>mc_todo := []\<rparr>)
     else upd_state 0 (queue_pending uri (JObj [(''uri'', JStr uri), (''frame_id'', JStr ''e'')])
                       \<circ> queue_pending_channel content meta) (m\<lparr>mc_todo := []\<rparr>))"
proof -
  from demo_emissions[of "\<lambda>_. []" repo "[0]"] assms(3) obtain content meta where
    e: "build_frame_emissions (\<lambda>_. []) (repo_frame repo) = Some [(content, meta)]"
    and p: "fan_out_plan (\<lambda>_. []) (repo_frame repo) [0] = Some [VisitRepo ''o'' repo (JStr ''e'') [0]]"
    by auto
  have g: "get_state 0 m = m" using assms(1) by (simp add: get_state_def)
  show ?thesis
    using assms
    by (intro exI[of _ content] exI[of _ meta])
       (simp add: demo_frame_def take_frame_def e g eval_nat_numeral emit_channel_def p matched_uris_def
         ping_session_uri_def send_quiet_def upd_state_def log_event_def client_negotiated_channel_def
         queue_pending_def queue_pending_channel_def comp_def)
qed

definition demo_uris :: "string set" where
  "demo_uris = {''waitbus://repo/o/a'', ''waitbus://repo/o/b'', ''waitbus://repo/o/c''}"

lemma demo_uris_sorted:
  "sorted_list_of_set demo_uris = [''waitbus://repo/o/a'', ''waitbus://repo/o/b'', ''waitbus://repo/o/c'']"
  using sorted_list_of_set.idem_if_sorted_distinct
    [of "[''waitbus://repo/o/a'', ''waitbus://repo/o/b'', ''waitbus://repo/o/c'']"]
  by (simp add: demo_uris_def)

lemma demo_matched:
  assumes "ss_subscriptions st = demo_uris"
  shows "matched_uris sorted_list_of_set ''o'' ''a'' st = [''waitbus://repo/o/a'']"
    "matched_uris sorted_list_of_set ''o'' ''b'' st = [''waitbus://repo/o/b'']"
    "matched_uris sorted_list_of_set ''o'' ''c'' st = [''waitbus://repo/o/c'']"
  by (simp_all add: matched_uris_def assms demo_uris_sorted uri_matches_frame_def uri_defs)

lemma queue_emit_small:
  "length (ss_pending st) < PENDING_QUEUE_MAX \<Longrightarrow> queue_emit q st = st\<lparr>ss_pending := ss_pending st @ [q]\<rparr>"
  by (simp add: queue_emit_def mark_overflow_if_saturated_def deque_append_def)

lemma client_flush_step [simp]: "mc_client (flush_step r s neg m) = mc_client m"
  by (simp add: flush_step_def send_quiet_def upd_state_def log_event_def Let_def split: list.splits queued_emit.splits)

lemma reach_pow:
  assumes "mcp_reach repr order own m"
    "\<And>m. mcp_reach repr order own m \<Longrightarrow> mcp_step repr order own m (f m)"
  shows "mcp_reach repr order own ((f ^^ n) m)"
  by (induction n) (auto intro: assms mcp_reach.step)

abbreviation demo_reach :: "mcp \<Rightarrow> bool" where
  "demo_reach \<equiv> mcp_reach (\<lambda>_. []) sorted_list_of_set 0"

lemma reach_demo_frame: "demo_reach m \<Longrightarrow> mc_todo m = [] \<Longrightarrow> \<not> mc_stream_over m \<Longrightarrow> demo_reach (demo_frame repo m)"
  unfolding demo_frame_def
  by (rule reach_pow[OF mcp_reach.step]) (auto intro: mcp_step.frame mcp_step.stream)

lemma demo_frame_idle:
  "mc_registry m = [0] \<Longrightarrow> \<not> client_negotiated_channel 0 m \<Longrightarrow> repo \<noteq> []
   \<Longrightarrow> matched_uris sorted_list_of_set ''o'' repo (mc_state m 0) = [uri] \<Longrightarrow> \<not> mc_stream_over m
   \<Longrightarrow> mc_todo (demo_frame repo m) = [] \<and> \<not> mc_stream_over (demo_frame repo m)"
  using demo_frame_eq[of m repo uri] by (auto simp: log_event_def upd_state_def split: if_splits)

definition demo_subscribed :: mcp where
  "demo_subscribed =
     fold demo_subscribe [''waitbus://repo/o/a'', ''waitbus://repo/o/b'', ''waitbus://repo/o/c''] init_mcp"

lemma demo_subscribed_eq:
  "demo_subscribed = init_mcp\<lparr>mc_registry := [0],
      mc_state := (mc_state init_mcp)(0 := new_session_state\<lparr>ss_subscriptions := demo_uris\<rparr>),
      mc_log := [Subscribed 0 ''waitbus://repo/o/c'', Subscribed 0 ''waitbus://repo/o/b'',
        Subscribed 0 ''waitbus://repo/o/a'']\<rparr>"
  by (simp add: demo_subscribed_def demo_subscribe_def subscribe_handler_def is_subscribable_uri_def uri_defs
      init_mcp_def get_state_def upd_state_def log_event_def new_session_state_def demo_uris_def insert_commute)

lemma reach_demo_subscribed: "demo_reach demo_subscribed"
  unfolding demo_subscribed_def demo_subscribe_def
  by (auto intro!: mcp_reach.step[OF _ mcp_step.subscribe] mcp_reach.start)

definition demo_pushed :: mcp where
  "demo_pushed = demo_frame ''a'' (begin_flush 0 demo_subscribed)"

lemma demo_pushed_log:
  "mc_log demo_pushed = [Sent 0 (ResourceUpdated ''waitbus://repo/o/a''), Ready 0,
     Subscribed 0 ''waitbus://repo/o/c'', Subscribed 0 ''waitbus://repo/o/b'', Subscribed 0 ''waitbus://repo/o/a'']"
  using demo_frame_eq[of "begin_flush 0 demo_subscribed" "''a''" "''waitbus://repo/o/a''"]
  by (auto simp: demo_pushed_def demo_subscribed_eq begin_flush_def demo_matched init_mcp_def new_session_state_def
      upd_state_def log_event_def get_state_def client_negotiated_channel_def Let_def)

lemma reach_demo_pushed: "demo_reach demo_pushed"
  unfolding demo_pushed_def
  by (intro reach_demo_frame mcp_reach.step[OF reach_demo_subscribed mcp_step.initialized])
     (simp_all add: demo_subscribed_eq begin_flush_def init_mcp_def upd_state_def log_event_def get_state_def)

theorem mcp_sends_only_asked_for_witness:
  "Subscribed 0 ''waitbus://repo/o/a'' \<in> set (tl (mc_log demo_pushed)) \<and> is_subscribable_uri ''waitbus://repo/o/a''"
  using mcp_sends_only_asked_for[OF reach_demo_pushed set_order_sorted, of "[]" 0
      "ResourceUpdated ''waitbus://repo/o/a''" "tl (mc_log demo_pushed)"]
  by (simp add: demo_pushed_log)
text \<open>In this run the flush of two queued pings is overtaken by the
  ping for a later frame: the order of the bus is not kept across the flush.\<close>

definition demo_queued :: mcp where
  "demo_queued = demo_frame ''b'' (demo_frame ''a'' demo_subscribed)"

definition demo_overtaken :: mcp where
  "demo_overtaken = (flush_step SendDone 0 False ^^ 3)
     (demo_frame ''c'' ((flush_step SendDone 0 False ^^ 2) (begin_flush 0 demo_queued)))"

lemma flush_can_be_overtaken:
  "mc_log demo_overtaken =
     [Sent 0 (ResourceUpdated ''waitbus://repo/o/b''), Sent 0 (ResourceUpdated ''waitbus://repo/o/c''),
      Sent 0 (ResourceUpdated ''waitbus://repo/o/a''), Ready 0, Subscribed 0 ''waitbus://repo/o/c'',
      Subscribed 0 ''waitbus://repo/o/b'', Subscribed 0 ''waitbus://repo/o/a'']"
proof -
  let ?m = demo_subscribed
  note m = demo_subscribed_eq
  note simps = init_mcp_def new_session_state_def upd_state_def log_event_def client_negotiated_channel_def
    queue_pending_def queue_pending_channel_def queue_emit_small PENDING_QUEUE_MAX_def
  obtain c1 t1 where a: "demo_frame ''a'' ?m =
      upd_state 0 (queue_pending ''waitbus://repo/o/a'' (JObj [(''uri'', JStr ''waitbus://repo/o/a''), (''frame_id'', JStr ''e'')])
        \<circ> queue_pending_channel c1 t1) (?m\<lparr>mc_todo := []\<rparr>)"
    using demo_frame_eq[of ?m "''a''" "''waitbus://repo/o/a''"] unfolding m
    by (auto simp: demo_matched simps)
  obtain c2 t2 where b: "demo_queued =
      upd_state 0 (queue_pending ''waitbus://repo/o/b'' (JObj [(''uri'', JStr ''waitbus://repo/o/b''), (''frame_id'', JStr ''e'')])
        \<circ> queue_pending_channel c2 t2) ((demo_frame ''a'' ?m)\<lparr>mc_todo := []\<rparr>)"
    using demo_frame_eq[of "demo_frame ''a'' ?m" "''b''" "''waitbus://repo/o/b''"]
    unfolding demo_queued_def a unfolding m by (auto simp: demo_matched simps)
  define m2 where "m2 = (flush_step SendDone 0 False ^^ 2) (begin_flush 0 demo_queued)"
  have m2: "mc_registry m2 = [0]" "mc_client m2 = (\<lambda>_. None)" "ss_initialized (mc_state m2 0)"
    "ss_subscriptions (mc_state m2 0) = demo_uris" "mc_flush m2 = Some (0, False)"
    "ss_pending (mc_state m2 0) = [QueuedChannel c2 t2,
       QueuedPing ''waitbus://repo/o/b'' (JObj [(''uri'', JStr ''waitbus://repo/o/b''), (''frame_id'', JStr ''e'')])]"
    "\<not> ss_pending_overflowed (mc_state m2 0)"
    "mc_log m2 = [Sent 0 (ResourceUpdated ''waitbus://repo/o/a''), Ready 0, Subscribed 0 ''waitbus://repo/o/c'',
      Subscribed 0 ''waitbus://repo/o/b'', Subscribed 0 ''waitbus://repo/o/a'']"
    unfolding m2_def b unfolding a unfolding m
    by (simp_all add: begin_flush_def flush_step_def eval_nat_numeral simps get_state_def send_quiet_def Let_def)
  have c: "demo_frame ''c'' m2 = log_event (Sent 0 (ResourceUpdated ''waitbus://repo/o/c'')) (m2\<lparr>mc_todo := []\<rparr>)"
    using demo_frame_eq[of m2 "''c''" "''waitbus://repo/o/c''"]
    by (auto simp: demo_matched m2 client_negotiated_channel_def)
  show ?thesis
    unfolding demo_overtaken_def m2_def[symmetric] c
    by (simp add: flush_step_def eval_nat_numeral simps send_quiet_def m2 Let_def)
qed

section \<open>The fan-out of one frame\<close>

text \<open>The stream task alone, every send going through.\<close>

definition stream_run :: "(json \<Rightarrow> string) \<Rightarrow> (string set \<Rightarrow> string list) \<Rightarrow> nat \<Rightarrow> mcp \<Rightarrow> mcp \<Rightarrow> bool" where
  "stream_run repr order own = (\<lambda>m m'. m' = stream_step repr order own SendDone (mc_todo m) m)\<^sup>*\<^sup>*"

lemma stream_run_refl: "stream_run repr order own m m"
  by (simp add: stream_run_def)

lemma stream_run_step:
  "stream_run repr order own (stream_step repr order own SendDone (mc_todo m) m) m'
   \<Longrightarrow> stream_run repr order own m m'"
  unfolding stream_run_def by (rule converse_rtranclp_into_rtranclp) auto

lemma stream_run_trans: "stream_run repr order own a b \<Longrightarrow> stream_run repr order own b c \<Longrightarrow> stream_run repr order own a c"
  unfolding stream_run_def by (rule rtranclp_trans)

text \<open>The URIs a session has been sent, oldest first.\<close>

fun pings_of :: "nat \<Rightarrow> mcp_event list \<Rightarrow> string list" where
  "pings_of s [] = []"
| "pings_of s (Sent t (ResourceUpdated uri) # l) = pings_of s l @ (if s = t then [uri] else [])"
| "pings_of s (_ # l) = pings_of s l"

text \<open>The log grows by one ping of each URI, for each session of a list.\<close>

definition log_pings :: "(nat \<Rightarrow> string list) \<Rightarrow> nat list \<Rightarrow> mcp_event list \<Rightarrow> mcp_event list" where
  "log_pings wanted ss l = fold (\<lambda>s. fold (\<lambda>uri. (#) (Sent s (ResourceUpdated uri))) (wanted s)) ss l"

lemma pings_of_fold: "pings_of s (fold (\<lambda>uri. (#) (Sent t (ResourceUpdated uri))) us l)
    = pings_of s l @ (if s = t then us else [])"
  by (induction us arbitrary: l) auto

lemma pings_of_log_pings:
  "distinct ss \<Longrightarrow> pings_of s (log_pings wanted ss l) = pings_of s l @ (if s \<in> set ss then wanted s else [])"
  by (induction ss arbitrary: l) (auto simp: log_pings_def pings_of_fold)

lemma ping_live: "ss_initialized (mc_state m s) \<Longrightarrow>
    ping_session_uri SendDone s uri fid m = m\<lparr>mc_log := Sent s (ResourceUpdated uri) # mc_log m\<rparr>"
  by (simp add: ping_session_uri_def send_quiet_def log_event_def)

lemma run_pings:
  assumes "mc_todo m = map (\<lambda>uri. Ping s uri fid) us @ ts" "ss_initialized (mc_state m s)"
  shows "stream_run repr order own m
    (m\<lparr>mc_todo := ts, mc_log := fold (\<lambda>uri. (#) (Sent s (ResourceUpdated uri))) us (mc_log m)\<rparr>)"
  using assms
proof (induction us arbitrary: m)
  case Nil
  then have "m\<lparr>mc_todo := ts\<rparr> = m" by (cases m) simp
  then show ?case by (simp add: stream_run_refl)
next
  case (Cons u us)
  let ?m = "m\<lparr>mc_todo := map (\<lambda>uri. Ping s uri fid) us @ ts, mc_log := Sent s (ResourceUpdated u) # mc_log m\<rparr>"
  have "stream_step repr order own SendDone (mc_todo m) m = ?m"
    using Cons.prems by (simp add: ping_live)
  moreover have "stream_run repr order own ?m
      (?m\<lparr>mc_todo := ts, mc_log := fold (\<lambda>uri. (#) (Sent s (ResourceUpdated uri))) us (mc_log ?m)\<rparr>)"
    by (rule Cons.IH) (use Cons.prems in simp_all)
  ultimately show ?case by (intro stream_run_step[of _ _ _ m]) simp
qed

lemma run_visit:
  assumes "mc_todo m = VisitRepo owner repo fid ss # ts" "\<forall>s\<in>set ss. ss_initialized (mc_state m s)"
  shows "stream_run repr order own m
    (m\<lparr>mc_todo := ts, mc_log := log_pings (\<lambda>s. matched_uris order owner repo (mc_state m s)) ss (mc_log m)\<rparr>)"
  using assms
proof (induction ss arbitrary: m)
  case Nil
  then show ?case by (intro stream_run_step[of _ _ _ m]) (simp add: log_pings_def stream_run_refl)
next
  case (Cons s ss)
  let ?us = "matched_uris order owner repo (mc_state m s)"
  let ?m1 = "m\<lparr>mc_todo := map (\<lambda>uri. Ping s uri fid) ?us @ VisitRepo owner repo fid ss # ts\<rparr>"
  let ?m2 = "m\<lparr>mc_todo := VisitRepo owner repo fid ss # ts,
      mc_log := fold (\<lambda>uri. (#) (Sent s (ResourceUpdated uri))) ?us (mc_log m)\<rparr>"
  have "stream_run repr order own ?m1 ?m2"
    using run_pings[of ?m1 s fid ?us "VisitRepo owner repo fid ss # ts" repr order own] Cons.prems by simp
  moreover have "stream_run repr order own ?m2
      (m\<lparr>mc_todo := ts, mc_log := log_pings (\<lambda>s. matched_uris order owner repo (mc_state m s)) (s # ss) (mc_log m)\<rparr>)"
    using Cons.IH[of ?m2] Cons.prems by (simp add: log_pings_def)
  ultimately have "stream_run repr order own ?m1
      (m\<lparr>mc_todo := ts, mc_log := log_pings (\<lambda>s. matched_uris order owner repo (mc_state m s)) (s # ss) (mc_log m)\<rparr>)"
    by (rule stream_run_trans)
  then show ?case using Cons.prems by (intro stream_run_step[of _ _ _ m]) simp
qed

lemma run_doorbell:
  assumes "mc_todo m = Doorbell msg_to fid ss # ts" "\<forall>s\<in>set ss. ss_initialized (mc_state m s)"
  shows "stream_run repr order own m
    (m\<lparr>mc_todo := ts, mc_log := log_pings
        (\<lambda>s. case agent_doorbell_uri_for_session (ss_subscriptions (mc_state m s)) msg_to of None \<Rightarrow> [] | Some uri \<Rightarrow> [uri])
        ss (mc_log m)\<rparr>)"
  using assms
proof (induction ss arbitrary: m)
  case Nil
  then show ?case by (intro stream_run_step[of _ _ _ m]) (simp add: log_pings_def stream_run_refl)
next
  case (Cons s ss)
  let ?d = "agent_doorbell_uri_for_session (ss_subscriptions (mc_state m s)) msg_to"
  let ?m2 = "m\<lparr>mc_todo := Doorbell msg_to fid ss # ts,
      mc_log := (case ?d of None \<Rightarrow> [] | Some uri \<Rightarrow> [Sent s (ResourceUpdated uri)]) @ mc_log m\<rparr>"
  have "stream_step repr order own SendDone (mc_todo m) m = ?m2"
    using Cons.prems by (simp add: ping_live Let_def split: option.splits)
  moreover have "stream_run repr order own ?m2 (?m2\<lparr>mc_todo := ts, mc_log := log_pings
        (\<lambda>s. case agent_doorbell_uri_for_session (ss_subscriptions (mc_state ?m2 s)) msg_to of None \<Rightarrow> [] | Some uri \<Rightarrow> [uri])
        ss (mc_log ?m2)\<rparr>)"
    by (rule Cons.IH) (use Cons.prems in simp_all)
  ultimately show ?case
    by (intro stream_run_step[of _ _ _ m]) (simp add: log_pings_def split: option.splits)
qed

text \<open>C32: The fan-out of a frame to live sessions ends, and every registered session is sent exactly
  what it asked for: for an \<open>agent_message\<close> at most one ping whatever it subscribed to, on its
  doorbell for the recipient (any of its doorbells for a broadcast) and none for the repositories;
  for any other frame one ping per subscribed URI that matches the repository.\<close>

theorem fan_out_exact:
  assumes "mcp_reach repr order own m" "set_order order" "\<forall>s\<in>set (mc_registry m). ss_initialized (mc_state m s)"
    "mc_todo m = [FanOut frame]" "\<not> unhashable (dict_get frame ''kind'')" "\<not> is_control frame"
    "fields_of frame = Some fs" "msg_to = str_of_json repr (or_else (dict_get fs ''msg_to'') (JStr []))"
    "owner = str_of_json repr (get_or_empty frame ''owner'')" "repo = str_of_json repr (get_or_empty frame ''repo'')"
    "agent = (dict_get frame ''event_type'' = JStr AGENT_MESSAGE_EVENT_TYPE)"
  shows "\<exists>m' wanted. stream_run repr order own m m' \<and> mc_todo m' = []
    \<and> (\<forall>s. pings_of s (mc_log m') = pings_of s (mc_log m) @ (if s \<in> set (mc_registry m) then wanted s else []))
    \<and> (\<forall>s. distinct (wanted s) \<and> set (wanted s) =
         (if agent then
            (if msg_to = [] then {}
             else set_option (agent_doorbell_uri_for_session (ss_subscriptions (mc_state m s)) msg_to))
          else {uri \<in> ss_subscriptions (mc_state m s). owner \<noteq> [] \<and> repo \<noteq> [] \<and> uri_matches_frame uri owner repo}))"
proof -
  let ?ss = "mc_registry m"
  have inv: "mcp_inv m" by (rule mcp_reach_inv[OF assms(1,2)])
  have dist: "distinct ?ss" using inv by (simp add: mcp_inv_def)
  have ord: "set (order (ss_subscriptions (mc_state m s))) = ss_subscriptions (mc_state m s)
      \<and> distinct (order (ss_subscriptions (mc_state m s)))" for s
    using inv_state_ok[OF inv, of s] assms(2) by (simp add: state_ok_def set_order_def)
  let ?bell = "\<lambda>s. case agent_doorbell_uri_for_session (ss_subscriptions (mc_state m s)) msg_to of None \<Rightarrow> [] | Some uri \<Rightarrow> [uri]"
  let ?match = "\<lambda>s. matched_uris order owner repo (mc_state m s)"
  let ?m1 = "\<lambda>ts. m\<lparr>mc_todo := ts\<rparr>"
  let ?fid = "dict_get frame ''event_id''"
  have step: "stream_step repr order own SendDone (mc_todo m) m = ?m1
      (if agent then (if msg_to = [] then [] else [Doorbell msg_to ?fid ?ss])
       else if owner = [] \<or> repo = [] then [] else [VisitRepo owner repo ?fid ?ss])"
    using assms(4-11) by (simp add: fan_out_plan_def Let_def)
  consider (none) "(if agent then msg_to = [] else owner = [] \<or> repo = [])"
    | (bell) "agent" "msg_to \<noteq> []" | (match) "\<not> agent" "owner \<noteq> []" "repo \<noteq> []"
    by (cases agent) auto
  then show ?thesis
  proof cases
    case none
    then show ?thesis
      by (intro exI[of _ "?m1 []"] exI[of _ "\<lambda>_. []"] conjI allI stream_run_step[of _ _ _ m])
         (auto simp: step stream_run_refl split: if_splits)
  next
    case bell
    have "stream_run repr order own (?m1 [Doorbell msg_to ?fid ?ss])
        (m\<lparr>mc_todo := [], mc_log := log_pings ?bell ?ss (mc_log m)\<rparr>)"
      using run_doorbell[of "?m1 [Doorbell msg_to ?fid ?ss]" msg_to ?fid ?ss "[]" repr order own] assms(3) by simp
    then show ?thesis using bell
      by (intro exI[of _ "m\<lparr>mc_todo := [], mc_log := log_pings ?bell ?ss (mc_log m)\<rparr>"] exI[of _ ?bell] conjI allI
            stream_run_step[of _ _ _ m])
         (auto simp: step pings_of_log_pings[OF dist] split: option.splits)
  next
    case match
    have "stream_run repr order own (?m1 [VisitRepo owner repo ?fid ?ss])
        (m\<lparr>mc_todo := [], mc_log := log_pings ?match ?ss (mc_log m)\<rparr>)"
      using run_visit[of "?m1 [VisitRepo owner repo ?fid ?ss]" owner repo ?fid ?ss "[]" repr order own] assms(3) by simp
    then show ?thesis using match
      by (intro exI[of _ "m\<lparr>mc_todo := [], mc_log := log_pings ?match ?ss (mc_log m)\<rparr>"] exI[of _ ?match] conjI allI
            stream_run_step[of _ _ _ m])
         (auto simp: step pings_of_log_pings[OF dist] matched_uris_def ord)
  qed
qed

definition demo_fan_out :: mcp where
  "demo_fan_out = demo_step (take_frame (\<lambda>_. []) 0 (repo_frame ''a'') (begin_flush 0 demo_subscribed))"

lemma demo_fan_out_eq:
  "demo_fan_out = (begin_flush 0 demo_subscribed)\<lparr>mc_todo := [FanOut (repo_frame ''a'')]\<rparr>"
proof -
  obtain c t where "build_frame_emissions (\<lambda>_. []) (repo_frame ''a'') = Some [(c, t)]"
    using demo_emissions by blast
  then show ?thesis
    by (simp add: demo_fan_out_def take_frame_def begin_flush_def demo_subscribed_eq init_mcp_def get_state_def
        upd_state_def log_event_def emit_channel_def client_negotiated_channel_def Let_def)
qed

lemma reach_demo_fan_out: "demo_reach demo_fan_out"
  unfolding demo_fan_out_def
  by (intro mcp_reach.step[OF _ mcp_step.stream] mcp_reach.step[OF _ mcp_step.frame]
        mcp_reach.step[OF reach_demo_subscribed mcp_step.initialized])
     (simp_all add: demo_subscribed_eq begin_flush_def init_mcp_def upd_state_def log_event_def get_state_def)

lemma singleton_set_eq: "set [x] = {y} \<Longrightarrow> x = y"
  by simp

theorem fan_out_exact_witness:
  "\<exists>m'. stream_run (\<lambda>_. []) sorted_list_of_set 0 demo_fan_out m' \<and> mc_todo m' = []
     \<and> pings_of 0 (mc_log m') = [''waitbus://repo/o/a'']"
proof -
  let ?m = demo_fan_out
  have eqs: "mc_registry ?m = [0]" "mc_todo ?m = [FanOut (repo_frame ''a'')]" "ss_initialized (mc_state ?m 0)"
    "ss_subscriptions (mc_state ?m 0) = demo_uris" "pings_of 0 (mc_log ?m) = []"
    by (simp_all add: demo_fan_out_eq demo_subscribed_eq begin_flush_def init_mcp_def upd_state_def log_event_def
        get_state_def new_session_state_def)
  have "\<exists>m' wanted. stream_run (\<lambda>_. []) sorted_list_of_set 0 ?m m' \<and> mc_todo m' = []
    \<and> (\<forall>s. pings_of s (mc_log m') = pings_of s (mc_log ?m) @ (if s \<in> set (mc_registry ?m) then wanted s else []))
    \<and> (\<forall>s. distinct (wanted s) \<and> set (wanted s) =
         (if False then
            (if [] = ([]::string) then {}
             else set_option (agent_doorbell_uri_for_session (ss_subscriptions (mc_state ?m s)) []))
          else {uri \<in> ss_subscriptions (mc_state ?m s). ''o'' \<noteq> [] \<and> ''a'' \<noteq> [] \<and> uri_matches_frame uri ''o'' ''a''}))"
    by (rule fan_out_exact[OF reach_demo_fan_out set_order_sorted _ eqs(2), where fs = "[]"])
       (simp_all add: eqs repo_frame_def unhashable_def is_control_def dict_get_def DRAINABLE_CONTROL_KINDS_def
         KIND_HEARTBEAT_def KIND_SUBSCRIBE_ACK_def fields_of_def str_of_json_def get_or_empty_def or_else_def
         AGENT_MESSAGE_EVENT_TYPE_def image_iff)
  then obtain m' wanted where w: "stream_run (\<lambda>_. []) sorted_list_of_set 0 ?m m'" "mc_todo m' = []"
    "pings_of 0 (mc_log m') = wanted 0" "distinct (wanted 0)"
    "set (wanted 0) = {uri \<in> demo_uris. uri_matches_frame uri ''o'' ''a''}"
    using eqs by fastforce
  have only: "{uri \<in> demo_uris. uri_matches_frame uri ''o'' ''a''} = {''waitbus://repo/o/a''}"
    by (auto simp: demo_uris_def uri_matches_frame_def uri_defs)
  have set1: "set (wanted 0) = {''waitbus://repo/o/a''}" by (rule trans[OF w(5) only])
  have "length (wanted 0) = 1" by (simp only: distinct_card[OF w(4), symmetric] set1) simp
  then obtain x where x: "wanted 0 = [x]" by (auto simp: length_Suc_conv)
  have "x = ''waitbus://repo/o/a''" using set1 unfolding x by (rule singleton_set_eq)
  then have "pings_of 0 (mc_log m') = [''waitbus://repo/o/a'']" by (simp only: w(3) x)
  with w(1,2) show ?thesis by blast
qed

section \<open>The queue kept before the handshake\<close>

lemma queue_all:
  fixes qs :: "queued_emit list"
  shows "let st = fold queue_emit qs new_session_state in
     ss_pending st = drop (length qs - PENDING_QUEUE_MAX) qs
     \<and> (ss_pending_overflowed st \<longleftrightarrow> PENDING_QUEUE_MAX < length qs)"
proof (induction qs rule: rev_induct)
  case Nil
  then show ?case by (simp add: new_session_state_def)
next
  case (snoc q qs)
  let ?n = "PENDING_QUEUE_MAX"
  have n: "0 < ?n" by (simp add: PENDING_QUEUE_MAX_def)
  have "drop (length (drop (length qs - ?n) qs @ [q]) - ?n) (drop (length qs - ?n) qs @ [q])
      = drop (length qs + 1 - ?n) (qs @ [q])"
    by (cases "length qs < ?n") (use n in \<open>auto simp: Suc_diff_le drop_Suc tl_drop\<close>)
  then show ?case
    using snoc by (auto simp: Let_def ss_pending_queue_emit deque_append_def)
      (auto simp: queue_emit_def mark_overflow_if_saturated_def split: if_splits)
qed

definition flush_run :: "nat \<Rightarrow> bool \<Rightarrow> mcp \<Rightarrow> mcp \<Rightarrow> bool" where
  "flush_run s neg = (\<lambda>m m'. mc_flush m = Some (s, neg) \<and> m' = flush_step SendDone s neg m)\<^sup>*\<^sup>*"

text \<open>What the flush sends for a queue, oldest first.\<close>

definition replayed :: "bool \<Rightarrow> queued_emit list \<Rightarrow> notification list" where
  "replayed neg = concat \<circ> map (\<lambda>q. case q of
     QueuedPing uri _ \<Rightarrow> [ResourceUpdated uri]
   | QueuedChannel c meta \<Rightarrow> if neg \<and> validate_channel_meta meta then [ChannelEvent c meta] else [])"

lemma flush_pending:
  assumes "mc_flush m = Some (s, neg)"
  shows "\<exists>m'. flush_run s neg m m' \<and> mc_flush m' = None
    \<and> mc_log m' = map (Sent s) (rev (replayed neg (ss_pending (mc_state m s))
         @ (if ss_pending_overflowed (mc_state m s) \<and> neg then [overflow_marker] else []))) @ mc_log m"
  using assms
proof (induction "ss_pending (mc_state m s)" arbitrary: m)
  case Nil
  let ?m = "flush_step SendDone s neg m"
  have "flush_run s neg m ?m"
    unfolding flush_run_def by (rule r_into_rtranclp) (use Nil in auto)
  moreover have "mc_flush ?m = None"
    using Nil(1)[symmetric] by (simp add: flush_step_def send_quiet_def Let_def)
  moreover have "mc_log ?m = map (Sent s) (rev (if ss_pending_overflowed (mc_state m s) \<and> neg then [overflow_marker] else []))
      @ mc_log m"
    using Nil(1)[symmetric] by (simp add: flush_step_def send_quiet_def Let_def)
  ultimately show ?case
    using Nil(1)[symmetric] by (intro exI[of _ ?m]) (simp add: replayed_def)
next
  case (Cons q rest)
  let ?m = "flush_step SendDone s neg m"
  have q: "ss_pending (mc_state m s) = q # rest" using Cons.hyps(2) by simp
  have one: "ss_pending (mc_state ?m s) = rest" "mc_flush ?m = Some (s, neg)"
    "ss_pending_overflowed (mc_state ?m s) = ss_pending_overflowed (mc_state m s)"
    "mc_log ?m = map (Sent s) (rev (replayed neg [q])) @ mc_log m"
    using Cons.prems
    by (simp_all add: flush_step_def q send_quiet_def log_event_def upd_state_def replayed_def Let_def
        split: queued_emit.splits)
  obtain m' where m': "flush_run s neg ?m m'" "mc_flush m' = None"
    "mc_log m' = map (Sent s) (rev (replayed neg rest
         @ (if ss_pending_overflowed (mc_state m s) \<and> neg then [overflow_marker] else []))) @ mc_log ?m"
    using Cons.hyps(1)[of ?m] one by auto
  have "flush_run s neg m m'"
    using m'(1) Cons.prems unfolding flush_run_def by (intro converse_rtranclp_into_rtranclp[of _ m ?m]) auto
  moreover have "replayed neg (q # rest) = replayed neg [q] @ replayed neg rest" by (simp add: replayed_def)
  ultimately show ?case using m'(2,3) one(4) q by (intro exI[of _ m']) simp
qed

text \<open>A client that takes its time: however many notifications were queued for a session before
  its \<open>initialized\<close>, the flush ends having sent the newest thousand in the order they were queued
  (the channel ones only if negotiated) and then, exactly when older ones were dropped, one
  truncation marker to a client that can read it.\<close>

theorem pre_init_queue_replayed:
  assumes "mc_state m s = (fold queue_emit qs new_session_state)\<lparr>ss_subscriptions := subs\<rparr>" "s \<in> set (mc_registry m)"
    "neg = client_negotiated_channel s m"
  shows "\<exists>m'. flush_run s neg (begin_flush s m) m' \<and> mc_flush m' = None
    \<and> mc_log m' = map (Sent s) (rev (replayed neg (drop (length qs - PENDING_QUEUE_MAX) qs)
         @ (if PENDING_QUEUE_MAX < length qs \<and> neg then [overflow_marker] else []))) @ Ready s # mc_log m"
proof -
  let ?m = "begin_flush s m"
  have st: "mc_flush ?m = Some (s, neg)" "mc_log ?m = Ready s # mc_log m"
    "ss_pending (mc_state ?m s) = ss_pending (mc_state m s)"
    "ss_pending_overflowed (mc_state ?m s) = ss_pending_overflowed (mc_state m s)"
    using assms(2,3)
    by (simp_all add: begin_flush_def upd_state_def log_event_def get_state_def client_negotiated_channel_def Let_def)
  show ?thesis
    using flush_pending[OF st(1)] queue_all[of qs] unfolding st assms(1) by (simp add: Let_def)
qed

definition demo_waiting :: mcp where
  "demo_waiting = init_mcp\<lparr>mc_registry := [0], mc_state := (mc_state init_mcp)(0 :=
     (fold queue_emit [QueuedPing ''waitbus://current'' JNull] new_session_state)\<lparr>ss_subscriptions := {''waitbus://current''}\<rparr>)\<rparr>"

theorem pre_init_queue_replayed_witness:
  "\<exists>m'. flush_run 0 False (begin_flush 0 demo_waiting) m'
     \<and> mc_log m' = [Sent 0 (ResourceUpdated ''waitbus://current''), Ready 0]"
proof -
  have "\<exists>m'. flush_run 0 False (begin_flush 0 demo_waiting) m' \<and> mc_flush m' = None
    \<and> mc_log m' = map (Sent 0) (rev (replayed False (drop (length [QueuedPing ''waitbus://current'' JNull] - PENDING_QUEUE_MAX)
           [QueuedPing ''waitbus://current'' JNull])
         @ (if PENDING_QUEUE_MAX < length [QueuedPing ''waitbus://current'' JNull] \<and> False then [overflow_marker] else [])))
       @ Ready 0 # mc_log demo_waiting"
    by (rule pre_init_queue_replayed[where subs = "{''waitbus://current''}"])
       (simp_all add: demo_waiting_def client_negotiated_channel_def init_mcp_def)
  then show ?thesis by (auto simp: replayed_def PENDING_QUEUE_MAX_def demo_waiting_def init_mcp_def)
qed

section \<open>URIs and filters\<close>

lemma split_on_two: "split_on c s = [a, b] \<longleftrightarrow> c \<notin> set a \<and> c \<notin> set b \<and> s = a @ c # b"
proof
  assume "split_on c s = [a, b]"
  moreover have "list_all (\<lambda>p. c \<notin> set p) (split_on c s)"
    by (induction s) (auto split: list.splits)
  ultimately show "c \<notin> set a \<and> c \<notin> set b \<and> s = a @ c # b"
    using join_split[of c s] by auto
next
  assume a: "c \<notin> set a \<and> c \<notin> set b \<and> s = a @ c # b"
  have "c \<notin> set b \<Longrightarrow> split_on c b = [b]" by (induction b) auto
  moreover have "c \<notin> set a \<Longrightarrow> split_on c (a @ c # b) = a # split_on c b" by (induction a) auto
  ultimately show "split_on c s = [a, b]" using a by simp
qed

lemma partition_on_found: "partition_on c s = (a, True, b) \<Longrightarrow> c \<notin> set a \<and> s = a @ c # b"
  by (induction s arbitrary: a) (auto split: if_splits prod.splits)

lemma not_slug_char [simp]: "\<not> slug_char (CHR ''/'')" "\<not> slug_char (CHR ''*'')"
  by (simp_all add: slug_char_def is_ascii_upper_def is_ascii_lower_def is_ascii_digit_def chr_in_def)

lemma list_all_notin: "list_all P xs \<Longrightarrow> \<not> P x \<Longrightarrow> x \<notin> set xs"
  by (auto simp: list_all_iff)

text \<open>A repository URI means to the MCP server what the same pattern means to the daemon: for
  every filter the daemon accepts except \<open>*\<close>, a frame matches \<open>waitbus://repo/<filter>\<close>
  exactly when the daemon would deliver it under that filter; and the URI can be subscribed to.\<close>

theorem repo_uri_agrees_with_filter:
  assumes "filter_body f" "f \<noteq> ''*''"
  shows "uri_matches_frame (URI_REPO_PREFIX @ f) owner repo = filters_match [f] owner repo
    \<and> is_subscribable_uri (URI_REPO_PREFIX @ f)"
proof -
  obtain a b where ab: "partition_on (CHR ''/'') f = (a, True, b)" "a \<noteq> []" "list_all slug_char a"
    "b = ''*'' \<or> (b \<noteq> [] \<and> list_all slug_char b)"
    using assms by (auto simp: filter_body_def split: prod.splits)
  from partition_on_found[OF ab(1)] have f: "f = a @ CHR ''/'' # b" and a: "CHR ''/'' \<notin> set a" by auto
  have b: "CHR ''/'' \<notin> set b" "b \<noteq> []" using ab(4) list_all_notin[of slug_char b "CHR ''/''"] by auto
  have aw: "a \<noteq> ''*''" using ab(3) by auto
  have split: "split_on (CHR ''/'') f = [a, b]" using a b f by (simp add: split_on_two)
  have pre: "starts_with URI_REPO_PREFIX (URI_REPO_PREFIX @ f)" "URI_REPO_PREFIX @ f \<noteq> URI_CURRENT"
    by (auto simp: uri_defs)
  have one: "f = owner @ CHR ''/'' # r \<longleftrightarrow> a = owner \<and> b = r" for r
    unfolding f using a b(1) by (simp add: append_Cons_eq_iff)
  have "uri_matches_frame (URI_REPO_PREFIX @ f) owner repo \<longleftrightarrow> a = owner \<and> (b = ''*'' \<or> b = repo)"
    using pre aw by (simp add: uri_matches_frame_def split)
  moreover have "filters_match [f] owner repo \<longleftrightarrow> a = owner \<and> (b = ''*'' \<or> b = repo)"
    using assms(2) one[of repo] one[of "''*''"] unfolding filters_match_iff by auto
  moreover have "is_subscribable_uri (URI_REPO_PREFIX @ f)"
    using pre b(2) ab(2) by (simp add: is_subscribable_uri_def split)
  ultimately show ?thesis by simp
qed

theorem repo_uri_agrees_with_filter_witness:
  "uri_matches_frame ''waitbus://repo/octo/*'' ''octo'' ''x'' = filters_match [''octo/*''] ''octo'' ''x''"
  using repo_uri_agrees_with_filter[of "''octo/*''" "''octo''" "''x''"]
  by (simp add: filter_body_def slug_char_def is_ascii_lower_def chr_in_def URI_REPO_PREFIX_def)

end
