(* ===== verification/WB_McpTools.thy ===== *)
theory WB_McpTools
  imports WB_McpSub WB_Emit WB_Sub "HOL-Library.Product_Lexorder"
begin

text \<open>
  The read side of the MCP server, the tools and resources of \<open>waitbus/mcp.py\<close>, and the column
  catalogue of \<open>waitbus/_columns.py\<close> its projections are driven by. A query runs on the event
  table; a missing database file is \<open>None\<close>. A projected row is a list of named values, text as
  code points. \<open>queried_at_ns\<close> and the human summaries are left out. The arguments of a call
  have passed the tool's JSON schema (\<open>_mcp_models.py\<close>), which the SDK checks first. SQLite
  leaves the order of equal sort keys open; here it is the store's order. Parameters: the JSON
  decoder and encoder, the daemon's answers, what an insert reads from outside.
\<close>

section \<open>The column catalogue\<close>

datatype facet = Core | Ci | Job | Alert | Msg

record col =
  co_name :: string
  co_untrusted :: bool
  co_facet :: facet
  co_in_mcp_dict :: bool
  co_in_frame_fields :: bool

definition FRAME_FIELD_EXCLUDED :: "string list" where
  "FRAME_FIELD_EXCLUDED = [''delivery_id'', ''received_at'', ''payload_json'', ''event_id'']"

definition make_col :: "string \<Rightarrow> bool \<Rightarrow> facet \<Rightarrow> col" where
  "make_col name untrusted facet =
     \<lparr>co_name = name, co_untrusted = untrusted, co_facet = facet, co_in_mcp_dict = (name \<noteq> ''payload_json''),
      co_in_frame_fields = (name \<notin> set FRAME_FIELD_EXCLUDED)\<rparr>"

definition CATALOGUE :: "col list" where
  "CATALOGUE =
     [make_col ''delivery_id'' False Core, make_col ''source'' False Core, make_col ''event_type'' False Core,
      make_col ''owner'' False Core, make_col ''repo'' False Core, make_col ''run_id'' False Ci,
      make_col ''workflow_name'' True Ci, make_col ''head_branch'' True Ci, make_col ''head_sha'' False Ci,
      make_col ''status'' False Ci, make_col ''conclusion'' False Ci, make_col ''received_at'' False Core,
      make_col ''payload_json'' False Core, make_col ''ingest_method'' False Core, make_col ''job_id'' False Job,
      make_col ''job_name'' True Job, make_col ''parent_run_id'' False Job, make_col ''alert_name'' True Alert,
      make_col ''alert_severity'' True Alert, make_col ''alert_fingerprint'' True Alert,
      make_col ''msg_to'' True Msg, make_col ''msg_from'' True Msg, make_col ''msg_correlation_id'' True Msg,
      make_col ''msg_reply_to'' True Msg, make_col ''msg_thread'' True Msg, make_col ''msg_body'' True Msg,
      make_col ''event_id'' False Core]"

definition UNTRUSTED :: "string list" where
  "UNTRUSTED = map co_name (filter co_untrusted CATALOGUE)"

definition MCP_DICT_COLUMNS :: "col list" where
  "MCP_DICT_COLUMNS = filter co_in_mcp_dict CATALOGUE"

section \<open>Projections\<close>

type_synonym projection = "(string \<times> field_value) list"

definition field_of :: "json \<Rightarrow> field_value" where
  "field_of j = (case j of JStr s \<Rightarrow> FText (cps s) | _ \<Rightarrow> FOther j)"

definition row_field :: "event_row \<Rightarrow> string \<Rightarrow> field_value" where
  "row_field r c = field_of (row_get r c)"

definition row_slug :: "event_row \<Rightarrow> field_value" where
  "row_slug r = FText (strip_control (cps (ev_owner r @ ''/'' @ ev_repo r)))"

definition row_to_run_status :: "event_row \<Rightarrow> projection" where
  "row_to_run_status r =
     [(''repo'', row_slug r), (''run_id'', row_field r ''run_id''),
      (''workflow_name'', clean_opt (row_field r ''workflow_name'')),
      (''head_branch'', clean_opt (row_field r ''head_branch'')), (''head_sha'', row_field r ''head_sha''),
      (''status'', row_field r ''status''), (''conclusion'', row_field r ''conclusion''),
      (''event_id'', row_field r ''event_id''), (''received_at'', row_field r ''received_at'')]"

definition row_to_job_status :: "event_row \<Rightarrow> projection" where
  "row_to_job_status r =
     [(''repo'', row_slug r), (''job_id'', row_field r ''job_id''),
      (''job_name'', clean_opt (row_field r ''job_name'')), (''parent_run_id'', row_field r ''parent_run_id''),
      (''conclusion'', row_field r ''conclusion''), (''event_id'', row_field r ''event_id''),
      (''received_at'', row_field r ''received_at'')]"

definition or_blank :: "field_value \<Rightarrow> field_value" where
  "or_blank v = (if v = FOther JNull then FText [] else v)"

definition row_to_agent_message :: "event_row \<Rightarrow> projection" where
  "row_to_agent_message r =
     [(''event_id'', or_blank (row_field r ''event_id'')), (''msg_to'', clean_opt (row_field r ''msg_to'')),
      (''msg_from'', clean_opt (row_field r ''msg_from'')), (''msg_body'', clean_opt (row_field r ''msg_body'')),
      (''msg_thread'', clean_opt (row_field r ''msg_thread'')),
      (''msg_correlation_id'', clean_opt (row_field r ''msg_correlation_id'')),
      (''received_at'', row_field r ''received_at'')]"

definition event_row_to_dict :: "event_row \<Rightarrow> projection" where
  "event_row_to_dict r =
     map (\<lambda>c. (co_name c,
           (let v = (if co_untrusted c then clean_opt (row_field r (co_name c)) else row_field r (co_name c))
            in if co_name c = ''event_id'' then or_blank v else v)))
       MCP_DICT_COLUMNS"

definition wrap_untrusted_event_fields :: "projection \<Rightarrow> projection" where
  "wrap_untrusted_event_fields projected =
     map (\<lambda>(k, v). (k, if k \<in> set UNTRUSTED then wrap_external_opt v else v)) projected"

section \<open>query_ci\<close>

definition split_repo :: "string option \<Rightarrow> (string \<times> string) option" where
  "split_repo repo =
     (case repo of
        None \<Rightarrow> None
      | Some r \<Rightarrow> (case split_on (CHR ''/'') r of [a, b] \<Rightarrow> if a \<noteq> [] \<and> b \<noteq> [] then Some (a, b) else None | _ \<Rightarrow> None))"

definition newest_first :: "event_row list \<Rightarrow> event_row list" where
  "newest_first = sort_key (\<lambda>r. - ev_received_at r)"

definition of_repo :: "string \<times> string \<Rightarrow> event_row \<Rightarrow> bool" where
  "of_repo p r \<longleftrightarrow> ev_owner r = fst p \<and> ev_repo r = snd p"

definition workflow_runs :: "event_table \<Rightarrow> event_row list" where
  "workflow_runs t = filter (\<lambda>r. ev_event_type r = ''workflow_run'') (tb_rows t)"

definition ci_status_rows :: "string option \<Rightarrow> event_table option \<Rightarrow> event_row list" where
  "ci_status_rows repo db =
     (case db of
        None \<Rightarrow> []
      | Some t \<Rightarrow>
          (case split_repo repo of
             Some p \<Rightarrow> take 1 (newest_first (filter (of_repo p) (workflow_runs t)))
           | None \<Rightarrow> sort_key (\<lambda>r. (ev_owner r, ev_repo r))
               (filter (\<lambda>r. list_all (\<lambda>q. of_repo (ev_owner r, ev_repo r) q \<longrightarrow> ev_received_at q \<le> ev_received_at r)
                              (workflow_runs t)) (workflow_runs t))))"

definition tool_get_ci_status :: "string option \<Rightarrow> event_table option \<Rightarrow> projection list" where
  "tool_get_ci_status repo db = map row_to_run_status (ci_status_rows repo db)"

definition failed_job_rows :: "string option \<Rightarrow> nat \<Rightarrow> event_table option \<Rightarrow> event_row list" where
  "failed_job_rows repo limit db =
     (case db of
        None \<Rightarrow> []
      | Some t \<Rightarrow>
          take limit (newest_first
            (filter (\<lambda>r. ev_event_type r = ''workflow_job'' \<and> ev_conclusion r = Some ''failure''
                       \<and> (case split_repo repo of Some p \<Rightarrow> of_repo p r | None \<Rightarrow> True)) (tb_rows t))))"

definition tool_list_failed_jobs :: "string option \<Rightarrow> nat \<Rightarrow> event_table option \<Rightarrow> projection list" where
  "tool_list_failed_jobs repo limit db = map row_to_job_status (failed_job_rows repo limit db)"

datatype tool_error =
    RepoForm string | UnknownView string | ViewParams string | UnknownTool string | NoDatabase string
  | NoEvent string | NotReadable string | WildcardRead | WaitCap int | ToolAttribute
  | ToolWait sub_error | ToolFrame frame_error | ToolUlid ulid_error | ToolEmit emit_error

text \<open>\<open>payload.get\<close> on a payload that is not an object raises.\<close>

definition payload_matches_pr :: "json \<Rightarrow> int \<Rightarrow> tool_error + bool" where
  "payload_matches_pr payload pr_number =
     (case as_dict payload of
        None \<Rightarrow> Inl ToolAttribute
      | Some d \<Rightarrow>
          (case as_dict (or_else (dict_get d ''workflow_run'') payload) of
             None \<Rightarrow> Inl ToolAttribute
           | Some run \<Rightarrow>
               (case dict_get run ''pull_requests'' of
                  JArr prs \<Rightarrow> Inr (list_ex (\<lambda>pr. case pr of JObj e \<Rightarrow> py_eq (dict_get e ''number'') (JInt pr_number) | _ \<Rightarrow> False) prs)
                | _ \<Rightarrow> Inr False)))"

text \<open>The loop over the rows of the repository: the runs and jobs found, the run ids matched.\<close>

fun pr_loop ::
    "(string \<Rightarrow> json option) \<Rightarrow> int \<Rightarrow> event_row list \<Rightarrow> int list \<Rightarrow> event_row list \<times> event_row list
       \<Rightarrow> tool_error + event_row list \<times> event_row list" where
  "pr_loop loads n [] ids found = Inr found"
| "pr_loop loads n (r # rs) ids (runs, jobs) =
     (case loads (ev_payload_json r) of
        None \<Rightarrow> pr_loop loads n rs ids (runs, jobs)
      | Some payload \<Rightarrow>
          (case payload_matches_pr payload n of
             Inl e \<Rightarrow> Inl e
           | Inr True \<Rightarrow>
               (if ev_event_type r = ''workflow_run''
                then pr_loop loads n rs (case ev_run_id r of Some i \<Rightarrow> i # ids | None \<Rightarrow> ids) (runs @ [r], jobs)
                else pr_loop loads n rs ids (runs, jobs @ [r]))
           | Inr False \<Rightarrow>
               (if ev_event_type r = ''workflow_job''
                   \<and> (case ev_parent_run_id r of Some p \<Rightarrow> p \<in> set ids | None \<Rightarrow> False)
                then pr_loop loads n rs ids (runs, jobs @ [r])
                else pr_loop loads n rs ids (runs, jobs))))"

text \<open>\<open>ORDER BY event_id\<close>; NULLs come first.\<close>

definition pr_rows :: "string \<times> string \<Rightarrow> event_table \<Rightarrow> event_row list" where
  "pr_rows p t = sort_key (\<lambda>r. case ev_event_id r of None \<Rightarrow> [] | Some i \<Rightarrow> i)
     (filter (\<lambda>r. of_repo p r \<and> ev_event_type r \<in> {''workflow_run'', ''workflow_job''}) (tb_rows t))"

definition tool_get_pr_aggregate ::
    "(string \<Rightarrow> json option) \<Rightarrow> string \<Rightarrow> int \<Rightarrow> event_table option \<Rightarrow> tool_error + projection list \<times> projection list" where
  "tool_get_pr_aggregate loads repo pr_number db =
     (case split_repo (Some repo) of
        None \<Rightarrow> Inl (RepoForm repo)
      | Some p \<Rightarrow>
          (case db of
             None \<Rightarrow> Inr ([], [])
           | Some t \<Rightarrow>
               res_bind (pr_loop loads pr_number (pr_rows p t) [] ([], []))
                 (\<lambda>(runs, jobs). Inr (map row_to_run_status runs, map row_to_job_status jobs))))"

section \<open>tail_events\<close>

definition event_type_filter :: "string list option \<Rightarrow> string \<Rightarrow> bool" where
  "event_type_filter event_types et =
     (case event_types of
        Some (x # xs) \<Rightarrow> et \<in> set (x # xs)
      | _ \<Rightarrow> et \<noteq> AGENT_MESSAGE_EVENT_TYPE)"

definition rows_above :: "(event_row \<Rightarrow> bool) \<Rightarrow> event_table \<Rightarrow> int \<Rightarrow> nat \<Rightarrow> event_row list" where
  "rows_above P t since_seq limit =
     take limit (sort_key ev_seq
       (filter (\<lambda>r. ev_event_id r \<noteq> None \<and> since_seq < ev_seq r \<and> P r) (tb_rows t)))"

definition next_cursor :: "string option \<Rightarrow> event_row list \<Rightarrow> string option" where
  "next_cursor since rows = (if rows = [] then since else ev_event_id (last rows))"

definition cursor_seq :: "event_table \<Rightarrow> string option \<Rightarrow> int" where
  "cursor_seq t since = seq_for_event_id t (case since of None \<Rightarrow> [] | Some c \<Rightarrow> c)"

definition tail_wanted :: "string option \<Rightarrow> string list option \<Rightarrow> event_row \<Rightarrow> bool" where
  "tail_wanted repo event_types r \<longleftrightarrow>
     (case split_repo repo of Some p \<Rightarrow> of_repo p r | None \<Rightarrow> True) \<and> event_type_filter event_types (ev_event_type r)"

definition tail_events_read ::
    "string option \<Rightarrow> string option \<Rightarrow> nat \<Rightarrow> string list option \<Rightarrow> event_table option
       \<Rightarrow> event_row list \<times> string option" where
  "tail_events_read repo since limit event_types db =
     (case db of
        None \<Rightarrow> ([], since)
      | Some t \<Rightarrow>
          (let rows = rows_above (tail_wanted repo event_types) t (cursor_seq t since) limit
           in (rows, next_cursor since rows)))"

text \<open>The allow-list of the subscription behind a long poll.\<close>

definition subscribe_event_types :: "string list \<Rightarrow> string list option \<Rightarrow> string list" where
  "subscribe_event_types supported event_types =
     (case event_types of
        Some (x # xs) \<Rightarrow>
          (let requested = sort (remdups (filter (\<lambda>e. e \<in> set supported) (x # xs)))
           in if requested = [] then sort (remdups supported) else requested)
      | _ \<Rightarrow>
          (let keep = sort (remdups (filter (\<lambda>e. e \<noteq> AGENT_MESSAGE_EVENT_TYPE) supported))
           in if keep = [] then sort (remdups supported) else keep))"

definition TAIL_EVENTS_MAX_WAIT_CAP_SECONDS :: int where "TAIL_EVENTS_MAX_WAIT_CAP_SECONDS = 270"

text \<open>What a long poll reads from outside.\<close>

record tail_env =
  te_supported :: "string list"
  te_dumps :: "json \<Rightarrow> bytes"
  te_loads :: "bytes \<Rightarrow> json option"
  te_connect :: connect_result
  te_arrivals :: "arrival list"
  te_now :: rat

definition wake :: "dict \<Rightarrow> unit \<Rightarrow> frame_decision \<times> unit" where
  "wake frame s = (MATCHED, s)"

text \<open>\<open>later\<close> is the database at the second read. What \<open>await_predicate\<close> raises is not caught.\<close>

definition tail_events_blocking ::
    "tail_env \<Rightarrow> string option \<Rightarrow> string option \<Rightarrow> nat \<Rightarrow> int \<Rightarrow> string list option
       \<Rightarrow> event_table option \<Rightarrow> event_table option \<Rightarrow> tool_error + event_row list \<times> string option" where
  "tail_events_blocking env repo since limit max_wait event_types db later =
     (if max_wait > TAIL_EVENTS_MAX_WAIT_CAP_SECONDS then Inl (WaitCap max_wait)
      else
        (let result = tail_events_read repo since limit event_types db in
         if fst result \<noteq> [] \<or> max_wait \<le> 0 then Inr result
         else
           (let filters = map_option (\<lambda>(owner, name). [owner @ ''/'' @ name]) (split_repo repo) in
            case open_subscriber (te_dumps env) (\<lambda>_. None) filters
                   (Some (subscribe_event_types (te_supported env) event_types)) since None (te_connect env) of
              Inl (OpenFrameTooLarge e) \<Rightarrow> Inl (ToolFrame e)
            | Inl _ \<Rightarrow> Inr result
            | Inr _ \<Rightarrow>
                (case fst (await_predicate (te_loads env) wake (Some (of_int max_wait)) False (te_arrivals env)
                             (te_now env) None ()) of
                   Raised e \<Rightarrow> Inl (ToolWait e)
                 | _ \<Rightarrow> Inr (tail_events_read repo since limit event_types later)))))"

section \<open>Agent messages\<close>

definition emit_agent_message_impl ::
    "string list \<Rightarrow> int \<Rightarrow> insert_env \<Rightarrow> insert_env \<Rightarrow> string \<Rightarrow> string \<Rightarrow> string \<Rightarrow> string option
       \<Rightarrow> ulid_state \<Rightarrow> event_table \<Rightarrow> (tool_error + emit_result) \<times> ulid_state \<times> event_table \<times> db_effect list" where
  "emit_agent_message_impl known now ulid_env env to body from_agent thread_id us t =
     (case ulid_new (ie_boot ulid_env) (ie_mono_ns ulid_env) (ie_entropy ulid_env) us of
        (Inl e, us1) \<Rightarrow> (Inl (ToolUlid e), us1, t, [])
      | (Inr correlation_id, us1) \<Rightarrow>
          (case emit known env
             ((event_insert_defaults (''agent:'' @ from_agent @ '':msg:'' @ correlation_id) ''agent'' AGENT_MESSAGE_EVENT_TYPE
                 ''local'' ''agents'' now ''{}'' ''api'')
                \<lparr>ev_msg_to := Some to, ev_msg_from := Some from_agent, ev_msg_correlation_id := Some correlation_id,
                 ev_msg_thread := thread_id, ev_msg_body := Some body\<rparr>) us1 t of
             (Inl e, us2, t2, effs) \<Rightarrow> (Inl (ToolEmit e), us2, t2, effs)
           | (Inr r, us2, t2, effs) \<Rightarrow> (Inr r, us2, t2, effs)))"

definition AGENT_BROADCAST_RECIPIENT :: string where "AGENT_BROADCAST_RECIPIENT = ''*''"

definition addressed_to :: "string \<Rightarrow> event_row \<Rightarrow> bool" where
  "addressed_to agent r \<longleftrightarrow> ev_event_type r = AGENT_MESSAGE_EVENT_TYPE
     \<and> (ev_msg_to r = Some agent \<or> ev_msg_to r = Some AGENT_BROADCAST_RECIPIENT)"

definition read_agent_messages_impl ::
    "string \<Rightarrow> string option \<Rightarrow> nat \<Rightarrow> event_table option \<Rightarrow> event_row list \<times> string option" where
  "read_agent_messages_impl agent since limit db =
     (case db of
        None \<Rightarrow> ([], since)
      | Some t \<Rightarrow> (let rows = rows_above (addressed_to agent) t (cursor_seq t since) limit
                   in (rows, next_cursor since rows)))"

section \<open>One event\<close>

definition EVENT_PAYLOAD_CAP_BYTES :: nat where "EVENT_PAYLOAD_CAP_BYTES = 64 * 1024"

definition utf8_len :: "nat \<Rightarrow> nat" where
  "utf8_len c = (if c < 0x80 then 1 else if c < 0x800 then 2 else if c < 0x10000 then 3 else 4)"

definition byte_length :: "codepoints \<Rightarrow> nat" where
  "byte_length t = sum_list (map utf8_len t)"

text \<open>The first \<open>n\<close> bytes of the encoding decoded with \<open>errors="replace"\<close>: a code point cut
  at the end becomes U+FFFD.\<close>

fun decode_prefix :: "nat \<Rightarrow> codepoints \<Rightarrow> codepoints" where
  "decode_prefix n [] = []"
| "decode_prefix n (c # cs) =
     (if utf8_len c \<le> n then c # decode_prefix (n - utf8_len c) cs else if n = 0 then [] else [0xfffd])"

datatype payload_value = Fenced codepoints | TruncatedPayload nat string codepoints

definition fenced_payload :: "event_row \<Rightarrow> codepoints" where
  "fenced_payload r = fence (cps (ev_payload_json r)) (cps ''raw-webhook-payload'')"

definition capped_payload :: "string \<Rightarrow> codepoints \<Rightarrow> payload_value" where
  "capped_payload ulid fenced =
     (if byte_length fenced > EVENT_PAYLOAD_CAP_BYTES
      then TruncatedPayload (byte_length fenced) (URI_EVENT_PREFIX @ ulid @ ''/raw'')
             (decode_prefix EVENT_PAYLOAD_CAP_BYTES fenced)
      else Fenced fenced)"

definition read_event_row :: "string \<Rightarrow> string \<Rightarrow> event_table option \<Rightarrow> tool_error + event_row" where
  "read_event_row ulid uri db =
     (case db of
        None \<Rightarrow> Inl (NoDatabase uri)
      | Some t \<Rightarrow> (case fetch_event_by_id t ulid of None \<Rightarrow> Inl (NoEvent ulid) | Some r \<Rightarrow> Inr r))"

definition tool_get_event :: "string \<Rightarrow> event_table option \<Rightarrow> tool_error + projection \<times> payload_value" where
  "tool_get_event ulid db =
     res_bind (read_event_row ulid (URI_EVENT_PREFIX @ ulid) db)
       (\<lambda>r. Inr (wrap_untrusted_event_fields (event_row_to_dict r), capped_payload ulid (fenced_payload r)))"

text \<open>\<open>read_resource\<close>: what is then rendered as JSON.\<close>

datatype resource =
    CiSnapshot "projection list" | EventResource projection payload_value | DoorbellStub string string

definition read_resource :: "string \<Rightarrow> event_table option \<Rightarrow> tool_error + resource" where
  "read_resource uri db =
     (if \<not> is_readable_uri uri then Inl (NotReadable uri)
      else if uri = URI_CURRENT then Inr (CiSnapshot (tool_get_ci_status None db))
      else (case parse_event_raw_uri uri of
        Some raw_ulid \<Rightarrow>
          res_bind (read_event_row raw_ulid uri db) (\<lambda>r. Inr (EventResource (event_row_to_dict r) (Fenced (fenced_payload r))))
      | None \<Rightarrow> (case parse_event_uri uri of
        Some ev_ulid \<Rightarrow>
          res_bind (read_event_row ev_ulid uri db)
            (\<lambda>r. Inr (EventResource (event_row_to_dict r) (capped_payload ev_ulid (fenced_payload r))))
      | None \<Rightarrow> (case parse_agent_uri uri of
        Some name \<Rightarrow> Inr (DoorbellStub name uri)
      | None \<Rightarrow> (case parse_repo_uri uri of
        Some (owner, name) \<Rightarrow>
          (if owner = ''*'' \<or> name = ''*'' then Inl WildcardRead
           else Inr (CiSnapshot (tool_get_ci_status (Some (owner @ ''/'' @ name)) db)))
      | None \<Rightarrow> Inl (NotReadable uri))))))"

section \<open>Argument completion\<close>

definition COMPLETION_LIMIT :: nat where "COMPLETION_LIMIT = 50"

definition replace_each :: "char \<Rightarrow> string \<Rightarrow> string \<Rightarrow> string" where
  "replace_each c new s = concat (map (\<lambda>x. if x = c then new else [x]) s)"

definition BACKSLASH :: char where "BACKSLASH = CHR 0x5c"

definition escape_like_prefix :: "string \<Rightarrow> string" where
  "escape_like_prefix value =
     replace_each (CHR ''_'') [BACKSLASH, CHR ''_''] (replace_each (CHR ''%'') [BACKSLASH, CHR ''%'']
       (replace_each BACKSLASH [BACKSLASH, BACKSLASH] value))"

text \<open>SQLite's \<open>s LIKE pattern ESCAPE '\'\<close>, which ignores the case of ASCII letters.\<close>

definition ascii_fold :: "char \<Rightarrow> char" where
  "ascii_fold c = (if is_ascii_upper c then char_of (of_char c + 32 :: nat) else c)"

function sql_like :: "string \<Rightarrow> string \<Rightarrow> bool" where
  "sql_like [] s \<longleftrightarrow> s = []"
| "sql_like (p # ps) s \<longleftrightarrow>
     (if p = BACKSLASH then
        (case ps of [] \<Rightarrow> False | q # qs \<Rightarrow> (case s of [] \<Rightarrow> False | x # xs \<Rightarrow> ascii_fold q = ascii_fold x \<and> sql_like qs xs))
      else if p = CHR ''%'' then sql_like ps s \<or> (case s of [] \<Rightarrow> False | x # xs \<Rightarrow> sql_like (p # ps) xs)
      else if p = CHR ''_'' then (case s of [] \<Rightarrow> False | x # xs \<Rightarrow> sql_like ps xs)
      else (case s of [] \<Rightarrow> False | x # xs \<Rightarrow> ascii_fold p = ascii_fold x \<and> sql_like ps xs))"
  by pat_completeness auto
termination by (relation "measure (\<lambda>(p, s). length p + length s)") auto

datatype completable = CompleteOwner | CompleteRepo | CompleteUlid

text \<open>\<open>ref.uri\<close> and the argument's name; a prompt reference has no completion.\<close>

definition TEMPLATE_REPO :: string where "TEMPLATE_REPO = URI_REPO_PREFIX @ ''{owner}/{repo}''"
definition TEMPLATE_EVENT :: string where "TEMPLATE_EVENT = URI_EVENT_PREFIX @ ''{ulid}''"

definition is_completable :: "string option \<Rightarrow> string \<Rightarrow> completable option" where
  "is_completable template argument =
     (if template = Some TEMPLATE_REPO \<and> argument = ''owner'' then Some CompleteOwner
      else if template = Some TEMPLATE_REPO \<and> argument = ''repo'' then Some CompleteRepo
      else if template = Some TEMPLATE_EVENT \<and> argument = ''ulid'' then Some CompleteUlid
      else None)"

definition completion_query :: "completable \<Rightarrow> string \<Rightarrow> nat \<Rightarrow> string option \<Rightarrow> event_table \<Rightarrow> string list" where
  "completion_query what like fetch prior_owner t =
     (case what of
        CompleteOwner \<Rightarrow> take fetch (sort (remdups (filter (sql_like like) (map ev_owner (tb_rows t)))))
      | CompleteRepo \<Rightarrow>
          take fetch (sort (remdups (filter (sql_like like) (map ev_repo
            (filter (\<lambda>r. case prior_owner of Some (c # cs) \<Rightarrow> ev_owner r = c # cs | _ \<Rightarrow> True) (tb_rows t))))))
      | CompleteUlid \<Rightarrow>
          take fetch (rev (sort (filter (sql_like like) (List.map_filter ev_event_id (tb_rows t))))))"

record completion =
  cm_values :: "codepoints list"
  cm_total :: "nat option"
  cm_has_more :: bool

definition complete_resource_template ::
    "string option \<Rightarrow> string \<Rightarrow> string \<Rightarrow> string option \<Rightarrow> event_table option \<Rightarrow> completion option" where
  "complete_resource_template template argument value prior_owner db =
     (case is_completable template argument of
        None \<Rightarrow> None
      | Some what \<Rightarrow>
          (case db of
             None \<Rightarrow> Some \<lparr>cm_values = [], cm_total = Some 0, cm_has_more = False\<rparr>
           | Some t \<Rightarrow>
               (let raw = completion_query what (escape_like_prefix value @ ''%'') (COMPLETION_LIMIT + 1) prior_owner t;
                    has_more = (length raw > COMPLETION_LIMIT);
                    values = filter (\<lambda>v. v \<noteq> []) (map (strip_control \<circ> cps) (take COMPLETION_LIMIT raw))
                in Some \<lparr>cm_values = values, cm_total = (if has_more then None else Some (length values)),
                         cm_has_more = has_more\<rparr>)))"

section \<open>The dispatch of a tool call\<close>

definition MESSAGING_TOOLS :: "string list" where
  "MESSAGING_TOOLS = [''emit_agent_message'', ''read_agent_messages'']"

definition tool_definitions :: "bool \<Rightarrow> string list" where
  "tool_definitions enable_agent_messaging =
     [''query_ci'', ''get_event'', ''tail_events''] @ (if enable_agent_messaging then MESSAGING_TOOLS else [])"

text \<open>The arguments after the defaults of \<open>arguments.get\<close>; a required one the schema lets through
  is there.\<close>

record tool_args =
  ta_view :: "string option"
  ta_repo :: "string option"
  ta_pr_number :: "int option"
  ta_limit :: nat
  ta_ulid :: string
  ta_since :: "string option"
  ta_max_wait :: int
  ta_event_types :: "string list option"
  ta_to :: string
  ta_body :: string
  ta_agent :: string
  ta_thread :: "string option"

datatype tool_result =
    CiStatus "projection list"
  | FailedJobs "projection list"
  | PrAggregate "projection list" "projection list"
  | EventBody projection payload_value
  | TailEvents "projection list" "string option"
  | MessageSent emit_result
  | AgentMessages "projection list" "string option"

definition QUERY_CI_VIEWS :: "string list" where
  "QUERY_CI_VIEWS = [''status'', ''failed_jobs'', ''pr_aggregate'']"

definition query_ci_dispatch ::
    "(string \<Rightarrow> json option) \<Rightarrow> string \<Rightarrow> tool_args \<Rightarrow> event_table option \<Rightarrow> tool_error + tool_result" where
  "query_ci_dispatch loads view a db =
     (if view = ''status'' then Inr (CiStatus (map wrap_untrusted_event_fields (tool_get_ci_status (ta_repo a) db)))
      else if view = ''failed_jobs''
        then Inr (FailedJobs (map wrap_untrusted_event_fields (tool_list_failed_jobs (ta_repo a) (ta_limit a) db)))
      else if view = ''pr_aggregate'' then
        (case (ta_repo a, ta_pr_number a) of
           (Some repo, Some n) \<Rightarrow>
             res_bind (tool_get_pr_aggregate loads repo n db)
               (\<lambda>(runs, jobs). Inr (PrAggregate (map wrap_untrusted_event_fields runs) (map wrap_untrusted_event_fields jobs)))
         | _ \<Rightarrow> Inl (ViewParams view))
      else Inl (UnknownView view))"

text \<open>The server's state a call can change is the store (a send needs one). \<open>later\<close> gives the store
  at the second read of a long poll.\<close>

record call_env =
  ce_loads :: "string \<Rightarrow> json option"
  ce_tail :: tail_env
  ce_later :: "event_table \<Rightarrow> event_table"
  ce_known :: "string list"
  ce_time_ns :: int
  ce_ulid :: insert_env
  ce_insert :: insert_env

definition call_tool ::
    "call_env \<Rightarrow> bool \<Rightarrow> string \<Rightarrow> tool_args \<Rightarrow> ulid_state \<Rightarrow> event_table
       \<Rightarrow> (tool_error + tool_result) \<times> ulid_state \<times> event_table \<times> db_effect list" where
  "call_tool env enable_agent_messaging name a us t =
     (if name \<notin> set (tool_definitions enable_agent_messaging) then (Inl (UnknownTool name), us, t, [])
      else if name = ''query_ci'' then
        ((case ta_view a of
            None \<Rightarrow> Inl (UnknownView [])
          | Some view \<Rightarrow> if view \<notin> set QUERY_CI_VIEWS then Inl (UnknownView view)
                         else query_ci_dispatch (ce_loads env) view a (Some t)), us, t, [])
      else if name = ''get_event'' then
        (res_bind (tool_get_event (ta_ulid a) (Some t)) (\<lambda>(body, payload). Inr (EventBody body payload)), us, t, [])
      else if name = ''tail_events'' then
        (res_bind (tail_events_blocking (ce_tail env) (ta_repo a) (ta_since a) (ta_limit a) (ta_max_wait a)
                     (ta_event_types a) (Some t) (Some (ce_later env t)))
           (\<lambda>(rows, cursor). Inr (TailEvents (map (wrap_untrusted_event_fields \<circ> event_row_to_dict) rows) cursor)), us, t, [])
      else if name = ''emit_agent_message'' then
        (case emit_agent_message_impl (ce_known env) (ce_time_ns env) (ce_ulid env) (ce_insert env)
                (ta_to a) (ta_body a) (ta_agent a) (ta_thread a) us t of
           (r, us', t', effs) \<Rightarrow> (res_bind r (\<lambda>m. Inr (MessageSent m)), us', t', effs))
      else
        (case read_agent_messages_impl (ta_agent a) (ta_since a) (ta_limit a) (Some t) of
           (rows, cursor) \<Rightarrow> (Inr (AgentMessages (map row_to_agent_message rows) cursor), us, t, [])))"

end
