(* ===== verification/WB_McpToolsProps.thy ===== *)
theory WB_McpToolsProps
  imports WB_McpTools WB_McpSubProps WB_WaitProps
begin

text \<open>
  What a client of the MCP tools can rely on. Both cursor reads are sequenced logs of the rows they
  want (interpretation \<open>wanted\<close> of \<open>seq_log\<close>), so their pages join without a gap; the
  long poll is a client of the wait engine (interpretation \<open>tail_wait\<close> of \<open>waiter\<close>).
\<close>

section \<open>Cursor reads\<close>

lemma rows_above_visible:
  assumes "table_inv t"
  shows "rows_above P t c n = take n (filter (\<lambda>r. c < ev_seq r) (filter P (visible_rows t)))"
proof -
  have "filter (\<lambda>r. ev_event_id r \<noteq> None \<and> c < ev_seq r \<and> P r) (tb_rows t)
      = filter (\<lambda>r. c < ev_seq r) (filter P (visible_rows t))"
    by (auto simp: visible_rows_def intro: filter_cong)
  moreover have "sort_key ev_seq (filter (\<lambda>r. c < ev_seq r) (filter P (visible_rows t)))
      = filter (\<lambda>r. c < ev_seq r) (filter P (visible_rows t))"
    by (rule sort_key_sorted_wrt) (intro sorted_wrt_filter visible_sorted assms)
  ultimately show ?thesis by (simp only: rows_above_def)
qed

interpretation wanted: seq_log table_inv "\<lambda>t. filter P (visible_rows t)" ev_seq "rows_above P" for P
  by unfold_locales (simp_all add: rows_above_visible sorted_wrt_filter visible_sorted)

text \<open>A store that has grown: rows were appended. No row has an empty \<open>event_id\<close>.\<close>

definition well_formed :: "event_table \<Rightarrow> bool" where
  "well_formed t \<longleftrightarrow> table_inv t \<and> (\<forall>r\<in>set (tb_rows t). ev_event_id r \<noteq> Some [])"

fun growing :: "event_table list \<Rightarrow> bool" where
  "growing (t # t' # ts) \<longleftrightarrow> well_formed t \<and> (\<exists>new. tb_rows t' = tb_rows t @ new) \<and> growing (t' # ts)"
| "growing [t] \<longleftrightarrow> well_formed t"
| "growing [] \<longleftrightarrow> True"

text \<open>A cursor the client has: none, or the id of a stored row.\<close>

definition cursor_stored :: "event_table \<Rightarrow> string option \<Rightarrow> bool" where
  "cursor_stored t since \<longleftrightarrow> since = None \<or> since \<in> ev_event_id ` set (visible_rows t)"

lemma fetch_visible:
  assumes "well_formed t" "r \<in> set (visible_rows t)" "ev_event_id r = Some i"
  shows "fetch_event_by_id t i = Some r" "i \<noteq> []"
proof -
  have dist: "distinct (map ev_event_id (visible_rows t))" and r: "r \<in> set (tb_rows t)"
    using assms(1,2) by (auto simp: well_formed_def table_inv_def visible_rows_def)
  obtain q where q: "fetch_event_by_id t i = Some q"
    using r assms(3) by (cases "fetch_event_by_id t i") (auto simp: fetch_event_by_id_def find_None_iff)
  then have "q \<in> set (visible_rows t)" "ev_event_id q = Some i"
    by (auto simp: fetch_event_by_id_def find_Some_iff visible_rows_def)
  then have "q = r" using dist assms(2,3) by (auto simp: distinct_map inj_on_def)
  then show "fetch_event_by_id t i = Some r" using q by simp
  show "i \<noteq> []" using assms(1,3) r by (auto simp: well_formed_def)
qed

lemma cursor_seq_row:
  assumes "well_formed t" "r \<in> set (visible_rows t)"
  shows "cursor_seq t (ev_event_id r) = ev_seq r"
proof -
  obtain i where i: "ev_event_id r = Some i" using assms(2) by (auto simp: visible_rows_def)
  then show ?thesis using fetch_visible[OF assms i] by (simp add: cursor_seq_def seq_for_event_id_def)
qed

lemma visible_rows_grow: "tb_rows t' = tb_rows t @ new \<Longrightarrow> visible_rows t' = visible_rows t @ filter (\<lambda>r. ev_event_id r \<noteq> None) new"
  by (simp add: visible_rows_def)

lemma cursor_grow:
  assumes "well_formed t" "well_formed t'" "tb_rows t' = tb_rows t @ new" "cursor_stored t since"
  shows "cursor_stored t' since" "cursor_seq t' since = cursor_seq t since"
proof -
  note g = visible_rows_grow[OF assms(3)]
  show "cursor_stored t' since" using assms(4) by (auto simp: cursor_stored_def g)
  show "cursor_seq t' since = cursor_seq t since"
  proof (cases "since = None")
    case False
    then obtain r where "r \<in> set (visible_rows t)" "since = ev_event_id r"
      using assms(4) by (auto simp: cursor_stored_def)
    then show ?thesis using cursor_seq_row[OF assms(1)] cursor_seq_row[OF assms(2)] by (simp add: g)
  qed (simp add: cursor_seq_def seq_for_event_id_def)
qed

text \<open>One page, and the cursor it hands out.\<close>

lemma last_of_page:
  assumes "table_inv t" "rows = rows_above P t k n" "rows \<noteq> []"
  shows "last rows \<in> set (visible_rows t)" "k < ev_seq (last rows)"
proof -
  have "last rows \<in> set (rows_above P t k n)" using assms(2,3) by simp
  from wanted.above_bounds[OF assms(1) this] show "last rows \<in> set (visible_rows t)" "k < ev_seq (last rows)"
    by simp_all
qed

lemma page_cursor:
  assumes "well_formed t" "cursor_stored t since" "rows = rows_above P t (cursor_seq t since) n"
  shows "cursor_stored t (next_cursor since rows)"
    and "filter (\<lambda>r. cursor_seq t since < ev_seq r) (filter P (visible_rows t))
       = rows @ filter (\<lambda>r. cursor_seq t (next_cursor since rows) < ev_seq r) (filter P (visible_rows t))"
proof -
  have inv: "table_inv t" using assms(1) by (simp add: well_formed_def)
  show "cursor_stored t (next_cursor since rows)"
  proof (cases "rows = []")
    case False
    then have "last rows \<in> set (visible_rows t)" using last_of_page[OF inv assms(3)] by simp
    then show ?thesis using False by (auto simp: cursor_stored_def next_cursor_def)
  qed (use assms(2) in \<open>simp add: next_cursor_def\<close>)
  show "filter (\<lambda>r. cursor_seq t since < ev_seq r) (filter P (visible_rows t))
       = rows @ filter (\<lambda>r. cursor_seq t (next_cursor since rows) < ev_seq r) (filter P (visible_rows t))"
  proof (cases "rows = []")
    case False
    then have "last rows \<in> set (visible_rows t)" using last_of_page[OF inv assms(3)] by simp
    then have "cursor_seq t (next_cursor since rows) = ev_seq (last rows)"
      using False cursor_seq_row[OF assms(1)] by (simp add: next_cursor_def)
    then show ?thesis using wanted.above_split[OF inv, of P] False assms(3) by metis
  qed (simp add: next_cursor_def)
qed

text \<open>A client that pages: one read per table, each from the cursor of the one before.\<close>

fun drain_pages ::
    "(string option \<Rightarrow> event_table option \<Rightarrow> event_row list \<times> string option) \<Rightarrow> event_table list \<Rightarrow> string option
       \<Rightarrow> event_row list \<times> string option" where
  "drain_pages read [] since = ([], since)"
| "drain_pages read (t # ts) since =
     (case read since (Some t) of (rows, c) \<Rightarrow> (case drain_pages read ts c of (rest, c') \<Rightarrow> (rows @ rest, c')))"

lemma growing_last: "growing (t # ts) \<Longrightarrow> well_formed (last (t # ts)) \<and> (\<exists>new. tb_rows (last (t # ts)) = tb_rows t @ new)"
proof (induction ts arbitrary: t)
  case (Cons t' ts)
  then show ?case using Cons.IH[of t'] by (cases ts) auto
qed simp

lemma page_in_later:
  assumes "well_formed t" "well_formed u" "tb_rows u = tb_rows t @ new" "cursor_stored t since"
    and "rows = rows_above P t (cursor_seq t since) n"
  shows "filter (\<lambda>r. cursor_seq t since < ev_seq r) (filter P (visible_rows u))
       = rows @ filter (\<lambda>r. cursor_seq t (next_cursor since rows) < ev_seq r) (filter P (visible_rows u))"
proof (cases "rows = []")
  case False
  have inv: "table_inv t" "table_inv u" using assms(1,2) by (auto simp: well_formed_def)
  let ?k = "cursor_seq t since" and ?l = "ev_seq (last rows)"
  let ?new = "filter (\<lambda>r. ev_event_id r \<noteq> None) new"
  have l: "last rows \<in> set (visible_rows t)" "?k < ?l"
    using last_of_page[OF inv(1) assms(5) False] by simp_all
  have "sorted_wrt (\<lambda>a b. ev_seq a < ev_seq b) (visible_rows t @ ?new)"
    using visible_sorted[OF inv(2)] unfolding visible_rows_grow[OF assms(3)] .
  then have above: "?l < ev_seq r" if "r \<in> set ?new" for r
    using l(1) that unfolding sorted_wrt_append by blast
  have new: "filter (\<lambda>r. ?k < ev_seq r) (filter P ?new) = filter P ?new"
    "filter (\<lambda>r. ?l < ev_seq r) (filter P ?new) = filter P ?new"
    using above l(2) by (fastforce intro!: filter_all_id)+
  have c: "cursor_seq t (next_cursor since rows) = ?l"
    using False cursor_seq_row[OF assms(1) l(1)] by (simp add: next_cursor_def)
  show ?thesis
    using page_cursor(2)[OF assms(1,4,5)] unfolding visible_rows_grow[OF assms(3)] filter_append c new
    by (simp only: append_assoc)
qed (simp add: next_cursor_def)

lemma drain_gapless:
  assumes read: "\<And>since t. read since (Some t)
      = (rows_above P t (cursor_seq t since) n, next_cursor since (rows_above P t (cursor_seq t since) n))"
    and "growing (t # ts)" "cursor_stored t since"
    and "drain_pages read (t # ts) since = (rows, c)" "u = last (t # ts)"
  shows "cursor_stored u c \<and> filter (\<lambda>r. cursor_seq t since < ev_seq r) (filter P (visible_rows u))
       = rows @ filter (\<lambda>r. cursor_seq u c < ev_seq r) (filter P (visible_rows u))"
  using assms(2-)
proof (induction ts arbitrary: t since rows c)
  case Nil
  then show ?case using page_cursor[of t since _ P n] by (auto simp: read)
next
  case (Cons t' ts)
  let ?p = "rows_above P t (cursor_seq t since) n"
  let ?c1 = "next_cursor since ?p"
  have w: "well_formed t" "growing (t' # ts)" using Cons.prems(1) by auto
  obtain new where new: "tb_rows t' = tb_rows t @ new" using Cons.prems(1) by auto
  have w': "well_formed t'" using w(2) by (cases ts) auto
  obtain more where d: "drain_pages read (t' # ts) ?c1 = (more, c)" and rows: "rows = ?p @ more"
  proof -
    obtain m c' where m: "drain_pages read (t' # ts) ?c1 = (m, c')" by fastforce
    then have "drain_pages read (t # t' # ts) since = (?p @ m, c')"
      unfolding drain_pages.simps(2)[of read t] read by simp
    then show ?thesis using that m Cons.prems(3) by auto
  qed
  have st: "cursor_stored t ?c1" by (rule page_cursor(1)[OF w(1) Cons.prems(2) refl])
  note gr = cursor_grow[OF w(1) w' new st]
  have u: "u = last (t' # ts)" using Cons.prems(4) by simp
  obtain new2 where "tb_rows u = tb_rows t @ new2" "well_formed u"
    using growing_last[OF Cons.prems(1)] Cons.prems(4) by auto
  note page = page_in_later[OF w(1) this(2,1) Cons.prems(2) refl, of P n]
  from Cons.IH[OF w(2) gr(1) d u] show ?case unfolding page rows gr(2) by simp
qed

text \<open>C33: A client that keeps passing \<open>next_cursor\<close> back in as the cursor misses nothing and sees
  nothing twice, whatever is committed between its calls: the rows of all its pages, then the rows
  above its last cursor, are the wanted rows of the store above the first cursor, in commit order.
  It holds for \<open>tail_events\<close> and for an agent's \<open>read_agent_messages\<close>.\<close>

theorem pages_join_without_gap:
  assumes "growing (t # ts)" "cursor_stored t since" "u = last (t # ts)"
  shows "(drain_pages (\<lambda>since. tail_events_read repo since limit event_types) (t # ts) since = (rows, c) \<longrightarrow>
      filter (\<lambda>r. cursor_seq t since < ev_seq r) (filter (tail_wanted repo event_types) (visible_rows u))
      = rows @ filter (\<lambda>r. cursor_seq u c < ev_seq r) (filter (tail_wanted repo event_types) (visible_rows u)))
    \<and> (drain_pages (\<lambda>since. read_agent_messages_impl agent since limit) (t # ts) since = (rows, c) \<longrightarrow>
      filter (\<lambda>r. cursor_seq t since < ev_seq r) (filter (addressed_to agent) (visible_rows u))
      = rows @ filter (\<lambda>r. cursor_seq u c < ev_seq r) (filter (addressed_to agent) (visible_rows u)))"
  using drain_gapless[of "\<lambda>since. tail_events_read repo since limit event_types" "tail_wanted repo event_types" limit,
      OF _ assms(1,2) _ assms(3)]
    drain_gapless[of "\<lambda>since. read_agent_messages_impl agent since limit" "addressed_to agent" limit,
      OF _ assms(1,2) _ assms(3)]
  by (simp add: tail_events_read_def read_agent_messages_impl_def Let_def del: drain_pages.simps)

text \<open>One page is bounded and says when it is the last: it has at most \<open>limit\<close> rows, all
  wanted, and an empty page means the store holds nothing wanted above the cursor; so a client that
  reads on until an empty page has everything.\<close>

theorem tail_page_bounded:
  assumes "table_inv t" "0 < limit" "tail_events_read repo since limit event_types (Some t) = (rows, c)"
  shows "length rows \<le> limit \<and> (\<forall>r\<in>set rows. tail_wanted repo event_types r \<and> cursor_seq t since < ev_seq r)
    \<and> (event_types = None \<longrightarrow> (\<forall>r\<in>set rows. ev_event_type r \<noteq> AGENT_MESSAGE_EVENT_TYPE))
    \<and> (rows = [] \<longrightarrow> c = since
        \<and> filter (\<lambda>r. cursor_seq t since < ev_seq r) (filter (tail_wanted repo event_types) (visible_rows t)) = [])"
proof -
  have rows: "rows = rows_above (tail_wanted repo event_types) t (cursor_seq t since) limit" "c = next_cursor since rows"
    using assms(3) by (auto simp: tail_events_read_def Let_def)
  note b = wanted.above_bounds[OF assms(1), of _ "tail_wanted repo event_types", folded rows(1)]
  have "r \<in> set rows \<Longrightarrow> tail_wanted repo event_types r \<and> cursor_seq t since < ev_seq r" for r
    using wanted.above_bounds(1,3)[OF assms(1), of r "tail_wanted repo event_types"] unfolding rows(1) by auto
  moreover have "length rows \<le> limit" unfolding rows(1) by (rule wanted.above_length[OF assms(1)])
  moreover have "tail_wanted repo None r \<Longrightarrow> ev_event_type r \<noteq> AGENT_MESSAGE_EVENT_TYPE" for r
    by (simp add: tail_wanted_def event_type_filter_def)
  ultimately show ?thesis
    using wanted.above_empty[OF assms(1,2), of "tail_wanted repo event_types" "cursor_seq t since"] rows
    by (auto simp: next_cursor_def)
qed

definition demo_row :: "string \<Rightarrow> string \<Rightarrow> int \<Rightarrow> event_row" where
  "demo_row d i n = new_row (sample_event d) i n"

definition demo_store :: "event_row list \<Rightarrow> event_table" where
  "demo_store rows = \<lparr>tb_rows = rows, tb_last_seq = 9\<rparr>"

lemma demo_row_simps [simp]:
  "ev_seq (demo_row d i n) = n" "ev_event_id (demo_row d i n) = Some i" "ev_delivery_id (demo_row d i n) = d"
  "ev_event_type (demo_row d i n) = ''workflow_run''" "ev_owner (demo_row d i n) = ''o''" "ev_repo (demo_row d i n) = ''r''"
  "ev_received_at (demo_row d i n) = 1700000000000000000" "ev_run_id (demo_row d i n) = None"
  by (simp_all add: demo_row_def new_row_def sample_event_def event_insert_defaults_def event_insert.defs)

lemma demo_store_wf:
  "well_formed (demo_store [demo_row ''d1'' ''A'' 1])"
  "well_formed (demo_store [demo_row ''d1'' ''A'' 1, demo_row ''d2'' ''B'' 2])"
  by (simp_all add: well_formed_def table_inv_def demo_store_def visible_rows_def)

lemma demo_visible [simp]: "visible_rows (demo_store rows) = filter (\<lambda>r. ev_event_id r \<noteq> None) rows"
  by (simp add: visible_rows_def demo_store_def)

lemma demo_wanted [simp]: "tail_wanted None None (demo_row d i n)"
  by (simp add: tail_wanted_def split_repo_def event_type_filter_def AGENT_MESSAGE_EVENT_TYPE_def)

theorem pages_join_without_gap_witness:
  "let t1 = demo_store [demo_row ''d1'' ''A'' 1]; t2 = demo_store [demo_row ''d1'' ''A'' 1, demo_row ''d2'' ''B'' 2];
       (rows, c) = drain_pages (\<lambda>since. tail_events_read None since 1 None) [t1, t2] None
   in [demo_row ''d1'' ''A'' 1, demo_row ''d2'' ''B'' 2]
      = rows @ filter (\<lambda>r. cursor_seq t2 c < ev_seq r) [demo_row ''d1'' ''A'' 1, demo_row ''d2'' ''B'' 2]"
proof -
  let ?t1 = "demo_store [demo_row ''d1'' ''A'' 1]"
  let ?t2 = "demo_store [demo_row ''d1'' ''A'' 1, demo_row ''d2'' ''B'' 2]"
  obtain rows c where d: "drain_pages (\<lambda>since. tail_events_read None since 1 None) [?t1, ?t2] None = (rows, c)"
    by fastforce
  have "growing [?t1, ?t2]" using demo_store_wf by (simp add: demo_store_def[of "[_]"] demo_store_def[of "[_, _]"])
  from pages_join_without_gap[OF this, of None ?t2 None 1 None rows c "[]"] d show ?thesis
    by (simp add: cursor_stored_def cursor_seq_def seq_for_event_id_def del: drain_pages.simps)
qed

theorem tail_page_bounded_witness:
  "length (fst (tail_events_read None None 1 None (Some (demo_store [demo_row ''d1'' ''A'' 1, demo_row ''d2'' ''B'' 2])))) \<le> 1"
  using tail_page_bounded[of "demo_store [demo_row ''d1'' ''A'' 1, demo_row ''d2'' ''B'' 2]" 1 None None None,
      OF _ _ surjective_pairing] demo_store_wf(2) by (simp add: well_formed_def)

section \<open>The long poll\<close>

interpretation tail_wait: waiter wake "()" "\<lambda>fs. fs \<noteq> []"
proof (unfold_locales, goal_cases)
  case (1 fs)
  then show ?case by (cases fs) (auto simp: wake_def all_continue_def split: prod.splits)
qed

text \<open>The repository filter and the type list the long poll subscribes with.\<close>

definition poll_filters :: "string option \<Rightarrow> string list" where
  "poll_filters repo = (case split_repo repo of Some (a, b) \<Rightarrow> [a @ ''/'' @ b] | None \<Rightarrow> [''*''])"

lemma split_repo_Some: "split_repo repo = Some (a, b) \<Longrightarrow> CHR ''/'' \<notin> set a \<and> CHR ''/'' \<notin> set b \<and> a \<noteq> [] \<and> b \<noteq> []"
  by (auto simp: split_repo_def split_on_two split: option.splits list.splits if_splits)

lemma sort_remdups_Nil: "sort (remdups xs) = [] \<longleftrightarrow> set xs = {}"
  by (metis set_empty set_remdups set_sort)

text \<open>The long poll wakes for exactly the rows its second read returns: a row of a supported type
  passes the filters and the type list it subscribes with if and only if \<open>tail_events\<close> wants it.
  This needs a repository name other than \<open>*\<close>, and of the types asked for one the daemon knows.\<close>

theorem wakes_are_wanted:
  assumes "ev_event_type r \<in> set supported" "\<exists>e\<in>set supported. event_type_filter event_types e"
    "\<And>a. split_repo repo \<noteq> Some (a, ''*'')"
  shows "ev_event_type r \<in> set (subscribe_event_types supported event_types)
           \<and> filters_match (poll_filters repo) (ev_owner r) (ev_repo r)
       \<longleftrightarrow> tail_wanted repo event_types r"
proof -
  have types: "ev_event_type r \<in> set (subscribe_event_types supported event_types)
      \<longleftrightarrow> event_type_filter event_types (ev_event_type r)"
  proof (cases "event_types = None \<or> event_types = Some []")
    case True
    then have f: "event_type_filter event_types = (\<lambda>e. e \<noteq> AGENT_MESSAGE_EVENT_TYPE)"
      by (auto simp: event_type_filter_def)
    have "set (filter (\<lambda>e. e \<noteq> AGENT_MESSAGE_EVENT_TYPE) supported) \<noteq> {}"
      using assms(2) unfolding f by auto
    then show ?thesis
      using True assms(1) unfolding f
      by (auto simp: subscribe_event_types_def Let_def sort_remdups_Nil split: if_splits)
  next
    case False
    then obtain x xs where e: "event_types = Some (x # xs)" by (cases event_types) (auto simp: neq_Nil_conv)
    then have f: "event_type_filter event_types = (\<lambda>e. e \<in> set (x # xs))" by (auto simp: event_type_filter_def)
    have "set (filter (\<lambda>e. e \<in> set supported) (x # xs)) \<noteq> {}"
      using assms(2) unfolding f set_filter by blast
    then show ?thesis
      using e assms(1) unfolding f
      by (simp only: subscribe_event_types_def option.case list.case Let_def sort_remdups_Nil if_False)
         (simp only: set_sort set_remdups set_filter, blast)
  qed
  have "filters_match (poll_filters repo) (ev_owner r) (ev_repo r)
      \<longleftrightarrow> (case split_repo repo of Some p \<Rightarrow> of_repo p r | None \<Rightarrow> True)"
  proof (cases "split_repo repo")
    case (Some p)
    obtain a b where p: "p = (a, b)" by fastforce
    have ab: "CHR ''/'' \<notin> set a" "CHR ''/'' \<notin> set b" "a \<noteq> []" using split_repo_Some Some p by blast+
    have eq: "a @ CHR ''/'' # b = owner @ CHR ''/'' # name \<longleftrightarrow> a = owner \<and> b = name" for owner name
      using ab(1,2) by (simp add: append_Cons_eq_iff)
    have "b \<noteq> ''*''" "a @ CHR ''/'' # b \<noteq> ''*''" using assms(3)[of a] Some p ab(3) by (auto simp: append_eq_Cons_conv)
    then show ?thesis
      unfolding filters_match_iff using Some p eq[of "ev_owner r"] by (auto simp: poll_filters_def of_repo_def)
  qed (simp add: poll_filters_def)
  then show ?thesis using types by (simp add: tail_wanted_def conj_commute)
qed

theorem wakes_are_wanted_witness:
  "''workflow_run'' \<in> set (subscribe_event_types [''workflow_run'', ''agent_message''] None)
     \<and> filters_match (poll_filters (Some ''o/r'')) ''o'' ''r'' \<longleftrightarrow> tail_wanted (Some ''o/r'') None (demo_row ''d'' ''A'' 1)"
  using wakes_are_wanted[of "demo_row ''d'' ''A'' 1" "[''workflow_run'', ''agent_message'']" None "Some ''o/r''"]
  by (simp add: event_type_filter_def AGENT_MESSAGE_EVENT_TYPE_def split_repo_def)

text \<open>Types the daemon does not know fall back to every type: the poll wakes for agent messages.\<close>

lemma unknown_types_wake_for_everything:
  "''agent_message'' \<in> set (subscribe_event_types [''agent_message'', ''workflow_run''] (Some [''nosuch'']))
   \<and> \<not> event_type_filter (Some [''nosuch'']) ''agent_message''"
  by (simp add: subscribe_event_types_def event_type_filter_def)

text \<open>The rejection of the subscription comes as the first frame, inside the unguarded wait: it is an
  error of the tool, not the read the comment promises.\<close>

lemma rejection_escapes_tail:
  assumes "te_loads env data = Some (JObj [(''kind'', JStr ''subscribe_rejected'')])"
    and "te_arrivals env = [\<lparr>ar_ready = te_now env, ar_done = te_now env, ar_item = GotPayload data\<rparr>]"
    and "open_subscriber (te_dumps env) (\<lambda>_. None) None (Some (subscribe_event_types (te_supported env) None))
           None None (te_connect env) = Inr w"
  shows "\<exists>e. tail_events_blocking env None None 1 30 None None later = Inl (ToolWait e)"
  using assms
  by (simp add: tail_events_blocking_def TAIL_EVENTS_MAX_WAIT_CAP_SECONDS_def tail_events_read_def split_repo_def
      await_predicate_def await_frame_def dict_get_def DRAINABLE_CONTROL_KINDS_def KIND_HEARTBEAT_def
      KIND_SUBSCRIBE_ACK_def image_iff)

section \<open>The cap on a payload\<close>

lemma decode_prefix_length: "byte_length (decode_prefix n t) \<le> n + 2"
proof (induction n t rule: decode_prefix.induct)
  case (2 n c cs)
  then show ?case
    by (auto simp: byte_length_def utf8_len_def split: if_splits)
qed (simp add: byte_length_def)

text \<open>C34: The reply of \<open>get_event\<close> is bounded and leads on: a fenced payload of at most 64 KiB is
  returned whole; a longer one as its size, a preview at most two bytes over the cap and a URI,
  and reading that URI returns the same event with the whole fenced payload.\<close>

theorem get_event_capped:
  assumes "tool_get_event ulid (Some t) = Inr (body, payload)" "ulid \<noteq> []"
  shows "\<exists>r. fetch_event_by_id t ulid = Some r \<and> body = wrap_untrusted_event_fields (event_row_to_dict r)
    \<and> (case payload of
         Fenced p \<Rightarrow> p = fenced_payload r \<and> byte_length p \<le> EVENT_PAYLOAD_CAP_BYTES
       | TruncatedPayload nbytes uri preview \<Rightarrow>
           nbytes = byte_length (fenced_payload r) \<and> EVENT_PAYLOAD_CAP_BYTES < nbytes
           \<and> byte_length preview \<le> EVENT_PAYLOAD_CAP_BYTES + 2
           \<and> read_resource uri (Some t) = Inr (EventResource (event_row_to_dict r) (Fenced (fenced_payload r))))"
proof -
  obtain r where r: "fetch_event_by_id t ulid = Some r"
    using assms(1) by (auto simp: tool_get_event_def read_event_row_def split: option.splits)
  have b: "body = wrap_untrusted_event_fields (event_row_to_dict r)" "payload = capped_payload ulid (fenced_payload r)"
    using assms(1) r by (simp_all add: tool_get_event_def read_event_row_def)
  let ?uri = "URI_EVENT_PREFIX @ ulid @ ''/raw''"
  have "parse_event_raw_uri ?uri = Some ulid"
    using assms(2) by (simp add: parse_event_raw_uri_def URI_EVENT_RAW_SUFFIX_def starts_with_def ends_with_def Let_def)
  moreover have "is_readable_uri ?uri" "?uri \<noteq> URI_CURRENT"
    by (auto simp: is_readable_uri_def uri_defs)
  ultimately have "read_resource ?uri (Some t) = Inr (EventResource (event_row_to_dict r) (Fenced (fenced_payload r)))"
    by (simp add: read_resource_def read_event_row_def r)
  then show ?thesis
    using r b decode_prefix_length[of EVENT_PAYLOAD_CAP_BYTES "fenced_payload r"] by (auto simp: capped_payload_def)
qed

lemma demo_store_fetch: "fetch_event_by_id (demo_store [demo_row ''d1'' ''A'' 1]) ''A'' = Some (demo_row ''d1'' ''A'' 1)"
  by (simp add: fetch_event_by_id_def demo_store_def)

theorem get_event_capped_witness:
  "\<exists>body payload. tool_get_event ''A'' (Some (demo_store [demo_row ''d1'' ''A'' 1])) = Inr (body, payload)
     \<and> body = wrap_untrusted_event_fields (event_row_to_dict (demo_row ''d1'' ''A'' 1))"
proof -
  obtain body payload where g: "tool_get_event ''A'' (Some (demo_store [demo_row ''d1'' ''A'' 1])) = Inr (body, payload)"
    by (simp add: tool_get_event_def read_event_row_def demo_store_fetch)
  from get_event_capped[OF g] show ?thesis using g by (auto simp: demo_store_fetch)
qed

text \<open>A preview that was cut never ends with the closing fence: what reaches the reader is an open one.\<close>

lemma decode_prefix_cut:
  "n < byte_length t \<Longrightarrow> \<exists>m < length t. decode_prefix n t = take m t \<or> decode_prefix n t = take m t @ [0xfffd]"
proof (induction n t rule: decode_prefix.induct)
  case (2 n c cs)
  show ?case
  proof (cases "utf8_len c \<le> n")
    case True
    then have "n - utf8_len c < byte_length cs" using 2(2) by (auto simp: byte_length_def)
    from 2(1)[OF True this] obtain m where m: "m < length cs"
      "decode_prefix (n - utf8_len c) cs = take m cs \<or> decode_prefix (n - utf8_len c) cs = take m cs @ [0xfffd]" by blast
    then have "Suc m < length (c # cs) \<and> (decode_prefix n (c # cs) = take (Suc m) (c # cs)
        \<or> decode_prefix n (c # cs) = take (Suc m) (c # cs) @ [0xfffd])"
      using True by auto
    then show ?thesis by blast
  qed (intro exI[of _ 0], simp)
qed (simp add: byte_length_def)

lemma close_matches: "match_pat CLOSE_SPOOF_RE (cps FENCE_CLOSE @ s) \<noteq> None"
  by (simp add: CLOSE_SPOOF_RE_def FENCE_CLOSE_def ci_eq_def re_space_def)

lemma nth_only_hd: "xs ! k = x \<Longrightarrow> k < length xs \<Longrightarrow> x \<notin> set (tl xs) \<Longrightarrow> k = 0"
  by (cases xs; cases k) auto

lemma drop_past: "length p \<le> n \<Longrightarrow> drop (n - length p) s = drop n (p @ s)"
  by simp

lemma preview_never_closed:
  assumes "EVENT_PAYLOAD_CAP_BYTES < byte_length (fenced_payload r)"
  shows "decode_prefix EVENT_PAYLOAD_CAP_BYTES (fenced_payload r) \<noteq> u @ cps FENCE_CLOSE"
proof
  assume eq: "decode_prefix EVENT_PAYLOAD_CAP_BYTES (fenced_payload r) = u @ cps FENCE_CLOSE"
  let ?pre = "cps ''<waitbus:untrusted label='' @ [34] @ safe_label (cps ''raw-webhook-payload'') @ [34, 62]"
  obtain clean where f: "fenced_payload r = ?pre @ clean @ cps FENCE_CLOSE"
    and clean: "\<forall>i < length clean. match_pat CLOSE_SPOOF_RE (drop i (clean @ cps FENCE_CLOSE)) = None"
    using fence_unforgeable[of "cps (ev_payload_json r)" "cps ''raw-webhook-payload''"]
    by (auto simp: fenced_payload_def)
  obtain m where m: "m < length (fenced_payload r)"
    "u @ cps FENCE_CLOSE = take m (fenced_payload r) \<or> u @ cps FENCE_CLOSE = take m (fenced_payload r) @ [0xfffd]"
    using decode_prefix_cut[OF assms] eq by auto
  have "last (u @ cps FENCE_CLOSE) = 62" by (simp add: FENCE_CLOSE_def)
  then have "u @ cps FENCE_CLOSE = take m (fenced_payload r)" using m(2) by auto
  then have split: "fenced_payload r = u @ cps FENCE_CLOSE @ drop m (fenced_payload r)"
    by (metis append_assoc append_take_drop_id)
  have rest: "drop m (fenced_payload r) \<noteq> []" using m(1) by simp
  have pre: "?pre = 60 # 119 # drop 2 ?pre" "60 \<notin> set (tl ?pre)"
    by (simp_all add: safe_label_def label_char_def)
  have close: "cps FENCE_CLOSE = 60 # 47 # drop 2 (cps FENCE_CLOSE)" by (simp add: FENCE_CLOSE_def)
  show False
  proof (cases "length u < length ?pre")
    case True
    have at: "fenced_payload r ! length u = 60" "fenced_payload r ! Suc (length u) = 47"
      by (subst split, subst close, simp add: nth_append)+
    have "?pre ! length u = 60" using at(1) True unfolding f by (simp only: nth_append if_True)
    from nth_only_hd[OF this True pre(2)] have "length u = 0" .
    moreover have "fenced_payload r ! 1 = 119" unfolding f by simp
    ultimately show False using at(2) by simp
  next
    case False
    let ?i = "length u - length ?pre"
    have "drop ?i (clean @ cps FENCE_CLOSE) = drop (length u) (fenced_payload r)"
      unfolding f by (rule drop_past, rule leI, rule False)
    also have "\<dots> = cps FENCE_CLOSE @ drop m (fenced_payload r)" by (subst split) simp
    finally have d: "drop ?i (clean @ cps FENCE_CLOSE) = cps FENCE_CLOSE @ drop m (fenced_payload r)" .
    have "?i < length clean"
      using arg_cong[OF d, of length] rest by (cases "?i < length clean") auto
    then show False using clean d close_matches by metis
  qed
qed

section \<open>Completion\<close>

lemma escape_Nil [simp]: "escape_like_prefix [] = []"
  by (simp add: escape_like_prefix_def replace_each_def)

lemma escape_Cons:
  "escape_like_prefix (c # v) =
     (if c = BACKSLASH \<or> c = CHR ''%'' \<or> c = CHR ''_'' then [BACKSLASH, c] else [c]) @ escape_like_prefix v"
  by (simp add: escape_like_prefix_def replace_each_def BACKSLASH_def)

lemma like_percent: "sql_like ''%'' s"
  by (induction s) (auto simp: BACKSLASH_def)

text \<open>Whatever the client types, the pattern matches exactly the values that start with it, letter
  case of ASCII apart: no character of the input acts as a wildcard.\<close>

theorem like_is_prefix_search:
  "sql_like (escape_like_prefix v @ ''%'') s \<longleftrightarrow> starts_with (map ascii_fold v) (map ascii_fold s)"
proof (induction v arbitrary: s)
  case Nil
  then show ?case using like_percent by (simp add: starts_with_def del: sql_like.simps)
next
  case (Cons c v)
  then show ?case by (cases s) (auto simp: escape_Cons starts_with_def split: if_splits)
qed

definition completion_candidates :: "completable \<Rightarrow> string option \<Rightarrow> event_table \<Rightarrow> string set" where
  "completion_candidates what prior_owner t =
     (case what of
        CompleteOwner \<Rightarrow> ev_owner ` set (tb_rows t)
      | CompleteRepo \<Rightarrow> ev_repo ` {r \<in> set (tb_rows t). case prior_owner of Some (c # cs) \<Rightarrow> ev_owner r = c # cs | _ \<Rightarrow> True}
      | CompleteUlid \<Rightarrow> {i. Some i \<in> ev_event_id ` set (tb_rows t)})"

lemma distinct_ids: "table_inv t \<Longrightarrow> distinct (List.map_filter ev_event_id (tb_rows t))"
proof -
  assume "table_inv t"
  then have "distinct (map ev_event_id (visible_rows t))" by (simp add: table_inv_def)
  then show ?thesis
    by (auto simp: visible_rows_def List.map_filter_def distinct_map inj_on_def)
qed

lemma set_map_filter_Some: "set (List.map_filter f xs) = {y. \<exists>x\<in>set xs. f x = Some y}"
  by (induction xs) (auto simp: List.map_filter_simps split: option.splits)

lemma completion_query_shape:
  assumes "table_inv t"
  shows "\<exists>full. completion_query what (escape_like_prefix v @ ''%'') n prior t = take n full \<and> distinct full
    \<and> set full = {c \<in> completion_candidates what prior t. starts_with (map ascii_fold v) (map ascii_fold c)}"
proof (cases what)
  case CompleteUlid
  have "set (List.map_filter ev_event_id (tb_rows t)) = {i. Some i \<in> ev_event_id ` set (tb_rows t)}"
    by (auto simp: set_map_filter_Some image_iff eq_commute)
  then show ?thesis
    using CompleteUlid distinct_ids[OF assms]
    by (intro exI[of _ "rev (sort (filter (sql_like (escape_like_prefix v @ ''%'')) (List.map_filter ev_event_id (tb_rows t))))"])
       (auto simp: completion_query_def completion_candidates_def like_is_prefix_search)
qed (simp_all add: completion_query_def completion_candidates_def like_is_prefix_search,
     (rule exI, rule conjI, rule refl, auto simp: like_is_prefix_search)+)



section \<open>The aggregate of a pull request\<close>

definition row_matches :: "(string \<Rightarrow> json option) \<Rightarrow> int \<Rightarrow> event_row \<Rightarrow> bool" where
  "row_matches loads n r = (case loads (ev_payload_json r) of None \<Rightarrow> False | Some p \<Rightarrow> payload_matches_pr p n = Inr True)"

text \<open>A job is found by its own payload, or (when that can be decoded) by its parent run among the
  runs matched by earlier rows.\<close>

definition job_found :: "(string \<Rightarrow> json option) \<Rightarrow> int \<Rightarrow> int set \<Rightarrow> event_row \<Rightarrow> bool" where
  "job_found loads n ids r \<longleftrightarrow> row_matches loads n r
     \<or> (loads (ev_payload_json r) \<noteq> None \<and> (\<exists>p\<in>ids. ev_parent_run_id r = Some p))"

definition matched_ids :: "(string \<Rightarrow> json option) \<Rightarrow> int \<Rightarrow> event_row list \<Rightarrow> int set" where
  "matched_ids loads n rs = {i. \<exists>r\<in>set rs. ev_event_type r = ''workflow_run'' \<and> row_matches loads n r \<and> ev_run_id r = Some i}"

text \<open>The elements of a list chosen by looking at what stands before them.\<close>

definition chosen :: "('a list \<Rightarrow> 'a \<Rightarrow> bool) \<Rightarrow> 'a list \<Rightarrow> 'a list" where
  "chosen Q xs = map ((!) xs) (filter (\<lambda>i. Q (take i xs) (xs ! i)) [0..<length xs])"

lemma chosen_Nil [simp]: "chosen Q [] = []"
  by (simp add: chosen_def)

lemma chosen_Cons: "chosen Q (x # xs) = (if Q [] x then [x] else []) @ chosen (\<lambda>pre. Q (x # pre)) xs"
  by (simp add: chosen_def upt_conv_Cons map_Suc_upt[symmetric] filter_map comp_def del: upt_Suc)

definition pr_job :: "(string \<Rightarrow> json option) \<Rightarrow> int \<Rightarrow> int set \<Rightarrow> event_row list \<Rightarrow> event_row \<Rightarrow> bool" where
  "pr_job loads n ids before r \<longleftrightarrow> ev_event_type r = ''workflow_job'' \<and> job_found loads n (ids \<union> matched_ids loads n before) r"

lemma pr_job_Cons:
  "pr_job loads n ids (r # before) =
     pr_job loads n (if ev_event_type r = ''workflow_run'' \<and> row_matches loads n r
                     then set_option (ev_run_id r) \<union> ids else ids) before"
  by (auto simp: pr_job_def matched_ids_def job_found_def fun_eq_iff)

lemma pr_loop_spec:
  assumes "pr_loop loads n rs ids (runs, jobs) = Inr (runs', jobs')"
    "\<forall>r\<in>set rs. ev_event_type r \<in> {''workflow_run'', ''workflow_job''}"
  shows "runs' = runs @ filter (\<lambda>r. ev_event_type r = ''workflow_run'' \<and> row_matches loads n r) rs
    \<and> jobs' = jobs @ chosen (pr_job loads n (set ids)) rs"
  using assms
proof (induction rs arbitrary: ids runs jobs)
  case (Cons r rs)
  have ty: "ev_event_type r \<in> {''workflow_run'', ''workflow_job''}"
    "\<forall>r\<in>set rs. ev_event_type r \<in> {''workflow_run'', ''workflow_job''}" using Cons.prems(2) by auto
  show ?case
  proof (cases "loads (ev_payload_json r)")
    case None
    then have "pr_loop loads n rs ids (runs, jobs) = Inr (runs', jobs')" using Cons.prems(1) by simp
    from Cons.IH[OF this ty(2)] None show ?thesis
      by (simp add: chosen_Cons pr_job_Cons row_matches_def) (simp add: pr_job_def job_found_def row_matches_def)
  next
    case (Some p)
    note p = this
    obtain b where b: "payload_matches_pr p n = Inr b"
      using Cons.prems(1) p by (cases "payload_matches_pr p n") auto
    have m: "row_matches loads n r = b" using p b by (simp add: row_matches_def)
    show ?thesis
    proof (cases "b \<and> ev_event_type r = ''workflow_run''")
      case True
      then have "pr_loop loads n rs (case ev_run_id r of Some i \<Rightarrow> i # ids | None \<Rightarrow> ids) (runs @ [r], jobs) = Inr (runs', jobs')"
        using Cons.prems(1) p b by simp
      from Cons.IH[OF this ty(2)] True m show ?thesis
        by (cases "ev_run_id r") (simp_all add: chosen_Cons pr_job_Cons, simp_all add: pr_job_def)
    next
      case False
      have keep: "pr_job loads n (set ids) (r # before) = pr_job loads n (set ids) before" for before
        using False m by (auto simp: pr_job_Cons)
      have jr: "pr_job loads n (set ids) [] r \<longleftrightarrow> ev_event_type r = ''workflow_job''
          \<and> (b \<or> (case ev_parent_run_id r of Some p \<Rightarrow> p \<in> set ids | None \<Rightarrow> False))"
        using p m by (auto simp: pr_job_def job_found_def matched_ids_def split: option.splits)
      have "pr_loop loads n rs ids (runs, jobs @ (if pr_job loads n (set ids) [] r then [r] else [])) = Inr (runs', jobs')"
        using Cons.prems(1) p b False ty(1) unfolding jr by (cases b) (auto split: if_splits)
      from Cons.IH[OF this ty(2)] False m show ?thesis by (auto simp: chosen_Cons keep)
    qed
  qed
qed simp

text \<open>The aggregate of a pull request holds, in the order of the rows, every run whose payload
  names the number and every job whose payload names it or whose parent run was matched by a row
  before it; nothing else.\<close>

theorem pr_aggregate_exact:
  assumes "split_repo (Some repo) = Some p" "tool_get_pr_aggregate loads repo n (Some t) = Inr (runs, jobs)"
  shows "runs = map row_to_run_status
      (filter (\<lambda>r. ev_event_type r = ''workflow_run'' \<and> row_matches loads n r) (pr_rows p t))
    \<and> jobs = map row_to_job_status (chosen (pr_job loads n {}) (pr_rows p t))"
proof -
  obtain rs js where l: "pr_loop loads n (pr_rows p t) [] ([], []) = Inr (rs, js)"
    "runs = map row_to_run_status rs" "jobs = map row_to_job_status js"
    using assms by (auto simp: tool_get_pr_aggregate_def)
  have "\<forall>r\<in>set (pr_rows p t). ev_event_type r \<in> {''workflow_run'', ''workflow_job''}" by (simp add: pr_rows_def)
  from pr_loop_spec[OF l(1) this] l show ?thesis by simp
qed

text \<open>So a job whose id sorts before its run's is left out of the aggregate.\<close>

definition pr_payload :: "string \<Rightarrow> json option" where
  "pr_payload s = Some (JObj (if s = ''{}'' then [(''pull_requests'', JArr [JObj [(''number'', JInt 7)]])] else []))"

definition demo_run :: "string \<Rightarrow> event_row" where
  "demo_run i = (demo_row ''dr'' i 1)\<lparr>ev_run_id := Some 5\<rparr>"

definition demo_job :: "string \<Rightarrow> event_row" where
  "demo_job i = (demo_row ''dj'' i 2)\<lparr>ev_event_type := ''workflow_job'', ev_parent_run_id := Some 5, ev_payload_json := ''x''\<rparr>"

lemma demo_pr_rows:
  "pr_rows (''o'', ''r'') (demo_store [demo_run ''A'', demo_job ''B'']) = [demo_run ''A'', demo_job ''B'']"
  "pr_rows (''o'', ''r'') (demo_store [demo_run ''B'', demo_job ''A'']) = [demo_job ''A'', demo_run ''B'']"
  by (simp_all add: pr_rows_def demo_store_def demo_run_def demo_job_def of_repo_def)

lemma pr_aggregate_order_matters:
  "tool_get_pr_aggregate pr_payload ''o/r'' 7 (Some (demo_store [demo_run ''A'', demo_job ''B'']))
     = Inr ([row_to_run_status (demo_run ''A'')], [row_to_job_status (demo_job ''B'')])"
  "tool_get_pr_aggregate pr_payload ''o/r'' 7 (Some (demo_store [demo_run ''B'', demo_job ''A'']))
     = Inr ([row_to_run_status (demo_run ''B'')], [])"
proof -
  have sp: "split_repo (Some ''o/r'') = Some (''o'', ''r'')" by (simp add: split_repo_def)
  have pl: "ev_payload_json (demo_run i) = ''{}''" "ev_payload_json (demo_job i) = ''x''"
    "ev_event_type (demo_run i) = ''workflow_run''" "ev_event_type (demo_job i) = ''workflow_job''"
    "ev_run_id (demo_run i) = Some 5" "ev_parent_run_id (demo_job i) = Some 5" for i
    by (simp_all add: demo_run_def demo_job_def)
       (simp add: demo_row_def new_row_def sample_event_def event_insert_defaults_def event_insert.defs)
  show "tool_get_pr_aggregate pr_payload ''o/r'' 7 (Some (demo_store [demo_run ''A'', demo_job ''B'']))
     = Inr ([row_to_run_status (demo_run ''A'')], [row_to_job_status (demo_job ''B'')])"
    "tool_get_pr_aggregate pr_payload ''o/r'' 7 (Some (demo_store [demo_run ''B'', demo_job ''A'']))
     = Inr ([row_to_run_status (demo_run ''B'')], [])"
    by (simp_all add: tool_get_pr_aggregate_def sp demo_pr_rows pl pr_payload_def payload_matches_pr_def or_else_def dict_get_def)
qed

theorem pr_aggregate_exact_witness:
  "[row_to_job_status (demo_job ''B'')] =
     map row_to_job_status (chosen (pr_job pr_payload 7 {}) [demo_run ''A'', demo_job ''B''])"
  using pr_aggregate_exact[OF _ pr_aggregate_order_matters(1), of "(''o'', ''r'')"]
  by (simp add: split_repo_def demo_pr_rows)

section \<open>What a call may change\<close>

text \<open>C36: Every tool but one is read-only, and that one can be switched off: a call leaves the store, the
  id generator and the doorbell alone unless it is \<open>emit_agent_message\<close> and messaging is enabled;
  with messaging disabled the two messaging tools are unknown. A send adds at most one row, of the
  agent lane, with the addresses and the body it was given.\<close>

theorem only_a_send_writes:
  assumes "call_tool env messaging name a us t = (r, us', t', effs)"
  shows "(name \<noteq> ''emit_agent_message'' \<or> \<not> messaging \<longrightarrow> us' = us \<and> t' = t \<and> effs = [])
    \<and> (\<not> messaging \<and> name \<in> set MESSAGING_TOOLS \<longrightarrow> r = Inl (UnknownTool name))
    \<and> (tb_rows t' = tb_rows t \<or> (\<exists>row. tb_rows t' = tb_rows t @ [row] \<and> ev_event_type row = AGENT_MESSAGE_EVENT_TYPE
         \<and> ev_source row = ''agent'' \<and> ev_msg_to row = Some (ta_to a) \<and> ev_msg_from row = Some (ta_agent a)
         \<and> ev_msg_body row = Some (ta_body a)))"
proof -
  have off: "name \<noteq> ''emit_agent_message'' \<or> \<not> messaging \<Longrightarrow> us' = us \<and> t' = t \<and> effs = []"
    using assms by (auto simp: call_tool_def tool_definitions_def MESSAGING_TOOLS_def split: if_splits prod.splits)
  have unknown: "\<not> messaging \<and> name \<in> set MESSAGING_TOOLS \<Longrightarrow> r = Inl (UnknownTool name)"
    using assms by (auto simp: call_tool_def tool_definitions_def MESSAGING_TOOLS_def)
  have "tb_rows t' = tb_rows t \<or> (\<exists>row. tb_rows t' = tb_rows t @ [row] \<and> ev_event_type row = AGENT_MESSAGE_EVENT_TYPE
         \<and> ev_source row = ''agent'' \<and> ev_msg_to row = Some (ta_to a) \<and> ev_msg_from row = Some (ta_agent a)
         \<and> ev_msg_body row = Some (ta_body a))" if on: "name = ''emit_agent_message'' \<and> messaging"
  proof -
    obtain r0 where e: "emit_agent_message_impl (ce_known env) (ce_time_ns env) (ce_ulid env) (ce_insert env)
        (ta_to a) (ta_body a) (ta_agent a) (ta_thread a) us t = (r0, us', t', effs)"
      using assms on by (auto simp: call_tool_def tool_definitions_def MESSAGING_TOOLS_def split: prod.splits)
    show ?thesis
      using e
      by (auto simp: emit_agent_message_impl_def emit_def insert_event_def sql_insert_or_ignore_def new_row_def
          event_insert_defaults_def event_insert.defs Let_def split: sum.splits prod.splits if_splits)
  qed
  then show ?thesis using off unknown by blast
qed

definition demo_args :: tool_args where
  "demo_args = \<lparr>ta_view = None, ta_repo = None, ta_pr_number = None, ta_limit = 1, ta_ulid = [], ta_since = None,
     ta_max_wait = 0, ta_event_types = None, ta_to = ''bob'', ta_body = ''hi'', ta_agent = ''ann'', ta_thread = None\<rparr>"

definition demo_call_env :: call_env where
  "demo_call_env = \<lparr>ce_loads = (\<lambda>_. None), ce_tail = \<lparr>te_supported = [], te_dumps = (\<lambda>_. []), te_loads = (\<lambda>_. None),
     te_connect = NotReachable, te_arrivals = [], te_now = 0\<rparr>, ce_later = (\<lambda>t. t), ce_known = [''agent''],
     ce_time_ns = 1700000000000000000, ce_ulid = sample_env 5000000, ce_insert = sample_env 6000000\<rparr>"

lemma demo_send:
  "case call_tool demo_call_env True ''emit_agent_message'' demo_args ulid_state0 empty_table of
     (r, us, t, effs) \<Rightarrow> length (tb_rows t) = 1"
  by code_simp

theorem only_a_send_writes_witness:
  "map (\<lambda>r. (ev_msg_to r, ev_msg_body r))
     (tb_rows (fst (snd (snd (call_tool demo_call_env True ''emit_agent_message'' demo_args ulid_state0 empty_table)))))
     = [(Some ''bob'', Some ''hi'')]
   \<and> fst (snd (snd (call_tool demo_call_env False ''emit_agent_message'' demo_args ulid_state0 empty_table))) = empty_table"
proof -
  obtain r us t effs where on: "call_tool demo_call_env True ''emit_agent_message'' demo_args ulid_state0 empty_table = (r, us, t, effs)"
    by (metis prod_cases4)
  obtain r' us' t' effs' where off:
    "call_tool demo_call_env False ''emit_agent_message'' demo_args ulid_state0 empty_table = (r', us', t', effs')"
    by (metis prod_cases4)
  have "length (tb_rows t) = 1" using demo_send on by simp
  then have "map (\<lambda>r. (ev_msg_to r, ev_msg_body r)) (tb_rows t) = [(Some ''bob'', Some ''hi'')]"
    using only_a_send_writes[OF on] by (auto simp: empty_table_def demo_args_def)
  then show ?thesis using only_a_send_writes[OF off] on off by simp
qed

text \<open>A repository that is not of the form \<open>owner/name\<close> widens the query to every repository.\<close>

lemma malformed_repo_widens: "tool_get_ci_status (Some ''waitbus'') db = tool_get_ci_status None db"
  by (cases db) (simp_all add: tool_get_ci_status_def ci_status_rows_def split_repo_def)

text \<open>Two runs of one repository received together are both its latest.\<close>

lemma ci_status_ties:
  "ci_status_rows None (Some (demo_store [demo_row ''d1'' ''A'' 1, demo_row ''d2'' ''B'' 2]))
     = [demo_row ''d1'' ''A'' 1, demo_row ''d2'' ''B'' 2]"
  by (simp add: ci_status_rows_def split_repo_def workflow_runs_def demo_store_def of_repo_def)

end
