(* ===== verification/WB_FsWatch.thy ===== *)
theory WB_FsWatch
  imports WB_Emit
begin

text \<open>
  The file watcher, \<open>waitbus/sources/fs_watch.py\<close>. The watchdog library hands its handler events;
  the handler builds an insert for a completed write and adds it to the debouncer, whose thread
  flushes the buffer as one batch. Three threads share it: the observer (\<open>observe\<close>), the flush
  loop (\<open>loop_drain\<close>, \<open>loop_emit\<close>) and the caller that stops the watch (\<open>begin_stop\<close>,
  \<open>final_drain\<close>, \<open>final_emit\<close>). The lock makes a drain one step; the batch is emitted
  outside it. A parameter of a step says what the system answers: what a path is when it is looked
  at, whether SQLite raises, what each insert reads from outside. A log records what was added and
  what a flush could not store.
\<close>

section \<open>The event of a file\<close>

text \<open>\<open>os.stat\<close> and \<open>os.path\<close> of a path at the time it is looked at; None when the file is
  gone.\<close>

record file_stat =
  fi_abspath :: string
  fi_basename :: string
  fi_size :: int
  fi_mtime_ns :: int

definition fs_event_insert :: "(json \<Rightarrow> string) \<Rightarrow> int \<Rightarrow> string \<Rightarrow> string \<Rightarrow> file_stat option \<Rightarrow> event_insert option" where
  "fs_event_insert enc now_ns owner repo st =
     (case st of
        None \<Rightarrow> None
      | Some f \<Rightarrow>
          Some ((event_insert_defaults (''fs:'' @ fi_abspath f @ '':'' @ int_str (fi_mtime_ns f)) ''fs'' ''fs_change''
                   owner repo now_ns
                   (enc (JObj [(''path'', JStr (fi_abspath f)), (''size'', JInt (fi_size f)),
                               (''mtime_ns'', JInt (fi_mtime_ns f))])) ''fs_watch'')
                 \<lparr>ev_status := Some ''completed'', ev_conclusion := Some ''success'',
                  ev_workflow_name := (if fi_basename f = [] then None else Some (fi_basename f))\<rparr>))"

text \<open>What watchdog reports; the source of a move is not looked at.\<close>

datatype fs_signal =
    Closed string bool | Moved "string option" bool | Modified string | Created string | Deleted string

definition terminal_path :: "fs_signal \<Rightarrow> string option" where
  "terminal_path sig =
     (case sig of
        Closed path is_dir \<Rightarrow> if is_dir then None else Some path
      | Moved dest is_dir \<Rightarrow> (case dest of None \<Rightarrow> None | Some d \<Rightarrow> if d = [] \<or> is_dir then None else Some d)
      | _ \<Rightarrow> None)"

section \<open>The debouncer\<close>

datatype flusher = Looping | Holding "event_insert list" | LoopEnded | LoopDied

datatype stopper = Watching | Stopping | FinalHolding "event_insert list" | Stopped | StopRaised

datatype loss = FlushRaised | DrawTaken

record fs_state =
  fs_pending :: "(string \<times> event_insert) list"
  fs_stop_evt :: bool
  fs_flusher :: flusher
  fs_stopper :: stopper
  fs_ulid :: ulid_state
  fs_table :: event_table
  fs_added :: "event_insert list"
  fs_lost :: "(event_insert \<times> loss) list"

definition fs_start :: "ulid_state \<Rightarrow> event_table \<Rightarrow> fs_state" where
  "fs_start us t = \<lparr>fs_pending = [], fs_stop_evt = False, fs_flusher = Looping, fs_stopper = Watching,
     fs_ulid = us, fs_table = t, fs_added = [], fs_lost = []\<rparr>"

text \<open>\<open>add\<close>: a dict assignment; an existing key keeps its place.\<close>

definition fs_add :: "event_insert \<Rightarrow> fs_state \<Rightarrow> fs_state" where
  "fs_add ev st = st\<lparr>fs_pending := AList.update (ev_delivery_id ev) ev (fs_pending st),
     fs_added := fs_added st @ [ev]\<rparr>"

definition observe ::
    "(json \<Rightarrow> string) \<Rightarrow> string \<Rightarrow> string \<Rightarrow> fs_signal \<Rightarrow> (string \<Rightarrow> file_stat option) \<Rightarrow> int \<Rightarrow> fs_state \<Rightarrow> fs_state" where
  "observe enc owner repo sig stat now_ns st =
     (case terminal_path sig of
        None \<Rightarrow> st
      | Some path \<Rightarrow> (case fs_event_insert enc now_ns owner repo (stat path) of None \<Rightarrow> st | Some ev \<Rightarrow> fs_add ev st))"

text \<open>The two halves of \<open>flush\<close>. \<open>sqlite_ok\<close> is False when opening the store or the
  transaction raises (a busy database, a full disk).\<close>

definition drained :: "fs_state \<Rightarrow> event_insert list" where
  "drained st = map snd (fs_pending st)"

definition clear_pending :: "fs_state \<Rightarrow> fs_state" where
  "clear_pending st = st\<lparr>fs_pending := []\<rparr>"

definition emit_flush :: "(nat \<Rightarrow> insert_env) \<Rightarrow> bool \<Rightarrow> event_insert list \<Rightarrow> fs_state \<Rightarrow> bool \<times> fs_state" where
  "emit_flush env sqlite_ok batch st =
     (let evs = map (\<lambda>(k, ev). Some (env k, ev)) (enumerate 0 batch);
          failed = st\<lparr>fs_lost := fs_lost st @ map (\<lambda>ev. (ev, FlushRaised)) batch\<rparr>
      in if \<not> sqlite_ok then (False, failed)
         else (case emit_batch evs (fs_ulid st) (fs_table st) of
                 (Inl e, us', t', effs) \<Rightarrow> (False, failed\<lparr>fs_ulid := us'\<rparr>)
               | (Inr n, us', t', effs) \<Rightarrow>
                   (True, st\<lparr>fs_ulid := us', fs_table := t',
                      fs_lost := fs_lost st @ (if fresh_draws evs (fs_ulid st) (fs_table st) then []
                                               else map (\<lambda>ev. (ev, DrawTaken)) batch)\<rparr>)))"

text \<open>The thread of the loop: the wait times out and the buffer is drained, or the stop event is set
  and the loop ends. An exception of the emit ends the thread.\<close>

definition loop_drain :: "fs_state \<Rightarrow> fs_state" where
  "loop_drain st =
     (if fs_stop_evt st then st\<lparr>fs_flusher := LoopEnded\<rparr>
      else if fs_pending st = [] then st
      else (clear_pending st)\<lparr>fs_flusher := Holding (drained st)\<rparr>)"

definition loop_emit :: "(nat \<Rightarrow> insert_env) \<Rightarrow> bool \<Rightarrow> event_insert list \<Rightarrow> fs_state \<Rightarrow> fs_state" where
  "loop_emit env sqlite_ok batch st =
     (case emit_flush env sqlite_ok batch st of
        (ok, st1) \<Rightarrow> st1\<lparr>fs_flusher := (if ok then Looping else LoopDied)\<rparr>)"

text \<open>\<open>stop\<close>, after the observer has been stopped: set the event, join the thread (for at most five
  seconds), flush the rest on the caller's thread.\<close>

definition begin_stop :: "fs_state \<Rightarrow> fs_state" where
  "begin_stop st = st\<lparr>fs_stop_evt := True, fs_stopper := Stopping\<rparr>"

definition final_drain :: "fs_state \<Rightarrow> fs_state" where
  "final_drain st =
     (if fs_pending st = [] then st\<lparr>fs_stopper := Stopped\<rparr>
      else (clear_pending st)\<lparr>fs_stopper := FinalHolding (drained st)\<rparr>)"

definition final_emit :: "(nat \<Rightarrow> insert_env) \<Rightarrow> bool \<Rightarrow> event_insert list \<Rightarrow> fs_state \<Rightarrow> fs_state" where
  "final_emit env sqlite_ok batch st =
     (case emit_flush env sqlite_ok batch st of
        (ok, st1) \<Rightarrow> st1\<lparr>fs_stopper := (if ok then Stopped else StopRaised)\<rparr>)"

inductive fs_step :: "(json \<Rightarrow> string) \<Rightarrow> string \<Rightarrow> string \<Rightarrow> fs_state \<Rightarrow> fs_state \<Rightarrow> bool"
  for enc owner repo where
  observe: "fs_stopper st = Watching \<Longrightarrow> fs_step enc owner repo st (observe enc owner repo sig stat now_ns st)"
| loop_drain: "fs_flusher st = Looping \<Longrightarrow> fs_step enc owner repo st (loop_drain st)"
| loop_emit: "fs_flusher st = Holding batch \<Longrightarrow> fs_step enc owner repo st (loop_emit env ok batch st)"
| begin_stop: "fs_stopper st = Watching \<Longrightarrow> fs_step enc owner repo st (begin_stop st)"
| final_drain: "fs_stopper st = Stopping \<Longrightarrow> fs_step enc owner repo st (final_drain st)"
| final_emit: "fs_stopper st = FinalHolding batch \<Longrightarrow> fs_step enc owner repo st (final_emit env ok batch st)"
| elsewhere: "table_inv t' \<Longrightarrow> tb_rows t' = tb_rows (fs_table st) @ new \<Longrightarrow> fs_step enc owner repo st (st\<lparr>fs_table := t'\<rparr>)"

inductive fs_reach :: "(json \<Rightarrow> string) \<Rightarrow> string \<Rightarrow> string \<Rightarrow> fs_state \<Rightarrow> bool" for enc owner repo where
  start: "table_inv t \<Longrightarrow> fs_reach enc owner repo (fs_start us t)"
| step: "fs_reach enc owner repo st \<Longrightarrow> fs_step enc owner repo st st' \<Longrightarrow> fs_reach enc owner repo st'"

section \<open>What becomes of a completed write\<close>

lemma terminal_path_spec:
  "terminal_path sig = Some p \<longleftrightarrow> sig = Closed p False \<or> (sig = Moved (Some p) False \<and> p \<noteq> [])"
  by (cases sig) (auto simp: terminal_path_def split: option.splits)

definition held :: "fs_state \<Rightarrow> event_insert list" where
  "held st = (case fs_flusher st of Holding b \<Rightarrow> b | _ \<Rightarrow> []) @ (case fs_stopper st of FinalHolding b \<Rightarrow> b | _ \<Rightarrow> [])"

definition accounted :: "fs_state \<Rightarrow> string \<Rightarrow> bool" where
  "accounted st d \<longleftrightarrow> d \<in> fst ` set (fs_pending st) \<or> d \<in> ev_delivery_id ` set (held st)
     \<or> d \<in> ev_delivery_id ` set (tb_rows (fs_table st)) \<or> d \<in> (ev_delivery_id \<circ> fst) ` set (fs_lost st)"

definition fs_inv :: "fs_state \<Rightarrow> bool" where
  "fs_inv st \<longleftrightarrow> (\<forall>(k, ev)\<in>set (fs_pending st). k = ev_delivery_id ev) \<and> distinct (map fst (fs_pending st))
     \<and> (\<forall>ev\<in>set (fs_added st). accounted st (ev_delivery_id ev))
     \<and> (fs_stopper st = Watching \<or> fs_stopper st = Stopping \<or> fs_pending st = [])
     \<and> table_inv (fs_table st)"

lemma drained_ids: "fs_inv st \<Longrightarrow> ev_delivery_id ` set (drained st) = fst ` set (fs_pending st)"
  unfolding drained_def set_map image_image by (rule image_cong[OF refl]) (auto simp: fs_inv_def)

lemma emit_flush_facts:
  assumes "table_inv (fs_table st)" "emit_flush env ok batch st = (b, st1)"
  shows "fs_pending st1 = fs_pending st" "fs_added st1 = fs_added st"
    "fs_flusher st1 = fs_flusher st" "fs_stopper st1 = fs_stopper st" "table_inv (fs_table st1)"
    "set (tb_rows (fs_table st)) \<subseteq> set (tb_rows (fs_table st1))" "set (fs_lost st) \<subseteq> set (fs_lost st1)"
    "ev_delivery_id ` set batch \<subseteq> ev_delivery_id ` set (tb_rows (fs_table st1)) \<union> (ev_delivery_id \<circ> fst) ` set (fs_lost st1)"
    "fs_lost st1 = fs_lost st \<Longrightarrow> b \<or> batch = []"
proof -
  let ?evs = "map (\<lambda>(k, ev). Some (env k, ev)) (enumerate 0 batch)"
  have mem: "\<exists>e. Some (e, ev) \<in> set ?evs" if "ev \<in> set batch" for ev
  proof -
    obtain k where "k < length batch" "batch ! k = ev" using \<open>ev \<in> set batch\<close> by (auto simp: in_set_conv_nth)
    then have "(k, ev) \<in> set (enumerate 0 batch)" by (simp add: in_set_enumerate_eq)
    then show ?thesis by force
  qed
  obtain q us t eff where e: "emit_batch ?evs (fs_ulid st) (fs_table st) = (q, us, t, eff)" by (metis prod_cases4)
  obtain q1 us1 t1 eff1 where b: "batch_loop ?evs 0 (fs_ulid st) (fs_table st) [] = (q1, us1, t1, eff1)" by (metis prod_cases4)
  note facts = batch_loop_facts[OF assms(1) b]
  have t: "t = (case q1 of Inl _ \<Rightarrow> fs_table st | Inr _ \<Rightarrow> t1)" "q = q1"
    using e b by (auto simp: emit_batch_def split: sum.splits)
  have inv: "table_inv t" and sub: "set (tb_rows (fs_table st)) \<subseteq> set (tb_rows t)"
    using facts assms(1) unfolding t(1) by (auto split: sum.splits)
  have stored: "ev_delivery_id ` set batch \<subseteq> ev_delivery_id ` set (tb_rows t)"
    if "fresh_draws ?evs (fs_ulid st) (fs_table st)" "q = Inr n" for n
  proof -
    have "batch_loop ?evs 0 (fs_ulid st) (fs_table st) [] = (Inr n, us1, t1, eff1)" using b t(2) that(2) by simp
    from batch_loop_stores[OF this that(1)] mem show ?thesis using t that(2) by fastforce
  qed
  note unfolded = assms(2)[unfolded emit_flush_def Let_def e prod.case]
  show "fs_pending st1 = fs_pending st" "fs_added st1 = fs_added st" "fs_flusher st1 = fs_flusher st"
    "fs_stopper st1 = fs_stopper st" "table_inv (fs_table st1)" "set (tb_rows (fs_table st)) \<subseteq> set (tb_rows (fs_table st1))"
    "set (fs_lost st) \<subseteq> set (fs_lost st1)" "fs_lost st1 = fs_lost st \<Longrightarrow> b \<or> batch = []"
    using unfolded inv sub assms(1) by (auto split: if_splits sum.splits)
  show "ev_delivery_id ` set batch \<subseteq> ev_delivery_id ` set (tb_rows (fs_table st1)) \<union> (ev_delivery_id \<circ> fst) ` set (fs_lost st1)"
    using unfolded stored by (cases q) (auto simp: image_Un image_image split: if_splits)
qed

lemma accounted_mono:
  assumes "accounted st d" "fst ` set (fs_pending st) \<subseteq> fst ` set (fs_pending st')"
    "ev_delivery_id ` set (held st) \<subseteq> ev_delivery_id ` set (held st') \<union> ev_delivery_id ` set (tb_rows (fs_table st'))
       \<union> (ev_delivery_id \<circ> fst) ` set (fs_lost st')"
    "set (tb_rows (fs_table st)) \<subseteq> set (tb_rows (fs_table st'))" "set (fs_lost st) \<subseteq> set (fs_lost st')"
  shows "accounted st' d"
  using assms unfolding accounted_def by blast

lemma set_alist_update: "set (AList.update k v al) \<subseteq> insert (k, v) (set al)"
  by (induction al) auto

lemma fs_inv_add:
  assumes "fs_inv st" "fs_stopper st = Watching"
  shows "fs_inv (fs_add ev st)"
proof -
  have ids: "fst ` set (fs_pending (fs_add ev st)) = insert (ev_delivery_id ev) (fst ` set (fs_pending st))"
    by (simp add: fs_add_def dom_map_of_conv_image_fst[symmetric] update_conv')
  have same: "held (fs_add ev st) = held st" "fs_table (fs_add ev st) = fs_table st" "fs_lost (fs_add ev st) = fs_lost st"
    by (simp_all add: fs_add_def held_def)
  have kept: "accounted st d \<Longrightarrow> accounted (fs_add ev st) d" for d
    unfolding accounted_def ids same by blast
  have new: "accounted (fs_add ev st) (ev_delivery_id ev)" by (simp add: accounted_def ids)
  have keys: "\<forall>(k, e)\<in>set (fs_pending (fs_add ev st)). k = ev_delivery_id e"
    using assms(1) set_alist_update[of "ev_delivery_id ev" ev "fs_pending st"] by (fastforce simp: fs_inv_def fs_add_def)
  have added: "set (fs_added (fs_add ev st)) = insert ev (set (fs_added st))"
    and stopper: "fs_stopper (fs_add ev st) = Watching" and table: "table_inv (fs_table (fs_add ev st))"
    and dist: "distinct (map fst (fs_pending (fs_add ev st)))"
    using assms distinct_update[of "fs_pending st" "ev_delivery_id ev" ev] by (auto simp: fs_inv_def fs_add_def)
  have "\<forall>e\<in>set (fs_added (fs_add ev st)). accounted (fs_add ev st) (ev_delivery_id e)"
    using assms(1) kept new unfolding added fs_inv_def by blast
  then show ?thesis using keys dist stopper table by (simp add: fs_inv_def)
qed

lemma fs_inv_keep:
  assumes "\<And>d. accounted st d \<Longrightarrow> accounted st' d" "fs_inv st" "fs_added st' = fs_added st"
    "fs_pending st' = fs_pending st \<or> fs_pending st' = []" "table_inv (fs_table st')"
    "fs_stopper st' = fs_stopper st \<or> fs_stopper st' = Watching \<or> fs_stopper st' = Stopping \<or> fs_pending st' = []"
  shows "fs_inv st'"
proof -
  have "fs_stopper st' = Watching \<or> fs_stopper st' = Stopping \<or> fs_pending st' = []"
    using assms(2,4,6) unfolding fs_inv_def by metis
  moreover have "\<forall>ev\<in>set (fs_added st'). accounted st' (ev_delivery_id ev)"
    using assms(1-3) unfolding fs_inv_def by metis
  moreover have "(\<forall>(k, ev)\<in>set (fs_pending st'). k = ev_delivery_id ev) \<and> distinct (map fst (fs_pending st'))"
    using assms(2,4) unfolding fs_inv_def by (elim disjE) simp_all
  ultimately show ?thesis using assms(5) unfolding fs_inv_def by simp
qed

lemma fs_inv_emit:
  assumes "fs_inv st" "emit_flush env ok batch st = (b, st1)"
    "st' = st1\<lparr>fs_flusher := fl, fs_stopper := sp\<rparr>"
    "ev_delivery_id ` set (held st) \<subseteq> ev_delivery_id ` set (held st') \<union> ev_delivery_id ` set batch"
    "sp = fs_stopper st \<or> fs_pending st = []"
  shows "fs_inv st'"
proof -
  have inv: "table_inv (fs_table st)" using assms(1) by (simp add: fs_inv_def)
  note f = emit_flush_facts[OF inv assms(2)]
  have h: "ev_delivery_id ` set (held st) \<subseteq> ev_delivery_id ` set (held st') \<union> ev_delivery_id ` set (tb_rows (fs_table st'))
      \<union> (ev_delivery_id \<circ> fst) ` set (fs_lost st')"
  proof -
    have same: "fs_table st' = fs_table st1" "fs_lost st' = fs_lost st1" by (simp_all add: assms(3))
    have chain: "A \<subseteq> B \<union> C \<Longrightarrow> C \<subseteq> D \<union> E \<Longrightarrow> A \<subseteq> B \<union> D \<union> E" for A B C D E :: "string set" by blast
    show ?thesis unfolding same by (rule chain[OF assms(4) f(8)])
  qed
  have kept: "accounted st d \<Longrightarrow> accounted st' d" for d
    by (erule accounted_mono[OF _ _ h]) (use f assms(3) in auto)
  show ?thesis by (rule fs_inv_keep[OF kept assms(1)]) (use f assms(3,5) in auto)
qed

lemma fs_inv_step:
  assumes "fs_inv st" "fs_step enc owner repo st st'"
  shows "fs_inv st'"
  using assms(2)
proof cases
  case (observe sig stat now_ns)
  then show ?thesis using assms(1) by (auto simp: observe_def fs_inv_add split: option.split)
next
  case loop_drain
  have "accounted st d \<Longrightarrow> accounted st' d" for d
    using drained_ids[OF assms(1)] loop_drain
    by (auto simp: loop_drain_def accounted_def clear_pending_def held_def image_Un)
  then show ?thesis by (rule fs_inv_keep[OF _ assms(1)])
    (use assms(1) loop_drain in \<open>auto simp: loop_drain_def clear_pending_def fs_inv_def\<close>)
next
  case (loop_emit batch env ok)
  obtain b st1 where e: "emit_flush env ok batch st = (b, st1)" by fastforce
  have "fs_stopper st1 = fs_stopper st" using emit_flush_facts[OF _ e] assms(1) by (simp add: fs_inv_def)
  then show ?thesis
    by (intro fs_inv_emit[OF assms(1) e, where fl = "if b then Looping else LoopDied" and sp = "fs_stopper st"])
      (use loop_emit e in \<open>auto simp: loop_emit_def held_def\<close>)
next
  case begin_stop
  have "accounted st d \<Longrightarrow> accounted st' d" for d
    using begin_stop by (auto simp: begin_stop_def accounted_def held_def)
  then show ?thesis by (rule fs_inv_keep[OF _ assms(1)])
    (use assms(1) begin_stop in \<open>auto simp: begin_stop_def fs_inv_def\<close>)
next
  case final_drain
  have "accounted st d \<Longrightarrow> accounted st' d" for d
    using drained_ids[OF assms(1)] final_drain
    by (auto simp: final_drain_def accounted_def clear_pending_def held_def image_Un)
  then show ?thesis by (rule fs_inv_keep[OF _ assms(1)])
    (use assms(1) final_drain in \<open>auto simp: final_drain_def clear_pending_def fs_inv_def\<close>)
next
  case (final_emit batch env ok)
  obtain b st1 where e: "emit_flush env ok batch st = (b, st1)" by fastforce
  have "fs_flusher st1 = fs_flusher st" using emit_flush_facts[OF _ e] assms(1) by (simp add: fs_inv_def)
  moreover have "fs_pending st = []" using assms(1) final_emit by (simp add: fs_inv_def)
  ultimately show ?thesis
    by (intro fs_inv_emit[OF assms(1) e, where fl = "fs_flusher st" and sp = "if b then Stopped else StopRaised"])
      (use final_emit e in \<open>auto simp: final_emit_def held_def\<close>)
next
  case (elsewhere t' new)
  have "accounted st d \<Longrightarrow> accounted st' d" for d
    using elsewhere by (auto simp: accounted_def held_def)
  then show ?thesis by (rule fs_inv_keep[OF _ assms(1)]) (use elsewhere in auto)
qed

lemma fs_inv_reach: "fs_reach enc owner repo st \<Longrightarrow> fs_inv st"
proof (induction rule: fs_reach.induct)
  case (start t us)
  then show ?case by (simp add: fs_inv_def fs_start_def)
next
  case (step st st')
  then show ?case by (blast intro: fs_inv_step)
qed


section \<open>Sample runs\<close>

definition sample_stat :: "string \<Rightarrow> file_stat option" where
  "sample_stat p = (if p = ''/w/a.txt'' then Some \<lparr>fi_abspath = p, fi_basename = ''a.txt'', fi_size = 3, fi_mtime_ns = 7\<rparr>
     else None)"

definition one_save :: "fs_signal \<Rightarrow> bool \<Rightarrow> fs_state" where
  "one_save sig sqlite_ok =
     (let st = loop_drain (observe (\<lambda>_. ''{}'') ''local'' ''fs'' sig sample_stat 1700000000000000000 (fs_start ulid_state0 empty_table))
      in final_drain (begin_stop (loop_emit (\<lambda>_. sample_env 5000000) sqlite_ok
           (case fs_flusher st of Holding b \<Rightarrow> b | _ \<Rightarrow> []) st)))"

lemma one_save_reach:
  assumes "fs_flusher (loop_drain (observe (\<lambda>_. ''{}'') ''local'' ''fs'' sig sample_stat 1700000000000000000
    (fs_start ulid_state0 empty_table))) = Holding b"
  shows "fs_reach (\<lambda>_. ''{}'') ''local'' ''fs'' (one_save sig ok)"
proof -
  let ?enc = "\<lambda>_. ''{}''" and ?s0 = "fs_start ulid_state0 empty_table"
  let ?s1 = "observe ?enc ''local'' ''fs'' sig sample_stat 1700000000000000000 ?s0"
  let ?s2 = "loop_drain ?s1" let ?s3 = "loop_emit (\<lambda>_. sample_env 5000000) ok b ?s2"
  have frame: "fs_stopper ?s1 = Watching" "fs_flusher ?s1 = Looping"
    by (simp_all add: observe_def fs_add_def fs_start_def split: option.split)
  have w0: "fs_stopper ?s0 = Watching" by (simp add: fs_start_def)
  have w3: "fs_stopper ?s3 = Watching"
    using frame by (simp add: loop_emit_def emit_flush_def loop_drain_def clear_pending_def Let_def
      split: prod.split sum.split)
  have w4: "fs_stopper (begin_stop ?s3) = Stopping" by (simp add: begin_stop_def)
  note steps = fs_step.observe[OF w0] fs_step.loop_drain[OF frame(2)] fs_step.loop_emit[OF assms]
    fs_step.begin_stop[OF w3] fs_step.final_drain[OF w4]
  have eq: "one_save sig ok = final_drain (begin_stop ?s3)" using assms by (simp add: one_save_def Let_def)
  have "fs_reach ?enc ''local'' ''fs'' ?s0" by (rule fs_reach.start[OF table_inv_empty])
  note r1 = fs_reach.step[OF this steps(1)]
  note r3 = fs_reach.step[OF fs_reach.step[OF r1 steps(2)] steps(3)]
  show ?thesis unfolding eq by (rule fs_reach.step[OF fs_reach.step[OF r3 steps(4)] steps(5)])
qed

abbreviation saved_file :: fs_signal where
  "saved_file \<equiv> Closed ''/w/a.txt'' False"

definition saved_event :: event_insert where
  "saved_event = (event_insert_defaults ''fs:/w/a.txt:7'' ''fs'' ''fs_change'' ''local'' ''fs'' 1700000000000000000
     ''{}'' ''fs_watch'')\<lparr>ev_status := Some ''completed'', ev_conclusion := Some ''success'',
       ev_workflow_name := Some ''a.txt''\<rparr>"

lemma saved_event_id: "ev_delivery_id saved_event = ''fs:/w/a.txt:7''"
  by (simp add: saved_event_def event_insert_defaults_def)

lemma save_observed:
  "loop_drain (observe (\<lambda>_. ''{}'') ''local'' ''fs'' saved_file sample_stat 1700000000000000000 (fs_start ulid_state0 empty_table))
     = (fs_start ulid_state0 empty_table)\<lparr>fs_flusher := Holding [saved_event], fs_added := [saved_event]\<rparr>"
proof -
  have "int_str 7 = ''7''" by code_simp
  then have "fs_event_insert (\<lambda>_. ''{}'') 1700000000000000000 ''local'' ''fs'' (sample_stat ''/w/a.txt'') = Some saved_event"
    by (simp add: fs_event_insert_def sample_stat_def saved_event_def)
  then show ?thesis
    by (simp add: observe_def terminal_path_def fs_add_def fs_start_def loop_drain_def drained_def clear_pending_def)
qed

lemma one_save_eq:
  "one_save saved_file ok = final_drain (begin_stop (loop_emit (\<lambda>_. sample_env 5000000) ok [saved_event]
     ((fs_start ulid_state0 empty_table)\<lparr>fs_flusher := Holding [saved_event], fs_added := [saved_event]\<rparr>)))"
  by (simp add: one_save_def save_observed)

lemma saved_batch:
  "case emit_batch [Some (sample_env 5000000, saved_event)] ulid_state0 empty_table of (r, us, t, effs) \<Rightarrow>
     r = Inr 1 \<and> map ev_delivery_id (tb_rows t) = [''fs:/w/a.txt:7'']"
  by code_simp

lemma saved_fresh: "fresh_draws [Some (sample_env 5000000, saved_event)] ulid_state0 empty_table"
  by (simp add: fresh_draws_def empty_table_def split: prod.split sum.split)


text \<open>A flush that raises on the loop's thread: the buffer was cleared before the emit, so the batch is
  gone and the thread has ended, yet the stop finishes normally; docstrings of \<open>_Debouncer\<close> and
  \<open>watch\<close> say that a completed save is never dropped on shutdown.\<close>

lemma failed_flush_drops_save:
  "\<exists>st. fs_reach (\<lambda>_. ''{}'') ''local'' ''fs'' st \<and> fs_stopper st = Stopped \<and> fs_flusher st = LoopDied
     \<and> map ev_delivery_id (fs_added st) = [''fs:/w/a.txt:7''] \<and> fs_pending st = [] \<and> tb_rows (fs_table st) = []"
proof -
  let ?st = "one_save saved_file False"
  have "fs_stopper ?st = Stopped \<and> fs_flusher ?st = LoopDied \<and> fs_added ?st = [saved_event]
     \<and> fs_pending ?st = [] \<and> tb_rows (fs_table ?st) = []"
    unfolding one_save_eq
    by (simp add: final_drain_def begin_stop_def loop_emit_def emit_flush_def fs_start_def empty_table_def)
  then show ?thesis
    using one_save_reach[where b = "[saved_event]" and sig = saved_file and ok = False]
    by (auto simp: save_observed saved_event_id)
qed

end
