(* ===== verification/WB_DockerWatch.thy ===== *)
theory WB_DockerWatch
  imports WB_Emit
begin

text \<open>
  The Docker watcher, \<open>waitbus/sources/docker_watch.py\<close>: the lines of the chunked
  \<open>/events\<close> body, the event of a message, the resume cursor, the reconnect loop with its
  back-off, and the race of \<open>WatchStopper\<close>. What the engine answers to a request is a function of
  the \<open>since\<close> it is sent; the JSON decoder and encoder, \<open>str\<close> of a value that is not a
  string, the clocks and what the store answers are parameters.
\<close>

section \<open>The lines of the stream\<close>

definition NEWLINE :: char where "NEWLINE = CHR 0x0a"

definition blank_line :: "string \<Rightarrow> bool" where
  "blank_line l \<longleftrightarrow> list_all (\<lambda>c. c \<in> {CHR '' '', CHR 0x09, CHR 0x0a, CHR 0x0b, CHR 0x0c, CHR 0x0d}) l"

text \<open>\<open>buf\<close> holds the bytes after the last newline; an empty chunk is the end of the body.\<close>

fun event_lines :: "string \<Rightarrow> string list \<Rightarrow> string list" where
  "event_lines buf [] = []"
| "event_lines buf (chunk # chunks) =
     (if chunk = [] then []
      else (let parts = split_on NEWLINE (buf @ chunk) in
            filter (\<lambda>l. \<not> blank_line l) (butlast parts) @ event_lines (last parts) chunks))"

section \<open>The event of a message\<close>

datatype docker_raise =
    SocketError | NotUtf8 | NoAttribute | Unhashable | TooLarge | StoreRaises | EmitRaises emit_error

text \<open>\<open>isinstance(v, int)\<close> holds of booleans too.\<close>

definition json_int :: "json \<Rightarrow> int option" where
  "json_int j = (case j of JInt i \<Rightarrow> Some i | JBool b \<Rightarrow> Some (if b then 1 else 0) | _ \<Rightarrow> None)"

definition positive_nano :: "dict \<Rightarrow> int option" where
  "positive_nano m = (case json_int (dict_get m ''timeNano'') of Some n \<Rightarrow> if n > 0 then Some n else None | None \<Rightarrow> None)"

definition event_epoch_s :: "dict \<Rightarrow> int option" where
  "event_epoch_s m =
     (case positive_nano m of Some n \<Rightarrow> Some (n div NS_PER_SECOND) | None \<Rightarrow> json_int (dict_get m ''time''))"

text \<open>\<open>int(exitCode)\<close>: \<open>TypeError\<close> and \<open>ValueError\<close> count as failure, the
  \<open>OverflowError\<close> of an infinite float is not caught.\<close>

definition conclusion_for :: "string \<Rightarrow> json \<Rightarrow> docker_raise + string" where
  "conclusion_for action exit_code =
     (if action \<noteq> ''die'' then Inr ''cancelled''
      else (let graded = (\<lambda>code. Inr (if code = Some 0 then ''success'' else ''failure'')) in
            case exit_code of
              JStr s \<Rightarrow> graded (py_int s)
            | JFloat (Fin q) \<Rightarrow> graded (Some (truncate_rat q))
            | JFloat PInf \<Rightarrow> Inl TooLarge
            | JFloat NInf \<Rightarrow> Inl TooLarge
            | j \<Rightarrow> graded (json_int j)))"

definition received_at_ns :: "int \<Rightarrow> dict \<Rightarrow> int" where
  "received_at_ns now_s m =
     (case positive_nano m of
        Some n \<Rightarrow> n
      | None \<Rightarrow> (case event_epoch_s m of Some e \<Rightarrow> e * NS_PER_SECOND | None \<Rightarrow> now_s * NS_PER_SECOND))"

definition TERMINAL_ACTIONS :: "string list" where
  "TERMINAL_ACTIONS = [''die'', ''stop'', ''kill'']"

text \<open>\<open>d.get(key, {})\<close> used as a dict, \<open>str(d.get(key, ""))\<close>.\<close>

definition get_dict :: "dict \<Rightarrow> string \<Rightarrow> dict option" where
  "get_dict d k = (case map_of d k of None \<Rightarrow> Some [] | Some j \<Rightarrow> as_dict j)"

definition get_text :: "(json \<Rightarrow> string) \<Rightarrow> dict \<Rightarrow> string \<Rightarrow> string" where
  "get_text repr d k = (case map_of d k of None \<Rightarrow> [] | Some (JStr s) \<Rightarrow> s | Some j \<Rightarrow> repr j)"

record docker_cfg =
  dc_repr :: "json \<Rightarrow> string"
  dc_loads :: "string \<Rightarrow> (bool + json)"
  dc_dumps :: "json \<Rightarrow> string"
  dc_owner :: string
  dc_repo :: string
  dc_until :: bool
  dc_max_events :: "nat option"
  dc_known :: "string list"

definition docker_event :: "docker_cfg \<Rightarrow> int \<Rightarrow> dict \<Rightarrow> docker_raise + event_insert option" where
  "docker_event cfg now_s m =
     (if dict_get m ''Type'' \<noteq> JStr ''container'' then Inr None
      else (case dict_get m ''Action'' of
        JArr _ \<Rightarrow> Inl Unhashable
      | JObj _ \<Rightarrow> Inl Unhashable
      | JStr action \<Rightarrow>
          (if action \<notin> set TERMINAL_ACTIONS then Inr None
           else (case get_dict m ''Actor'' of
             None \<Rightarrow> Inl NoAttribute
           | Some actor \<Rightarrow>
               (case get_dict actor ''Attributes'' of
                  None \<Rightarrow> Inl NoAttribute
                | Some attrs \<Rightarrow>
                    (let container_id = get_text (dc_repr cfg) actor ''ID'';
                         name = get_text (dc_repr cfg) attrs ''name'';
                         received_at = received_at_ns now_s m
                     in res_bind (conclusion_for action (dict_get attrs ''exitCode''))
                          (\<lambda>conclusion. Inr (Some
                             ((event_insert_defaults
                                 (''docker:'' @ (if container_id \<noteq> [] then container_id else name) @ '':'' @ action @ '':''
                                    @ int_str received_at)
                                 ''docker'' ''docker_container'' (dc_owner cfg) (dc_repo cfg) received_at
                                 (dc_dumps cfg (JObj m)) ''docker_events'')
                              \<lparr>ev_status := Some ''completed'', ev_conclusion := Some conclusion,
                               ev_workflow_name := (if name = [] then None else Some name)\<rparr>)))))))
      | _ \<Rightarrow> Inr None))"

definition advance_cursor :: "dict \<Rightarrow> int option \<Rightarrow> int option" where
  "advance_cursor m current = (case event_epoch_s m of None \<Rightarrow> current | Some e \<Rightarrow> Some (e - 1))"

text \<open>The delay of the \<open>attempt\<close>-th reconnect in a row. \<open>2.0 ** 1024\<close> raises
  \<open>OverflowError\<close> (None) before the ceiling is applied.\<close>

definition RECONNECT_BACKOFF_BASE_S :: int where "RECONNECT_BACKOFF_BASE_S = 1"
definition RECONNECT_BACKOFF_CEIL_S :: int where "RECONNECT_BACKOFF_CEIL_S = 30"

definition reconnect_backoff :: "nat \<Rightarrow> int option" where
  "reconnect_backoff attempt =
     (if 1024 \<le> attempt - 1 then None
      else Some (min (RECONNECT_BACKOFF_BASE_S * 2 ^ (attempt - 1)) RECONNECT_BACKOFF_CEIL_S))"

section \<open>The watch loop\<close>

text \<open>What one line meets: the clock, whether SQLite raises, what the insert reads.\<close>

record line_env =
  le_now_s :: int
  le_store_ok :: bool
  le_insert :: insert_env

datatype events_end = CleanEof | Dropped | Interrupted

datatype docker_conn = NoSocket | BadStatus | Answered "string list" "nat \<Rightarrow> line_env" events_end

record watch_turn =
  wt_stopped :: bool
  wt_connect :: "int option \<Rightarrow> docker_conn"
  wt_stopped_after :: bool

record watch_state =
  ws_cursor :: "int option"
  ws_attempt :: nat
  ws_emitted :: nat
  ws_ulid :: ulid_state
  ws_table :: event_table
  ws_sleeps :: "int list"
  ws_seen :: "dict list"

definition watch_start :: "int option \<Rightarrow> ulid_state \<Rightarrow> event_table \<Rightarrow> watch_state" where
  "watch_start since us t = \<lparr>ws_cursor = since, ws_attempt = 0, ws_emitted = 0, ws_ulid = us, ws_table = t,
     ws_sleeps = [], ws_seen = []\<rparr>"

datatype lines_end = LinesOver | MaxReached | LineRaises docker_raise

text \<open>The body of the \<open>for\<close> for a decoded message; \<open>ws_seen\<close> logs the messages dealt with.\<close>

definition take_message :: "docker_cfg \<Rightarrow> line_env \<Rightarrow> dict \<Rightarrow> watch_state \<Rightarrow> lines_end \<times> watch_state" where
  "take_message cfg e m st =
     (let st1 = st\<lparr>ws_cursor := advance_cursor m (ws_cursor st)\<rparr>;
          done = (\<lambda>st. st\<lparr>ws_seen := ws_seen st @ [m]\<rparr>)
      in case docker_event cfg (le_now_s e) m of
           Inl r \<Rightarrow> (LineRaises r, st1)
         | Inr None \<Rightarrow> (LinesOver, done st1)
         | Inr (Some ev) \<Rightarrow>
             (if \<not> le_store_ok e then (LineRaises StoreRaises, st1)
              else (case emit (dc_known cfg) (le_insert e) ev (ws_ulid st1) (ws_table st1) of
                (Inl err, us, t, effs) \<Rightarrow> (LineRaises (EmitRaises err), st1\<lparr>ws_ulid := us, ws_table := t\<rparr>)
              | (Inr r, us, t, effs) \<Rightarrow>
                  (if dc_max_events cfg \<noteq> None \<and> the (dc_max_events cfg) \<le> ws_emitted st1 + 1 then MaxReached else LinesOver,
                   done (st1\<lparr>ws_ulid := us, ws_table := t, ws_emitted := ws_emitted st1 + 1\<rparr>)))))"

fun read_lines :: "docker_cfg \<Rightarrow> (nat \<Rightarrow> line_env) \<Rightarrow> nat \<Rightarrow> string list \<Rightarrow> watch_state \<Rightarrow> lines_end \<times> watch_state" where
  "read_lines cfg envs k [] st = (LinesOver, st)"
| "read_lines cfg envs k (line # lines) st =
     (let st0 = st\<lparr>ws_attempt := 0\<rparr> in
      case dc_loads cfg line of
        Inl True \<Rightarrow> read_lines cfg envs (Suc k) lines st0
      | Inl False \<Rightarrow> (LineRaises NotUtf8, st0)
      | Inr j \<Rightarrow>
          (case as_dict j of
             None \<Rightarrow> (LineRaises NoAttribute, st0)
           | Some m \<Rightarrow>
               (case take_message cfg (envs k) m st0 of
                  (LinesOver, st1) \<Rightarrow> read_lines cfg envs (Suc k) lines st1
                | stop \<Rightarrow> stop)))"

datatype watch_end = Returned int | WatchRaised docker_raise | StillWatching

text \<open>One connection per turn; \<open>Inl\<close> ends the watch.\<close>

definition watch_turn :: "docker_cfg \<Rightarrow> watch_turn \<Rightarrow> watch_state \<Rightarrow> watch_end option \<times> watch_state" where
  "watch_turn cfg w st =
     (if wt_stopped w then (Some (Returned 0), st)
      else (case wt_connect w (ws_cursor st) of
        NoSocket \<Rightarrow> (Some (WatchRaised SocketError), st)
      | BadStatus \<Rightarrow> (Some (WatchRaised SocketError), st)
      | Answered chunks envs e \<Rightarrow>
          (case read_lines cfg envs 0 (event_lines [] chunks) st of
             (LineRaises r, st1) \<Rightarrow> (Some (WatchRaised r), st1)
           | (MaxReached, st1) \<Rightarrow> (Some (Returned 0), st1)
           | (LinesOver, st1) \<Rightarrow>
               (case e of
                  Interrupted \<Rightarrow> (Some (Returned 130), st1)
                | CleanEof \<Rightarrow> (if dc_until cfg then Some (Returned 0) else None, st1)
                | Dropped \<Rightarrow>
                    (if wt_stopped_after w \<or> dc_until cfg then (Some (Returned 0), st1)
                     else (let attempt = ws_attempt st1 + 1; st2 = st1\<lparr>ws_attempt := attempt\<rparr> in
                           case reconnect_backoff attempt of
                             None \<Rightarrow> (Some (WatchRaised TooLarge), st2)
                           | Some d \<Rightarrow> (None, st2\<lparr>ws_sleeps := ws_sleeps st2 @ [d]\<rparr>)))))))"

fun watch_loop :: "docker_cfg \<Rightarrow> watch_turn list \<Rightarrow> watch_state \<Rightarrow> watch_end \<times> watch_state" where
  "watch_loop cfg [] st = (StillWatching, st)"
| "watch_loop cfg (w # ws) st =
     (case watch_turn cfg w st of
        (Some e, st1) \<Rightarrow> (e, st1)
      | (None, st1) \<Rightarrow> watch_loop cfg ws st1)"

section \<open>The stop seam\<close>

text \<open>\<open>WatchStopper\<close> between the thread that stops and the watch: where each is, whether the flag
  is set, whether a connection is registered, whether the connection of the moment is shut down. A
  reader in \<open>Reading\<close> blocks in \<open>recv\<close> unless it is.\<close>

datatype stop_pc = NotStopped | FlagSet | TookConn bool | StopOver

datatype reader_pc = AtLoopTop | Connecting | LostRace | Reading | ReaderOver

record stop_seam =
  sm_event :: bool
  sm_conn :: bool
  sm_shut :: bool
  sm_stop :: stop_pc
  sm_reader :: reader_pc

definition seam_start :: stop_seam where
  "seam_start = \<lparr>sm_event = False, sm_conn = False, sm_shut = False, sm_stop = NotStopped, sm_reader = AtLoopTop\<rparr>"

definition stop_move :: "stop_seam \<Rightarrow> stop_seam" where
  "stop_move s =
     (case sm_stop s of
        NotStopped \<Rightarrow> s\<lparr>sm_event := True, sm_stop := FlagSet\<rparr>
      | FlagSet \<Rightarrow> s\<lparr>sm_conn := False, sm_stop := TookConn (sm_conn s)\<rparr>
      | TookConn c \<Rightarrow> s\<lparr>sm_shut := sm_shut s \<or> c, sm_stop := StopOver\<rparr>
      | StopOver \<Rightarrow> s)"

text \<open>\<open>eof\<close>: the read has ended for another reason.\<close>

definition reader_move :: "bool \<Rightarrow> stop_seam \<Rightarrow> stop_seam" where
  "reader_move eof s =
     (case sm_reader s of
        AtLoopTop \<Rightarrow> if sm_event s then s\<lparr>sm_reader := ReaderOver\<rparr> else s\<lparr>sm_reader := Connecting, sm_shut := False\<rparr>
      | Connecting \<Rightarrow> s\<lparr>sm_conn := True, sm_reader := (if sm_event s then LostRace else Reading)\<rparr>
      | LostRace \<Rightarrow> s\<lparr>sm_shut := True, sm_reader := Reading\<rparr>
      | Reading \<Rightarrow> if eof \<or> sm_shut s then s\<lparr>sm_conn := False, sm_reader := AtLoopTop\<rparr> else s
      | ReaderOver \<Rightarrow> s)"

inductive seam_reach :: "stop_seam \<Rightarrow> bool" where
  "seam_reach seam_start"
| "seam_reach s \<Longrightarrow> seam_reach (stop_move s)"
| "seam_reach s \<Longrightarrow> seam_reach (reader_move eof s)"

definition seam_inv :: "stop_seam \<Rightarrow> bool" where
  "seam_inv s \<longleftrightarrow> (sm_event s \<longleftrightarrow> sm_stop s \<noteq> NotStopped)
     \<and> (sm_reader s = Reading \<longrightarrow> sm_shut s \<or> sm_stop s = TookConn True
          \<or> (sm_conn s \<and> (sm_stop s = NotStopped \<or> sm_stop s = FlagSet)))"

lemma seam_inv_reach: "seam_reach s \<Longrightarrow> seam_inv s"
proof (induction rule: seam_reach.induct)
  case 1
  then show ?case by (simp add: seam_inv_def seam_start_def)
next
  case (2 s)
  then show ?case by (cases "sm_stop s") (auto simp: seam_inv_def stop_move_def)
next
  case (3 s eof)
  then show ?case by (cases "sm_reader s") (auto simp: seam_inv_def reader_move_def)
qed

text \<open>Whatever the interleaving, once \<open>stop\<close> has returned the watch is over or ends of itself: a
  read it is in is woken, and no new connection is left waiting.\<close>

theorem stop_wakes_reader:
  assumes "seam_reach s" "sm_stop s = StopOver"
  shows "sm_reader (((reader_move False) ^^ 4) s) = ReaderOver"
proof -
  have inv: "sm_event s" "sm_reader s = Reading \<longrightarrow> sm_shut s"
    using seam_inv_reach[OF assms(1)] assms(2) by (auto simp: seam_inv_def)
  then show ?thesis by (cases "sm_reader s") (simp_all add: numeral_eq_Suc reader_move_def)
qed

lemma stop_wakes_reader_witness:
  "sm_reader (((reader_move False) ^^ 4) ((stop_move ^^ 3) (reader_move False seam_start))) = ReaderOver"
proof (rule stop_wakes_reader)
  show "seam_reach ((stop_move ^^ 3) (reader_move False seam_start))"
    by (simp add: numeral_eq_Suc seam_reach.intros)
qed (simp add: numeral_eq_Suc stop_move_def reader_move_def seam_start_def)

section \<open>Chunks do not matter\<close>

lemma split_on_append: "split_on c (a @ b) = butlast (split_on c a) @ split_on c (last (split_on c a) @ b)"
  by (induction a) (auto split: list.splits)

lemma event_lines_chunks:
  assumes "[] \<notin> set chunks" "NEWLINE \<notin> set buf"
  shows "event_lines buf chunks = filter (\<lambda>l. \<not> blank_line l) (butlast (split_on NEWLINE (buf @ concat chunks)))"
  using assms
proof (induction chunks arbitrary: buf)
  case Nil
  then have "split_on NEWLINE buf = [buf]" by (induction buf) auto
  then show ?case by simp
next
  case (Cons c cs)
  let ?parts = "split_on NEWLINE (buf @ c)"
  have "NEWLINE \<notin> set (last ?parts)" by (rule split_on_no_sep[of _ _ "buf @ c"]) simp
  then have ih: "event_lines (last ?parts) cs
      = filter (\<lambda>l. \<not> blank_line l) (butlast (split_on NEWLINE (last ?parts @ concat cs)))"
    using Cons by simp
  have whole: "split_on NEWLINE (buf @ c @ concat cs) = butlast ?parts @ split_on NEWLINE (last ?parts @ concat cs)"
    using split_on_append[of NEWLINE "buf @ c" "concat cs"] by simp
  then show ?case using Cons.prems ih by (auto simp: Let_def butlast_append)
qed

section \<open>Nothing is skipped across a reconnect\<close>

definition clock :: "dict \<Rightarrow> int" where
  "clock m = the (event_epoch_s m)"

text \<open>The engine's events in their order, each with a clock; and what it documents of
  \<open>since\<close>: it replays the events from that second on and goes on with those to come, until the
  connection ends.\<close>

definition engine_log :: "dict list \<Rightarrow> bool" where
  "engine_log L \<longleftrightarrow> sorted (map clock L) \<and> (\<forall>m\<in>set L. event_epoch_s m \<noteq> None)"

definition engine_answers :: "docker_cfg \<Rightarrow> dict list \<Rightarrow> (int option \<Rightarrow> docker_conn) \<Rightarrow> bool" where
  "engine_answers cfg L connect \<longleftrightarrow>
     (\<forall>c chunks envs e. connect (Some c) = Answered chunks envs e \<longrightarrow>
        (\<exists>n. map (dc_loads cfg) (event_lines [] chunks)
             = map (\<lambda>m. Inr (JObj m)) (take n (filter (\<lambda>m. c \<le> clock m) L))))"

definition docker_stored :: "docker_cfg \<Rightarrow> event_table \<Rightarrow> dict \<Rightarrow> bool" where
  "docker_stored cfg t m \<longleftrightarrow>
     (\<forall>ev. docker_event cfg 0 m = Inr (Some ev) \<longrightarrow> ev_delivery_id ev \<in> ev_delivery_id ` set (tb_rows t))"

lemma docker_event_clock:
  assumes "event_epoch_s m \<noteq> None"
  shows "docker_event cfg a m = docker_event cfg b m"
proof -
  have "received_at_ns a m = received_at_ns b m"
    using assms by (auto simp: received_at_ns_def split: option.splits)
  then show ?thesis unfolding docker_event_def by (simp only:)
qed

lemma emit_grows:
  assumes "emit known env ev us t = (r, us', t', effs)" "table_inv t"
  shows "table_inv t' \<and> set (tb_rows t) \<subseteq> set (tb_rows t')"
proof -
  obtain r0 where "insert_event env True ev us t = (r0, us', t', effs)"
    using assms(1) by (auto simp: emit_def split: prod.splits sum.splits)
  then show ?thesis using insert_event_append[of env True ev us t] insert_event_table_inv[OF assms(2)] by fastforce
qed

lemma stored_mono: "docker_stored cfg t m \<Longrightarrow> set (tb_rows t) \<subseteq> set (tb_rows t') \<Longrightarrow> docker_stored cfg t' m"
  unfolding docker_stored_def by blast

text \<open>The first \<open>p\<close> events are dealt with, and the cursor is before all others.\<close>

definition caught_up :: "docker_cfg \<Rightarrow> dict list \<Rightarrow> int \<Rightarrow> nat \<Rightarrow> watch_state \<Rightarrow> bool" where
  "caught_up cfg L c0 p st \<longleftrightarrow> p \<le> length L \<and> table_inv (ws_table st) \<and> set (ws_seen st) \<subseteq> set (take p L)
     \<and> (\<forall>m\<in>set (take p L). c0 \<le> clock m \<longrightarrow> docker_stored cfg (ws_table st) m)
     \<and> (\<exists>c. ws_cursor st = Some c \<and> (\<forall>m\<in>set (drop p L). c \<le> clock m))"

lemma later_clock:
  assumes "engine_log L" "q < length L" "m \<in> set (drop p L)" "q \<le> p"
  shows "clock (L ! q) \<le> clock m"
proof -
  obtain i where "i < length L" "p \<le> i" "m = L ! i"
    using assms(3) by (auto simp: in_set_conv_nth) (metis add.commute le_add1 less_diff_conv)
  then show ?thesis using assms(1,2,4) sorted_nth_mono[of "map clock L" q i] by (simp add: engine_log_def)
qed

lemma take_message_caught_up:
  assumes "engine_log L" "caught_up cfg L c0 p st" "q \<le> p" "q < length L"
    "take_message cfg e (L ! q) st = (r, st')"
  shows "(\<forall>x. r = LineRaises x \<longrightarrow> caught_up cfg L c0 p st')
    \<and> ((\<forall>x. r \<noteq> LineRaises x) \<longrightarrow> caught_up cfg L c0 (max p (Suc q)) st')"
proof -
  let ?m = "L ! q" and ?p = "max p (Suc q)"
  have some: "event_epoch_s ?m = Some (clock ?m)"
    using assms(1,4) by (auto simp: engine_log_def clock_def)
  have cur: "ws_cursor st' = Some (clock ?m - 1)"
    using assms(5) some by (auto simp: take_message_def advance_cursor_def Let_def split: sum.splits option.splits prod.splits if_splits)
  have inv: "table_inv (ws_table st)" using assms(2) by (simp add: caught_up_def)
  have grow: "table_inv (ws_table st') \<and> set (tb_rows (ws_table st)) \<subseteq> set (tb_rows (ws_table st'))"
    using assms(5) inv emit_grows
    by (auto simp: take_message_def Let_def split: sum.splits option.splits prod.splits if_splits) (blast+)?
  have before: "clock ?m - 1 \<le> clock m" if "m \<in> set (drop k L)" "q \<le> k" for k m
    using later_clock[OF assms(1,4) that] by simp
  have raised: "caught_up cfg L c0 p st'" if "r = LineRaises x" for x
  proof -
    have "ws_seen st' = ws_seen st"
      using assms(5) that by (auto simp: take_message_def Let_def split: sum.splits option.splits prod.splits if_splits)
    then show ?thesis using assms(2,3) cur grow before stored_mono by (auto simp: caught_up_def)
  qed
  have dealt: "caught_up cfg L c0 ?p st'" if nr: "\<forall>x. r \<noteq> LineRaises x"
  proof -
    have seen: "ws_seen st' = ws_seen st @ [?m]" and stored: "docker_stored cfg (ws_table st') ?m"
    proof -
      have now: "docker_event cfg (le_now_s e) ?m = docker_event cfg 0 ?m"
        by (rule docker_event_clock) (simp add: some)
      show "ws_seen st' = ws_seen st @ [?m]"
        using assms(5) that by (auto simp: take_message_def Let_def split: sum.splits option.splits prod.splits if_splits)
      show "docker_stored cfg (ws_table st') ?m"
        unfolding docker_stored_def
      proof (intro allI impI)
        fix ev assume ev: "docker_event cfg 0 ?m = Inr (Some ev)"
        then obtain res us t effs where em: "emit (dc_known cfg) (le_insert e) ev (ws_ulid st) (ws_table st) = (Inr res, us, t, effs)"
          and t: "ws_table st' = t"
          using assms(5) nr by (auto simp: take_message_def Let_def now split: sum.splits prod.splits if_splits)
        show "ev_delivery_id ev \<in> ev_delivery_id ` set (tb_rows (ws_table st'))"
          using emit_Inr(2,3)[OF inv em] unfolding t by (metis imageI)
      qed
    qed
    have "(q = p \<and> ?p = Suc q) \<or> (?p = p \<and> q < p)" using assms(3) by auto
    then have takes: "set (take ?p L) = insert ?m (set (take p L))"
    proof (elim disjE conjE)
      assume "?p = p" "q < p"
      moreover have "take p L ! q \<in> set (take p L)" using assms(4) \<open>q < p\<close> by (intro nth_mem) simp
      ultimately show ?thesis by auto
    qed (use assms(4) in \<open>simp add: take_Suc_conv_app_nth\<close>)
    have "?p \<le> length L" "q \<le> ?p" using assms(2,4) by (auto simp: caught_up_def)
    then show ?thesis
      using assms(2) seen stored grow cur before[of _ ?p] stored_mono[of cfg "ws_table st" _ "ws_table st'"]
      unfolding caught_up_def takes by auto
  qed
  show ?thesis using raised dealt by blast
qed

lemma read_lines_caught_up:
  assumes "engine_log L" "caught_up cfg L c0 p st" "q \<le> p"
    "map (dc_loads cfg) lines = map (\<lambda>m. Inr (JObj m)) (take n (drop q L))" "read_lines cfg envs k lines st = (r, st')"
  shows "\<exists>p'. caught_up cfg L c0 p' st'"
  using assms(2-)
proof (induction lines arbitrary: p q n k st)
  case Nil
  then show ?case by auto
next
  case (Cons line lines)
  have "n \<noteq> 0" using Cons.prems(3) by (cases n) simp_all
  moreover have "\<not> length L \<le> q" using Cons.prems(3) by (cases "length L \<le> q") simp_all
  ultimately obtain n' where n: "n = Suc n'" and q: "q < length L" by (cases n) auto
  have line: "dc_loads cfg line = Inr (JObj (L ! q))"
    and rest: "map (dc_loads cfg) lines = map (\<lambda>m. Inr (JObj m)) (take n' (drop (Suc q) L))"
    using Cons.prems(3) q unfolding n by (simp_all add: Cons_nth_drop_Suc[symmetric])
  let ?st0 = "st\<lparr>ws_attempt := 0\<rparr>"
  have "caught_up cfg L c0 p ?st0" using Cons.prems(1) by (simp add: caught_up_def)
  moreover obtain r1 st1 where one: "take_message cfg (envs k) (L ! q) ?st0 = (r1, st1)" by fastforce
  ultimately have facts: "(\<forall>x. r1 = LineRaises x \<longrightarrow> caught_up cfg L c0 p st1)
      \<and> ((\<forall>x. r1 \<noteq> LineRaises x) \<longrightarrow> caught_up cfg L c0 (max p (Suc q)) st1)"
    using take_message_caught_up[OF assms(1)] Cons.prems(2) q by blast
  show ?case
  proof (cases r1)
    case LinesOver
    have up: "caught_up cfg L c0 (max p (Suc q)) st1" using facts LinesOver by simp
    have "read_lines cfg envs (Suc k) lines st1 = (r, st')" using Cons.prems(4) line one LinesOver by simp
    from Cons.IH[OF up _ rest this] show ?thesis by simp
  qed (use Cons.prems(4) line one facts in auto)
qed

lemma filter_since:
  assumes "engine_log L"
  shows "\<exists>q. q \<le> length L \<and> filter (\<lambda>m. c \<le> clock m) L = drop q L \<and> (\<forall>m\<in>set (take q L). clock m < c)"
  using assms
proof (induction L)
  case (Cons m L)
  then have "engine_log L" by (simp add: engine_log_def)
  with Cons.IH obtain q where q: "q \<le> length L" "filter (\<lambda>m. c \<le> clock m) L = drop q L" "\<forall>m\<in>set (take q L). clock m < c"
    by blast
  show ?case
  proof (cases "c \<le> clock m")
    case True
    then have "\<forall>x\<in>set L. c \<le> clock x" using Cons.prems by (auto simp: engine_log_def)
    then show ?thesis using True by (intro exI[of _ 0]) (simp add: filter_id_conv)
  next
    case False
    then show ?thesis using q by (intro exI[of _ "Suc q"]) auto
  qed
qed simp

lemma watch_turn_caught_up:
  assumes "engine_log L" "engine_answers cfg L (wt_connect w)" "caught_up cfg L c0 p st" "watch_turn cfg w st = (e, st')"
  shows "\<exists>p'. caught_up cfg L c0 p' st'"
proof (cases "wt_stopped w \<or> wt_connect w (ws_cursor st) = NoSocket \<or> wt_connect w (ws_cursor st) = BadStatus")
  case True
  then show ?thesis using assms(3,4) by (auto simp: watch_turn_def split: if_splits)
next
  case False
  then obtain chunks envs fin where conn: "wt_connect w (ws_cursor st) = Answered chunks envs fin"
    by (cases "wt_connect w (ws_cursor st)") auto
  obtain c where c: "ws_cursor st = Some c" "\<forall>m\<in>set (drop p L). c \<le> clock m" using assms(3) by (auto simp: caught_up_def)
  obtain q where q: "q \<le> length L" "filter (\<lambda>m. c \<le> clock m) L = drop q L" "\<forall>m\<in>set (take q L). clock m < c"
    using filter_since[OF assms(1)] by blast
  have "q \<le> p"
  proof (rule ccontr)
    assume "\<not> q \<le> p"
    then have "take q L ! p \<in> set (take q L)" "drop p L = L ! p # drop (Suc p) L" "take q L ! p = L ! p"
      using q(1) nth_mem[of p "take q L"] by (simp_all add: Cons_nth_drop_Suc)
    then show False using c(2) q(3) by fastforce
  qed
  obtain n where lines: "map (dc_loads cfg) (event_lines [] chunks) = map (\<lambda>m. Inr (JObj m)) (take n (drop q L))"
    using assms(2) conn c(1) q(2) unfolding engine_answers_def by metis
  obtain r st1 where rl: "read_lines cfg envs 0 (event_lines [] chunks) st = (r, st1)" by fastforce
  from read_lines_caught_up[OF assms(1,3) \<open>q \<le> p\<close> lines rl] obtain p' where up: "caught_up cfg L c0 p' st1" ..
  have "st' = st1 \<or> (\<exists>a ds. st' = st1\<lparr>ws_attempt := a\<rparr> \<or> st' = st1\<lparr>ws_attempt := a, ws_sleeps := ds\<rparr>)"
    using assms(4) False conn rl
    by (auto simp: watch_turn_def Let_def split: lines_end.splits events_end.splits option.splits if_splits)
  then show ?thesis using up by (auto simp: caught_up_def)
qed

lemma watch_loop_caught_up:
  assumes "engine_log L" "\<forall>w\<in>set ws. engine_answers cfg L (wt_connect w)" "caught_up cfg L c0 p st"
    "watch_loop cfg ws st = (e, st')"
  shows "\<exists>p'. caught_up cfg L c0 p' st'"
  using assms(2-)
proof (induction ws arbitrary: p st)
  case Nil
  then show ?case by auto
next
  case (Cons w ws)
  obtain r st1 where one: "watch_turn cfg w st = (r, st1)" by fastforce
  have "engine_answers cfg L (wt_connect w)" using Cons.prems(1) by simp
  from watch_turn_caught_up[OF assms(1) this Cons.prems(2) one] obtain p1 where "caught_up cfg L c0 p1 st1" ..
  then show ?case using Cons.IH[of p1 st1] Cons.prems(1,3) one by (cases r) auto
qed


text \<open>One container that exits while the watch is between two connections.\<close>

definition demo_exit :: dict where
  "demo_exit = [(''Type'', JStr ''container''), (''Action'', JStr ''die''), (''timeNano'', JInt 1000000000000000),
     (''Actor'', JObj [(''ID'', JStr ''c1''), (''Attributes'', JObj [(''exitCode'', JStr ''0'')])])]"

definition demo_docker :: docker_cfg where
  "demo_docker = \<lparr>dc_repr = (\<lambda>_. []), dc_loads = (\<lambda>_. Inr (JObj demo_exit)), dc_dumps = (\<lambda>_. ''{}''),
     dc_owner = ''local'', dc_repo = ''docker'', dc_until = False, dc_max_events = None, dc_known = [''docker'']\<rparr>"

definition demo_connect :: "int option \<Rightarrow> docker_conn" where
  "demo_connect c =
     (if c = Some 1 then Answered [''{'', ''}'' @ [NEWLINE]] (\<lambda>_. \<lparr>le_now_s = 0, le_store_ok = True, le_insert = sample_env 5000000\<rparr>) CleanEof
      else Answered [] (\<lambda>_. \<lparr>le_now_s = 0, le_store_ok = True, le_insert = sample_env 5000000\<rparr>) CleanEof)"

definition demo_turns :: "watch_turn list" where
  "demo_turns =
     [\<lparr>wt_stopped = False, wt_connect = (\<lambda>_. Answered [] (\<lambda>_. \<lparr>le_now_s = 0, le_store_ok = True, le_insert = sample_env 5000000\<rparr>) Dropped),
       wt_stopped_after = False\<rparr>,
      \<lparr>wt_stopped = False, wt_connect = demo_connect, wt_stopped_after = False\<rparr>]"

definition demo_exit_row :: event_insert where
  "demo_exit_row = (event_insert_defaults ''docker:c1:die:1000000000000000'' ''docker'' ''docker_container''
     ''local'' ''docker'' 1000000000000000 ''{}'' ''docker_events'')
     \<lparr>ev_status := Some ''completed'', ev_conclusion := Some ''success''\<rparr>"

lemma demo_exit_facts:
  "event_epoch_s demo_exit = Some 1000000" "docker_event demo_docker now demo_exit = Inr (Some demo_exit_row)"
proof -
  have nano: "positive_nano demo_exit = Some 1000000000000000"
    by (simp add: positive_nano_def demo_exit_def dict_get_def json_int_def)
  then show "event_epoch_s demo_exit = Some 1000000" by (simp add: event_epoch_s_def NS_PER_SECOND_def)
  have digits: "int_str 1000000000000000 = ''1000000000000000''" by (simp add: int_str_def nat_str.simps) code_simp
  have code: "py_int ''0'' = Some 0" by code_simp
  have graded: "conclusion_for ''die'' (JStr ''0'') = Inr ''success''" by (simp add: conclusion_for_def code)
  have rcv: "received_at_ns now demo_exit = 1000000000000000" by (simp add: received_at_ns_def nano)
  have fields: "dict_get demo_exit ''Type'' = JStr ''container''" "dict_get demo_exit ''Action'' = JStr ''die''"
    "get_dict demo_exit ''Actor'' = Some [(''ID'', JStr ''c1''), (''Attributes'', JObj [(''exitCode'', JStr ''0'')])]"
    by (simp_all add: demo_exit_def dict_get_def get_dict_def)
  show "docker_event demo_docker now demo_exit = Inr (Some demo_exit_row)"
    unfolding docker_event_def fields rcv
    by (simp add: TERMINAL_ACTIONS_def get_dict_def get_text_def dict_get_def graded Let_def digits demo_docker_def
        demo_exit_row_def event_insert_defaults_def)
qed

lemma demo_emit: "case emit [''docker''] (sample_env 5000000) demo_exit_row ulid_state0 empty_table of
    (r, us, t, effs) \<Rightarrow> (case r of Inr _ \<Rightarrow> True | Inl _ \<Rightarrow> False)"
  by code_simp

lemma demo_lines: "event_lines [] [''{'', ''}'' @ [NEWLINE]] = [''{}'']"
  by (simp add: NEWLINE_def blank_line_def)

lemma demo_watch_seen: "ws_seen (snd (watch_loop demo_docker demo_turns (watch_start (Some 1) ulid_state0 empty_table))) = [demo_exit]"
proof -
  obtain r us t effs where e: "emit [''docker''] (sample_env 5000000) demo_exit_row ulid_state0 empty_table = (Inr r, us, t, effs)"
    using demo_emit by (auto split: prod.splits sum.splits)
  show ?thesis
    using e demo_lines
    by (simp add: demo_turns_def demo_connect_def watch_turn_def watch_start_def reconnect_backoff_def take_message_def
        demo_exit_facts demo_docker_def[THEN arg_cong[of _ _ dc_loads]] demo_docker_def[THEN arg_cong[of _ _ dc_known]]
        demo_docker_def[THEN arg_cong[of _ _ dc_until]] demo_docker_def[THEN arg_cong[of _ _ dc_max_events]] Let_def)
qed


section \<open>Where the reconnect falls short\<close>

text \<open>A \<open>since\<close> is known only after the first message, so a watch started without one that loses its
  connection before a message asks for the future only.\<close>

lemma no_cursor_before_first_message:
  assumes "\<not> wt_stopped w" "wt_connect w None = Answered [] envs Dropped" "\<not> wt_stopped_after w" "\<not> dc_until cfg"
  shows "fst (watch_turn cfg w (watch_start None us t)) = None
    \<and> ws_cursor (snd (watch_turn cfg w (watch_start None us t))) = None"
  using assms by (simp add: watch_turn_def watch_start_def reconnect_backoff_def)

text \<open>The engine restarts: the stream drops, and a second later nobody listens on the socket. The watch
  ends after one attempt.\<close>

lemma restart_ends_watch:
  assumes "\<not> wt_stopped w" "wt_connect w (ws_cursor st) = Answered [] envs Dropped" "\<not> wt_stopped_after w" "\<not> dc_until cfg"
    "\<not> wt_stopped w2" "wt_connect w2 (ws_cursor st) = NoSocket" "ws_attempt st = 0"
  shows "fst (watch_loop cfg (w # w2 # ws) st) = WatchRaised SocketError
    \<and> ws_sleeps (snd (watch_loop cfg (w # w2 # ws) st)) = ws_sleeps st @ [1]"
  using assms by (simp add: watch_turn_def reconnect_backoff_def RECONNECT_BACKOFF_BASE_S_def RECONNECT_BACKOFF_CEIL_S_def)

text \<open>A clean end of the stream reconnects at once, without a delay.\<close>

lemma clean_eof_reconnects:
  assumes "\<not> wt_stopped w" "wt_connect w (ws_cursor st) = Answered [] envs CleanEof" "\<not> dc_until cfg"
  shows "watch_loop cfg (w # ws) st = watch_loop cfg ws st"
  using assms by (simp add: watch_turn_def)

text \<open>The delay doubles from one second to thirty, until the power no longer fits a double.\<close>

lemma backoff_bounds: "reconnect_backoff attempt = Some d \<Longrightarrow> 1 \<le> d \<and> d \<le> 30"
  by (auto simp: reconnect_backoff_def RECONNECT_BACKOFF_BASE_S_def RECONNECT_BACKOFF_CEIL_S_def split: if_splits)

lemma backoff_overflows: "reconnect_backoff 1024 \<noteq> None \<and> reconnect_backoff 1025 = None"
  by (simp add: reconnect_backoff_def)

end
