(* ===== verification/WB_Watchdog.thy ===== *)
theory WB_Watchdog
  imports WB_Store
begin

text \<open>
  The heartbeat absence detector, \<open>waitbus/watchdog_check.py\<close>: the newest watchdog row, one cycle
  over the two flag files, and a run of cycles. The state is the flags; a cycle's input is what it
  finds: the store (an \<open>sqlite3.Error\<close>, no file, or its rows) and the clock.
\<close>

definition WATCHDOG_EVENT_TYPE :: string where "WATCHDOG_EVENT_TYPE = ''prometheus_watchdog''"
definition WATCHDOG_ALERT_NAME :: string where "WATCHDOG_ALERT_NAME = ''Watchdog''"

definition watchdog_rows :: "event_table \<Rightarrow> event_row list" where
  "watchdog_rows t = filter (\<lambda>r. ev_event_type r = WATCHDOG_EVENT_TYPE \<and> ev_alert_name r = Some WATCHDOG_ALERT_NAME) (tb_rows t)"

text \<open>\<open>MAX(received_at)\<close> is NULL on no row; a value below \<open>10 ^ 15\<close> is passed on as it is.\<close>

definition latest_watchdog_ts :: "event_table option \<Rightarrow> int option" where
  "latest_watchdog_ts db =
     (case db of
        None \<Rightarrow> None
      | Some t \<Rightarrow>
          (case map ev_received_at (watchdog_rows t) of
             [] \<Rightarrow> None
           | x # xs \<Rightarrow>
               (let raw = foldl max x xs in
                Some (if raw \<ge> 1000000000000000 then raw div NS_PER_SECOND else raw))))"

record watchdog_flags =
  wd_seen :: bool
  wd_stale :: bool

text \<open>The exit code, the flags, whether a notification is sent. \<open>db\<close> is \<open>Inl\<close> on a database error.\<close>

definition check_once ::
    "int \<Rightarrow> bool \<Rightarrow> unit + event_table option \<Rightarrow> int \<Rightarrow> watchdog_flags \<Rightarrow> int \<times> watchdog_flags \<times> bool" where
  "check_once threshold quiet db now_s flags =
     (case db of
        Inl _ \<Rightarrow> (2, flags, False)
      | Inr store \<Rightarrow>
          (let latest = latest_watchdog_ts store;
               flags1 = (if latest \<noteq> None \<and> \<not> wd_seen flags then flags\<lparr>wd_seen := True\<rparr> else flags)
           in if latest = None \<and> \<not> wd_seen flags1 then (0, flags1\<lparr>wd_stale := False\<rparr>, False)
              else (let age = map_option (\<lambda>l. now_s - l) latest;
                        fresh = (case age of Some a \<Rightarrow> a \<le> threshold | None \<Rightarrow> False)
                    in if fresh then (0, flags1\<lparr>wd_stale := False\<rparr>, False)
                       else (let transitioning = (\<not> wd_stale flags1)
                             in (1, flags1\<lparr>wd_stale := True\<rparr>, transitioning \<and> \<not> quiet)))))"

text \<open>The timer runs the check again and again; the result lists exit codes and notifications.\<close>

fun check_runs :: "int \<Rightarrow> bool \<Rightarrow> ((unit + event_table option) \<times> int) list \<Rightarrow> watchdog_flags \<Rightarrow> (int \<times> bool) list \<times> watchdog_flags" where
  "check_runs threshold quiet [] flags = ([], flags)"
| "check_runs threshold quiet ((db, now_s) # inputs) flags =
     (case check_once threshold quiet db now_s flags of
        (code, flags1, notified) \<Rightarrow>
          (case check_runs threshold quiet inputs flags1 of (rs, flags2) \<Rightarrow> ((code, notified) # rs, flags2)))"

section \<open>Outages and notifications\<close>

lemma foldl_max_iff: "foldl max (x::int) xs < y \<longleftrightarrow> (\<forall>z\<in>set (x # xs). z < y)"
  by (induction xs arbitrary: x) (auto simp: max_less_iff_conj)

text \<open>A heartbeat of the last \<open>threshold\<close> seconds, among rows stored in nanoseconds.\<close>

definition heartbeat_within :: "int \<Rightarrow> int \<Rightarrow> event_table \<Rightarrow> bool" where
  "heartbeat_within threshold now_s t \<longleftrightarrow> (\<exists>r\<in>set (watchdog_rows t). now_s - threshold \<le> ev_received_at r div NS_PER_SECOND)"

lemma latest_fresh_iff:
  assumes "\<forall>r\<in>set (tb_rows t). NS_RECEIVED_AT_MIN \<le> ev_received_at r"
  shows "(case latest_watchdog_ts (Some t) of None \<Rightarrow> False | Some l \<Rightarrow> now_s - l \<le> threshold)
    \<longleftrightarrow> heartbeat_within threshold now_s t"
proof (cases "watchdog_rows t")
  case Nil
  then show ?thesis by (simp add: latest_watchdog_ts_def heartbeat_within_def)
next
  case (Cons r rs)
  have sub: "set (watchdog_rows t) \<subseteq> set (tb_rows t)" by (simp add: watchdog_rows_def)
  let ?max = "foldl max (ev_received_at r) (map ev_received_at rs)"
  have bound: "?max < y \<longleftrightarrow> (\<forall>q\<in>set (watchdog_rows t). ev_received_at q < y)" for y
    unfolding foldl_max_iff by (simp add: Cons)
  have "1000000000000000 \<le> ?max"
    using bound[of 1000000000000000] assms sub by (force simp: Cons NS_RECEIVED_AT_MIN_def)
  then have "latest_watchdog_ts (Some t) = Some (?max div NS_PER_SECOND)" by (simp add: latest_watchdog_ts_def Cons)
  moreover have secs: "now_s - threshold \<le> x div NS_PER_SECOND \<longleftrightarrow> \<not> x < (now_s - threshold) * NS_PER_SECOND" for x
    by (simp add: NS_PER_SECOND_def) linarith
  moreover have "now_s - ?max div NS_PER_SECOND \<le> threshold \<longleftrightarrow> now_s - threshold \<le> ?max div NS_PER_SECOND" by linarith
  ultimately show ?thesis by (simp add: heartbeat_within_def secs bound)
qed

text \<open>The verdict of one cycle, as it should be: an unreadable store changes nothing; otherwise the
  operator is silent until the first heartbeat was ever seen, and from then on the verdict is stale
  exactly when there is no heartbeat of the last \<open>threshold\<close> seconds, with the flag file as the
  verdict and a notification on the transition only.\<close>

lemma check_once_verdict:
  assumes "\<And>t. db = Inr (Some t) \<Longrightarrow> \<forall>r\<in>set (tb_rows t). NS_RECEIVED_AT_MIN \<le> ev_received_at r"
    "check_once threshold quiet db now_s flags = (code, flags', notified)"
    "seen = (wd_seen flags \<or> (\<exists>t. db = Inr (Some t) \<and> watchdog_rows t \<noteq> []))"
    "alive = (\<exists>t. db = Inr (Some t) \<and> heartbeat_within threshold now_s t)"
  shows "(\<exists>u. db = Inl u) \<and> code = 2 \<and> flags' = flags \<and> \<not> notified
    \<or> (\<exists>s. db = Inr s) \<and> code = (if seen \<and> \<not> alive then 1 else 0) \<and> wd_seen flags' = seen
        \<and> wd_stale flags' = (code = 1) \<and> notified = (code = 1 \<and> \<not> wd_stale flags \<and> \<not> quiet)"
proof (cases db)
  case (Inl u)
  then show ?thesis using assms(2) by (simp add: check_once_def)
next
  case (Inr s)
  have fresh: "(case latest_watchdog_ts s of None \<Rightarrow> False | Some l \<Rightarrow> now_s - l \<le> threshold) \<longleftrightarrow> alive"
  proof (cases s)
    case None
    then show ?thesis using assms(4) Inr by (simp add: latest_watchdog_ts_def)
  next
    case (Some t)
    then show ?thesis using latest_fresh_iff[of t now_s threshold] assms(1,4) Inr by simp
  qed
  have any: "latest_watchdog_ts s \<noteq> None \<longleftrightarrow> (\<exists>t. s = Some t \<and> watchdog_rows t \<noteq> [])"
    by (auto simp: latest_watchdog_ts_def Let_def split: option.split list.split)
  show ?thesis
    using assms(2,3) fresh any Inr
    by (cases "latest_watchdog_ts s") (auto simp: check_once_def Let_def split: if_splits)
qed

definition watchdog_inputs_ok :: "((unit + event_table option) \<times> int) list \<Rightarrow> bool" where
  "watchdog_inputs_ok inputs \<longleftrightarrow>
     (\<forall>(db, now_s)\<in>set inputs. case db of Inr (Some t) \<Rightarrow> \<forall>r\<in>set (tb_rows t). NS_RECEIVED_AT_MIN \<le> ev_received_at r | _ \<Rightarrow> True)"

text \<open>The exit codes of the readable cycles, preceded by the state of the flag; one notification is due
  for every change from 0 to 1.\<close>

fun transitions :: "bool \<Rightarrow> int list \<Rightarrow> nat" where
  "transitions stale [] = 0"
| "transitions stale (c # cs) =
     (if c = 2 then transitions stale cs else (if c = 1 \<and> \<not> stale then 1 else 0) + transitions (c = 1) cs)"

text \<open>C39: Over any number of cycles, whatever happens to the store between them, the operator is notified
  exactly once per outage: as often as the verdict goes from fresh to stale, database errors between
  two verdicts set aside; the flag file ends as the last verdict.\<close>

theorem one_notification_per_outage:
  assumes "watchdog_inputs_ok inputs" "check_runs threshold False inputs flags = (rs, flags')"
  shows "length (filter snd rs) = transitions (wd_stale flags) (map fst rs)
    \<and> wd_stale flags' = last (wd_stale flags # map (\<lambda>r. fst r = 1) (filter (\<lambda>r. fst r \<noteq> 2) rs))"
  using assms
proof (induction inputs arbitrary: flags rs flags')
  case (Cons i inputs)
  obtain db now_s where i: "i = (db, now_s)" by fastforce
  obtain code flags1 n where one: "check_once threshold False db now_s flags = (code, flags1, n)" by (metis prod_cases3)
  obtain rs1 where rest: "check_runs threshold False inputs flags1 = (rs1, flags')" "rs = (code, n) # rs1"
    using Cons.prems(2) one by (auto simp: i split: prod.splits)
  have ok: "db = Inr (Some t) \<Longrightarrow> \<forall>r\<in>set (tb_rows t). NS_RECEIVED_AT_MIN \<le> ev_received_at r" for t
    using Cons.prems(1) by (auto simp: watchdog_inputs_ok_def i)
  have verdict: "code = 2 \<and> flags1 = flags \<and> \<not> n
      \<or> code \<noteq> 2 \<and> wd_stale flags1 = (code = 1) \<and> n = (code = 1 \<and> \<not> wd_stale flags)"
    using check_once_verdict[OF ok one refl refl] by (auto split: if_splits)
  have "watchdog_inputs_ok inputs" using Cons.prems(1) by (simp add: watchdog_inputs_ok_def)
  from Cons.IH[OF this rest(1)] verdict show ?case by (auto simp: rest(2))
qed simp

text \<open>A first heartbeat, two cycles of silence with an unreadable store between them.\<close>

definition demo_heartbeat :: event_row where
  "demo_heartbeat = new_row
     ((event_insert_defaults ''w'' ''alertmanager'' WATCHDOG_EVENT_TYPE ''o'' ''r'' 1700000000000000000 ''{}'' ''webhook'')
        \<lparr>ev_alert_name := Some WATCHDOG_ALERT_NAME\<rparr>) ''A'' 1"

definition demo_cycles :: "((unit + event_table option) \<times> int) list" where
  "demo_cycles = (let db = Inr (Some \<lparr>tb_rows = [demo_heartbeat], tb_last_seq = 1\<rparr>) in
     [(Inr None, 1700000000), (db, 1700000060), (db, 1700001000), (Inl (), 1700001300), (db, 1700001600)])"

lemma demo_cycles_run:
  "check_runs 600 False demo_cycles \<lparr>wd_seen = False, wd_stale = False\<rparr>
     = ([(0, False), (0, False), (1, True), (2, False), (1, False)], \<lparr>wd_seen = True, wd_stale = True\<rparr>)"
  by (simp add: demo_cycles_def Let_def check_once_def latest_watchdog_ts_def watchdog_rows_def demo_heartbeat_def
      new_row_def event_insert.defs event_insert_defaults_def NS_PER_SECOND_def)

theorem one_notification_per_outage_witness:
  "length (filter snd (fst (check_runs 600 False demo_cycles \<lparr>wd_seen = False, wd_stale = False\<rparr>))) = 1"
proof -
  have "watchdog_inputs_ok demo_cycles"
    by (simp add: watchdog_inputs_ok_def demo_cycles_def Let_def demo_heartbeat_def new_row_def event_insert.defs
        event_insert_defaults_def NS_RECEIVED_AT_MIN_def)
  from one_notification_per_outage[OF this demo_cycles_run] show ?thesis by (simp add: demo_cycles_run)
qed

text \<open>A legacy row in milliseconds reads as a second of the far future, so it stays fresh; the comment
  at the conversion says that operators are not misled by such rows.\<close>

lemma millisecond_row_fresh:
  assumes "watchdog_rows t = [r]" "ev_received_at r = 1700000000000" "now_s \<le> 1700000000000" "0 \<le> threshold"
  shows "fst (check_once threshold quiet (Inr (Some t)) now_s flags) = 0"
  using assms by (simp add: check_once_def latest_watchdog_ts_def Let_def)

end
