(* ===== verification/WB_PrMonitor.thy ===== *)
theory WB_PrMonitor
  imports WB_Store WB_Coalesce WB_SubProps
begin

text \<open>
  The pull-request monitor, \<open>waitbus/pr_monitor.py\<close>: the rollup of a commit's jobs
  (\<open>AGG_SQL\<close>), one pass over the watched pull requests, and the loop between passes on the read
  engine of \<open>WB_Sub\<close>. Parameters: which of a job's newest rows SQLite numbers first when several
  were received together, what \<open>gh\<close> answers for a head commit, the clock, what arrives on the
  socket and the store at each pass. The printed lines are kept as a list.
\<close>

section \<open>The rollup of a commit\<close>

datatype pr_verdict = NO_JOBS | FAIL | ALL_GREEN | PENDING

type_synonym rollup = "pr_verdict \<times> nat \<times> nat \<times> nat"

definition commit_jobs :: "event_table \<Rightarrow> string \<Rightarrow> string \<Rightarrow> string \<Rightarrow> event_row list" where
  "commit_jobs t owner repo sha =
     filter (\<lambda>r. ev_event_type r = ''workflow_job'' \<and> ev_head_sha r = Some sha \<and> ev_owner r = owner \<and> ev_repo r = repo)
       (tb_rows t)"

text \<open>\<open>ROW_NUMBER() = 1\<close> of each partition: \<open>pick\<close> chooses among the rows received last. Rows
  without a job id form a partition of their own.\<close>

definition newest_of :: "event_row list \<Rightarrow> event_row list" where
  "newest_of rs = filter (\<lambda>r. list_all (\<lambda>q. ev_received_at q \<le> ev_received_at r) rs) rs"

definition latest_jobs :: "(event_row list \<Rightarrow> event_row) \<Rightarrow> event_row list \<Rightarrow> event_row list" where
  "latest_jobs pick rs =
     map (\<lambda>j. pick (newest_of (filter (\<lambda>r. ev_job_id r = j) rs))) (remdups (map ev_job_id rs))"

definition job_failed :: "event_row \<Rightarrow> bool" where
  "job_failed r \<longleftrightarrow> ev_conclusion r \<in> Some ` set FAILURE_CONCLUSIONS"

definition job_passed :: "event_row \<Rightarrow> bool" where
  "job_passed r \<longleftrightarrow> ev_status r = Some ''completed'' \<and> ev_conclusion r = Some SUCCESS_CONCLUSION"

definition aggregate :: "(event_row list \<Rightarrow> event_row) \<Rightarrow> event_table \<Rightarrow> string \<Rightarrow> string \<Rightarrow> string \<Rightarrow> rollup" where
  "aggregate pick t owner repo sha =
     (let rows = latest_jobs pick (commit_jobs t owner repo sha);
          n = length rows; passed = length (filter job_passed rows); failed = length (filter job_failed rows)
      in (if n = 0 then NO_JOBS else if failed > 0 then FAIL else if passed = n then ALL_GREEN else PENDING,
          n, passed, failed))"

section \<open>One pass\<close>

text \<open>The key printed and compared is the commit's first seven characters with the rollup.\<close>

type_synonym pr_line = "int \<times> string \<times> rollup"

record monitor =
  pm_sha :: "int \<Rightarrow> string option"
  pm_key :: "int \<Rightarrow> (string \<times> rollup) option"
  pm_observed :: "int \<Rightarrow> bool"
  pm_sha_at :: rat
  pm_lines :: "pr_line list"

definition init_monitor :: "(int \<Rightarrow> string option) \<Rightarrow> rat \<Rightarrow> monitor" where
  "init_monitor shas now = \<lparr>pm_sha = shas, pm_key = (\<lambda>_. None), pm_observed = (\<lambda>_. False), pm_sha_at = now, pm_lines = []\<rparr>"

definition usable_sha :: "string option \<Rightarrow> string option" where
  "usable_sha s = (case s of Some (c # cs) \<Rightarrow> Some (c # cs) | _ \<Rightarrow> None)"

definition print_change :: "int \<Rightarrow> string \<Rightarrow> rollup \<Rightarrow> monitor \<Rightarrow> monitor" where
  "print_change pr sha roll m =
     (let key = (take 7 sha, roll) in
      if \<not> pm_observed m pr \<or> pm_key m pr \<noteq> Some key
      then m\<lparr>pm_lines := pm_lines m @ [(pr, key)], pm_key := (pm_key m)(pr := Some key),
             pm_observed := (pm_observed m)(pr := True)\<rparr>
      else m)"

fun tick_loop ::
    "(string \<Rightarrow> rollup) \<Rightarrow> int list \<Rightarrow> bool \<Rightarrow> bool \<Rightarrow> monitor \<Rightarrow> bool \<times> monitor" where
  "tick_loop agg [] any_pending all_observed m = (all_observed \<and> \<not> any_pending, m)"
| "tick_loop agg (pr # prs) any_pending all_observed m =
     (case usable_sha (pm_sha m pr) of
        None \<Rightarrow> tick_loop agg prs any_pending False m
      | Some sha \<Rightarrow>
          (let roll = agg sha in
           tick_loop agg prs (any_pending \<or> fst roll \<in> {PENDING, NO_JOBS}) all_observed (print_change pr sha roll m)))"

definition tick ::
    "(event_row list \<Rightarrow> event_row) \<Rightarrow> event_table \<Rightarrow> string \<Rightarrow> string \<Rightarrow> int list \<Rightarrow> monitor \<Rightarrow> bool \<times> monitor" where
  "tick pick t owner repo prs m = tick_loop (aggregate pick t owner repo) prs False True m"

section \<open>The loop\<close>

text \<open>What a turn meets: the wall clock and \<open>gh\<close> before the wait, the arrivals during it with the
  monotonic clock, the store after it.\<close>

record monitor_turn =
  mt_now :: rat
  mt_head_sha :: "int \<Rightarrow> string option"
  mt_loads :: "bytes \<Rightarrow> json option"
  mt_arrivals :: "arrival list"
  mt_mono :: rat
  mt_table :: event_table

record monitor_cfg =
  mf_pick :: "event_row list \<Rightarrow> event_row"
  mf_owner :: string
  mf_repo :: string
  mf_prs :: "int list"
  mf_sha_refresh :: int
  mf_safety_net :: int

datatype monitor_end = MonitorDone | ConnectionLost | DaemonGone | SubscribeFails sub_error | MonitorRuns

definition exit_code_of :: "monitor_end \<Rightarrow> int option" where
  "exit_code_of e =
     (case e of MonitorDone \<Rightarrow> Some 0 | ConnectionLost \<Rightarrow> Some 1 | DaemonGone \<Rightarrow> Some 0 | SubscribeFails _ \<Rightarrow> Some 2
        | MonitorRuns \<Rightarrow> None)"

definition refresh_shas :: "monitor_cfg \<Rightarrow> monitor_turn \<Rightarrow> monitor \<Rightarrow> monitor" where
  "refresh_shas cfg w m =
     (if mt_now w - pm_sha_at m > of_int (mf_sha_refresh cfg)
      then m\<lparr>pm_sha := (\<lambda>pr. if pr \<in> set (mf_prs cfg) then mt_head_sha w pr else pm_sha m pr), pm_sha_at := mt_now w\<rparr>
      else m)"

text \<open>\<open>outcome.cancelled\<close> is not looked at.\<close>

definition pr_monitor_tick :: "monitor_cfg \<Rightarrow> monitor_turn \<Rightarrow> monitor \<Rightarrow> monitor_end option \<times> monitor" where
  "pr_monitor_tick cfg w m =
     (let m1 = refresh_shas cfg w m in
      case fst (await_predicate (mt_loads w) always_continue (Some (of_int (mf_safety_net cfg))) False
                  (mt_arrivals w) (mt_mono w) None ()) of
        Raised e \<Rightarrow> (Some (SubscribeFails e), m1)
      | StillWaiting \<Rightarrow> (Some MonitorRuns, m1)
      | Returned outcome \<Rightarrow>
          (if wo_peer_closed outcome
           then (Some (if wo_framing_error outcome then ConnectionLost else DaemonGone), m1)
           else (case tick (mf_pick cfg) (mt_table w) (mf_owner cfg) (mf_repo cfg) (mf_prs cfg) m1 of
                   (done, m2) \<Rightarrow> (if done then Some MonitorDone else None, m2))))"

fun monitor_turns :: "monitor_cfg \<Rightarrow> monitor_turn list \<Rightarrow> monitor \<Rightarrow> monitor_end \<times> monitor" where
  "monitor_turns cfg [] m = (MonitorRuns, m)"
| "monitor_turns cfg (w # ws) m =
     (case pr_monitor_tick cfg w m of
        (Some e, m1) \<Rightarrow> (e, m1)
      | (None, m1) \<Rightarrow> monitor_turns cfg ws m1)"

definition run_monitor_loop :: "monitor_cfg \<Rightarrow> event_table \<Rightarrow> monitor_turn list \<Rightarrow> monitor \<Rightarrow> monitor_end \<times> monitor" where
  "run_monitor_loop cfg t ws m =
     (case tick (mf_pick cfg) t (mf_owner cfg) (mf_repo cfg) (mf_prs cfg) m of
        (done, m1) \<Rightarrow> if done then (MonitorDone, m1) else monitor_turns cfg ws m1)"

section \<open>What the verdict means\<close>

text \<open>The newest row of a job, whatever the order rows were stored in.\<close>

definition is_newest :: "event_row \<Rightarrow> event_row list \<Rightarrow> bool" where
  "is_newest r rs \<longleftrightarrow> r \<in> set rs \<and> (\<forall>q\<in>set rs. ev_job_id q = ev_job_id r \<longrightarrow> ev_received_at q \<le> ev_received_at r)"

definition picks :: "(event_row list \<Rightarrow> event_row) \<Rightarrow> bool" where
  "picks pick \<longleftrightarrow> (\<forall>rs. rs \<noteq> [] \<longrightarrow> pick rs \<in> set rs)"

lemma newest_exists: "rs \<noteq> [] \<Longrightarrow> newest_of rs \<noteq> []"
proof -
  assume "rs \<noteq> []"
  then have "Max (ev_received_at ` set rs) \<in> ev_received_at ` set rs" by (intro Max_in) auto
  then obtain r where "r \<in> set rs" "ev_received_at r = Max (ev_received_at ` set rs)" by force
  then have "r \<in> set (newest_of rs)" by (auto simp: newest_of_def list_all_iff)
  then show ?thesis by auto
qed

lemma latest_jobs_spec:
  assumes "picks pick"
  shows "\<forall>r\<in>set (latest_jobs pick rs). is_newest r rs"
    "map ev_job_id (latest_jobs pick rs) = remdups (map ev_job_id rs)"
proof -
  have one: "is_newest (pick (newest_of (filter (\<lambda>r. ev_job_id r = j) rs))) rs
      \<and> ev_job_id (pick (newest_of (filter (\<lambda>r. ev_job_id r = j) rs))) = j" if j: "j \<in> set (map ev_job_id rs)" for j
  proof -
    let ?g = "filter (\<lambda>r. ev_job_id r = j) rs"
    have "?g \<noteq> []" using j by (auto simp: filter_empty_conv)
    then have "pick (newest_of ?g) \<in> set (newest_of ?g)" using newest_exists assms by (auto simp: picks_def)
    then show ?thesis by (auto simp: newest_of_def list_all_iff is_newest_def)
  qed
  show "\<forall>r\<in>set (latest_jobs pick rs). is_newest r rs" using one by (auto simp: latest_jobs_def)
  show "map ev_job_id (latest_jobs pick rs) = remdups (map ev_job_id rs)"
    unfolding latest_jobs_def map_map by (rule map_idI) (use one in auto)
qed

text \<open>The verdict of a commit is about the newest row of each of its jobs: red when one failed, green
  when there are jobs and all passed.\<close>

theorem rollup_verdict:
  assumes "picks pick" "aggregate pick t owner repo sha = (v, n, passed, failed)"
  shows "\<exists>rows. (\<forall>r\<in>set rows. is_newest r (commit_jobs t owner repo sha))
    \<and> map ev_job_id rows = remdups (map ev_job_id (commit_jobs t owner repo sha)) \<and> n = length rows
    \<and> (v = NO_JOBS \<longleftrightarrow> commit_jobs t owner repo sha = []) \<and> (v = FAIL \<longleftrightarrow> (\<exists>r\<in>set rows. job_failed r))
    \<and> (v = ALL_GREEN \<longleftrightarrow> rows \<noteq> [] \<and> (\<forall>r\<in>set rows. job_passed r))"
proof -
  let ?rows = "latest_jobs pick (commit_jobs t owner repo sha)"
  note spec = latest_jobs_spec[OF assms(1), of "commit_jobs t owner repo sha"]
  have empty: "?rows = [] \<longleftrightarrow> commit_jobs t owner repo sha = []" by (simp add: latest_jobs_def)
  have failed: "length (filter job_failed ?rows) > 0 \<longleftrightarrow> (\<exists>r\<in>set ?rows. job_failed r)"
    by (auto simp: filter_empty_conv)
  have passed: "length (filter job_passed ?rows) = length ?rows \<longleftrightarrow> (\<forall>r\<in>set ?rows. job_passed r)"
    using length_filter_less[of _ ?rows job_passed] by (metis filter_True less_irrefl)
  have excl: "job_passed r \<Longrightarrow> \<not> job_failed r" for r
    by (auto simp: job_passed_def job_failed_def SUCCESS_CONCLUSION_def FAILURE_CONCLUSIONS_def)
  have v: "v = (if ?rows = [] then NO_JOBS else if \<exists>r\<in>set ?rows. job_failed r then FAIL
      else if \<forall>r\<in>set ?rows. job_passed r then ALL_GREEN else PENDING)" "n = length ?rows"
    using assms(2) unfolding aggregate_def Let_def failed passed by auto
  show ?thesis
    using spec v empty excl by (intro exI[of _ ?rows]) (auto split: if_splits)
qed

section \<open>What is printed and when it ends\<close>

definition lines_of :: "int \<Rightarrow> monitor \<Rightarrow> (string \<times> rollup) list" where
  "lines_of pr m = map snd (filter (\<lambda>l. fst l = pr) (pm_lines m))"

definition lines_inv :: "monitor \<Rightarrow> bool" where
  "lines_inv m \<longleftrightarrow> (\<forall>pr. distinct_adj (lines_of pr m) \<and> pm_observed m pr = (lines_of pr m \<noteq> [])
     \<and> pm_key m pr = (if lines_of pr m = [] then None else Some (last (lines_of pr m))))"

lemma distinct_adj_snoc: "distinct_adj (xs @ [x]) \<longleftrightarrow> distinct_adj xs \<and> (xs = [] \<or> last xs \<noteq> x)"
  by (auto simp: distinct_adj_append_iff)

lemma print_change_inv:
  assumes "lines_inv m"
  shows "lines_inv (print_change pr sha roll m)" "pm_key (print_change pr sha roll m) pr = Some (take 7 sha, roll)"
    "q \<noteq> pr \<Longrightarrow> pm_key (print_change pr sha roll m) q = pm_key m q" "pm_sha (print_change pr sha roll m) = pm_sha m"
  using assms by (auto simp: print_change_def lines_inv_def lines_of_def distinct_adj_snoc Let_def)

lemma tick_loop_spec:
  assumes "tick_loop agg prs pend obs m = (done, m')" "lines_inv m" "distinct prs"
  shows "lines_inv m' \<and> pm_sha m' = pm_sha m \<and> (\<forall>q. q \<notin> set prs \<longrightarrow> pm_key m' q = pm_key m q)
    \<and> (done \<longrightarrow> obs \<and> \<not> pend \<and> (\<forall>pr\<in>set prs. \<exists>sha. pm_sha m pr = Some sha
         \<and> pm_key m' pr = Some (take 7 sha, agg sha) \<and> fst (agg sha) \<in> {FAIL, ALL_GREEN}))"
  using assms
proof (induction agg prs pend obs m rule: tick_loop.induct)
  case (2 agg pr prs pend obs m)
  show ?case
  proof (cases "usable_sha (pm_sha m pr)")
    case None
    then show ?thesis using 2 by auto
  next
    case (Some sha)
    let ?m1 = "print_change pr sha (agg sha) m"
    note p = print_change_inv[OF 2(4), where pr = pr and sha = sha and roll = "agg sha"]
    have sha: "pm_sha m pr = Some sha" using Some by (auto simp: usable_sha_def split: option.splits list.splits)
    have run: "tick_loop agg prs (pend \<or> fst (agg sha) \<in> {PENDING, NO_JOBS}) obs ?m1 = (done, m')"
      using 2(3) Some by (simp add: Let_def)
    have verdicts: "x \<notin> {PENDING, NO_JOBS} \<longleftrightarrow> x \<in> {FAIL, ALL_GREEN}" for x by (cases x) auto
    show ?thesis
      using 2(2)[OF Some refl run p(1)] 2(5) p sha verdicts[of "fst (agg sha)"] by auto
  qed
qed simp

lemma tick_spec:
  assumes "tick pick t owner repo prs m = (done, m')" "lines_inv m" "distinct prs"
  shows "lines_inv m' \<and> (done \<longrightarrow> (\<forall>pr\<in>set prs. \<exists>sha. pm_sha m' pr = Some sha
         \<and> lines_of pr m' \<noteq> [] \<and> last (lines_of pr m') = (take 7 sha, aggregate pick t owner repo sha)
         \<and> fst (aggregate pick t owner repo sha) \<in> {FAIL, ALL_GREEN}))"
proof -
  note s = tick_loop_spec[OF assms(1)[unfolded tick_def] assms(2,3)]
  have "lines_of pr m' \<noteq> [] \<and> last (lines_of pr m') = k" if "pm_key m' pr = Some k" for pr k
    using s that by (auto simp: lines_inv_def split: if_splits)
  then show ?thesis using s by metis
qed

definition settled :: "monitor_cfg \<Rightarrow> event_table \<Rightarrow> monitor \<Rightarrow> bool" where
  "settled cfg u m \<longleftrightarrow> (\<forall>pr\<in>set (mf_prs cfg). \<exists>sha. pm_sha m pr = Some sha \<and> lines_of pr m \<noteq> []
     \<and> last (lines_of pr m) = (take 7 sha, aggregate (mf_pick cfg) u (mf_owner cfg) (mf_repo cfg) sha)
     \<and> fst (aggregate (mf_pick cfg) u (mf_owner cfg) (mf_repo cfg) sha) \<in> {FAIL, ALL_GREEN})"

lemma refresh_lines [simp]: "lines_inv (refresh_shas cfg w m) = lines_inv m"
  by (simp add: refresh_shas_def lines_inv_def lines_of_def)

lemma monitor_turns_spec:
  assumes "monitor_turns cfg ws m = (e, m')" "lines_inv m" "distinct (mf_prs cfg)"
  shows "lines_inv m' \<and> (e = MonitorDone \<longrightarrow> (\<exists>w\<in>set ws. settled cfg (mt_table w) m'))"
  using assms(1,2)
proof (induction ws arbitrary: m)
  case (Cons w ws)
  obtain r m1 where one: "pr_monitor_tick cfg w m = (r, m1)" by fastforce
  have "lines_inv m1 \<and> (r = Some MonitorDone \<longrightarrow> settled cfg (mt_table w) m1)"
    using one tick_spec[OF _ _ assms(3), of "mf_pick cfg" "mt_table w" "mf_owner cfg" "mf_repo cfg" "refresh_shas cfg w m"] Cons.prems(2)
    unfolding settled_def
    by (auto simp: pr_monitor_tick_def Let_def split: await_end.splits if_splits prod.splits)
  then show ?case using Cons one by (cases r) auto
qed simp


text \<open>One pull request with one green job, still running at the first pass.\<close>

definition demo_job :: "string option \<Rightarrow> int \<Rightarrow> event_row" where
  "demo_job conclusion at_ns = new_row
     ((event_insert_defaults ''d'' ''github'' ''workflow_job'' ''o'' ''r'' at_ns ''{}'' ''webhook'')
        \<lparr>ev_head_sha := Some ''abcdef0123'', ev_job_id := Some 5, ev_status := Some ''completed'', ev_conclusion := conclusion\<rparr>) ''A'' 1"

definition demo_jobs :: "event_row list \<Rightarrow> event_table" where
  "demo_jobs rows = \<lparr>tb_rows = rows, tb_last_seq = 9\<rparr>"

definition demo_monitor_cfg :: monitor_cfg where
  "demo_monitor_cfg = \<lparr>mf_pick = hd, mf_owner = ''o'', mf_repo = ''r'', mf_prs = [7], mf_sha_refresh = 300, mf_safety_net = 60\<rparr>"

definition demo_monitor_turn :: "arrival list \<Rightarrow> event_table \<Rightarrow> monitor_turn" where
  "demo_monitor_turn as t = \<lparr>mt_now = 0, mt_head_sha = (\<lambda>_. None), mt_loads = (\<lambda>_. None), mt_arrivals = as, mt_mono = 0, mt_table = t\<rparr>"

lemma demo_rollup:
  "aggregate hd (demo_jobs []) ''o'' ''r'' ''abcdef0123'' = (NO_JOBS, 0, 0, 0)"
  "aggregate hd (demo_jobs [demo_job (Some ''success'') 2]) ''o'' ''r'' ''abcdef0123'' = (ALL_GREEN, 1, 1, 0)"
  by (simp_all add: aggregate_def latest_jobs_def commit_jobs_def demo_jobs_def demo_job_def new_row_def event_insert.defs
      event_insert_defaults_def newest_of_def job_passed_def job_failed_def SUCCESS_CONCLUSION_def FAILURE_CONCLUSIONS_def)

abbreviation demo_monitor_run :: "monitor_end \<times> monitor" where
  "demo_monitor_run \<equiv> run_monitor_loop demo_monitor_cfg (demo_jobs [])
     [demo_monitor_turn [] (demo_jobs [demo_job (Some ''success'') 2])] (init_monitor (\<lambda>_. Some ''abcdef0123'') 0)"

lemma demo_monitor_run:
  "demo_monitor_run = (MonitorDone, snd demo_monitor_run)"
  "lines_of 7 (snd demo_monitor_run) = [(''abcdef0'', NO_JOBS, 0, 0, 0), (''abcdef0'', ALL_GREEN, 1, 1, 0)]"
  by (simp_all add: run_monitor_loop_def tick_def demo_monitor_cfg_def init_monitor_def usable_sha_def demo_rollup print_change_def
      pr_monitor_tick_def refresh_shas_def demo_monitor_turn_def await_predicate_def OUTCOME_TIMED_OUT_def lines_of_def Let_def)


section \<open>Where it falls short\<close>

text \<open>A frame never ends the wait, so an event is seen only when the safety net's time is up; the module
  calls itself push-driven and the loop's docstring has it run \<open>after each wake-and-return\<close>.\<close>

lemma run_always_continue: "list_all (\<lambda>v. v = CONTINUE) (fst (run_decide always_continue fs s))"
  by (induction fs arbitrary: s) (simp_all add: always_continue_def case_prod_beta)

lemma frames_never_wake: "fst (await_predicate loads always_continue dl ir as now cursor s) \<noteq> Returned OUTCOME_MATCHED"
proof
  assume m: "fst (await_predicate loads always_continue dl ir as now cursor s) = Returned OUTCOME_MATCHED"
  obtain n where "await_trace loads always_continue dl as
     \<lparr>aw_now = now, aw_anchor = now, aw_cursor = cursor, aw_unread = as, aw_caller = s\<rparr> n
     (await_predicate loads always_continue dl ir as now cursor s)" using await_predicate_trace ..
  then obtain vs where vs: "vs = fst (run_decide always_continue (delivered_of loads (take n as)) s)" "vs \<noteq> []" "last vs = MATCHED"
    using m by (auto simp: await_trace_def Let_def)
  have "list_all (\<lambda>v. v = CONTINUE) vs" unfolding vs(1) by (rule run_always_continue)
  then show False using vs(2,3) last_in_set[OF vs(2)] by (auto simp: list_all_iff)
qed

text \<open>SIGINT during the wait comes back as a cancelled outcome, which the tick does not look at: it goes
  on, where the docstring of \<open>main\<close> promises exit 130.\<close>

lemma sigint_ignored:
  "fst (run_monitor_loop demo_monitor_cfg (demo_jobs [])
     (replicate n (demo_monitor_turn [\<lparr>ar_ready = 1, ar_done = 1, ar_item = Interrupted\<rparr>] (demo_jobs [])))
     (init_monitor (\<lambda>_. Some ''abcdef0123'') 0)) = MonitorRuns"
proof -
  let ?w = "demo_monitor_turn [\<lparr>ar_ready = 1, ar_done = 1, ar_item = Interrupted\<rparr>] (demo_jobs [])"
  have "fst (monitor_turns demo_monitor_cfg (replicate n ?w) m) = MonitorRuns"
    if "pm_sha m = (\<lambda>_. Some ''abcdef0123'')" "pm_sha_at m = 0" for m
    using that
  proof (induction n arbitrary: m)
    case (Suc n)
    obtain m' where "pr_monitor_tick demo_monitor_cfg ?w m = (None, m')" "pm_sha m' = pm_sha m" "pm_sha_at m' = 0"
      using Suc.prems
      by (simp add: pr_monitor_tick_def refresh_shas_def demo_monitor_turn_def demo_monitor_cfg_def await_predicate_def
          OUTCOME_CANCELLED_def tick_def usable_sha_def demo_rollup print_change_def Let_def split: if_splits)
    then show ?case using Suc by simp
  qed simp
  then show ?thesis
    by (simp add: run_monitor_loop_def tick_def demo_monitor_cfg_def init_monitor_def usable_sha_def demo_rollup print_change_def Let_def)
qed

text \<open>A job that GitHub skipped counts as neither passed nor failed, so its pull request stays pending.\<close>

lemma skipped_job_pending:
  "aggregate hd (demo_jobs [demo_job (Some ''skipped'') 2]) ''o'' ''r'' ''abcdef0123'' = (PENDING, 1, 0, 0)"
  by (simp add: aggregate_def latest_jobs_def commit_jobs_def demo_jobs_def demo_job_def new_row_def event_insert.defs
      event_insert_defaults_def newest_of_def job_passed_def job_failed_def SUCCESS_CONCLUSION_def FAILURE_CONCLUSIONS_def)

end
