(* ===== verification/WB_Replay.thy ===== *)
theory WB_Replay
  imports WB_Coalesce WB_SubProps WB_Subscriber
begin

text \<open>
  The \<open>replay\<close> verb, \<open>waitbus/replay.py\<close>: the cursor it starts from, its two engines (the read
  engine of \<open>WB_Sub\<close> in idle mode, the coalesced replay of \<open>WB_Coalesce\<close>) and the exit code of
  their outcome. What \<open>emit_frame\<close> prints is the list of frames; texts on stderr are left out.
\<close>

definition REPLAY_ULID_RE :: "string \<Rightarrow> bool" where
  "REPLAY_ULID_RE = dollar_match (\<lambda>s. length s = 26 \<and> list_all ulid_char s)"

text \<open>A refused cursor exits 2 (\<open>_exit_with_error\<close>).\<close>

definition resolve_cursor ::
    "string option \<Rightarrow> string option \<Rightarrow> (string \<Rightarrow> string option) \<Rightarrow> int + string \<times> bookmark option" where
  "resolve_cursor since_ulid bookmark files =
     (case resolve_since since_ulid bookmark files of
        Inl _ \<Rightarrow> Inl 2
      | Inr (None, _) \<Rightarrow> Inl 2
      | Inr (Some effective_since, cursor) \<Rightarrow>
          if \<not> REPLAY_ULID_RE effective_since then Inl 2 else Inr (effective_since, cursor))"

text \<open>How a call ends: an exit code, or an exception that nothing catches.\<close>

datatype replay_result = ReplayExit int | ReplayRaises sub_error | ReplayBadId coalesce_error | ReplayFrame frame_error | ReplayOpen

definition replay_exit_code :: "wait_outcome \<Rightarrow> int" where
  "replay_exit_code w = (if wo_cancelled w then 130 else if wo_framing_error w then 2 else 0)"

definition drain_and_print :: "await_end \<Rightarrow> replay_result" where
  "drain_and_print e =
     (case e of Returned w \<Rightarrow> ReplayExit (replay_exit_code w) | Raised x \<Rightarrow> ReplayRaises x | StillWaiting \<Rightarrow> ReplayOpen)"

definition stream_until_idle ::
    "(bytes \<Rightarrow> json option) \<Rightarrow> rat \<Rightarrow> arrival list \<Rightarrow> rat \<Rightarrow> bookmark option \<Rightarrow> replay_result \<times> dict list \<times> bookmark option" where
  "stream_until_idle loads timeout as now cursor =
     (case await_predicate loads (emit_predicate None) (Some timeout) True as now cursor ([], 0) of
        (e, st) \<Rightarrow> (drain_and_print e, fst (aw_caller st), aw_cursor st))"

definition emitted_frames :: "co_effect list \<Rightarrow> dict list" where
  "emitted_frames effs = List.map_filter (\<lambda>e. case e of Emit f \<Rightarrow> Some f | Advance _ \<Rightarrow> None) effs"

definition stream_coalesced ::
    "(bytes \<Rightarrow> json option) \<Rightarrow> rat \<Rightarrow> arrival list \<Rightarrow> rat \<Rightarrow> bookmark option \<Rightarrow> replay_result \<times> dict list \<times> bookmark option" where
  "stream_coalesced loads timeout as now cursor =
     (case coalesce_replay loads timeout False as now cursor of
        (CoalesceReturns e, effs, c) \<Rightarrow> (drain_and_print e, emitted_frames effs, c)
      | (CoalesceRaises x, effs, c) \<Rightarrow> (ReplayBadId x, emitted_frames effs, c))"

record replay_args =
  ra_since :: "string option"
  ra_filters :: "string list"
  ra_event_types :: "string list"
  ra_timeout :: rat
  ra_bookmark :: "string option"
  ra_coalesce :: bool

record replay_env =
  re_files :: "string \<Rightarrow> string option"
  re_dumps :: "json \<Rightarrow> bytes"
  re_loads :: "bytes \<Rightarrow> json option"
  re_connect :: connect_result
  re_arrivals :: "arrival list"
  re_now :: rat

definition replay_cmd :: "replay_env \<Rightarrow> replay_args \<Rightarrow> replay_result \<times> dict list \<times> bookmark option" where
  "replay_cmd env a =
     (case resolve_cursor (ra_since a) (ra_bookmark a) (re_files env) of
        Inl code \<Rightarrow> (ReplayExit code, [], None)
      | Inr (effective_since, cursor) \<Rightarrow>
          (case open_subscriber (re_dumps env) (\<lambda>_. None)
                  (Some (if ra_filters a \<noteq> [] then ra_filters a else [''*'']))
                  (if ra_event_types a \<noteq> [] then Some (ra_event_types a) else None) (Some effective_since) None (re_connect env) of
             Inl (OpenFrameTooLarge x) \<Rightarrow> (ReplayFrame x, [], cursor)
           | Inl _ \<Rightarrow> (ReplayExit 2, [], cursor)
           | Inr _ \<Rightarrow>
               (if ra_coalesce a then stream_coalesced else stream_until_idle)
                 (re_loads env) (ra_timeout a) (re_arrivals env) (re_now env) cursor))"

section \<open>The faithful replay\<close>

lemma run_emit:
  "run_decide (emit_predicate None) fs (out, k) = (replicate (length fs) CONTINUE, out @ fs, k + length fs)"
  by (induction fs arbitrary: out k) (simp_all add: emit_predicate_def)

text \<open>The item after which the faithful replay stops, and the exit code it gives.\<close>

definition replay_verdict :: "(bytes \<Rightarrow> json option) \<Rightarrow> read_item option \<Rightarrow> replay_result \<Rightarrow> bool" where
  "replay_verdict loads i e \<longleftrightarrow>
     (case i of
        None \<Rightarrow> e = ReplayExit 0
      | Some GotEof \<Rightarrow> e = ReplayExit 0
      | Some Interrupted \<Rightarrow> e = ReplayExit 130
      | Some GotBadFraming \<Rightarrow> e = ReplayExit 2
      | Some (GotPayload data) \<Rightarrow> (\<exists>x. classify loads data = Fatal x \<and> e = ReplayRaises x))"

text \<open>A faithful replay prints exactly the data frames of a prefix of what arrives, in order, moves the
  bookmark over exactly those, and its exit code tells why it stopped there: 0 when the stream went
  idle or closed, 130 on SIGINT, 2 on broken framing; a rejection of the subscription is raised.\<close>

theorem replay_prints_prefix:
  assumes "stream_until_idle loads timeout as now cursor = (e, out, c)"
  shows "\<exists>n \<le> length as. out = delivered_of loads (take n as) \<and> c = map_option (advance_all out) cursor
    \<and> (\<exists>stop. replay_verdict loads stop e
         \<and> (case stop of
              None \<Rightarrow> list_all (\<lambda>a. passes_over loads (ar_item a)) (take n as)
            | Some i \<Rightarrow> n > 0 \<and> ar_item (as ! (n - 1)) = i \<and> list_all (\<lambda>a. passes_over loads (ar_item a)) (take (n - 1) as)))"
proof -
  obtain r st where ap: "await_predicate loads (emit_predicate None) (Some timeout) True as now cursor ([], 0) = (r, st)" by fastforce
  obtain n where "await_trace loads (emit_predicate None) (Some timeout) as
     \<lparr>aw_now = now, aw_anchor = now, aw_cursor = cursor, aw_unread = as, aw_caller = ([], 0)\<rparr> n (r, st)"
    using await_predicate_trace[of loads "emit_predicate None" "Some timeout" as now cursor "([], 0)" True] unfolding ap by blast
  then have tr: "n \<le> length as" "aw_cursor st = map_option (advance_all (delivered_of loads (take n as))) cursor"
    "fst (aw_caller st) = delivered_of loads (take n as)" "r \<noteq> Returned OUTCOME_MATCHED"
    "if r = Returned OUTCOME_TIMED_OUT then list_all (\<lambda>a. passes_over loads (ar_item a)) (take n as)
     else n > 0 \<and> list_all (\<lambda>a. passes_over loads (ar_item a)) (take (n - 1) as) \<and> ends_on loads r (ar_item (as ! (n - 1)))"
    by (auto simp: await_trace_def run_emit open_ended_def Let_def split: if_splits)
  have e: "e = drain_and_print r" "out = delivered_of loads (take n as)" "c = aw_cursor st"
    using assms tr(3) by (auto simp: stream_until_idle_def ap)
  show ?thesis
  proof (cases "r = Returned OUTCOME_TIMED_OUT")
    case True
    then have "replay_verdict loads None e"
      by (simp add: replay_verdict_def e drain_and_print_def replay_exit_code_def OUTCOME_defs)
    then show ?thesis using tr True e by (intro exI[of _ n] conjI exI[of _ None]) auto
  next
    case False
    let ?i = "ar_item (as ! (n - 1))"
    have "replay_verdict loads (Some ?i) e"
      using tr(4,5) False
      by (auto simp: replay_verdict_def ends_on_def e drain_and_print_def replay_exit_code_def OUTCOME_defs
          split: read_item.splits verdict.splits)
    then show ?thesis using tr False e by (intro exI[of _ n] conjI exI[of _ "Some ?i"]) auto
  qed
qed

text \<open>One frame and then silence.\<close>

definition one_frame :: "bytes \<Rightarrow> json option" where
  "one_frame b = Some (JObj [(''kind'', JStr ''event''), (''event_id'', JStr ''A'')])"

lemma one_frame_run:
  "stream_until_idle one_frame 30 [\<lparr>ar_ready = 1, ar_done = 1, ar_item = GotPayload []\<rparr>] 0 None
     = (ReplayExit 0, [[(''kind'', JStr ''event''), (''event_id'', JStr ''A'')]], None)"
  by code_simp

theorem replay_prints_prefix_witness:
  "\<exists>n \<le> 1. [[(''kind'', JStr ''event''), (''event_id'', JStr ''A'')]]
     = delivered_of one_frame (take n [\<lparr>ar_ready = 1, ar_done = 1, ar_item = GotPayload []\<rparr>])"
  using replay_prints_prefix[OF one_frame_run] by auto

section \<open>Where it falls short\<close>

text \<open>The rejection of a subscription arrives as a frame, so it is raised by the engine, outside the
  handler around \<open>open_subscriber\<close>, and no exit code of the documented matrix is given.\<close>

lemma rejected_replay_raises:
  assumes "classify loads data = Fatal x" "0 < timeout"
  shows "fst (stream_until_idle loads timeout (\<lparr>ar_ready = now, ar_done = now, ar_item = GotPayload data\<rparr> # as) now cursor)
    = ReplayRaises x"
  using assms
  by (simp add: stream_until_idle_def await_predicate_def await_frame_classify drain_and_print_def)

text \<open>\<open>--coalesce\<close> returns after the snapshot whatever follows on the socket; its help text promises
  to \<open>switch to a faithful live tail\<close>.\<close>

lemma coalesce_has_no_tail:
  assumes "coalesce_replay loads timeout True as now cursor = (CoalesceReturns e, effs, c)"
    "stream_coalesced loads timeout as now cursor = (r, out, c')"
    "fst (await_predicate loads accumulate (Some timeout) True as now None (Inr ([], []))) = Returned OUTCOME_TIMED_OUT"
  shows "\<exists>later. emitted_frames effs = out @ later \<and> r = ReplayExit 0"
  using assms
  by (auto simp: stream_coalesced_def coalesce_replay_def drain_and_print_def replay_exit_code_def OUTCOME_defs Let_def
      emitted_frames_def List.map_filter_def split: prod.splits sum.splits)

end
