(* ===== verification/Spec2Isabelle.thy ===== *)
theory Spec2Isabelle
  imports WB_Listener WB_Untrusted WB_Ulid WB_BroadcastProps WB_Session WB_WaitProps WB_RegistryProps
    WB_SqlProps WB_MigrateProps WB_MessagingProps WB_OnProps WB_EtagPollProps
    WB_McpSubProps WB_McpToolsProps WB_FsWatch WB_DockerWatch WB_Watchdog WB_PrMonitor WB_Replay
begin

text \<open>
  The waitbus event bus.
\<close>

end
